(* ===== verification/MTL_Prelude.thy ===== *)
theory MTL_Prelude
  imports Main "HOL-Library.Word" "HOL-Library.Monad_Syntax"
begin

text \<open>
  Shared vocabulary of the development: the C integer types, the errno values the library
  returns, the wrap-around conversions of C, and the bit-level lemmas that let the
  simplifier decide equations between words built from shifts, masks and byte swaps.
\<close>

unbundle bit_operations_syntax

section \<open>Machine types\<close>

type_synonym u8 = "8 word"
type_synonym u16 = "16 word"
type_synonym u32 = "32 word"
type_synonym u64 = "64 word"
type_synonym u128 = "128 word"

text \<open>
  Error returns. A C function that returns a negative errno returns \<open>Inl e\<close> here, and
  \<open>Inr\<close> of its result (or of the new state) otherwise.
\<close>

datatype errno = EIO | EINVAL | ENOMEM | EBUSY | ENOSPC | ENOTSUP | EAGAIN | ETIMEDOUT

type_synonym 'a res = "errno + 'a"

text \<open>\<open>NS_PER_S\<close> of \<^verbatim>\<open>lib/src/mt_main.h\<close>, nanoseconds in a second.\<close>

abbreviation NS_PER_S :: nat where
  "NS_PER_S \<equiv> 1000000000"

section \<open>Bits of words\<close>

named_theorems bit_blast \<open>rules that reduce an equation of words to its bits\<close>

lemma bit_word_out: "LENGTH('a) \<le> n \<Longrightarrow> \<not> bit (w :: 'a::len word) n"
  using bit_imp_le_length linorder_not_less by blast

lemma bit_u6_out [bit_blast]: "6 \<le> n \<Longrightarrow> \<not> bit (w :: 6 word) n"
  using bit_word_out [of n w] by simp

lemma bit_u4_out [bit_blast]: "4 \<le> n \<Longrightarrow> \<not> bit (w :: 4 word) n"
  using bit_word_out [of n w] by simp

lemma bit_u2_out [bit_blast]: "2 \<le> n \<Longrightarrow> \<not> bit (w :: 2 word) n"
  using bit_word_out [of n w] by simp

lemma bit_u8_out [bit_blast]: "8 \<le> n \<Longrightarrow> \<not> bit (w :: u8) n"
  using bit_word_out [of n w] by simp

lemma bit_u16_out [bit_blast]: "16 \<le> n \<Longrightarrow> \<not> bit (w :: u16) n"
  using bit_word_out [of n w] by simp

lemma bit_u32_out [bit_blast]: "32 \<le> n \<Longrightarrow> \<not> bit (w :: u32) n"
  using bit_word_out [of n w] by simp

lemma word_eq_bits_upt:
  "(a :: 'a::len word) = b \<longleftrightarrow> list_all (\<lambda>n. bit a n = bit b n) [0..<LENGTH('a)]"
  by (auto simp: list_all_iff intro: bit_word_eqI)

lemma word4_eq_bits [bit_blast]:
  "(a :: 4 word) = b \<longleftrightarrow> list_all (\<lambda>n. bit a n = bit b n) [0, 1, 2, 3]"
  using word_eq_bits_upt [of a b] by (simp add: upt_rec numeral_eq_Suc)

lemma word8_eq_bits [bit_blast]:
  "(a :: u8) = b \<longleftrightarrow> list_all (\<lambda>n. bit a n = bit b n) [0, 1, 2, 3, 4, 5, 6, 7]"
  using word_eq_bits_upt [of a b] by (simp add: upt_rec numeral_eq_Suc)

lemma word16_eq_bits [bit_blast]:
  "(a :: u16) = b \<longleftrightarrow> list_all (\<lambda>n. bit a n = bit b n)
     [0, 1, 2, 3, 4, 5, 6, 7, 8, 9, 10, 11, 12, 13, 14, 15]"
  using word_eq_bits_upt [of a b] by (simp add: upt_rec numeral_eq_Suc)

lemma word32_eq_bits [bit_blast]:
  "(a :: u32) = b \<longleftrightarrow> list_all (\<lambda>n. bit a n = bit b n)
     [0, 1, 2, 3, 4, 5, 6, 7, 8, 9, 10, 11, 12, 13, 14, 15,
      16, 17, 18, 19, 20, 21, 22, 23, 24, 25, 26, 27, 28, 29, 30, 31]"
  using word_eq_bits_upt [of a b] by (simp add: upt_rec numeral_eq_Suc)

declare bit_simps [bit_blast]

text \<open>The indices 2 and 3, which the simplifier may leave in successor form.\<close>

lemmas small_idx = numeral_2_eq_2 numeral_3_eq_3

section \<open>Words as numbers\<close>

lemma unat_of_nat_small: "n < 2 ^ LENGTH('a) \<Longrightarrow> unat (of_nat n :: 'a::len word) = n"
  by (simp add: unat_of_nat take_bit_nat_eq_self)

lemma unat_add_small:
  "unat a + unat b < 2 ^ LENGTH('a) \<Longrightarrow> unat (a + b :: 'a::len word) = unat a + unat b"
  by (simp add: unat_word_ariths)

lemma unat_mult_small:
  "unat a * unat b < 2 ^ LENGTH('a) \<Longrightarrow> unat (a * b :: 'a::len word) = unat a * unat b"
  by (simp add: unat_word_ariths)

text \<open>Widening keeps the value.\<close>

lemma unat_ucast_up: "LENGTH('a::len) \<le> LENGTH('b::len) \<Longrightarrow> unat (ucast (w :: 'a word) :: 'b word) = unat w"
proof -
  assume "LENGTH('a) \<le> LENGTH('b)"
  then have "(2 :: nat) ^ LENGTH('a) \<le> 2 ^ LENGTH('b)" by (intro power_increasing) auto
  moreover have "unat w < 2 ^ LENGTH('a)" by (rule unsigned_less)
  ultimately have "unat w < 2 ^ LENGTH('b)" by linarith
  then show ?thesis by (simp add: unsigned_ucast_eq take_bit_nat_eq_self)
qed

lemmas unat_ucast_u8_u16 [simp] = unat_ucast_up [where ?'a = 8 and ?'b = 16, simplified]
lemmas unat_ucast_u8_u32 [simp] = unat_ucast_up [where ?'a = 8 and ?'b = 32, simplified]
lemmas unat_ucast_u16_u32 [simp] = unat_ucast_up [where ?'a = 16 and ?'b = 32, simplified]
lemmas unat_ucast_u32_u64 [simp] = unat_ucast_up [where ?'a = 32 and ?'b = 64, simplified]

lemma unat_u64_lt: "unat (x :: u64) < 18446744073709551616"
  using unsigned_less [of x, where ?'a = nat] by simp

lemma unat_u32_lt: "unat (x :: u32) < 4294967296"
  using unsigned_less [of x, where ?'a = nat] by simp

lemma unat_ucast_128 [simp]: "unat (ucast (x :: u64) :: u128) = unat x" "unat (ucast (y :: u32) :: u128) = unat y"
  by (simp_all add: unat_ucast_up)

section \<open>Byte order\<close>

text \<open>
  The model is of a little-endian host (\<open>MTL_LITTLE_ENDIAN\<close>): \<open>htons\<close>, \<open>ntohs\<close>,
  \<open>htonl\<close> and \<open>ntohl\<close> swap the bytes of the value.
\<close>

definition bswap16 :: "u16 \<Rightarrow> u16" where
  "bswap16 w = push_bit 8 w OR drop_bit 8 w"

definition bswap32 :: "u32 \<Rightarrow> u32" where
  "bswap32 w = push_bit 24 w OR (push_bit 8 w AND 0xFF0000) OR (drop_bit 8 w AND 0xFF00) OR
     drop_bit 24 w"

text \<open>The four bytes a little-endian host stores for a 32-bit value, lowest address first.\<close>

definition le_bytes32 :: "u32 \<Rightarrow> u8 list" where
  "le_bytes32 w = [ucast w, ucast (drop_bit 8 w), ucast (drop_bit 16 w), ucast (drop_bit 24 w)]"

definition le_word32 :: "u8 \<Rightarrow> u8 \<Rightarrow> u8 \<Rightarrow> u8 \<Rightarrow> u32" where
  "le_word32 b0 b1 b2 b3 = ucast b0 OR push_bit 8 (ucast b1) OR push_bit 16 (ucast b2) OR
     push_bit 24 (ucast b3)"

lemma bswap16_invol [simp]: "bswap16 (bswap16 w) = w"
  by (simp add: bswap16_def bit_blast)

lemma bswap32_invol [simp]: "bswap32 (bswap32 w) = w"
  by (simp add: bswap32_def bit_blast)

lemma length_le_bytes32 [simp]: "length (le_bytes32 w) = 4"
  by (simp add: le_bytes32_def)

lemma le_word32_bytes [simp]:
  "le_word32 (ucast w) (ucast (drop_bit 8 w)) (ucast (drop_bit 16 w)) (ucast (drop_bit 24 w)) = w"
  by (simp add: le_word32_def bit_blast)

section \<open>Lists\<close>

lemma nth_take_drop: "i < n \<Longrightarrow> m + n \<le> length xs \<Longrightarrow> take n (drop m xs) ! i = xs ! (m + i)"
  by simp

lemma list_update_neq_nth [simp]: "i \<noteq> j \<Longrightarrow> xs[i := x] ! j = xs ! j"
  by simp

text \<open>Small 32-bit values read back as they are.\<close>

lemma uint_small: "0 \<le> k \<Longrightarrow> k < 2 ^ 31 \<Longrightarrow> uint (word_of_int k :: u32) = k"
  by (simp add: uint_word_of_int)

lemma unat_small: "0 \<le> k \<Longrightarrow> k < 2 ^ 31 \<Longrightarrow> unat (word_of_int k :: u32) = nat k"
  by (simp add: unat_eq_nat_uint uint_small)

lemma sint_small: "0 \<le> k \<Longrightarrow> k < 2 ^ 31 \<Longrightarrow> sint (word_of_int k :: u32) = k"
  by (simp add: signed_take_bit_int_eq_self sint_sbintrunc')

end
