(* ===== verification/Bitmap.thy ===== *)
theory Bitmap
  imports MTL_Prelude
begin

text \<open>
  The byte bitmap of \<^verbatim>\<open>lib/src/mt_util.c\<close> (\<open>mt_bitmap_test\<close>,
  \<open>mt_bitmap_test_and_set\<close>, \<open>mt_bitmap_test_and_unset\<close>), which the RX sessions and the RTCP
  receiver use to remember which packets of a window arrived. A bitmap pointer is a byte
  list or \<open>None\<close> for NULL; \<open>size\<close> is the byte count the caller passes and \<open>idx\<close> a C int.
  The interface locale \<open>index_set\<close> states what the clients rely on: the bitmap behaves as a
  set of the indices in its range, and an index outside the range changes nothing.
\<close>

section \<open>The operations\<close>

definition bitmap_idx_valid :: "u8 list option \<Rightarrow> nat \<Rightarrow> int \<Rightarrow> bool" where
  "bitmap_idx_valid bitmap sz idx =
     (if bitmap = None then False
      else if idx < 0 \<or> idx div 8 \<ge> int sz then False
      else True)"

definition mt_bitmap_test :: "u8 list option \<Rightarrow> nat \<Rightarrow> int \<Rightarrow> bool" where
  "mt_bitmap_test bitmap sz idx =
     (if \<not> bitmap_idx_valid bitmap sz idx then False
      else
        let pos = nat (idx div 8); off = nat (idx mod 8); bits = the bitmap ! pos
        in bits AND push_bit off 1 \<noteq> 0)"

text \<open>The result is the return value and the bitmap after the call.\<close>

definition mt_bitmap_test_and_set :: "u8 list option \<Rightarrow> nat \<Rightarrow> int \<Rightarrow> bool \<times> u8 list option" where
  "mt_bitmap_test_and_set bitmap sz idx =
     (if \<not> bitmap_idx_valid bitmap sz idx then (True, bitmap)
      else
        let pos = nat (idx div 8); off = nat (idx mod 8); bits = the bitmap ! pos
        in if bits AND push_bit off 1 \<noteq> 0 then (True, bitmap)
           else (False, Some ((the bitmap)[pos := bits OR push_bit off 1])))"

definition mt_bitmap_test_and_unset :: "u8 list option \<Rightarrow> nat \<Rightarrow> int \<Rightarrow> bool \<times> u8 list option" where
  "mt_bitmap_test_and_unset bitmap sz idx =
     (if \<not> bitmap_idx_valid bitmap sz idx then (True, bitmap)
      else
        let pos = nat (idx div 8); off = nat (idx mod 8); bits = the bitmap ! pos
        in if bits AND push_bit off 1 = 0 then (True, bitmap)
           else (False, Some ((the bitmap)[pos := bits AND (0xFF XOR push_bit off 1)])))"

section \<open>The set a bitmap stands for\<close>

definition bitmap_wf :: "u8 list option \<Rightarrow> nat \<Rightarrow> bool" where
  "bitmap_wf bitmap sz \<longleftrightarrow> (\<exists>bm. bitmap = Some bm \<and> length bm = sz)"

definition bitmap_members :: "u8 list option \<Rightarrow> nat \<Rightarrow> int set" where
  "bitmap_members bitmap sz =
     {i. 0 \<le> i \<and> i < 8 * int sz \<and> bit (the bitmap ! nat (i div 8)) (nat (i mod 8))}"

lemma bitmap_idx_valid_iff:
  "bitmap_idx_valid bitmap sz idx \<longleftrightarrow> bitmap \<noteq> None \<and> 0 \<le> idx \<and> idx < 8 * int sz"
  by (auto simp: bitmap_idx_valid_def)

lemma bitmap_test_iff:
  "bitmap_wf bm sz \<Longrightarrow> mt_bitmap_test bm sz i \<longleftrightarrow> i \<in> bitmap_members bm sz"
  by (auto simp: mt_bitmap_test_def bitmap_members_def bitmap_idx_valid_iff bitmap_wf_def
      and_exp_eq_0_iff_not_bit Let_def)

lemma bit_or_push_1: "k < 8 \<Longrightarrow> bit ((w :: u8) OR 2 ^ k) n \<longleftrightarrow> bit w n \<or> n = k"
  by (auto simp: bit_simps)

lemma bit_and_clear_1:
  assumes "k < 8"
  shows "bit ((w :: u8) AND (0xFF XOR 2 ^ k)) n \<longleftrightarrow> bit w n \<and> n \<noteq> k"
proof (cases "n < 8")
  case True
  have all_ones: "(0xFF :: u8) = mask 8"
    by (simp add: mask_eq_exp_minus_1)
  from True assms show ?thesis
    unfolding all_ones by (auto simp: bit_simps)
next
  case False
  then show ?thesis by (simp add: bit_simps bit_u8_out)
qed

lemma byte_index_eq_iff:
  assumes "0 \<le> (i::int)" and "0 \<le> j"
  shows "nat (i div 8) = nat (j div 8) \<and> nat (i mod 8) = nat (j mod 8) \<longleftrightarrow> i = j"
proof
  assume h: "nat (i div 8) = nat (j div 8) \<and> nat (i mod 8) = nat (j mod 8)"
  have "0 \<le> i div 8" "0 \<le> j div 8" "0 \<le> i mod 8" "0 \<le> j mod 8"
    using assms by (simp_all add: pos_imp_zdiv_nonneg_iff)
  with h have "i div 8 = j div 8" "i mod 8 = j mod 8"
    by (metis nat_eq_iff2)+
  then show "i = j" by (metis mult_div_mod_eq)
qed simp

lemma bit_update_iff:
  assumes "0 \<le> i" and "0 \<le> j" and "i < 8 * int (length bs)"
    and "\<And>n. bit b' n \<longleftrightarrow> (if n = nat (i mod 8) then v else bit (bs ! nat (i div 8)) n)"
  shows "bit (bs[nat (i div 8) := b'] ! nat (j div 8)) (nat (j mod 8)) \<longleftrightarrow>
    (if j = i then v else bit (bs ! nat (j div 8)) (nat (j mod 8)))"
proof -
  have "nat (i div 8) < length bs"
    using assms(1,3) by (auto simp: nat_less_iff)
  then show ?thesis
    using byte_index_eq_iff [OF assms(1,2)] assms(4)
    by (auto simp: nth_list_update)
qed

lemma bitmap_set_members:
  assumes wf: "bitmap_wf bm sz" and "0 \<le> i" and "i < 8 * int sz"
  shows "fst (mt_bitmap_test_and_set bm sz i) \<longleftrightarrow> i \<in> bitmap_members bm sz"
    and "bitmap_members (snd (mt_bitmap_test_and_set bm sz i)) sz =
           insert i (bitmap_members bm sz)"
    and "bitmap_wf (snd (mt_bitmap_test_and_set bm sz i)) sz"
proof -
  from wf obtain bs where bs: "bm = Some bs" "length bs = sz"
    by (auto simp: bitmap_wf_def)
  have off: "nat (i mod 8) < 8" by (simp add: nat_less_iff)
  show "fst (mt_bitmap_test_and_set bm sz i) \<longleftrightarrow> i \<in> bitmap_members bm sz"
    using assms(2,3) bs
    by (simp add: mt_bitmap_test_and_set_def bitmap_idx_valid_iff bitmap_members_def
        and_exp_eq_0_iff_not_bit Let_def)
  show "bitmap_wf (snd (mt_bitmap_test_and_set bm sz i)) sz"
    using bs by (simp add: mt_bitmap_test_and_set_def bitmap_wf_def Let_def)
  have upd: "bit (bs[nat (i div 8) := bs ! nat (i div 8) OR push_bit (nat (i mod 8)) 1]
      ! nat (j div 8)) (nat (j mod 8)) \<longleftrightarrow>
      (if j = i then True else bit (bs ! nat (j div 8)) (nat (j mod 8)))" if "0 \<le> j" for j
    by (rule bit_update_iff) (use that assms(2,3) bs off in \<open>auto simp: bit_or_push_1\<close>)
  show "bitmap_members (snd (mt_bitmap_test_and_set bm sz i)) sz =
           insert i (bitmap_members bm sz)"
    using assms(2,3) bs upd off
    by (auto simp: mt_bitmap_test_and_set_def bitmap_idx_valid_iff bitmap_members_def
        and_exp_eq_0_iff_not_bit bit_or_push_1 Let_def split: if_splits)
qed

lemma bitmap_unset_members:
  assumes wf: "bitmap_wf bm sz" and "0 \<le> i" and "i < 8 * int sz"
  shows "fst (mt_bitmap_test_and_unset bm sz i) \<longleftrightarrow> i \<notin> bitmap_members bm sz"
    and "bitmap_members (snd (mt_bitmap_test_and_unset bm sz i)) sz =
           bitmap_members bm sz - {i}"
    and "bitmap_wf (snd (mt_bitmap_test_and_unset bm sz i)) sz"
proof -
  from wf obtain bs where bs: "bm = Some bs" "length bs = sz"
    by (auto simp: bitmap_wf_def)
  have off: "nat (i mod 8) < 8" by (simp add: nat_less_iff)
  show "fst (mt_bitmap_test_and_unset bm sz i) \<longleftrightarrow> i \<notin> bitmap_members bm sz"
    using assms(2,3) bs
    by (simp add: mt_bitmap_test_and_unset_def bitmap_idx_valid_iff bitmap_members_def
        and_exp_eq_0_iff_not_bit Let_def)
  show "bitmap_wf (snd (mt_bitmap_test_and_unset bm sz i)) sz"
    using bs by (simp add: mt_bitmap_test_and_unset_def bitmap_wf_def Let_def)
  have upd: "bit (bs[nat (i div 8) := bs ! nat (i div 8) AND (0xFF XOR push_bit (nat (i mod 8)) 1)]
      ! nat (j div 8)) (nat (j mod 8)) \<longleftrightarrow>
      (if j = i then False else bit (bs ! nat (j div 8)) (nat (j mod 8)))" if "0 \<le> j" for j
    by (rule bit_update_iff) (use that assms(2,3) bs off in \<open>auto simp: bit_and_clear_1\<close>)
  show "bitmap_members (snd (mt_bitmap_test_and_unset bm sz i)) sz =
           bitmap_members bm sz - {i}"
    using assms(2,3) bs upd off
    by (auto simp: mt_bitmap_test_and_unset_def bitmap_idx_valid_iff bitmap_members_def
        and_exp_eq_0_iff_not_bit bit_and_clear_1 Let_def split: if_splits)
qed

lemma bitmap_out_of_range:
  assumes "\<not> bitmap_idx_valid bm sz i"
  shows "mt_bitmap_test bm sz i = False"
    and "mt_bitmap_test_and_set bm sz i = (True, bm)"
    and "mt_bitmap_test_and_unset bm sz i = (True, bm)"
  using assms
  by (simp_all add: mt_bitmap_test_def mt_bitmap_test_and_set_def mt_bitmap_test_and_unset_def)

section \<open>The interface of a window of indices\<close>

locale index_set =
  fixes wf :: "'s \<Rightarrow> bool"
    and in_range :: "int \<Rightarrow> bool"
    and members :: "'s \<Rightarrow> int set"
    and test :: "'s \<Rightarrow> int \<Rightarrow> bool"
    and test_and_set :: "'s \<Rightarrow> int \<Rightarrow> bool \<times> 's"
    and test_and_unset :: "'s \<Rightarrow> int \<Rightarrow> bool \<times> 's"
  assumes test_law: "wf s \<Longrightarrow> in_range i \<Longrightarrow> test s i \<longleftrightarrow> i \<in> members s"
    and set_ret: "wf s \<Longrightarrow> in_range i \<Longrightarrow> fst (test_and_set s i) \<longleftrightarrow> i \<in> members s"
    and set_members: "wf s \<Longrightarrow> in_range i \<Longrightarrow> members (snd (test_and_set s i)) = insert i (members s)"
    and set_wf: "wf s \<Longrightarrow> wf (snd (test_and_set s i))"
    and unset_ret: "wf s \<Longrightarrow> in_range i \<Longrightarrow> fst (test_and_unset s i) \<longleftrightarrow> i \<notin> members s"
    and unset_members: "wf s \<Longrightarrow> in_range i \<Longrightarrow> members (snd (test_and_unset s i)) = members s - {i}"
    and unset_wf: "wf s \<Longrightarrow> wf (snd (test_and_unset s i))"
    and set_out: "wf s \<Longrightarrow> \<not> in_range i \<Longrightarrow> test_and_set s i = (True, s)"
    and unset_out: "wf s \<Longrightarrow> \<not> in_range i \<Longrightarrow> test_and_unset s i = (True, s)"
begin

text \<open>A duplicate is recognised: the second arrival of an index reports it as set.\<close>

lemma set_twice:
  assumes "wf s" and "in_range i"
  shows "fst (test_and_set (snd (test_and_set s i)) i)"
  using assms by (simp add: set_ret set_members set_wf)

text \<open>Setting a list of indices, as a receiver does packet by packet.\<close>

lemma set_all:
  assumes "wf s"
  shows "wf (fold (\<lambda>i s. snd (test_and_set s i)) is s) \<and>
    members (fold (\<lambda>i s. snd (test_and_set s i)) is s) = members s \<union> {i \<in> set is. in_range i}"
  using assms
proof (induction "is" arbitrary: s)
  case (Cons i "is")
  show ?case
  proof (cases "in_range i")
    case True
    with Cons show ?thesis by (auto simp: set_members set_wf)
  next
    case False
    with Cons show ?thesis by (auto simp: set_out)
  qed
qed simp

lemma unset_all:
  assumes "wf s"
  shows "wf (fold (\<lambda>i s. snd (test_and_unset s i)) is s) \<and>
    members (fold (\<lambda>i s. snd (test_and_unset s i)) is s) = members s - {i \<in> set is. in_range i}"
  using assms
proof (induction "is" arbitrary: s)
  case (Cons i "is")
  show ?case
  proof (cases "in_range i")
    case True
    with Cons show ?thesis by (auto simp: unset_members unset_wf)
  next
    case False
    with Cons show ?thesis by (auto simp: unset_out)
  qed
qed simp

text \<open>Setting and clearing the same index, when it was clear before, restores the set.\<close>

lemma set_then_unset:
  assumes "wf s" and "in_range i" and "\<not> fst (test_and_set s i)"
  shows "members (snd (test_and_unset (snd (test_and_set s i)) i)) = members s"
  using assms by (auto simp: set_members set_ret set_wf unset_members)

end

interpretation bitmap: index_set "\<lambda>bm. bitmap_wf bm sz" "\<lambda>i. 0 \<le> i \<and> i < 8 * int sz"
  "\<lambda>bm. bitmap_members bm sz" "\<lambda>bm. mt_bitmap_test bm sz"
  "\<lambda>bm. mt_bitmap_test_and_set bm sz" "\<lambda>bm. mt_bitmap_test_and_unset bm sz" for sz
proof (unfold_locales, goal_cases)
  case (4 s i)
  then show ?case
    by (cases "0 \<le> i \<and> i < 8 * int sz")
      (auto simp: bitmap_set_members bitmap_out_of_range bitmap_idx_valid_iff)
next
  case (7 s i)
  then show ?case
    by (cases "0 \<le> i \<and> i < 8 * int sz")
      (auto simp: bitmap_unset_members bitmap_out_of_range bitmap_idx_valid_iff)
qed (auto simp: bitmap_test_iff bitmap_set_members bitmap_unset_members bitmap_out_of_range
    bitmap_idx_valid_iff)

section \<open>Properties\<close>

text \<open>C27. The bitmap is a set of packet indices: after any sequence of arrivals is recorded with
  \<open>mt_bitmap_test_and_set\<close> in a well-formed bitmap of \<open>size\<close> bytes, \<open>mt_bitmap_test\<close> of an
  index answers whether the index is in range and was recorded before or in the sequence.
  Indices out of range (negative or past the last bit) are ignored.\<close>

theorem bitmap_records_arrivals:
  assumes "bitmap_wf bm sz"
  shows "mt_bitmap_test (fold (\<lambda>i b. snd (mt_bitmap_test_and_set b sz i)) is bm) sz j \<longleftrightarrow>
    0 \<le> j \<and> j < 8 * int sz \<and> (mt_bitmap_test bm sz j \<or> j \<in> set is)"
proof -
  let ?b = "fold (\<lambda>i b. snd (mt_bitmap_test_and_set b sz i)) is bm"
  have "bitmap_wf ?b sz" "bitmap_members ?b sz =
      bitmap_members bm sz \<union> {i \<in> set is. 0 \<le> i \<and> i < 8 * int sz}"
    using bitmap.set_all [OF assms] by auto
  with assms show ?thesis
    by (auto simp: bitmap_test_iff) (auto simp: bitmap_members_def)
qed

theorem bitmap_records_arrivals_witness:
  "bitmap_wf (Some [0, 0]) 2 \<and>
   mt_bitmap_test (fold (\<lambda>i b. snd (mt_bitmap_test_and_set b 2 i)) [3, 15, 16, -1] (Some [0, 0])) 2 15"
proof -
  have wf: "bitmap_wf (Some [0, 0]) 2" by (simp add: bitmap_wf_def)
  then show ?thesis by (simp only: bitmap_records_arrivals) simp
qed

end
