(* ===== verification/U64_Fifo.thy ===== *)
theory U64_Fifo
  imports MTL_Prelude
begin

text \<open>
  The ring buffer \<open>struct mt_u64_fifo\<close> of \<^verbatim>\<open>lib/src/mt_util.c\<close> and \<^verbatim>\<open>mt_util.h\<close> and its
  client \<open>struct mt_cvt_dma_ctx\<close>. The state is the record of the C struct. The C ints are
  \<open>int\<close>; where the code mixes an int with a \<open>uint32_t\<close> the comparison is done on 32-bit
  words, as C converts it. The abstract queue is the list of the stored items from the read
  index on. The interface locale \<open>bounded_fifo\<close> is what the clients (the DMA context here, the
  RTCP transmitter in \<^verbatim>\<open>mt_rtcp.c\<close>) rely on.
\<close>

section \<open>The ring\<close>

record mt_u64_fifo =
  data :: "u64 list"
  write_idx :: int
  read_idx :: int
  size_f :: int
  used :: int

text \<open>
  \<open>alloc n\<close> tells whether the zeroing allocator grants \<open>n\<close> bytes. The struct takes 24 bytes, and
  the byte count of the item array is computed in \<open>size_t\<close>, so a negative size asks for an
  enormous block.
\<close>

definition mt_u64_fifo_init :: "(u64 \<Rightarrow> bool) \<Rightarrow> int \<Rightarrow> mt_u64_fifo option" where
  "mt_u64_fifo_init alloc sz =
     (if \<not> alloc 24 then None
      else if \<not> alloc (8 * word_of_int sz) then None
      else Some \<lparr>data = replicate (nat sz) 0, write_idx = 0, read_idx = 0, size_f = sz, used = 0\<rparr>)"

definition mt_u64_fifo_uinit :: "mt_u64_fifo \<Rightarrow> unit res" where
  "mt_u64_fifo_uinit fifo = (if used fifo > 0 then Inl EIO else Inr ())"

definition mt_u64_fifo_full :: "mt_u64_fifo \<Rightarrow> bool" where
  "mt_u64_fifo_full fifo \<longleftrightarrow> used fifo = size_f fifo"

definition mt_u64_fifo_count :: "mt_u64_fifo \<Rightarrow> int" where
  "mt_u64_fifo_count fifo = used fifo"

definition mt_u64_fifo_free_count :: "mt_u64_fifo \<Rightarrow> int" where
  "mt_u64_fifo_free_count fifo = size_f fifo - used fifo"

text \<open>Storing an item at the write index and stepping the index, the body \<open>put\<close> and
  \<open>put_bulk\<close> share; the same for a read.\<close>

definition fifo_store :: "u64 \<Rightarrow> mt_u64_fifo \<Rightarrow> mt_u64_fifo" where
  "fifo_store item fifo =
     (let fifo1 = fifo\<lparr>data := (data fifo)[nat (write_idx fifo) := item],
                       write_idx := write_idx fifo + 1\<rparr>
      in if write_idx fifo1 \<ge> size_f fifo1 then fifo1\<lparr>write_idx := 0\<rparr> else fifo1)"

definition fifo_fetch :: "mt_u64_fifo \<Rightarrow> u64 \<times> mt_u64_fifo" where
  "fifo_fetch fifo =
     (let item = data fifo ! nat (read_idx fifo);
          fifo1 = fifo\<lparr>read_idx := read_idx fifo + 1\<rparr>
      in (item, if read_idx fifo1 \<ge> size_f fifo1 then fifo1\<lparr>read_idx := 0\<rparr> else fifo1))"

definition mt_u64_fifo_put :: "mt_u64_fifo \<Rightarrow> u64 \<Rightarrow> mt_u64_fifo res" where
  "mt_u64_fifo_put fifo item =
     (if used fifo \<ge> size_f fifo then Inl EIO
      else let fifo1 = fifo_store item fifo in Inr (fifo1\<lparr>used := used fifo1 + 1\<rparr>))"

definition mt_u64_fifo_get :: "mt_u64_fifo \<Rightarrow> (u64 \<times> mt_u64_fifo) res" where
  "mt_u64_fifo_get fifo =
     (if used fifo \<le> 0 then Inl EIO
      else let (item, fifo1) = fifo_fetch fifo in Inr (item, fifo1\<lparr>used := used fifo1 - 1\<rparr>))"

definition mt_u64_fifo_put_bulk :: "mt_u64_fifo \<Rightarrow> u64 list \<Rightarrow> u32 \<Rightarrow> mt_u64_fifo res" where
  "mt_u64_fifo_put_bulk fifo items n =
     (if (word_of_int (used fifo) :: u32) + n > word_of_int (size_f fifo) then Inl EIO
      else let fifo1 = fold fifo_store (take (unat n) items) fifo
           in Inr (fifo1\<lparr>used := sint (word_of_int (used fifo1) + n)\<rparr>))"

fun fifo_fetch_n :: "nat \<Rightarrow> mt_u64_fifo \<Rightarrow> u64 list \<times> mt_u64_fifo" where
  "fifo_fetch_n 0 fifo = ([], fifo)"
| "fifo_fetch_n (Suc n) fifo =
     (let (item, fifo1) = fifo_fetch fifo; (items, fifo2) = fifo_fetch_n n fifo1
      in (item # items, fifo2))"

definition mt_u64_fifo_get_bulk :: "mt_u64_fifo \<Rightarrow> u32 \<Rightarrow> (u64 list \<times> mt_u64_fifo) res" where
  "mt_u64_fifo_get_bulk fifo n =
     (if (word_of_int (used fifo) :: u32) < n then Inl EIO
      else let (items, fifo1) = fifo_fetch_n (unat n) fifo
           in Inr (items, fifo1\<lparr>used := sint (word_of_int (used fifo1) - n)\<rparr>))"

definition mt_u64_fifo_read_back :: "mt_u64_fifo \<Rightarrow> u64 res" where
  "mt_u64_fifo_read_back fifo =
     (if used fifo \<le> 0 then Inl EIO
      else
        let idx = write_idx fifo - 1; idx = (if idx < 0 then size_f fifo - 1 else idx)
        in Inr (data fifo ! nat idx))"

definition mt_u64_fifo_read_front :: "mt_u64_fifo \<Rightarrow> u64 res" where
  "mt_u64_fifo_read_front fifo =
     (if used fifo \<le> 0 then Inl EIO else Inr (data fifo ! nat (read_idx fifo)))"

definition mt_u64_fifo_read_any :: "mt_u64_fifo \<Rightarrow> int \<Rightarrow> u64 res" where
  "mt_u64_fifo_read_any fifo skip =
     (if used fifo \<le> 0 then Inl EIO
      else if skip < 0 \<or> skip \<ge> used fifo then Inl EIO
      else
        let ri = read_idx fifo + skip; ri = (if ri \<ge> size_f fifo then ri - size_f fifo else ri)
        in Inr (data fifo ! nat ri))"

text \<open>The copy loop of \<open>mt_u64_fifo_read_any_bulk\<close>, from a local read index.\<close>

fun fifo_peek_n :: "nat \<Rightarrow> mt_u64_fifo \<Rightarrow> int \<Rightarrow> u64 list" where
  "fifo_peek_n 0 fifo ri = []"
| "fifo_peek_n (Suc n) fifo ri =
     data fifo ! nat ri # fifo_peek_n n fifo (if ri + 1 \<ge> size_f fifo then 0 else ri + 1)"

definition mt_u64_fifo_read_any_bulk :: "mt_u64_fifo \<Rightarrow> u32 \<Rightarrow> int \<Rightarrow> u64 list res" where
  "mt_u64_fifo_read_any_bulk fifo n skip =
     (if (word_of_int (used fifo) :: u32) < n then Inl EIO
      else if skip < 0 \<or> (word_of_int skip :: u32) + n > word_of_int (used fifo) then Inl EIO
      else
        let ri = read_idx fifo + skip; ri = (if ri \<ge> size_f fifo then ri - size_f fifo else ri)
        in Inr (fifo_peek_n (unat n) fifo ri))"

text \<open>\<open>mt_fifo_mbuf_clean\<close> drains the ring; the model returns the freed items in order.\<close>

function mt_fifo_mbuf_clean :: "mt_u64_fifo \<Rightarrow> u64 list \<times> mt_u64_fifo" where
  "mt_fifo_mbuf_clean fifo =
     (if mt_u64_fifo_count fifo > 0
      then case mt_u64_fifo_get fifo of
             Inl e \<Rightarrow> ([], fifo)
           | Inr (mbuf, fifo1) \<Rightarrow>
               (let (freed, fifo2) = mt_fifo_mbuf_clean fifo1 in (mbuf # freed, fifo2))
      else ([], fifo))"
  by pat_completeness auto
termination
  by (relation "measure (\<lambda>f. nat (used f))")
    (auto simp: mt_u64_fifo_get_def fifo_fetch_def mt_u64_fifo_count_def Let_def split: if_splits)

declare mt_fifo_mbuf_clean.simps [simp del]

section \<open>Invariant and abstract queue\<close>

definition fifo_wf :: "mt_u64_fifo \<Rightarrow> bool" where
  "fifo_wf f \<longleftrightarrow>
     0 < size_f f \<and> size_f f < 2 ^ 31 \<and> length (data f) = nat (size_f f) \<and>
     0 \<le> read_idx f \<and> read_idx f < size_f f \<and>
     0 \<le> used f \<and> used f \<le> size_f f \<and>
     write_idx f = (read_idx f + used f) mod size_f f"

text \<open>The slot of the \<open>i\<close>-th item, and the items in order.\<close>

definition fifo_slot :: "mt_u64_fifo \<Rightarrow> nat \<Rightarrow> nat" where
  "fifo_slot f i = nat ((read_idx f + int i) mod size_f f)"

definition fifo_contents :: "mt_u64_fifo \<Rightarrow> u64 list" where
  "fifo_contents f = map (\<lambda>i. data f ! fifo_slot f i) [0..<nat (used f)]"

definition fifo_cap :: "mt_u64_fifo \<Rightarrow> nat" where
  "fifo_cap f = nat (size_f f)"

lemma length_fifo_contents: "length (fifo_contents f) = nat (used f)"
  by (simp add: fifo_contents_def)

lemma wrap_mod:
  assumes "0 \<le> (i::int)" and "i < n"
  shows "(if i + 1 \<ge> n then 0 else i + 1) = (i + 1) mod n"
proof (cases "i + 1 = n")
  case True
  then show ?thesis by simp
next
  case False
  with assms show ?thesis by simp
qed

lemma fifo_slot_less: "fifo_wf f \<Longrightarrow> fifo_slot f i < length (data f)"
  by (simp add: fifo_wf_def fifo_slot_def nat_less_iff)

lemma fifo_slot_inj:
  assumes "fifo_wf f" and "i < fifo_cap f" and "j < fifo_cap f" and "fifo_slot f i = fifo_slot f j"
  shows "i = j"
proof -
  let ?n = "size_f f" and ?r = "read_idx f"
  have n: "0 < ?n" using assms(1) by (simp add: fifo_wf_def)
  have "(?r + int i) mod ?n = (?r + int j) mod ?n"
    using assms(4) n by (simp add: fifo_slot_def eq_nat_nat_iff)
  then have "?n dvd int i - int j"
    by (simp add: mod_eq_dvd_iff)
  moreover have "\<bar>int i - int j\<bar> < ?n"
    using assms(2,3) by (auto simp: fifo_cap_def)
  ultimately have "int i - int j = 0"
    by (metis dvd_imp_le_int linorder_not_less abs_of_nonneg n less_imp_le)
  then show ?thesis by simp
qed

lemma fifo_store_slot:
  assumes "fifo_wf f"
  shows "fifo_store x f = f\<lparr>data := (data f)[fifo_slot f (nat (used f)) := x],
    write_idx := (read_idx f + used f + 1) mod size_f f\<rparr>"
proof -
  have w: "0 \<le> write_idx f" "write_idx f < size_f f"
    "write_idx f = (read_idx f + used f) mod size_f f"
    using assms by (auto simp: fifo_wf_def)
  have "(write_idx f + 1) mod size_f f = (read_idx f + used f + 1) mod size_f f"
    by (simp add: w(3) mod_simps)
  then have "(if write_idx f + 1 \<ge> size_f f then 0 else write_idx f + 1) =
      (read_idx f + used f + 1) mod size_f f"
    using wrap_mod [OF w(1,2)] by simp
  moreover have "nat (write_idx f) = fifo_slot f (nat (used f))"
    using assms by (simp add: fifo_slot_def fifo_wf_def)
  ultimately show ?thesis
    by (auto simp: fifo_store_def Let_def split: if_splits)
qed

lemma fifo_put_step:
  fixes f x
  assumes "fifo_wf f" and "used f < size_f f"
  defines "f' \<equiv> (fifo_store x f)\<lparr>used := used f + 1\<rparr>"
  shows "fifo_wf f'" and "fifo_contents f' = fifo_contents f @ [x]" and "fifo_cap f' = fifo_cap f"
    and "used (fifo_store x f) = used f"
proof -
  have u: "0 \<le> used f" and su: "nat (used f + 1) = Suc (nat (used f))"
    using assms(1) by (auto simp: fifo_wf_def)
  show "fifo_wf f'"
    using assms by (auto simp: f'_def fifo_store_slot fifo_wf_def add.assoc)
  show "fifo_cap f' = fifo_cap f"
    using assms by (simp add: f'_def fifo_store_slot fifo_cap_def)
  show "used (fifo_store x f) = used f"
    using assms by (simp add: fifo_store_slot)
  have slot: "fifo_slot f' i = fifo_slot f i" for i
    using assms by (simp add: f'_def fifo_store_slot fifo_slot_def)
  have old: "data f' ! fifo_slot f i = data f ! fifo_slot f i" if "i < nat (used f)" for i
  proof -
    have "fifo_slot f i \<noteq> fifo_slot f (nat (used f))"
      using fifo_slot_inj [OF assms(1), of i "nat (used f)"] that assms(2) u
      unfolding fifo_cap_def by linarith
    then show ?thesis using assms by (simp add: f'_def fifo_store_slot)
  qed
  have new: "data f' ! fifo_slot f (nat (used f)) = x"
    using assms fifo_slot_less [OF assms(1)] by (simp add: f'_def fifo_store_slot)
  have "used f' = used f + 1" by (simp add: f'_def)
  then show "fifo_contents f' = fifo_contents f @ [x]"
    using su by (simp add: fifo_contents_def slot new old)
qed

lemma fifo_fetch_step:
  fixes f
  assumes "fifo_wf f" and "0 < used f"
  defines "f' \<equiv> (snd (fifo_fetch f))\<lparr>used := used f - 1\<rparr>"
  shows "fifo_wf f'" and "fifo_contents f = fst (fifo_fetch f) # fifo_contents f'"
    and "fifo_cap f' = fifo_cap f" and "used (snd (fifo_fetch f)) = used f"
proof -
  have r: "0 \<le> read_idx f" "read_idx f < size_f f"
    using assms(1) by (auto simp: fifo_wf_def)
  have fetch: "fifo_fetch f = (data f ! nat (read_idx f),
      f\<lparr>read_idx := (read_idx f + 1) mod size_f f\<rparr>)"
    using wrap_mod [OF r] by (auto simp: fifo_fetch_def Let_def split: if_splits)
  have f': "f' = f\<lparr>read_idx := (read_idx f + 1) mod size_f f, used := used f - 1\<rparr>"
    by (simp add: f'_def fetch)
  show "fifo_cap f' = fifo_cap f" and "used (snd (fifo_fetch f)) = used f"
    by (simp_all add: f' fetch fifo_cap_def)
  show "fifo_wf f'"
    using assms(1,2) by (auto simp: f' fifo_wf_def mod_simps)
  have slot: "fifo_slot f' i = fifo_slot f (Suc i)" for i
    by (simp add: f' fifo_slot_def mod_simps add.commute add.left_commute)
  have su: "nat (used f) = Suc (nat (used f'))"
    using assms(2) by (simp add: f')
  have "fifo_slot f 0 = nat (read_idx f)" and "data f' = data f"
    using r by (simp_all add: fifo_slot_def f')
  then show "fifo_contents f = fst (fifo_fetch f) # fifo_contents f'"
    by (simp add: fifo_contents_def su slot fetch map_upt_Suc del: upt_Suc)
qed

section \<open>The operations refine the queue\<close>

lemma fifo_init_wf:
  assumes "mt_u64_fifo_init alloc sz = Some f" and "0 < sz" and "sz < 2 ^ 31"
  shows "fifo_wf f" and "fifo_contents f = []" and "fifo_cap f = nat sz"
  using assms
  by (auto simp: mt_u64_fifo_init_def fifo_wf_def fifo_contents_def fifo_cap_def split: if_splits)

lemma fifo_put_ok:
  assumes "fifo_wf f" and "length (fifo_contents f) < fifo_cap f"
  shows "\<exists>f'. mt_u64_fifo_put f x = Inr f' \<and> fifo_wf f' \<and>
    fifo_contents f' = fifo_contents f @ [x] \<and> fifo_cap f' = fifo_cap f"
proof -
  have "used f < size_f f"
    using assms by (auto simp: length_fifo_contents fifo_cap_def fifo_wf_def)
  with fifo_put_step [OF assms(1) this, of x] show ?thesis
    by (simp add: mt_u64_fifo_put_def Let_def)
qed

lemma fifo_put_full:
  assumes "fifo_wf f" and "length (fifo_contents f) = fifo_cap f"
  shows "mt_u64_fifo_put f x = Inl EIO"
  using assms by (auto simp: mt_u64_fifo_put_def length_fifo_contents fifo_cap_def fifo_wf_def)

lemma fifo_get_ok:
  assumes "fifo_wf f" and "fifo_contents f = x # xs"
  shows "\<exists>f'. mt_u64_fifo_get f = Inr (x, f') \<and> fifo_wf f' \<and>
    fifo_contents f' = xs \<and> fifo_cap f' = fifo_cap f"
proof -
  have "length (fifo_contents f) = Suc (length xs)"
    using assms(2) by simp
  then have u: "0 < used f"
    by (simp add: length_fifo_contents)
  from fifo_fetch_step [OF assms(1) u] assms(2) u show ?thesis
    by (auto simp: mt_u64_fifo_get_def Let_def split: prod.splits)
qed

lemma fifo_get_empty: "fifo_wf f \<Longrightarrow> fifo_contents f = [] \<Longrightarrow> mt_u64_fifo_get f = Inl EIO"
  by (auto simp: mt_u64_fifo_get_def fifo_contents_def fifo_wf_def)

lemma fifo_length_bound: "fifo_wf f \<Longrightarrow> length (fifo_contents f) \<le> fifo_cap f"
  by (simp add: length_fifo_contents fifo_cap_def fifo_wf_def nat_mono)

section \<open>The interface of a bounded queue\<close>

locale bounded_fifo =
  fixes wf :: "'q \<Rightarrow> bool"
    and contents :: "'q \<Rightarrow> 'a list"
    and cap :: "'q \<Rightarrow> nat"
    and put :: "'q \<Rightarrow> 'a \<Rightarrow> 'q res"
    and get :: "'q \<Rightarrow> ('a \<times> 'q) res"
  assumes bound: "wf q \<Longrightarrow> length (contents q) \<le> cap q"
    and put_ok: "wf q \<Longrightarrow> length (contents q) < cap q \<Longrightarrow>
      \<exists>q'. put q x = Inr q' \<and> wf q' \<and> contents q' = contents q @ [x] \<and> cap q' = cap q"
    and put_full: "wf q \<Longrightarrow> length (contents q) = cap q \<Longrightarrow> put q x = Inl EIO"
    and get_ok: "wf q \<Longrightarrow> contents q = x # xs \<Longrightarrow>
      \<exists>q'. get q = Inr (x, q') \<and> wf q' \<and> contents q' = xs \<and> cap q' = cap q"
    and get_empty: "wf q \<Longrightarrow> contents q = [] \<Longrightarrow> get q = Inl EIO"
begin

text \<open>A successful \<open>put\<close> or \<open>get\<close>, read off its result.\<close>

lemma put_Inr:
  assumes "wf q" and "put q x = Inr q'"
  shows "wf q'" and "contents q' = contents q @ [x]" and "cap q' = cap q"
    and "length (contents q) < cap q"
proof -
  have "length (contents q) \<noteq> cap q"
    using put_full assms by auto
  then show less: "length (contents q) < cap q"
    using bound [OF assms(1)] by simp
  show "wf q'" "contents q' = contents q @ [x]" "cap q' = cap q"
    using put_ok [OF assms(1) less, of x] assms(2) by auto
qed

lemma get_Inr:
  assumes "wf q" and "get q = Inr (x, q')"
  shows "wf q'" and "contents q = x # contents q'" and "cap q' = cap q"
proof -
  obtain y ys where "contents q = y # ys"
    using get_empty assms by (cases "contents q") auto
  with get_ok [OF assms(1) this] assms(2)
  show "wf q'" "contents q = x # contents q'" "cap q' = cap q" by auto
qed

primrec put_all :: "'q \<Rightarrow> 'a list \<Rightarrow> 'q res" where
  "put_all q [] = Inr q"
| "put_all q (x # xs) = (case put q x of Inl e \<Rightarrow> Inl e | Inr q' \<Rightarrow> put_all q' xs)"

primrec get_all :: "'q \<Rightarrow> nat \<Rightarrow> ('a list \<times> 'q) res" where
  "get_all q 0 = Inr ([], q)"
| "get_all q (Suc n) = (case get q of Inl e \<Rightarrow> Inl e
     | Inr (x, q') \<Rightarrow> (case get_all q' n of Inl e \<Rightarrow> Inl e | Inr (xs, q2) \<Rightarrow> Inr (x # xs, q2)))"

lemma put_all_ok:
  assumes "wf q" and "length (contents q) + length xs \<le> cap q"
  shows "\<exists>q'. put_all q xs = Inr q' \<and> wf q' \<and> contents q' = contents q @ xs \<and> cap q' = cap q"
  using assms
proof (induction xs arbitrary: q)
  case (Cons x xs)
  then obtain q1 where q1: "put q x = Inr q1" "wf q1" "contents q1 = contents q @ [x]"
    "cap q1 = cap q"
    using put_ok [of q x] by auto
  with Cons.IH [OF q1(2)] Cons.prems show ?case by auto
qed simp

lemma get_all_ok:
  assumes "wf q" and "contents q = xs @ ys"
  shows "\<exists>q'. get_all q (length xs) = Inr (xs, q') \<and> wf q' \<and> contents q' = ys \<and> cap q' = cap q"
  using assms
proof (induction xs arbitrary: q)
  case (Cons x xs)
  then obtain q1 where q1: "get q = Inr (x, q1)" "wf q1" "contents q1 = xs @ ys" "cap q1 = cap q"
    using get_ok [of q x "xs @ ys"] by auto
  with Cons.IH [OF q1(2,3)] show ?case by auto
qed simp

text \<open>First in, first out: what is put into an empty queue within its capacity is what is got.\<close>

lemma fifo_order:
  assumes "wf q" and "contents q = []" and "length xs \<le> cap q"
  shows "\<exists>q1 q2. put_all q xs = Inr q1 \<and> get_all q1 (length xs) = Inr (xs, q2) \<and>
    contents q2 = []"
proof -
  obtain q1 where "put_all q xs = Inr q1" "wf q1" "contents q1 = xs @ []"
    using put_all_ok [OF assms(1), of xs] assms(2,3) by auto
  with get_all_ok [of q1 xs "[]"] show ?thesis by auto
qed

end

interpretation u64_fifo: bounded_fifo fifo_wf fifo_contents fifo_cap mt_u64_fifo_put mt_u64_fifo_get
  by unfold_locales
    (rule fifo_length_bound fifo_put_ok fifo_put_full fifo_get_ok fifo_get_empty; assumption)+

section \<open>Bulk operations and reads\<close>

lemma fifo_store_used: "fifo_store x (f\<lparr>used := u\<rparr>) = (fifo_store x f)\<lparr>used := u\<rparr>"
  by (simp add: fifo_store_def Let_def)

lemma fold_store_used:
  "fold fifo_store xs (f\<lparr>used := u\<rparr>) = (fold fifo_store xs f)\<lparr>used := u\<rparr>"
  by (induction xs arbitrary: f) (simp_all add: fifo_store_used)

lemma fifo_fetch_used:
  "fifo_fetch (f\<lparr>used := u\<rparr>) = (fst (fifo_fetch f), (snd (fifo_fetch f))\<lparr>used := u\<rparr>)"
  by (simp add: fifo_fetch_def Let_def)

lemma fifo_fetch_n_used:
  "fifo_fetch_n n (f\<lparr>used := u\<rparr>) = (fst (fifo_fetch_n n f), (snd (fifo_fetch_n n f))\<lparr>used := u\<rparr>)"
proof (induction n arbitrary: f)
  case (Suc n)
  then show ?case by (simp add: fifo_fetch_used Let_def split_beta)
qed simp

lemma used_fold_store [simp]: "used (fold fifo_store xs f) = used f"
  by (induction xs arbitrary: f) (simp_all add: fifo_store_def Let_def)

lemma used_fetch_n [simp]: "used (snd (fifo_fetch_n n f)) = used f"
  by (induction n arbitrary: f) (simp_all add: fifo_fetch_def Let_def split_beta)

lemma fold_store_steps:
  assumes "fifo_wf f" and "nat (used f) + length xs \<le> fifo_cap f"
  shows "let f' = (fold fifo_store xs f)\<lparr>used := used f + int (length xs)\<rparr>
    in fifo_wf f' \<and> fifo_contents f' = fifo_contents f @ xs \<and> fifo_cap f' = fifo_cap f"
  using assms unfolding Let_def
proof (induction xs arbitrary: f)
  case (Cons x xs)
  let ?g = "(fifo_store x f)\<lparr>used := used f + 1\<rparr>"
  have less: "used f < size_f f"
    using Cons.prems by (auto simp: fifo_cap_def fifo_wf_def)
  note step = fifo_put_step [OF Cons.prems(1) less, of x]
  have "nat (used ?g) + length xs \<le> fifo_cap ?g"
    using Cons.prems step(3) by (auto simp: fifo_wf_def)
  from Cons.IH [OF step(1) this] show ?case
    using step by (simp add: fold_store_used algebra_simps)
qed simp

lemma fetch_n_steps:
  assumes "fifo_wf f" and "n \<le> nat (used f)"
  shows "let f' = (snd (fifo_fetch_n n f))\<lparr>used := used f - int n\<rparr>
    in fifo_wf f' \<and> fst (fifo_fetch_n n f) = take n (fifo_contents f) \<and>
       fifo_contents f' = drop n (fifo_contents f) \<and> fifo_cap f' = fifo_cap f"
  using assms unfolding Let_def
proof (induction n arbitrary: f)
  case (Suc n)
  let ?g = "(snd (fifo_fetch f))\<lparr>used := used f - 1\<rparr>"
  have pos: "0 < used f" using Suc.prems by auto
  note step = fifo_fetch_step [OF Suc.prems(1) pos]
  have "n \<le> nat (used ?g)" using Suc.prems by auto
  from Suc.IH [OF step(1) this] show ?case
    using step by (simp add: fifo_fetch_n_used split_beta Let_def algebra_simps)
qed simp

lemma fifo_put_bulk_eq:
  assumes "fifo_wf f" and "length items = unat n"
    and no_wrap: "nat (used f) + unat n < 2 ^ 32"
  shows "case mt_u64_fifo_put_bulk f items n of
      Inl e \<Rightarrow> e = EIO \<and> fifo_cap f < length (fifo_contents f) + length items
    | Inr f' \<Rightarrow> fifo_wf f' \<and> fifo_contents f' = fifo_contents f @ items \<and> fifo_cap f' = fifo_cap f"
proof -
  have b: "0 \<le> used f" "used f \<le> size_f f" "size_f f < 2 ^ 31" "0 < size_f f"
    using assms(1) by (auto simp: fifo_wf_def)
  have un: "unat ((word_of_int (used f) :: u32) + n) = nat (used f) + unat n"
    using no_wrap b by (subst unat_add_lem [THEN iffD1]) (simp_all add: unat_small)
  have guard: "(word_of_int (used f) :: u32) + n > word_of_int (size_f f) \<longleftrightarrow>
      fifo_cap f < nat (used f) + unat n"
    using b by (simp add: word_less_nat_alt un unat_small fifo_cap_def)
  show ?thesis
  proof (cases "fifo_cap f < nat (used f) + unat n")
    case True
    then show ?thesis
      using guard assms(2) by (simp add: mt_u64_fifo_put_bulk_def length_fifo_contents)
  next
    case False
    then have fits: "nat (used f) + length items \<le> fifo_cap f" using assms(2) by simp
    note steps = fold_store_steps [OF assms(1) fits, unfolded Let_def]
    have lt: "nat (used f) + unat n < 2 ^ 31"
      using False b by (auto simp: fifo_cap_def)
    have "sint ((word_of_int (used f) :: u32) + n) = int (nat (used f) + unat n)"
    proof -
      have "(word_of_int (used f) :: u32) + n = word_of_int (int (nat (used f) + unat n))"
        using b by (simp only: of_nat_add int_nat_eq uint_nat [symmetric] if_True wi_hom_syms word_of_int_uint)
      moreover have "int (nat (used f) + unat n) < 2 ^ 31"
        using lt by (metis of_nat_less_iff of_nat_numeral of_nat_power)
      ultimately show ?thesis by (metis of_nat_0_le_iff sint_small)
    qed
    then have "sint ((word_of_int (used f) :: u32) + n) = used f + int (length items)"
      using b assms(2) by simp
    moreover have "\<not> (word_of_int (used f) :: u32) + n > word_of_int (size_f f)"
      using False guard by blast
    ultimately have "mt_u64_fifo_put_bulk f items n =
        Inr ((fold fifo_store items f)\<lparr>used := used f + int (length items)\<rparr>)"
      unfolding mt_u64_fifo_put_bulk_def Let_def
      by (simp only: if_False used_fold_store assms(2) [symmetric] take_all order_refl)
    then show ?thesis using steps by simp
  qed
qed

lemma fifo_get_bulk_eq:
  assumes "fifo_wf f"
  shows "case mt_u64_fifo_get_bulk f n of
      Inl e \<Rightarrow> e = EIO \<and> length (fifo_contents f) < unat n
    | Inr (items, f') \<Rightarrow> unat n \<le> length (fifo_contents f) \<and> fifo_wf f' \<and>
        items = take (unat n) (fifo_contents f) \<and>
        fifo_contents f' = drop (unat n) (fifo_contents f) \<and> fifo_cap f' = fifo_cap f"
proof -
  have b: "0 \<le> used f" "used f < 2 ^ 31"
    using assms by (auto simp: fifo_wf_def)
  have guard: "(word_of_int (used f) :: u32) < n \<longleftrightarrow> nat (used f) < unat n"
    using b by (simp add: word_less_nat_alt unat_small)
  show ?thesis
  proof (cases "nat (used f) < unat n")
    case True
    then show ?thesis
      using guard by (simp add: mt_u64_fifo_get_bulk_def length_fifo_contents)
  next
    case False
    note steps = fetch_n_steps [OF assms, of "unat n", unfolded Let_def]
    have "(word_of_int (used f) :: u32) - n = word_of_int (used f - int (unat n))"
      by (simp only: uint_nat [symmetric] wi_hom_syms word_of_int_uint)
    moreover have "int (unat n) \<le> used f"
      using False b by (metis le_nat_iff linorder_not_less)
    then have "0 \<le> used f - int (unat n)" "used f - int (unat n) < 2 ^ 31"
      using b uint_ge_0 [of n] by (simp, linarith)
    ultimately have "sint ((word_of_int (used f) :: u32) - n) = used f - int (unat n)"
      by (metis sint_small)
    moreover have "\<not> (word_of_int (used f) :: u32) < n"
      using False guard by blast
    ultimately have "mt_u64_fifo_get_bulk f n = Inr (fst (fifo_fetch_n (unat n) f),
        (snd (fifo_fetch_n (unat n) f))\<lparr>used := used f - int (unat n)\<rparr>)"
      unfolding mt_u64_fifo_get_bulk_def Let_def split_beta
      by (simp only: if_False used_fetch_n)
    then show ?thesis using steps False by (simp add: length_fifo_contents)
  qed
qed

lemma nth_fifo_contents:
  "i < length (fifo_contents f) \<Longrightarrow> fifo_contents f ! i = data f ! fifo_slot f i"
  by (simp add: fifo_contents_def)

lemma fifo_start_slot:
  assumes "fifo_wf f" and "0 \<le> skip" and "skip \<le> used f"
  shows "(let ri = read_idx f + skip in if ri \<ge> size_f f then ri - size_f f else ri) =
    (read_idx f + skip) mod size_f f"
proof -
  have r: "0 \<le> read_idx f" "read_idx f < size_f f" "used f \<le> size_f f"
    using assms(1) by (auto simp: fifo_wf_def)
  show ?thesis
  proof (cases "read_idx f + skip \<ge> size_f f")
    case True
    then have "(read_idx f + skip) mod size_f f = (read_idx f + skip - size_f f) mod size_f f"
      by simp
    also have "\<dots> = read_idx f + skip - size_f f"
      using True r assms(2,3) by (intro mod_pos_pos_trivial) auto
    finally show ?thesis using True by simp
  next
    case False
    with r assms(2) show ?thesis by simp
  qed
qed

lemma fifo_read_any_eq:
  assumes "fifo_wf f"
  shows "mt_u64_fifo_read_any f skip =
    (if 0 \<le> skip \<and> nat skip < length (fifo_contents f) then Inr (fifo_contents f ! nat skip)
     else Inl EIO)"
proof (cases "0 \<le> skip \<and> nat skip < length (fifo_contents f)")
  case True
  then have "0 \<le> skip" "skip < used f"
    by (auto simp: length_fifo_contents)
  then show ?thesis
    using fifo_start_slot [OF assms, of skip] True
    by (simp add: mt_u64_fifo_read_any_def nth_fifo_contents fifo_slot_def Let_def)
next
  case False
  then show ?thesis
    by (auto simp: mt_u64_fifo_read_any_def length_fifo_contents)
qed

lemma fifo_read_front_eq:
  assumes "fifo_wf f"
  shows "mt_u64_fifo_read_front f =
    (case fifo_contents f of [] \<Rightarrow> Inl EIO | x # _ \<Rightarrow> Inr x)"
proof (cases "used f \<le> 0")
  case True
  then show ?thesis by (simp add: mt_u64_fifo_read_front_def fifo_contents_def)
next
  case False
  then have "fifo_contents f = fst (fifo_fetch f) #
      fifo_contents ((snd (fifo_fetch f))\<lparr>used := used f - 1\<rparr>)"
    using fifo_fetch_step(2) [OF assms] by simp
  with False show ?thesis
    by (simp add: mt_u64_fifo_read_front_def fifo_fetch_def Let_def)
qed

lemma fifo_read_back_eq:
  assumes "fifo_wf f"
  shows "mt_u64_fifo_read_back f = (if fifo_contents f = [] then Inl EIO else Inr (last (fifo_contents f)))"
proof (cases "used f \<le> 0")
  case True
  then show ?thesis by (simp add: mt_u64_fifo_read_back_def fifo_contents_def)
next
  case False
  let ?n = "size_f f" and ?r = "read_idx f" and ?u = "used f"
  have b: "0 < ?n" "0 \<le> ?r" "?r < ?n" "?u \<le> ?n" "write_idx f = (?r + ?u) mod ?n"
    using assms by (auto simp: fifo_wf_def)
  have ne: "fifo_contents f \<noteq> []"
    using False by (auto simp: fifo_contents_def)
  have last: "last (fifo_contents f) = data f ! nat ((?r + (?u - 1)) mod ?n)"
    using False ne by (simp add: last_conv_nth nth_fifo_contents length_fifo_contents fifo_slot_def)
  have "(?r + (?u - 1)) mod ?n = (write_idx f - 1) mod ?n"
    by (simp add: b(5) mod_simps algebra_simps)
  also have "\<dots> = (if write_idx f - 1 < 0 then ?n - 1 else write_idx f - 1)"
  proof (cases "write_idx f = 0")
    case True
    then show ?thesis using b(1) by (simp add: zmod_minus1)
  next
    case False
    have "0 \<le> write_idx f" "write_idx f < ?n" using b by auto
    with False show ?thesis by simp
  qed
  finally show ?thesis
    using False ne last by (simp add: mt_u64_fifo_read_back_def Let_def)
qed

lemma fifo_peek_n_eq:
  assumes "fifo_wf f"
  shows "fifo_peek_n n f ((read_idx f + int k) mod size_f f) =
    map (\<lambda>i. data f ! fifo_slot f (k + i)) [0..<n]"
proof (induction n arbitrary: k)
  case (Suc n)
  let ?ri = "(read_idx f + int k) mod size_f f"
  have n: "0 < size_f f" using assms by (simp add: fifo_wf_def)
  have "(if ?ri + 1 \<ge> size_f f then 0 else ?ri + 1) = (?ri + 1) mod size_f f"
    using n by (intro wrap_mod) auto
  also have "\<dots> = (read_idx f + int (Suc k)) mod size_f f"
    by (simp add: mod_simps algebra_simps)
  finally have "fifo_peek_n (Suc n) f ?ri =
      data f ! fifo_slot f k # map (\<lambda>i. data f ! fifo_slot f (Suc k + i)) [0..<n]"
    using Suc.IH [of "Suc k"] by (simp add: fifo_slot_def)
  then show ?case by (simp add: map_upt_Suc del: upt_Suc)
qed simp

lemma fifo_read_any_bulk_eq:
  assumes "fifo_wf f" and skip: "0 \<le> skip" "skip < 2 ^ 31"
  shows "mt_u64_fifo_read_any_bulk f n skip =
    (if nat skip + unat n \<le> length (fifo_contents f)
     then Inr (take (unat n) (drop (nat skip) (fifo_contents f))) else Inl EIO)"
proof -
  have b: "0 \<le> used f" "used f < 2 ^ 31"
    using assms by (auto simp: fifo_wf_def)
  have un: "unat (word_of_int (used f) :: u32) = nat (used f)" "unat (word_of_int skip :: u32) = nat skip"
    using b skip by (simp_all add: unat_small)
  show ?thesis
  proof (cases "nat (used f) < unat n")
    case True
    then show ?thesis
      by (simp add: mt_u64_fifo_read_any_bulk_def word_less_nat_alt un length_fifo_contents)
  next
    case False
    have "nat skip < 2 ^ 31" "nat (used f) < 2 ^ 31"
      using b skip by (simp_all add: nat_less_iff)
    then have "nat skip + unat n < 2 ^ 32"
      using False by simp
    then have sum: "unat ((word_of_int skip :: u32) + n) = nat skip + unat n"
      by (subst unat_add_lem [THEN iffD1]) (simp_all add: un)
    show ?thesis
    proof (cases "nat skip + unat n \<le> nat (used f)")
      case True
      then have "skip \<le> used f" using skip b by (auto simp: nat_le_iff)
      note start = fifo_start_slot [OF assms(1) skip(1) this, unfolded Let_def]
      have "fifo_peek_n (unat n) f ((read_idx f + skip) mod size_f f) =
          map (\<lambda>i. data f ! fifo_slot f (nat skip + i)) [0..<unat n]"
        using fifo_peek_n_eq [OF assms(1), of "unat n" "nat skip"] skip by simp
      also have "\<dots> = take (unat n) (drop (nat skip) (fifo_contents f))"
        using True by (intro nth_equalityI) (simp_all add: length_fifo_contents nth_fifo_contents)
      finally show ?thesis
        using True False skip start
        by (simp add: mt_u64_fifo_read_any_bulk_def word_less_nat_alt un sum length_fifo_contents
            Let_def)
    next
      case bad: False
      then show ?thesis
        using False
        by (simp add: mt_u64_fifo_read_any_bulk_def word_less_nat_alt un sum length_fifo_contents)
    qed
  qed
qed

lemma fifo_mbuf_clean_eq:
  assumes "fifo_wf f"
  shows "fst (mt_fifo_mbuf_clean f) = fifo_contents f \<and>
    fifo_wf (snd (mt_fifo_mbuf_clean f)) \<and> fifo_contents (snd (mt_fifo_mbuf_clean f)) = []"
  using assms
proof (induction f rule: mt_fifo_mbuf_clean.induct)
  case (1 f)
  show ?case
  proof (cases "fifo_contents f")
    case Nil
    then have "\<not> mt_u64_fifo_count f > 0"
      by (auto simp: fifo_contents_def mt_u64_fifo_count_def)
    with Nil "1.prems" show ?thesis by (subst (1 2 3) mt_fifo_mbuf_clean.simps) simp
  next
    case (Cons x xs)
    then have pos: "mt_u64_fifo_count f > 0"
      using length_fifo_contents [of f] by (simp add: mt_u64_fifo_count_def)
    obtain g where g: "mt_u64_fifo_get f = Inr (x, g)" "fifo_wf g" "fifo_contents g = xs"
      using u64_fifo.get_ok [OF "1.prems" Cons] by auto
    have "mt_fifo_mbuf_clean f = (x # fst (mt_fifo_mbuf_clean g), snd (mt_fifo_mbuf_clean g))"
      using pos g by (subst mt_fifo_mbuf_clean.simps) (simp add: split_beta Let_def)
    with "1.IH" [OF pos g(1) refl g(2)] g Cons show ?thesis by simp
  qed
qed

lemma fifo_clean_cap: "fifo_cap (snd (mt_fifo_mbuf_clean f)) = fifo_cap f"
proof (induction f rule: mt_fifo_mbuf_clean.induct)
  case (1 f)
  show ?case
  proof (cases "mt_u64_fifo_count f > 0")
    case True
    then obtain x g where g: "mt_u64_fifo_get f = Inr (x, g)"
      by (auto simp: mt_u64_fifo_get_def mt_u64_fifo_count_def Let_def split_beta)
    then have "fifo_cap g = fifo_cap f"
      by (auto simp: mt_u64_fifo_get_def fifo_fetch_def fifo_cap_def Let_def split: if_splits)
    with "1.IH" [OF True g refl] g True show ?thesis
      by (subst mt_fifo_mbuf_clean.simps) (simp add: split_beta Let_def)
  next
    case False
    then show ?thesis by (subst mt_fifo_mbuf_clean.simps) simp
  qed
qed

section \<open>The DMA conversion context\<close>

text \<open>
  \<open>struct mt_cvt_dma_ctx\<close>: a queue of the types of the submitted copies, and per type the
  number submitted (\<open>tran\<close>) and finished (\<open>done_cnt\<close>, the C field \<open>done\<close>).
\<close>

record mt_cvt_dma_ctx =
  fifo :: mt_u64_fifo
  tran :: "int list"
  done_cnt :: "int list"

text \<open>
  The allocator is asked for the struct (24 bytes), the queue, and an int array for each
  counter; a failed allocation returns NULL after undoing the earlier ones.
\<close>

definition mt_cvt_dma_ctx_init :: "(u64 \<Rightarrow> bool) \<Rightarrow> int \<Rightarrow> int \<Rightarrow> mt_cvt_dma_ctx option" where
  "mt_cvt_dma_ctx_init alloc fifo_size type_num =
     (if \<not> alloc 24 then None
      else case mt_u64_fifo_init alloc fifo_size of
        None \<Rightarrow> None
      | Some q \<Rightarrow>
          (if \<not> alloc (4 * word_of_int type_num) then None
           else Some \<lparr>fifo = q, tran = replicate (nat type_num) 0,
                      done_cnt = replicate (nat type_num) 0\<rparr>))"

definition mt_cvt_dma_ctx_push :: "mt_cvt_dma_ctx \<Rightarrow> int \<Rightarrow> mt_cvt_dma_ctx res" where
  "mt_cvt_dma_ctx_push ctx type =
     (case mt_u64_fifo_put (fifo ctx) (word_of_int type) of
        Inl e \<Rightarrow> Inl e
      | Inr q \<Rightarrow> Inr (ctx\<lparr>fifo := q, tran := (tran ctx)[nat type := tran ctx ! nat type + 1]\<rparr>))"

definition mt_cvt_dma_ctx_pop :: "mt_cvt_dma_ctx \<Rightarrow> mt_cvt_dma_ctx res" where
  "mt_cvt_dma_ctx_pop ctx =
     (case mt_u64_fifo_get (fifo ctx) of
        Inl e \<Rightarrow> Inl e
      | Inr (type, q) \<Rightarrow>
          Inr (ctx\<lparr>fifo := q,
                   done_cnt := (done_cnt ctx)[unat type := done_cnt ctx ! unat type + 1]\<rparr>))"

definition mt_cvt_dma_ctx_get_done :: "mt_cvt_dma_ctx \<Rightarrow> int \<Rightarrow> int" where
  "mt_cvt_dma_ctx_get_done ctx type = done_cnt ctx ! nat type"

definition mt_cvt_dma_ctx_get_tran :: "mt_cvt_dma_ctx \<Rightarrow> int \<Rightarrow> int" where
  "mt_cvt_dma_ctx_get_tran ctx type = tran ctx ! nat type"

text \<open>
  The steps of the context: a push of a type in range that the queue accepts, and a pop.
\<close>

inductive dma_step :: "mt_cvt_dma_ctx \<Rightarrow> mt_cvt_dma_ctx \<Rightarrow> bool" where
  push: "mt_cvt_dma_ctx_push ctx type = Inr ctx' \<Longrightarrow> 0 \<le> type \<Longrightarrow> type < int (length (tran ctx)) \<Longrightarrow>
    dma_step ctx ctx'"
| pop: "mt_cvt_dma_ctx_pop ctx = Inr ctx' \<Longrightarrow> dma_step ctx ctx'"

inductive dma_reachable :: "int \<Rightarrow> int \<Rightarrow> mt_cvt_dma_ctx \<Rightarrow> bool" for fifo_size type_num where
  init: "mt_cvt_dma_ctx_init alloc fifo_size type_num = Some ctx \<Longrightarrow>
    dma_reachable fifo_size type_num ctx"
| step: "dma_reachable fifo_size type_num ctx \<Longrightarrow> dma_step ctx ctx' \<Longrightarrow>
    dma_reachable fifo_size type_num ctx'"

text \<open>
  The bookkeeping invariant: each counter has one entry per type, every queued item is a type,
  and the copies of a type still in flight are those in the queue.
\<close>

definition dma_inv :: "nat \<Rightarrow> mt_cvt_dma_ctx \<Rightarrow> bool" where
  "dma_inv n ctx \<longleftrightarrow> fifo_wf (fifo ctx) \<and> length (tran ctx) = n \<and> length (done_cnt ctx) = n \<and>
     (\<forall>w \<in> set (fifo_contents (fifo ctx)). unat w < n) \<and>
     (\<forall>t < n. tran ctx ! t - done_cnt ctx ! t =
        int (count_list (map unat (fifo_contents (fifo ctx))) t))"

lemma dma_init_inv:
  assumes "mt_cvt_dma_ctx_init alloc fifo_size type_num = Some ctx"
    and "0 < fifo_size" and "fifo_size < 2 ^ 31"
  shows "dma_inv (nat type_num) ctx"
  using assms fifo_init_wf
  by (auto simp: mt_cvt_dma_ctx_init_def dma_inv_def split: if_splits option.splits)

lemma dma_push_inv:
  assumes "dma_inv n ctx" and "mt_cvt_dma_ctx_push ctx type = Inr ctx'"
    and "0 \<le> type" and "type < int n" and "n < 2 ^ 31"
  shows "dma_inv n ctx'"
proof -
  obtain q where q: "mt_u64_fifo_put (fifo ctx) (word_of_int type) = Inr q"
    "ctx' = ctx\<lparr>fifo := q, tran := (tran ctx)[nat type := tran ctx ! nat type + 1]\<rparr>"
    using assms(2) by (auto simp: mt_cvt_dma_ctx_push_def split: sum.splits)
  have wf: "fifo_wf (fifo ctx)" using assms(1) by (simp add: dma_inv_def)
  have t: "unat (word_of_int type :: u64) = nat type"
    using assms(3,4,5) by (simp add: unat_eq_nat_uint uint_word_of_int)
  show ?thesis
    using assms(1,3,4) u64_fifo.put_Inr [OF wf q(1)]
    by (auto simp: q(2) dma_inv_def t nth_list_update)
qed

lemma dma_pop_inv:
  assumes "dma_inv n ctx" and "mt_cvt_dma_ctx_pop ctx = Inr ctx'"
  shows "dma_inv n ctx'"
proof -
  obtain w q where q: "mt_u64_fifo_get (fifo ctx) = Inr (w, q)"
    "ctx' = ctx\<lparr>fifo := q, done_cnt := (done_cnt ctx)[unat w := done_cnt ctx ! unat w + 1]\<rparr>"
    using assms(2) by (auto simp: mt_cvt_dma_ctx_pop_def split: sum.splits)
  have wf: "fifo_wf (fifo ctx)" using assms(1) by (simp add: dma_inv_def)
  note got = u64_fifo.get_Inr [OF wf q(1)]
  have cnt: "tran ctx ! t - done_cnt ctx ! t =
      int (count_list (map unat (w # fifo_contents q)) t)" if "t < n" for t
    using assms(1) that by (simp add: dma_inv_def got(2))
  have "unat w < n" using assms(1) by (simp add: dma_inv_def got(2))
  then have hit: "tran ctx ! unat w - (done_cnt ctx ! unat w + 1) =
      int (count_list (map unat (fifo_contents q)) (unat w))"
    using cnt [of "unat w"] by simp
  have miss: "tran ctx ! t - done_cnt ctx ! t = int (count_list (map unat (fifo_contents q)) t)"
    if "t < n" "t \<noteq> unat w" for t
    using cnt [OF that(1)] that(2) by simp
  show ?thesis
    using hit miss assms(1) got by (auto simp: q(2) dma_inv_def nth_list_update)
qed

lemma dma_reachable_inv:
  assumes "dma_reachable fifo_size type_num ctx"
    and "0 < fifo_size" and "fifo_size < 2 ^ 31" and "0 \<le> type_num" and "type_num < 2 ^ 31"
  shows "dma_inv (nat type_num) ctx"
  using assms
proof (induction rule: dma_reachable.induct)
  case (init alloc ctx)
  then show ?case by (blast intro: dma_init_inv)
next
  case (step ctx ctx')
  then have inv: "dma_inv (nat type_num) ctx" by simp
  from step.hyps(2) show ?case
  proof cases
    case (push type)
    with inv step.prems show ?thesis
      by (intro dma_push_inv [OF inv push(1)]) (auto simp: dma_inv_def nat_less_iff)
  next
    case pop
    with inv show ?thesis by (blast intro: dma_pop_inv)
  qed
qed

section \<open>Properties\<close>

text \<open>
  The contract of the ring as a bounded list: one command per operation of the C interface, the
  result it delivers, and its effect on the queued items.
\<close>

datatype fifo_cmd = Put u64 | Get | PutBulk "u64 list" | GetBulk u32 | ReadFront | ReadBack
  | ReadAny int | ReadAnyBulk u32 int | Clean

definition queue_exec :: "nat \<Rightarrow> fifo_cmd \<Rightarrow> u64 list \<Rightarrow> u64 list res \<times> u64 list" where
  "queue_exec cap c q =
     (case c of
        Put x \<Rightarrow> if length q < cap then (Inr [], q @ [x]) else (Inl EIO, q)
      | Get \<Rightarrow> (case q of [] \<Rightarrow> (Inl EIO, []) | x # xs \<Rightarrow> (Inr [x], xs))
      | PutBulk xs \<Rightarrow> if length q + length xs \<le> cap then (Inr [], q @ xs) else (Inl EIO, q)
      | GetBulk n \<Rightarrow> if unat n \<le> length q then (Inr (take (unat n) q), drop (unat n) q)
          else (Inl EIO, q)
      | ReadFront \<Rightarrow> (case q of [] \<Rightarrow> Inl EIO | x # _ \<Rightarrow> Inr [x], q)
      | ReadBack \<Rightarrow> (if q = [] then Inl EIO else Inr [last q], q)
      | ReadAny k \<Rightarrow> (if 0 \<le> k \<and> nat k < length q then Inr [q ! nat k] else Inl EIO, q)
      | ReadAnyBulk n k \<Rightarrow> (if nat k + unat n \<le> length q then Inr (take (unat n) (drop (nat k) q))
          else Inl EIO, q)
      | Clean \<Rightarrow> (Inr q, []))"

text \<open>The same commands run on the ring.\<close>

definition fifo_exec :: "fifo_cmd \<Rightarrow> mt_u64_fifo \<Rightarrow> u64 list res \<times> mt_u64_fifo" where
  "fifo_exec c f =
     (case c of
        Put x \<Rightarrow> (case mt_u64_fifo_put f x of Inl e \<Rightarrow> (Inl e, f) | Inr f' \<Rightarrow> (Inr [], f'))
      | Get \<Rightarrow> (case mt_u64_fifo_get f of Inl e \<Rightarrow> (Inl e, f) | Inr (x, f') \<Rightarrow> (Inr [x], f'))
      | PutBulk xs \<Rightarrow> (case mt_u64_fifo_put_bulk f xs (of_nat (length xs)) of
          Inl e \<Rightarrow> (Inl e, f) | Inr f' \<Rightarrow> (Inr [], f'))
      | GetBulk n \<Rightarrow> (case mt_u64_fifo_get_bulk f n of
          Inl e \<Rightarrow> (Inl e, f) | Inr (xs, f') \<Rightarrow> (Inr xs, f'))
      | ReadFront \<Rightarrow> (map_sum id (\<lambda>x. [x]) (mt_u64_fifo_read_front f), f)
      | ReadBack \<Rightarrow> (map_sum id (\<lambda>x. [x]) (mt_u64_fifo_read_back f), f)
      | ReadAny k \<Rightarrow> (map_sum id (\<lambda>x. [x]) (mt_u64_fifo_read_any f k), f)
      | ReadAnyBulk n k \<Rightarrow> (mt_u64_fifo_read_any_bulk f n k, f)
      | Clean \<Rightarrow> (Inr (fst (mt_fifo_mbuf_clean f)), snd (mt_fifo_mbuf_clean f)))"

text \<open>Bulk writes of fewer than 2^31 items, bulk reads with a non-negative 31-bit skip.\<close>

fun fifo_cmd_ok :: "fifo_cmd \<Rightarrow> bool" where
  "fifo_cmd_ok (PutBulk xs) = (length xs < 2 ^ 31)"
| "fifo_cmd_ok (ReadAnyBulk n k) = (0 \<le> k \<and> k < 2 ^ 31)"
| "fifo_cmd_ok _ = True"

primrec fifo_run :: "fifo_cmd list \<Rightarrow> mt_u64_fifo \<Rightarrow> u64 list res list \<times> mt_u64_fifo" where
  "fifo_run [] f = ([], f)"
| "fifo_run (c # cs) f = (let (r, f1) = fifo_exec c f; (rs, f2) = fifo_run cs f1 in (r # rs, f2))"

primrec queue_run :: "nat \<Rightarrow> fifo_cmd list \<Rightarrow> u64 list \<Rightarrow> u64 list res list \<times> u64 list" where
  "queue_run cap [] q = ([], q)"
| "queue_run cap (c # cs) q =
     (let (r, q1) = queue_exec cap c q; (rs, q2) = queue_run cap cs q1 in (r # rs, q2))"

lemma fifo_exec_put_bulk:
  assumes "fifo_wf f" and "length xs < 2 ^ 31"
  shows "fifo_wf (snd (fifo_exec (PutBulk xs) f)) \<and>
    fifo_cap (snd (fifo_exec (PutBulk xs) f)) = fifo_cap f \<and>
    (fst (fifo_exec (PutBulk xs) f), fifo_contents (snd (fifo_exec (PutBulk xs) f))) =
      queue_exec (fifo_cap f) (PutBulk xs) (fifo_contents f)"
proof -
  have n: "unat (of_nat (length xs) :: u32) = length xs"
    using assms(2) by (simp add: unat_of_nat)
  have u: "nat (used f) < 2 ^ 31"
    using assms(1) by (auto simp: fifo_wf_def nat_less_iff)
  have "nat (used f) + unat (of_nat (length xs) :: u32) < 2 ^ 32"
    using u assms(2) n by simp
  note bulk = fifo_put_bulk_eq [OF assms(1) n [symmetric] this]
  show ?thesis
  proof (cases "mt_u64_fifo_put_bulk f xs (of_nat (length xs))")
    case (Inl e)
    with bulk assms(1) show ?thesis by (simp add: fifo_exec_def queue_exec_def)
  next
    case (Inr f')
    with bulk fifo_length_bound [of f'] show ?thesis
      by (simp add: fifo_exec_def queue_exec_def)
  qed
qed

lemma fifo_exec_refines:
  assumes wf: "fifo_wf f" and ok: "fifo_cmd_ok c"
  shows "fifo_wf (snd (fifo_exec c f)) \<and> fifo_cap (snd (fifo_exec c f)) = fifo_cap f \<and>
    (fst (fifo_exec c f), fifo_contents (snd (fifo_exec c f))) =
      queue_exec (fifo_cap f) c (fifo_contents f)"
proof (cases c)
  case (Put x)
  show ?thesis
  proof (cases "length (fifo_contents f) < fifo_cap f")
    case True
    with fifo_put_ok [OF wf True, of x] Put show ?thesis
      by (auto simp: fifo_exec_def queue_exec_def)
  next
    case False
    with fifo_put_full [OF wf, of x] fifo_length_bound [OF wf] Put wf show ?thesis
      by (simp add: fifo_exec_def queue_exec_def)
  qed
next
  case Get
  show ?thesis
  proof (cases "fifo_contents f")
    case Nil
    with fifo_get_empty [OF wf Nil] Get wf show ?thesis
      by (simp add: fifo_exec_def queue_exec_def)
  next
    case (Cons x xs)
    with fifo_get_ok [OF wf Cons] Get show ?thesis
      by (auto simp: fifo_exec_def queue_exec_def)
  qed
next
  case (PutBulk xs)
  with ok fifo_exec_put_bulk [OF wf] show ?thesis by simp
next
  case (GetBulk n)
  then show ?thesis
    using fifo_get_bulk_eq [OF wf, of n] wf
    by (auto simp: fifo_exec_def queue_exec_def split: sum.splits)
next
  case ReadFront
  then show ?thesis
    using wf fifo_read_front_eq [OF wf]
    by (auto simp: fifo_exec_def queue_exec_def split: list.splits)
next
  case ReadBack
  then show ?thesis
    using wf fifo_read_back_eq [OF wf] by (simp add: fifo_exec_def queue_exec_def)
next
  case (ReadAny k)
  then show ?thesis
    using wf fifo_read_any_eq [OF wf] by (simp add: fifo_exec_def queue_exec_def)
next
  case (ReadAnyBulk n k)
  then show ?thesis
    using wf ok fifo_read_any_bulk_eq [OF wf] by (simp add: fifo_exec_def queue_exec_def)
next
  case Clean
  have "fifo_cap (snd (mt_fifo_mbuf_clean f)) = fifo_cap f" by (rule fifo_clean_cap)
  with Clean fifo_mbuf_clean_eq [OF wf] show ?thesis by (simp add: fifo_exec_def queue_exec_def)
qed





text \<open>The bulk-write guard adds a signed count and an unsigned length modulo 2^32: a length close
  to 2^32 passes it although the ring has no room.\<close>

lemma put_bulk_guard_wraps:
  "mt_u64_fifo_put_bulk \<lparr>data = [5], write_idx = 0, read_idx = 0, size_f = 1, used = 1\<rparr> [] 0xFFFFFFFF \<noteq> Inl EIO"
  by (simp add: mt_u64_fifo_put_bulk_def Let_def word_less_nat_alt)

end
