(* ===== verification/Ancillary.thy ===== *)
theory Ancillary
  imports MTL_Prelude
begin

text \<open>
  The RFC 8331 ancillary data codec of \<^verbatim>\<open>lib/src/st2110/st_ancillary.c\<close> (ST 2110-40):
  10-bit user data words packed into bytes, and their parity and checksum; \<open>Anc_Codec\<close> has the
  encoder and decoder of a sub-packet built on them. A byte pointer is the list of bytes
  from it to the end of its buffer, and an access outside the buffer is \<open>None\<close>, so that a property that shows \<open>Some\<close> shows that the code
  stays inside its buffer. The wire view of a buffer is its bit string, most significant bit of
  each byte first; the locale \<open>word_array\<close> states that the packed words behave as an array.
\<close>

section \<open>Memory\<close>

definition rd8 :: "u8 list \<Rightarrow> nat \<Rightarrow> u8 option" where
  "rd8 mem i = (if i < length mem then Some (mem ! i) else None)"

definition wr8 :: "u8 list \<Rightarrow> nat \<Rightarrow> u8 \<Rightarrow> u8 list option" where
  "wr8 mem i v = (if i < length mem then Some (mem[i := v]) else None)"

section \<open>Parity\<close>

definition parity_tab :: "u16 list" where
  "parity_tab = [
      0x200, 0x100, 0x100, 0x200, 0x100, 0x200, 0x200, 0x100, 0x100, 0x200, 0x200, 0x100, 0x200, 0x100, 0x100, 0x200,
      0x100, 0x200, 0x200, 0x100, 0x200, 0x100, 0x100, 0x200, 0x200, 0x100, 0x100, 0x200, 0x100, 0x200, 0x200, 0x100,
      0x100, 0x200, 0x200, 0x100, 0x200, 0x100, 0x100, 0x200, 0x200, 0x100, 0x100, 0x200, 0x100, 0x200, 0x200, 0x100,
      0x200, 0x100, 0x100, 0x200, 0x100, 0x200, 0x200, 0x100, 0x100, 0x200, 0x200, 0x100, 0x200, 0x100, 0x100, 0x200,
      0x100, 0x200, 0x200, 0x100, 0x200, 0x100, 0x100, 0x200, 0x200, 0x100, 0x100, 0x200, 0x100, 0x200, 0x200, 0x100,
      0x200, 0x100, 0x100, 0x200, 0x100, 0x200, 0x200, 0x100, 0x100, 0x200, 0x200, 0x100, 0x200, 0x100, 0x100, 0x200,
      0x200, 0x100, 0x100, 0x200, 0x100, 0x200, 0x200, 0x100, 0x100, 0x200, 0x200, 0x100, 0x200, 0x100, 0x100, 0x200,
      0x100, 0x200, 0x200, 0x100, 0x200, 0x100, 0x100, 0x200, 0x200, 0x100, 0x100, 0x200, 0x100, 0x200, 0x200, 0x100,
      0x100, 0x200, 0x200, 0x100, 0x200, 0x100, 0x100, 0x200, 0x200, 0x100, 0x100, 0x200, 0x100, 0x200, 0x200, 0x100,
      0x200, 0x100, 0x100, 0x200, 0x100, 0x200, 0x200, 0x100, 0x100, 0x200, 0x200, 0x100, 0x200, 0x100, 0x100, 0x200,
      0x200, 0x100, 0x100, 0x200, 0x100, 0x200, 0x200, 0x100, 0x100, 0x200, 0x200, 0x100, 0x200, 0x100, 0x100, 0x200,
      0x100, 0x200, 0x200, 0x100, 0x200, 0x100, 0x100, 0x200, 0x200, 0x100, 0x100, 0x200, 0x100, 0x200, 0x200, 0x100,
      0x200, 0x100, 0x100, 0x200, 0x100, 0x200, 0x200, 0x100, 0x100, 0x200, 0x200, 0x100, 0x200, 0x100, 0x100, 0x200,
      0x100, 0x200, 0x200, 0x100, 0x200, 0x100, 0x100, 0x200, 0x200, 0x100, 0x100, 0x200, 0x100, 0x200, 0x200, 0x100,
      0x100, 0x200, 0x200, 0x100, 0x200, 0x100, 0x100, 0x200, 0x200, 0x100, 0x100, 0x200, 0x100, 0x200, 0x200, 0x100,
      0x200, 0x100, 0x100, 0x200, 0x100, 0x200, 0x200, 0x100, 0x100, 0x200, 0x200, 0x100, 0x200, 0x100, 0x100, 0x200]"

definition get_parity_bits :: "u16 \<Rightarrow> u16" where
  "get_parity_bits val = parity_tab ! unat (val AND 0xFF)"

definition st40_add_parity_bits :: "u16 \<Rightarrow> u16" where
  "st40_add_parity_bits val = get_parity_bits val OR (val AND 0xFF)"

definition st40_check_parity_bits :: "u16 \<Rightarrow> bool" where
  "st40_check_parity_bits val \<longleftrightarrow> val = st40_add_parity_bits (val AND 0xFF)"

section \<open>Ten-bit words\<close>

definition st_ntohs :: "u8 list \<Rightarrow> nat \<Rightarrow> u16 option" where
  "st_ntohs data off = do {
     b0 \<leftarrow> rd8 data off;
     b1 \<leftarrow> rd8 data (off + 1);
     Some (push_bit 8 (ucast b0) OR ucast b1)
   }"

text \<open>
  The four unions \<open>anc_udw_10_6e\<close>, \<open>anc_udw_2e_10_4e\<close>, \<open>anc_udw_4e_10_2e\<close> and \<open>anc_udw_6e_10\<close>
  place a 10-bit field at bit 6, 4, 2 or 0 of a 16-bit value. Reading and writing such a field:
\<close>

definition field10_get :: "nat \<Rightarrow> u16 \<Rightarrow> u16" where
  "field10_get sh val = drop_bit sh val AND 0x3FF"

definition field10_set :: "nat \<Rightarrow> u16 \<Rightarrow> u16 \<Rightarrow> u16" where
  "field10_set sh udw val = (val AND NOT (push_bit sh 0x3FF)) OR push_bit sh (udw AND 0x3FF)"

definition get_10bit_udw :: "nat \<Rightarrow> u8 list \<Rightarrow> u16 option" where
  "get_10bit_udw idx data =
     (let total_bits_offset = idx * 10;
          byte_offset = total_bits_offset div 8;
          bit_offset = total_bits_offset mod 8
      in do {
        val \<leftarrow> st_ntohs data byte_offset;
        Some (if bit_offset = 0 then field10_get 6 val
              else if bit_offset = 2 then field10_get 4 val
              else if bit_offset = 4 then field10_get 2 val
              else if bit_offset = 6 then field10_get 0 val
              else 0)
      })"

definition set_10bit_udw :: "nat \<Rightarrow> u16 \<Rightarrow> u8 list \<Rightarrow> u8 list option" where
  "set_10bit_udw idx udw data =
     (let total_bits_offset = idx * 10;
          byte_offset = total_bits_offset div 8;
          bit_offset = total_bits_offset mod 8
      in do {
        val \<leftarrow> st_ntohs data byte_offset;
        let val = (if bit_offset = 0 then field10_set 6 udw val
                   else if bit_offset = 2 then field10_set 4 udw val
                   else if bit_offset = 4 then field10_set 2 udw val
                   else if bit_offset = 6 then field10_set 0 udw val
                   else val);
        data \<leftarrow> wr8 data byte_offset (ucast (drop_bit 8 (val AND 0xFF00)));
        wr8 data (byte_offset + 1) (ucast (val AND 0xFF))
      })"

definition st40_get_udw :: "u32 \<Rightarrow> u8 list \<Rightarrow> u16 option" where
  "st40_get_udw idx data = get_10bit_udw (unat idx) data"

definition st40_set_udw :: "u32 \<Rightarrow> u16 \<Rightarrow> u8 list \<Rightarrow> u8 list option" where
  "st40_set_udw idx udw data = set_10bit_udw (unat idx) udw data"

text \<open>The sum loop of the checksum, from word \<open>i\<close> on.\<close>

fun checksum_loop :: "nat \<Rightarrow> nat \<Rightarrow> u16 \<Rightarrow> u8 list \<Rightarrow> u16 option" where
  "checksum_loop 0 i chks data = Some chks"
| "checksum_loop (Suc n) i chks data = do {
     udw \<leftarrow> get_10bit_udw i data;
     checksum_loop n (i + 1) (chks + udw) data
   }"

definition checksum_fold :: "u16 \<Rightarrow> u16" where
  "checksum_fold chks = (let chks = chks AND 0x1FF in (NOT (push_bit 1 chks) AND 0x200) OR chks)"

definition st40_calc_checksum :: "u32 \<Rightarrow> u8 list \<Rightarrow> u16 option" where
  "st40_calc_checksum data_num data =
     map_option checksum_fold (checksum_loop (unat data_num) 0 0 data)"

section \<open>The bit string of a buffer\<close>

definition wire_bit :: "u8 list \<Rightarrow> nat \<Rightarrow> bool" where
  "wire_bit data n = bit (data ! (n div 8)) (7 - n mod 8)"

text \<open>The word at index \<open>idx\<close> fits in the buffer.\<close>

definition udw_fits :: "nat \<Rightarrow> u8 list \<Rightarrow> bool" where
  "udw_fits idx data \<longleftrightarrow> 10 * idx + 10 \<le> 8 * length data"

lemma mask10: "(0x3FF :: u16) = mask 10"
  by (simp add: mask_eq_exp_minus_1)

lemma bit_field10_get: "bit (field10_get sh val) k \<longleftrightarrow> k < 10 \<and> bit val (sh + k)"
  unfolding field10_get_def mask10 by (auto simp: bit_simps)

lemma bit_field10_set:
  assumes "sh \<le> 6" and "m < 16"
  shows "bit (field10_set sh udw val) m \<longleftrightarrow>
    (if sh \<le> m \<and> m < sh + 10 then bit udw (m - sh) else bit val m)"
  using assms unfolding field10_set_def mask10 by (auto simp: bit_simps)

lemma bit_be16:
  assumes "m < 16"
  shows "bit (push_bit 8 (ucast (b0::u8)) OR ucast (b1::u8) :: u16) m \<longleftrightarrow>
    (if m < 8 then bit b1 m else bit b0 (m - 8))"
  using assms by (auto simp: bit_simps bit_u8_out)

text \<open>The four bit offsets a 10-bit word can have, and the shift of its field.\<close>

lemma udw_offset_cases:
  "(idx * 10) mod 8 = 0 \<or> (idx * 10) mod 8 = 2 \<or> (idx * 10) mod 8 = 4 \<or> (idx * 10) mod 8 = (6::nat)"
  by presburger

lemma udw_fits_bytes:
  assumes "udw_fits idx data"
  shows "(idx * 10) div 8 + 1 < length data"
  using assms unfolding udw_fits_def by presburger

lemma get_10bit_udw_eq:
  assumes "udw_fits idx data"
  shows "get_10bit_udw idx data = Some (field10_get (6 - (idx * 10) mod 8)
    (push_bit 8 (ucast (data ! ((idx * 10) div 8))) OR ucast (data ! ((idx * 10) div 8 + 1))))"
  using udw_offset_cases [of idx] udw_fits_bytes [OF assms]
  by (elim disjE) (simp_all add: get_10bit_udw_def st_ntohs_def rd8_def Let_def)

lemma set_10bit_udw_eq:
  assumes "udw_fits idx data"
  shows "set_10bit_udw idx udw data =
    (let q = (idx * 10) div 8;
         val = field10_set (6 - (idx * 10) mod 8) udw
                 (push_bit 8 (ucast (data ! q)) OR ucast (data ! (q + 1)))
     in Some (data[q := ucast (drop_bit 8 (val AND 0xFF00)), q + 1 := ucast (val AND 0xFF)]))"
  using udw_offset_cases [of idx] udw_fits_bytes [OF assms]
  by (elim disjE) (simp_all add: set_10bit_udw_def st_ntohs_def rd8_def wr8_def Let_def)

text \<open>Reading: bit \<open>k\<close> of the word is the wire bit \<open>9 - k\<close> places into it.\<close>

lemma wire_bit_bytes:
  assumes "q = n div 8 \<or> Suc q = n div 8"
  shows "wire_bit data n \<longleftrightarrow>
    bit (push_bit 8 (ucast (data ! q)) OR ucast (data ! (q + 1)) :: u16) (15 - (n - 8 * q))"
proof -
  define a b where "a = n div 8" and "b = n mod 8"
  have n: "n = 8 * a + b" and b: "b < 8" by (simp_all add: a_def b_def)
  have wire: "wire_bit data n \<longleftrightarrow> bit (data ! a) (7 - b)"
    by (simp add: wire_bit_def a_def b_def)
  from assms have "q = a \<or> Suc q = a" by (simp add: a_def)
  then show ?thesis
  proof
    assume "q = a"
    then show ?thesis using n b wire by (subst bit_be16) auto
  next
    assume "Suc q = a"
    then show ?thesis using n b wire by (subst bit_be16) auto
  qed
qed

lemma get_10bit_udw_bits:
  assumes "udw_fits idx data"
  shows "\<exists>w. get_10bit_udw idx data = Some w \<and>
    (\<forall>k. bit w k \<longleftrightarrow> k < 10 \<and> wire_bit data (10 * idx + (9 - k)))"
proof -
  define q r where "q = (idx * 10) div 8" and "r = (idx * 10) mod 8"
  let ?q = q and ?r = r
  let ?v = "push_bit 8 (ucast (data ! ?q)) OR ucast (data ! (?q + 1)) :: u16"
  have r: "?r \<le> 6" using udw_offset_cases [of idx] by (auto simp: r_def)
  have split: "10 * idx = 8 * ?q + ?r"
    using div_mult_mod_eq [of "idx * 10" 8] by (simp only: q_def r_def mult.commute)
  have "bit (field10_get (6 - ?r) ?v) k \<longleftrightarrow> k < 10 \<and> wire_bit data (10 * idx + (9 - k))" for k
  proof (cases "k < 10")
    case True
    let ?n = "10 * idx + (9 - k)"
    have n: "?n = 8 * ?q + (?r + (9 - k))" using split by simp
    have "?q = ?n div 8 \<or> Suc ?q = ?n div 8"
      unfolding n using r True by auto
    moreover have "15 - (?n - 8 * ?q) = 6 - ?r + k"
      unfolding n using r True by simp
    ultimately have "wire_bit data ?n \<longleftrightarrow> bit ?v (6 - ?r + k)"
      using wire_bit_bytes [of ?q ?n data] by simp
    then show ?thesis using True by (simp add: bit_field10_get)
  next
    case False
    then show ?thesis by (simp add: bit_field10_get)
  qed
  then show ?thesis using get_10bit_udw_eq [OF assms] unfolding q_def r_def by blast
qed

lemma u8_halves:
  fixes val :: u16
  shows "push_bit 8 (ucast (ucast (drop_bit 8 (val AND 0xFF00)) :: u8)) OR
    ucast (ucast (val AND 0xFF) :: u8) = val"
  by (simp add: bit_blast)

text \<open>Writing: exactly the ten wire bits of the word change.\<close>

lemma set_10bit_udw_bits:
  assumes "udw_fits idx data"
  shows "\<exists>d. set_10bit_udw idx udw data = Some d \<and> length d = length data \<and>
    (\<forall>n < 8 * length data. wire_bit d n \<longleftrightarrow>
       (if 10 * idx \<le> n \<and> n < 10 * idx + 10 then bit udw (9 - (n - 10 * idx)) else wire_bit data n))"
proof -
  define q r where "q = (idx * 10) div 8" and "r = (idx * 10) mod 8"
  let ?q = q and ?r = r
  define v where "v = (push_bit 8 (ucast (data ! ?q)) OR ucast (data ! (?q + 1)) :: u16)"
  define v' where "v' = field10_set (6 - ?r) udw v"
  define d where "d = data[?q := ucast (drop_bit 8 (v' AND 0xFF00)), ?q + 1 := ucast (v' AND 0xFF)]"
  have r: "?r \<le> 6" using udw_offset_cases [of idx] by (auto simp: r_def)
  have split: "10 * idx = 8 * ?q + ?r"
    using div_mult_mod_eq [of "idx * 10" 8] by (simp only: q_def r_def mult.commute)
  have q: "?q + 1 < length data" unfolding q_def by (rule udw_fits_bytes [OF assms])
  have set_eq: "set_10bit_udw idx udw data = Some d"
    using set_10bit_udw_eq [OF assms] by (simp only: v_def v'_def d_def q_def r_def Let_def)
  have pair: "push_bit 8 (ucast (d ! ?q)) OR ucast (d ! (?q + 1)) = v'"
    using q u8_halves [of v'] by (simp add: d_def)
  have "wire_bit d n \<longleftrightarrow>
       (if 10 * idx \<le> n \<and> n < 10 * idx + 10 then bit udw (9 - (n - 10 * idx)) else wire_bit data n)"
    for n
  proof (cases "?q = n div 8 \<or> Suc ?q = n div 8")
    case True
    have n: "8 * ?q \<le> n" "n < 8 * ?q + 16" using True by auto
    let ?m = "15 - (n - 8 * ?q)"
    have "wire_bit d n \<longleftrightarrow> bit v' ?m"
      using wire_bit_bytes [OF True, of d] pair by simp
    also have "\<dots> \<longleftrightarrow> (if 6 - ?r \<le> ?m \<and> ?m < 6 - ?r + 10 then bit udw (?m - (6 - ?r)) else bit v ?m)"
      unfolding v'_def by (rule bit_field10_set) auto
    also have "6 - ?r \<le> ?m \<and> ?m < 6 - ?r + 10 \<longleftrightarrow> 10 * idx \<le> n \<and> n < 10 * idx + 10"
      unfolding split using n r by auto
    also have "bit v ?m \<longleftrightarrow> wire_bit data n"
      using wire_bit_bytes [OF True, of data] by (simp add: v_def)
    finally show ?thesis
      unfolding split using n r by (auto simp: algebra_simps)
  next
    case False
    then have "\<not> (10 * idx \<le> n \<and> n < 10 * idx + 10)"
      unfolding split using r by auto
    moreover have "d ! (n div 8) = data ! (n div 8)"
      using False by (simp add: d_def)
    ultimately show ?thesis by (auto simp: wire_bit_def)
  qed
  then show ?thesis using set_eq by (simp add: d_def)
qed

section \<open>The interface of an array of packed words\<close>

locale word_array =
  fixes fits :: "nat \<Rightarrow> 'm \<Rightarrow> bool"
    and trunc :: "'w \<Rightarrow> 'w"
    and get :: "nat \<Rightarrow> 'm \<Rightarrow> 'w option"
    and set :: "nat \<Rightarrow> 'w \<Rightarrow> 'm \<Rightarrow> 'm option"
  assumes get_some: "fits i m \<Longrightarrow> \<exists>w. get i m = Some w"
    and set_some: "fits i m \<Longrightarrow> \<exists>m'. set i w m = Some m' \<and> (\<forall>j. fits j m' \<longleftrightarrow> fits j m) \<and>
      get i m' = Some (trunc w) \<and> (\<forall>j. fits j m \<longrightarrow> j \<noteq> i \<longrightarrow> get j m' = get j m)"
begin

text \<open>Writing a list of words at consecutive indices.\<close>

primrec set_from :: "nat \<Rightarrow> 'w list \<Rightarrow> 'm \<Rightarrow> 'm option" where
  "set_from i [] m = Some m"
| "set_from i (w # ws) m = Option.bind (set i w m) (set_from (Suc i) ws)"

text \<open>Reading them back.\<close>

primrec get_from :: "nat \<Rightarrow> nat \<Rightarrow> 'm \<Rightarrow> 'w list option" where
  "get_from i 0 m = Some []"
| "get_from i (Suc n) m = Option.bind (get i m) (\<lambda>w. map_option (Cons w) (get_from (Suc i) n m))"

lemma set_from_some:
  assumes "\<forall>j. i \<le> j \<and> j < i + length ws \<longrightarrow> fits j m"
  shows "\<exists>m'. set_from i ws m = Some m' \<and> (\<forall>j. fits j m' \<longleftrightarrow> fits j m) \<and>
    (\<forall>k < length ws. get (i + k) m' = Some (trunc (ws ! k))) \<and>
    (\<forall>j. fits j m \<longrightarrow> j < i \<or> i + length ws \<le> j \<longrightarrow> get j m' = get j m)"
  using assms
proof (induction ws arbitrary: i m)
  case (Cons w ws)
  obtain m1 where m1: "set i w m = Some m1" "\<forall>j. fits j m1 \<longleftrightarrow> fits j m"
    "get i m1 = Some (trunc w)" "\<forall>j. fits j m \<longrightarrow> j \<noteq> i \<longrightarrow> get j m1 = get j m"
    using set_some [of i m w] Cons.prems by auto
  have "\<forall>j. Suc i \<le> j \<and> j < Suc i + length ws \<longrightarrow> fits j m1"
    using Cons.prems m1(2) by auto
  from Cons.IH [OF this] obtain m' where m':
    "set_from (Suc i) ws m1 = Some m'" "\<forall>j. fits j m' \<longleftrightarrow> fits j m1"
    "\<forall>k < length ws. get (Suc i + k) m' = Some (trunc (ws ! k))"
    "\<forall>j. fits j m1 \<longrightarrow> j < Suc i \<or> Suc i + length ws \<le> j \<longrightarrow> get j m' = get j m1"
    by auto
  have fits_i: "fits i m1" using Cons.prems m1(2) by auto
  have "get (i + k) m' = Some (trunc ((w # ws) ! k))" if "k < length (w # ws)" for k
    using that m'(3,4) m1(3) fits_i by (cases k) auto
  then show ?case using m1 m' by auto
qed simp

lemma get_from_eq:
  assumes "\<forall>k < length ws. get (i + k) m = Some (ws ! k)"
  shows "get_from i (length ws) m = Some ws"
  using assms
proof (induction ws arbitrary: i)
  case (Cons w ws)
  have "get i m = Some w" using Cons.prems by force
  moreover have "\<forall>k < length ws. get (Suc i + k) m = Some (ws ! k)"
    using Cons.prems by force
  ultimately show ?case using Cons.IH [of "Suc i"] by simp
qed simp

text \<open>What was written is what is read.\<close>

lemma get_set_from:
  assumes "\<forall>j. i \<le> j \<and> j < i + length ws \<longrightarrow> fits j m" and "set_from i ws m = Some m'"
  shows "get_from i (length ws) m' = Some (map trunc ws)"
  using set_from_some [OF assms(1)] assms(2) get_from_eq [of "map trunc ws" i m'] by auto

end

interpretation udw: word_array udw_fits "\<lambda>w. w AND 0x3FF" get_10bit_udw set_10bit_udw
proof (unfold_locales, goal_cases)
  case (1 i m)
  then show ?case using get_10bit_udw_bits by blast
next
  case (2 i m w)
  obtain d where d: "set_10bit_udw i w m = Some d" "length d = length m"
    and bits: "\<forall>n < 8 * length m. wire_bit d n \<longleftrightarrow>
       (if 10 * i \<le> n \<and> n < 10 * i + 10 then bit w (9 - (n - 10 * i)) else wire_bit m n)"
    using set_10bit_udw_bits [OF 2, of w] by blast
  have fits: "udw_fits j d \<longleftrightarrow> udw_fits j m" for j
    using d(2) by (simp add: udw_fits_def)
  have self: "get_10bit_udw i d = Some (w AND 0x3FF)"
  proof -
    obtain v where v: "get_10bit_udw i d = Some v"
      "\<forall>k. bit v k \<longleftrightarrow> k < 10 \<and> wire_bit d (10 * i + (9 - k))"
      using get_10bit_udw_bits [OF fits [THEN iffD2, OF 2]] by blast
    have "bit v k \<longleftrightarrow> k < 10 \<and> bit w k" for k
      using v(2) bits 2 by (auto simp: udw_fits_def)
    moreover have "bit (w AND 0x3FF) k \<longleftrightarrow> k < 10 \<and> bit w k" for k
      unfolding mask10 by (auto simp: bit_simps)
    ultimately have "v = w AND 0x3FF" by (auto intro: bit_word_eqI)
    with v show ?thesis by simp
  qed
  have other: "get_10bit_udw j d = get_10bit_udw j m" if jm: "udw_fits j m" and ne: "j \<noteq> i" for j
  proof -
    obtain v where v: "get_10bit_udw j d = Some v"
      "\<forall>k. bit v k \<longleftrightarrow> k < 10 \<and> wire_bit d (10 * j + (9 - k))"
      using get_10bit_udw_bits [OF fits [THEN iffD2, OF jm]] by blast
    obtain v' where v': "get_10bit_udw j m = Some v'"
      "\<forall>k. bit v' k \<longleftrightarrow> k < 10 \<and> wire_bit m (10 * j + (9 - k))"
      using get_10bit_udw_bits [OF jm] by blast
    have "wire_bit d (10 * j + (9 - k)) = wire_bit m (10 * j + (9 - k))" if "k < 10" for k
    proof -
      have "10 * j + (9 - k) < 8 * length m" using jm that by (simp add: udw_fits_def)
      moreover have "\<not> (10 * i \<le> 10 * j + (9 - k) \<and> 10 * j + (9 - k) < 10 * i + 10)"
        using ne that by (cases "j < i") auto
      ultimately show ?thesis using bits by presburger
    qed
    then have "bit v k = bit v' k" for k using v(2) v'(2) by blast
    then have "v = v'" by (auto intro: bit_word_eqI)
    with v v' show ?thesis by simp
  qed
  show ?case using d fits self other by auto
qed

section \<open>Parity and checksum\<close>

text \<open>The number of ones in the low byte is odd.\<close>

definition odd_ones :: "u16 \<Rightarrow> bool" where
  "odd_ones v \<longleftrightarrow> odd (length (filter (bit v) [0, 1, 2, 3, 4, 5, 6, 7]))"

lemma parity_tab_all:
  "parity_tab = map (\<lambda>k. if odd_ones (of_nat k) then 0x100 else 0x200) [0..<256]"
  by (simp add: parity_tab_def odd_ones_def upt_rec)

lemma mask8_u16: "(0xFF :: u16) = mask 8"
  by (simp add: mask_eq_exp_minus_1)

lemma odd_ones_low: "odd_ones (v AND 0xFF) = odd_ones v"
  by (simp add: odd_ones_def bit_simps)

lemma get_parity_bits_eq: "get_parity_bits v = (if odd_ones v then 0x100 else 0x200)"
proof -
  let ?k = "unat (v AND 0xFF)"
  have "?k < 256" using word_and_le1 [of v "0xFF"] by (simp add: word_le_nat_alt and.commute)
  then have "parity_tab ! ?k = (if odd_ones (of_nat ?k) then 0x100 else 0x200)"
    unfolding parity_tab_all by simp
  then show ?thesis by (simp add: get_parity_bits_def odd_ones_low)
qed

lemma bit_add_parity:
  "bit (st40_add_parity_bits v) k \<longleftrightarrow>
    (if k < 8 then bit v k else if k = 8 then odd_ones v else k = 9 \<and> \<not> odd_ones v)"
proof -
  have "bit (0x100 :: u16) k \<longleftrightarrow> k = 8" "bit (0x200 :: u16) k \<longleftrightarrow> k = 9"
    using bit_exp_iff [of 8 k, where 'a = "16 word"] bit_exp_iff [of 9 k, where 'a = "16 word"] 
    by (auto)
  then show ?thesis
    unfolding st40_add_parity_bits_def get_parity_bits_eq mask8_u16 by (auto simp: bit_simps)
qed

lemma odd_ones_cong: "(\<And>k. k < 8 \<Longrightarrow> bit a k = bit b k) \<Longrightarrow> odd_ones a = odd_ones b"
  by (simp add: odd_ones_def)

lemma odd_ones_flip: "k < 8 \<Longrightarrow> odd_ones (flip_bit k w) \<longleftrightarrow> \<not> odd_ones w"
proof -
  assume "k < 8"
  then have "k \<in> {0, 1, 2, 3, 4, 5, 6, 7}" by auto
  then show ?thesis
    unfolding insert_iff empty_iff
    by (elim disjE) (simp_all add: odd_ones_def bit_flip_bit_iff)
qed

lemma add_parity_low [simp]: "st40_add_parity_bits (v AND 0xFF) = st40_add_parity_bits v"
  by (simp add: st40_add_parity_bits_def get_parity_bits_def and.assoc)

lemma low_add_parity [simp]: "st40_add_parity_bits v AND 0xFF = v AND 0xFF"
  unfolding mask8_u16 by (rule bit_word_eqI) (auto simp: bit_add_parity bit_simps)

lemma low10_iff: "(w :: u16) AND 0x3FF = w \<longleftrightarrow> (\<forall>k. 10 \<le> k \<longrightarrow> \<not> bit w k)"
proof
  assume "w AND 0x3FF = w"
  then show "\<forall>k. 10 \<le> k \<longrightarrow> \<not> bit w k" unfolding mask10 by (metis bit_and_iff bit_mask_iff not_less)
next
  assume high: "\<forall>k. 10 \<le> k \<longrightarrow> \<not> bit w k"
  have "bit (w AND mask 10) k = bit w k" for k
    using high [rule_format, of k] by (cases "k < 10") (simp_all add: bit_and_iff bit_mask_iff)
  then show "w AND 0x3FF = w" unfolding mask10 by (intro bit_word_eqI)
qed

lemma check_add_parity [simp]: "st40_check_parity_bits (st40_add_parity_bits v)"
  by (simp add: st40_check_parity_bits_def)

lemma add_parity_10bit [simp]: "st40_add_parity_bits v AND 0x3FF = st40_add_parity_bits v"
  unfolding mask10 by (rule bit_word_eqI) (auto simp: bit_add_parity bit_simps)

text \<open>
  C30. The parity bits of ST 291: \<open>st40_add_parity_bits\<close> keeps the low eight bits and gives a word that
  \<open>st40_check_parity_bits\<close> accepts; the check accepts exactly the 10-bit words whose bit 8 is the
  even parity of bits 0 to 7 and whose bit 9 is the complement of bit 8, so that no error in a
  single one of the ten bits goes unnoticed.
\<close>

theorem parity_check_correct:
  "st40_check_parity_bits (st40_add_parity_bits v) \<and>
   st40_add_parity_bits v AND 0xFF = v AND 0xFF \<and>
   (st40_check_parity_bits w \<longleftrightarrow>
     (bit w 8 \<longleftrightarrow> odd_ones w) \<and> (bit w 9 \<longleftrightarrow> \<not> bit w 8) \<and> w AND 0x3FF = w) \<and>
   (k < 10 \<longrightarrow> \<not> (st40_check_parity_bits w \<and> st40_check_parity_bits (flip_bit k w)))"
proof -
  have chk: "st40_check_parity_bits w \<longleftrightarrow>
     (bit w 8 \<longleftrightarrow> odd_ones w) \<and> (bit w 9 \<longleftrightarrow> \<not> bit w 8) \<and> w AND 0x3FF = w" (is "_ \<longleftrightarrow> ?r w") for w
  proof -
    have "st40_check_parity_bits w \<longleftrightarrow> w = st40_add_parity_bits w"
      by (simp add: st40_check_parity_bits_def)
    also have "\<dots> \<longleftrightarrow> (\<forall>k. bit w k = bit (st40_add_parity_bits w) k)"
      by (auto intro: bit_word_eqI)
    also have "\<dots> \<longleftrightarrow> (bit w 8 \<longleftrightarrow> odd_ones w) \<and> (bit w 9 \<longleftrightarrow> \<not> bit w 8) \<and> (\<forall>k. 10 \<le> k \<longrightarrow> \<not> bit w k)"
      (is "?all \<longleftrightarrow> ?rhs")
    proof
      assume all: ?all
      have "\<not> bit w k" if "10 \<le> k" for k using all [rule_format, of k] that by (simp add: bit_add_parity)
      then show ?rhs
        using all [rule_format, of 8] all [rule_format, of 9] by (simp add: bit_add_parity)
    next
      assume rhs: ?rhs
      show ?all
      proof
        fix k :: nat
        consider "k < 8" | "k = 8" | "k = 9" | "10 \<le> k" by linarith
        then show "bit w k = bit (st40_add_parity_bits w) k"
          using rhs by cases (simp_all add: bit_add_parity)
      qed
    qed
    also have "(\<forall>k. 10 \<le> k \<longrightarrow> \<not> bit w k) \<longleftrightarrow> w AND 0x3FF = w"
      by (simp add: low10_iff)
    finally show ?thesis .
  qed
  have "\<not> (?r w \<and> ?r (flip_bit k w))" if "k < 10"
  proof -
    from that consider "k < 8" | "k = 8" | "k = 9" by linarith
    then show ?thesis
    proof cases
      case 1
      then show ?thesis using odd_ones_flip [of k w] by (auto simp: bit_flip_bit_iff)
    next
      case 2
      then show ?thesis using odd_ones_cong [of "flip_bit k w" w] by (auto simp: bit_flip_bit_iff)
    next
      case 3
      then show ?thesis using odd_ones_cong [of "flip_bit k w" w] by (auto simp: bit_flip_bit_iff)
    qed
  qed
  then show ?thesis using chk check_add_parity [of v] low_add_parity [of v] by blast
qed
theorem parity_check_correct_witness:
  "st40_add_parity_bits 0x161 = 0x161 \<and> \<not> st40_check_parity_bits 0x169"
proof -
  have a: "st40_add_parity_bits 0x161 = 0x161" by code_simp
  have b: "flip_bit 3 (0x161 :: u16) = 0x169" by (simp add: flip_bit_eq_xor)
  have c: "st40_check_parity_bits 0x161" by code_simp
  show ?thesis using parity_check_correct [of "0x161" "0x161" 3] a c unfolding b by fastforce
qed

lemma checksum_loop_sum:
  assumes "udw.get_from i n data = Some ws"
  shows "checksum_loop n i c data = Some (c + sum_list ws)"
  using assms
  by (induction n arbitrary: i c ws) (auto split: bind_splits simp: algebra_simps)

lemma bit_checksum_fold:
  "bit (checksum_fold c) k \<longleftrightarrow> (if k < 9 then bit c k else k = 9 \<and> \<not> bit c 8)"
proof -
  have m: "(0x1FF :: u16) = mask 9" "(0x200 :: u16) = push_bit 9 1"
    by (simp_all add: mask_eq_exp_minus_1)
  have one: "bit (1 :: u16) k \<longleftrightarrow> k = 0" for k by (simp add: bit_1_iff)
  show ?thesis
    unfolding checksum_fold_def Let_def m bit_or_iff bit_and_iff bit_not_iff bit_push_bit_iff
      bit_mask_iff one
    by auto
qed

lemma checksum_fold_spec:
  "checksum_fold c AND 0x1FF = c AND 0x1FF \<and> (bit (checksum_fold c) 9 \<longleftrightarrow> \<not> bit (checksum_fold c) 8) \<and>
   checksum_fold c AND 0x3FF = checksum_fold c"
proof -
  have m: "(0x1FF :: u16) = mask 9" by (simp add: mask_eq_exp_minus_1)
  show ?thesis
    unfolding m mask10 by (auto simp: bit_checksum_fold bit_and_iff bit_mask_iff intro!: bit_word_eqI)
qed

lemma sum_list_u16_mod:
  "unat (sum_list ws AND 0x1FF :: u16) = (\<Sum>w\<leftarrow>ws. unat w) mod 512"
proof -
  have m: "(0x1FF :: u16) = mask 9" by (simp add: mask_eq_exp_minus_1)
  have "(sum_list ws :: u16) = of_nat (\<Sum>w\<leftarrow>ws. unat w)" by (induction ws) auto
  then have "unat (sum_list ws AND 0x1FF :: u16) = take_bit 9 (take_bit 16 (\<Sum>w\<leftarrow>ws. unat w))"
    unfolding m take_bit_eq_mask [symmetric] unsigned_take_bit_eq
    by (simp add: unat_of_nat take_bit_eq_mod)
  then show ?thesis by (simp add: take_bit_eq_mod mod_mod_cancel)
qed

lemma get_from_nth:
  assumes "udw.get_from i n data = Some ws"
  shows "length ws = n \<and> (\<forall>k < n. get_10bit_udw (i + k) data = Some (ws ! k))"
  using assms
proof (induction n arbitrary: i ws)
  case (Suc n)
  then obtain w ws' where w: "get_10bit_udw i data = Some w" "udw.get_from (Suc i) n data = Some ws'"
    "ws = w # ws'" by (auto split: bind_splits)
  show ?case using Suc.IH [OF w(2)] w by (auto simp: less_Suc_eq_0_disj)
qed simp

lemma get_from_total:
  assumes "udw_fits (i + n - 1) data \<or> n = 0"
  shows "\<exists>ws. udw.get_from i n data = Some ws \<and> length ws = n"
  using assms
proof (induction n arbitrary: i)
  case (Suc n)
  have "udw_fits i data" using Suc.prems by (auto simp: udw_fits_def)
  moreover have "udw_fits (Suc i + n - 1) data \<or> n = 0" using Suc.prems by auto
  ultimately show ?case using Suc.IH [of "Suc i"] udw.get_some [of i data] by fastforce
qed simp



end
