(* ===== verification/Anc_Codec.thy ===== *)
theory Anc_Codec
  imports Ancillary
begin

text \<open>
  The encoder and the decoder of one RFC 8331 ANC sub-packet
  (\<^verbatim>\<open>lib/src/st2110/st_ancillary.c\<close>) over the packed 10-bit words of theory \<open>Ancillary\<close>. The
  properties: what the encoder writes the decoder reads back, the decoder never leaves its
  buffers whatever bytes it is given, and the errors the encoder reports.
\<close>

section \<open>The sub-packet codec\<close>

text \<open>\<open>struct st40_meta\<close>; the fields carry the prefix \<open>m_\<close>.\<close>

record st40_meta =
  m_c :: u16
  m_line_number :: u16
  m_hori_offset :: u16
  m_s :: u16
  m_stream_num :: u16
  m_did :: u16
  m_sdid :: u16
  m_udw_size :: u16
  m_udw_offset :: u16

datatype st40_rfc8331_decode_result = ST40_RFC8331_DECODE_OK | ST40_RFC8331_DECODE_SHORT_BUFFER
  | ST40_RFC8331_DECODE_PARITY_FAIL | ST40_RFC8331_DECODE_CHECKSUM_FAIL

text \<open>The two words of \<open>struct st40_rfc8331_payload_hdr\<close>, swapped between host and wire order, and
  the one of \<open>struct st40_rfc8331_rtp_hdr\<close>.\<close>

definition st40_rfc8331_rtp_hdr_bswap :: "u32 \<Rightarrow> u32" where
  "st40_rfc8331_rtp_hdr_bswap swapped_first_hdr_chunk = bswap32 swapped_first_hdr_chunk"

definition st40_rfc8331_payload_hdr_bswap :: "u32 \<times> u32 \<Rightarrow> u32 \<times> u32" where
  "st40_rfc8331_payload_hdr_bswap hdr = (bswap32 (fst hdr), bswap32 (snd hdr))"

text \<open>The bit fields of \<open>struct st40_rfc8331_payload_hdr\<close> as host-order 32-bit values.\<close>

definition first_hdr_chunk :: "st40_meta \<Rightarrow> u32" where
  "first_hdr_chunk meta =
     (ucast (m_stream_num meta) AND 0x7F) OR push_bit 7 (ucast (m_s meta) AND 1) OR
     push_bit 8 (ucast (m_hori_offset meta) AND 0xFFF) OR
     push_bit 20 (ucast (m_line_number meta) AND 0x7FF) OR push_bit 31 (ucast (m_c meta) AND 1)"

definition second_hdr_chunk :: "u16 \<Rightarrow> u16 \<Rightarrow> u16 \<Rightarrow> u32" where
  "second_hdr_chunk did sdid data_count =
     push_bit 2 (ucast data_count AND 0x3FF) OR push_bit 12 (ucast sdid AND 0x3FF) OR
     push_bit 22 (ucast did AND 0x3FF)"

definition hdr_did :: "u32 \<Rightarrow> u16" where
  "hdr_did chunk = ucast (drop_bit 22 chunk AND 0x3FF)"

definition hdr_sdid :: "u32 \<Rightarrow> u16" where
  "hdr_sdid chunk = ucast (drop_bit 12 chunk AND 0x3FF)"

definition hdr_data_count :: "u32 \<Rightarrow> u16" where
  "hdr_data_count chunk = ucast (drop_bit 2 chunk AND 0x3FF)"

definition st40_rfc8331_payload_bytes :: "u16 \<Rightarrow> u32" where
  "st40_rfc8331_payload_bytes udw_size =
     (let total_bits = (3 + ucast udw_size + 1) * 10;
          total_size = (total_bits + 7) div 8;
          total_size = (total_size + 3) AND NOT 3
      in (8 - 4) + total_size)"

text \<open>The loop of the encoder over the user data words, \<open>n\<close> of them from \<open>i\<close> on.\<close>

fun encode_udws :: "nat \<Rightarrow> nat \<Rightarrow> u8 list \<Rightarrow> u8 list \<Rightarrow> u8 list option" where
  "encode_udws 0 i udw_in udw_dst = Some udw_dst"
| "encode_udws (Suc n) i udw_in udw_dst = do {
     b \<leftarrow> rd8 udw_in i;
     udw_dst \<leftarrow> st40_set_udw (of_nat i + 3) (st40_add_parity_bits (ucast b)) udw_dst;
     encode_udws n (i + 1) udw_in udw_dst
   }"

text \<open>
  The outer \<open>option\<close> is \<open>None\<close> on an access outside a buffer; the result is the errno, or the
  buffer after the call and \<open>*written\<close>.
\<close>

definition st40_rfc8331_encode_packet ::
  "u8 list \<Rightarrow> u32 \<Rightarrow> st40_meta \<Rightarrow> u8 list \<Rightarrow> (u8 list \<times> u32) res option" where
  "st40_rfc8331_encode_packet buf room meta udw_in =
     (let udw_size = m_udw_size meta in
      if udw_size > 0xFF then Some (Inl EINVAL)
      else
        let need = st40_rfc8331_payload_bytes udw_size in
        if room < need then Some (Inl ENOSPC)
        else if length buf < unat need then None
        else
          let buf0 = replicate (unat need) 0 @ drop (unat need) buf;
              (first, second) = st40_rfc8331_payload_hdr_bswap
                (first_hdr_chunk meta,
                 second_hdr_chunk (st40_add_parity_bits (m_did meta))
                   (st40_add_parity_bits (m_sdid meta)) (st40_add_parity_bits udw_size));
              buf1 = (le_bytes32 first @ le_bytes32 second) @ drop 8 buf0
          in do {
            udw_dst \<leftarrow> encode_udws (unat udw_size) 0 udw_in (drop 4 buf1);
            checksum \<leftarrow> st40_calc_checksum (3 + ucast udw_size) udw_dst;
            udw_dst \<leftarrow> st40_set_udw (ucast udw_size + 3) checksum udw_dst;
            Some (Inr (take 4 buf1 @ udw_dst, need))
          })"

text \<open>The loop of the decoder; \<open>udw_out\<close> is \<open>None\<close> for a NULL pointer. The flag is false when a
  word fails its parity check, which stops the loop.\<close>

fun decode_udws :: "nat \<Rightarrow> nat \<Rightarrow> u8 list \<Rightarrow> u8 list option \<Rightarrow> (bool \<times> u8 list option) option" where
  "decode_udws 0 i udw_src udw_out = Some (True, udw_out)"
| "decode_udws (Suc n) i udw_src udw_out = do {
     udw \<leftarrow> st40_get_udw (of_nat i + 3) udw_src;
     if \<not> st40_check_parity_bits udw then Some (False, udw_out)
     else do {
       udw_out \<leftarrow> (case udw_out of None \<Rightarrow> Some None
                  | Some out \<Rightarrow> map_option Some (wr8 out i (ucast (udw AND 0xFF))));
       decode_udws n (i + 1) udw_src udw_out
     }
   }"

text \<open>The assignments to \<open>*meta\<close> at the end of the decoder.\<close>

definition meta_of_hdr :: "u32 \<Rightarrow> u32 \<Rightarrow> st40_meta" where
  "meta_of_hdr chunk1 chunk2 =
     \<lparr>m_c = ucast (drop_bit 31 chunk1),
      m_line_number = ucast (drop_bit 20 chunk1 AND 0x7FF),
      m_hori_offset = ucast (drop_bit 8 chunk1 AND 0xFFF),
      m_s = ucast (drop_bit 7 chunk1 AND 1),
      m_stream_num = ucast (chunk1 AND 0x7F),
      m_did = hdr_did chunk2 AND 0xFF,
      m_sdid = hdr_sdid chunk2 AND 0xFF,
      m_udw_size = hdr_data_count chunk2 AND 0xFF,
      m_udw_offset = 0\<rparr>"

text \<open>The result is the return value with \<open>*meta\<close>, the bytes at \<open>udw_out\<close> and \<open>*consumed\<close> after
  the call.\<close>

definition st40_rfc8331_decode_packet ::
  "u8 list \<Rightarrow> u32 \<Rightarrow> st40_meta \<Rightarrow> u8 list option \<Rightarrow> u32 \<Rightarrow> u32 \<Rightarrow>
     (st40_rfc8331_decode_result \<times> st40_meta \<times> u8 list option \<times> u32) option" where
  "st40_rfc8331_decode_packet buf room meta udw_out udw_cap consumed =
     (if room < 8 then Some (ST40_RFC8331_DECODE_SHORT_BUFFER, meta, udw_out, consumed)
      else if length buf < 8 then None
      else
        let (chunk1, chunk2) = st40_rfc8331_payload_hdr_bswap
              (le_word32 (buf ! 0) (buf ! 1) (buf ! 2) (buf ! 3),
               le_word32 (buf ! 4) (buf ! 5) (buf ! 6) (buf ! 7))
        in
        if \<not> st40_check_parity_bits (hdr_did chunk2) \<or> \<not> st40_check_parity_bits (hdr_sdid chunk2) \<or>
           \<not> st40_check_parity_bits (hdr_data_count chunk2)
        then Some (ST40_RFC8331_DECODE_PARITY_FAIL, meta, udw_out, consumed)
        else
          let udw_size = hdr_data_count chunk2 AND 0xFF;
              need = st40_rfc8331_payload_bytes udw_size
          in
          if room < need then Some (ST40_RFC8331_DECODE_SHORT_BUFFER, meta, udw_out, consumed)
          else if udw_out \<noteq> None \<and> ucast udw_size > udw_cap
          then Some (ST40_RFC8331_DECODE_SHORT_BUFFER, meta, udw_out, consumed)
          else
            let udw_src = drop 4 buf in do {
              (ok, udw_out) \<leftarrow> decode_udws (unat udw_size) 0 udw_src udw_out;
              if \<not> ok then Some (ST40_RFC8331_DECODE_PARITY_FAIL, meta, udw_out, consumed)
              else do {
                checksum_wire \<leftarrow> st40_get_udw (ucast udw_size + 3) udw_src;
                checksum_calc \<leftarrow> st40_calc_checksum (3 + ucast udw_size) udw_src;
                if checksum_wire \<noteq> checksum_calc
                then Some (ST40_RFC8331_DECODE_CHECKSUM_FAIL, meta, udw_out, consumed)
                else
                  Some (ST40_RFC8331_DECODE_OK,
                    meta_of_hdr chunk1 chunk2,
                    udw_out, need)
              }
            })"

section \<open>The codec is correct\<close>

lemma and_not_3: "(w :: u32) AND NOT 3 = push_bit 2 (drop_bit 2 w)"
  by (simp add: bit_blast) (simp add: numeral_2_eq_2 numeral_3_eq_3)

lemma unat_payload_bytes:
  "unat (st40_rfc8331_payload_bytes n) = 4 + 4 * ((10 * (unat n + 4) + 31) div 32)"
proof -
  have n: "unat n < 65536" using unsigned_less [of n] by simp
  define t :: u32 where "t = (3 + ucast n + 1) * 10"
  have e: "(3 + ucast n + 1 :: u32) * 10 = of_nat (10 * (unat n + 4))"
    by (simp add: algebra_simps)
  have t: "unat t = 10 * (unat n + 4)"
    unfolding t_def e by (rule unat_of_nat_small) (use n in simp)
  have t7: "unat (t + 7) = unat t + 7" using t n by (simp add: unat_word_ariths)
  have d: "unat ((t + 7) div 8) = (unat t + 7) div 8" using t7 by (simp add: unat_div)
  have s: "unat ((t + 7) div 8 + 3) = (unat t + 7) div 8 + 3"
    using d t n by (simp add: unat_word_ariths)
  have p: "unat (push_bit 2 (drop_bit 2 w)) = 4 * (unat w div 4)" for w :: u32
  proof -
    have "4 * (unat w div 4) \<le> unat w" by simp
    also have "unat w < 2 ^ 32" using unsigned_less [of w] by simp
    finally show ?thesis
      using unat_mult_small [of 4 "w div 4"]
      by (simp add: push_bit_eq_mult drop_bit_eq_div unat_div mult.commute)
  qed
  have "unat (4 + push_bit 2 (drop_bit 2 ((t + 7) div 8 + 3))) =
     4 + 4 * (((unat t + 7) div 8 + 3) div 4)"
    using p [of "(t + 7) div 8 + 3"] s t n by (simp add: unat_word_ariths)
  also have "((unat t + 7) div 8 + 3) div 4 = (unat t + 31) div 32"
    using div_mult2_eq [of "unat t + 31" 8 4] div_mult_self2 [of 8 "unat t + 7" 3]
    by (simp add: add.commute)
  finally show ?thesis
    unfolding st40_rfc8331_payload_bytes_def Let_def and_not_3 using t by (simp add: t_def)
qed

lemma hdr_words:
  assumes "4 \<le> length d"
  shows "get_10bit_udw 0 d = Some (hdr_did (bswap32 (le_word32 (d ! 0) (d ! 1) (d ! 2) (d ! 3))))"
    and "get_10bit_udw 1 d = Some (hdr_sdid (bswap32 (le_word32 (d ! 0) (d ! 1) (d ! 2) (d ! 3))))"
    and "get_10bit_udw 2 d = Some (hdr_data_count (bswap32 (le_word32 (d ! 0) (d ! 1) (d ! 2) (d ! 3))))"
  using assms
  by (simp_all add: get_10bit_udw_eq udw_fits_def field10_get_def hdr_did_def hdr_sdid_def
      hdr_data_count_def bswap32_def le_word32_def bit_blast numeral_2_eq_2 numeral_3_eq_3)

lemma hdr_second_chunk:
  "hdr_did (second_hdr_chunk a b c) = a AND 0x3FF"
  "hdr_sdid (second_hdr_chunk a b c) = b AND 0x3FF"
  "hdr_data_count (second_hdr_chunk a b c) = c AND 0x3FF"
  by (simp_all add: hdr_did_def hdr_sdid_def hdr_data_count_def second_hdr_chunk_def bit_blast)

lemma payload_bytes_room:
  "12 \<le> unat (st40_rfc8331_payload_bytes n) \<and>
   10 * (unat n + 4) \<le> 8 * (unat (st40_rfc8331_payload_bytes n) - 4)"
proof -
  define m where "m = 10 * (unat n + 4)"
  have "40 \<le> m" by (simp add: m_def)
  then have "12 \<le> 4 + 4 * ((m + 31) div 32)" "m \<le> 8 * (4 + 4 * ((m + 31) div 32) - 4)"
    by presburger+
  then show ?thesis unfolding unat_payload_bytes m_def by simp
qed

lemma unat_udw_idx:
  "i + 3 < 2 ^ 32 \<Longrightarrow> unat (of_nat i + 3 :: u32) = i + 3"
proof -
  assume "i + 3 < 2 ^ 32"
  moreover have "(of_nat i + 3 :: u32) = of_nat (i + 3)" by simp
  ultimately show ?thesis using unat_of_nat_small [of "i + 3", where 'a = 32] by simp
qed

text \<open>The words of the user data, as the encoder writes them.\<close>

definition parity_words :: "u8 list \<Rightarrow> u16 list" where
  "parity_words bs = map (\<lambda>b. st40_add_parity_bits (ucast b)) bs"

lemma encode_udws_eq:
  assumes "i + n \<le> length udw_in" and "i + n + 3 < 2 ^ 32"
  shows "encode_udws n i udw_in dst = udw.set_from (i + 3) (parity_words (take n (drop i udw_in))) dst"
  using assms
proof (induction n arbitrary: i dst)
  case (Suc n)
  have "drop i udw_in = udw_in ! i # drop (Suc i) udw_in"
    using Suc.prems by (simp add: Cons_nth_drop_Suc)
  then show ?case
    using Suc.prems Suc.IH [of "i + 1"] unat_udw_idx [of i]
    by (simp add: parity_words_def rd8_def st40_set_udw_def cong: Option.bind_cong)
qed (simp add: parity_words_def)

lemma checksum_loop_cong:
  assumes "\<forall>j. i \<le> j \<and> j < i + n \<longrightarrow> get_10bit_udw j d = get_10bit_udw j d'"
  shows "checksum_loop n i c d = checksum_loop n i c d'"
  using assms
proof (induction n arbitrary: i c)
  case (Suc n)
  then have "get_10bit_udw i d = get_10bit_udw i d'" by simp
  moreover have "checksum_loop n (i + 1) c' d = checksum_loop n (i + 1) c' d'" for c'
    using Suc.prems by (intro Suc.IH) simp
  ultimately show ?case by simp
qed simp

lemma decode_udws_eq:
  assumes "\<forall>k < n. get_10bit_udw (i + 3 + k) src = Some (st40_add_parity_bits (ucast (bs ! k)))"
    and "length bs = n" and "i + n \<le> length out" and "i + n + 3 < 2 ^ 32"
  shows "decode_udws n i src (Some out) = Some (True, Some (take i out @ bs @ drop (i + n) out))"
  using assms
proof (induction n arbitrary: i bs out)
  case (Suc n)
  obtain b bs' where bs: "bs = b # bs'" using Suc.prems(2) by (cases bs) auto
  let ?out = "out[i := b]"
  have low: "ucast ((ucast b :: u16) AND 0xFF) = b" by (simp add: bit_blast)
  have "get_10bit_udw (i + 3) src = Some (st40_add_parity_bits (ucast b))"
    using Suc.prems(1) bs by force
  then have head: "st40_get_udw (of_nat i + 3) src = Some (st40_add_parity_bits (ucast b))"
    using unat_udw_idx [of i] Suc.prems(4) by (simp add: st40_get_udw_def)
  have "\<forall>k < n. get_10bit_udw ((i + 1) + 3 + k) src = Some (st40_add_parity_bits (ucast (bs' ! k)))"
    using Suc.prems(1) [rule_format, of "Suc k" for k] bs by (simp add: add.assoc)
  then have "decode_udws n (i + 1) src (Some ?out) =
      Some (True, Some (take (i + 1) ?out @ bs' @ drop (i + 1 + n) ?out))"
    using Suc.prems bs by (intro Suc.IH) auto
  moreover have "take (i + 1) ?out = take i out @ [b]"
    using Suc.prems(3) by (simp add: take_Suc_conv_app_nth)
  ultimately show ?case
    using head low Suc.prems(3) bs by (simp add: wr8_def)
qed simp

lemma set_10bit_udw_frame:
  assumes "set_10bit_udw idx w d = Some d'" and "10 * idx + 10 \<le> 8 * m"
  shows "length d' = length d \<and> drop m d' = drop m d"
proof -
  define q where "q = (idx * 10) div 8"
  have q: "q + 1 < m" using assms(2) unfolding q_def by linarith
  obtain a b where "d' = d[q := a, q + 1 := b]"
    using assms(1) by (auto simp: set_10bit_udw_def wr8_def Let_def q_def split: bind_splits if_splits)
  then show ?thesis using q by simp
qed

lemma set_from_frame:
  assumes "udw.set_from i ws d = Some d'" and "10 * (i + length ws) \<le> 8 * m"
  shows "length d' = length d \<and> drop m d' = drop m d"
  using assms
proof (induction ws arbitrary: i d)
  case (Cons w ws)
  then obtain d1 where d1: "set_10bit_udw i w d = Some d1" "udw.set_from (Suc i) ws d1 = Some d'"
    by (auto split: bind_splits)
  have "10 * i + 10 \<le> 8 * m" "10 * (Suc i + length ws) \<le> 8 * m" using Cons.prems(2) by auto
  then show ?case using set_10bit_udw_frame [OF d1(1)] Cons.IH [OF d1(2)] by simp
qed simp

text \<open>What the words of the encoder's buffer are after the call.\<close>

lemma encode_words:
  fixes meta :: st40_meta and udw_in :: "u8 list"
  defines "n \<equiv> unat (m_udw_size meta)" and "need \<equiv> unat (st40_rfc8331_payload_bytes (m_udw_size meta))"
  assumes size: "m_udw_size meta \<le> 0xFF" and room: "st40_rfc8331_payload_bytes (m_udw_size meta) \<le> room"
    and buf: "unat room \<le> length buf" and udw_in: "n \<le> length udw_in"
  shows "\<exists>d c. st40_rfc8331_encode_packet buf room meta udw_in =
      Some (Inr (le_bytes32 (bswap32 (first_hdr_chunk meta)) @ d, st40_rfc8331_payload_bytes (m_udw_size meta))) \<and>
    length d + 4 = length buf \<and> drop (need - 4) d = drop need buf \<and>
    get_10bit_udw 0 d = Some (st40_add_parity_bits (m_did meta)) \<and>
    get_10bit_udw 1 d = Some (st40_add_parity_bits (m_sdid meta)) \<and>
    get_10bit_udw 2 d = Some (st40_add_parity_bits (m_udw_size meta)) \<and>
    (\<forall>k < n. get_10bit_udw (3 + k) d = Some (st40_add_parity_bits (ucast (udw_in ! k)))) \<and>
    get_10bit_udw (3 + n) d = Some c \<and>
    st40_calc_checksum (3 + ucast (m_udw_size meta)) d = Some c"
proof -
  define sz where "sz = m_udw_size meta"
  have n: "n \<le> 255" using size by (simp add: n_def word_le_nat_alt)
  have need: "12 \<le> need" "10 * (n + 4) \<le> 8 * (need - 4)" "need \<le> length buf"
    using payload_bytes_room [of "m_udw_size meta"] room buf by (simp_all add: n_def need_def word_le_nat_alt)
  define second where "second = second_hdr_chunk
    (st40_add_parity_bits (m_did meta)) (st40_add_parity_bits (m_sdid meta)) (st40_add_parity_bits sz)"
  define d0 where "d0 = le_bytes32 (bswap32 second) @ replicate (need - 8) 0 @ drop need buf"
  have len0: "length d0 + 4 = length buf" using need by (simp add: d0_def)
  have fits: "udw_fits j d0" if "j < n + 4" for j
    using that need len0 by (simp add: udw_fits_def)
  have "bswap32 (le_word32 (d0 ! 0) (d0 ! 1) (d0 ! 2) (d0 ! 3)) = second"
    by (simp add: d0_def le_bytes32_def nth_append numeral_2_eq_2 numeral_3_eq_3)
  then have hdr: "get_10bit_udw 0 d0 = Some (st40_add_parity_bits (m_did meta))"
    "get_10bit_udw 1 d0 = Some (st40_add_parity_bits (m_sdid meta))"
    "get_10bit_udw 2 d0 = Some (st40_add_parity_bits sz)"
    using hdr_words [of d0] len0 need by (simp_all add: second_def hdr_second_chunk)
  let ?ws = "parity_words (take n udw_in)"
  have lws: "length ?ws = n" using udw_in by (simp add: parity_words_def)
  have "\<forall>j. 3 \<le> j \<and> j < 3 + length ?ws \<longrightarrow> udw_fits j d0" using fits lws by simp
  from udw.set_from_some [OF this] obtain d1 where d1: "udw.set_from 3 ?ws d0 = Some d1"
    "\<forall>j. udw_fits j d1 = udw_fits j d0"
    "\<forall>k < n. get_10bit_udw (3 + k) d1 = Some ((?ws ! k) AND 0x3FF)"
    "\<forall>j. udw_fits j d0 \<longrightarrow> j < 3 \<or> 3 + n \<le> j \<longrightarrow> get_10bit_udw j d1 = get_10bit_udw j d0"
    unfolding lws by blast
  have fr1: "length d1 = length d0" "drop (need - 4) d1 = drop (need - 4) d0"
    using set_from_frame [OF d1(1), of "need - 4"] need lws by auto
  have idx: "unat (3 + ucast sz :: u32) = 3 + n" "unat (ucast sz + 3 :: u32) = 3 + n"
    using unat_udw_idx [of n] n by (simp_all add: n_def sz_def add.commute)
  obtain c where c: "st40_calc_checksum (3 + ucast sz) d1 = Some c" "c AND 0x3FF = c"
    using get_from_total [of 0 "3 + n" d1] checksum_loop_sum [of 0 "3 + n" d1] d1(2) fits checksum_fold_spec
    by (auto simp: st40_calc_checksum_def idx)
  obtain d where d: "set_10bit_udw (3 + n) c d1 = Some d" "\<forall>j. udw_fits j d = udw_fits j d1"
    "get_10bit_udw (3 + n) d = Some (c AND 0x3FF)"
    "\<forall>j. udw_fits j d1 \<longrightarrow> j \<noteq> 3 + n \<longrightarrow> get_10bit_udw j d = get_10bit_udw j d1"
    using udw.set_some [of "3 + n" d1 c] d1(2) fits by auto
  have fr: "length d = length d1" "drop (need - 4) d = drop (need - 4) d1"
    using set_10bit_udw_frame [OF d(1), of "need - 4"] need by auto
  have same: "get_10bit_udw j d = get_10bit_udw j d1" if "j < 3 + n" for j
    using d(4) d1(2) fits that by simp
  have "checksum_loop (3 + n) 0 0 d = checksum_loop (3 + n) 0 0 d1"
    using same by (intro checksum_loop_cong) simp
  then have sum: "st40_calc_checksum (3 + ucast sz) d = Some c"
    using c(1) by (simp add: st40_calc_checksum_def idx)
  have words: "get_10bit_udw (3 + k) d = Some (st40_add_parity_bits (ucast (udw_in ! k)))" if "k < n" for k
    using same [of "3 + k"] d1(3) that udw_in by (simp add: parity_words_def)
  have low: "get_10bit_udw j d = get_10bit_udw j d0" if "j < 3" for j
    using same [of j] d1(4) fits that by simp
  have enc: "st40_rfc8331_encode_packet buf room meta udw_in =
      Some (Inr (le_bytes32 (bswap32 (first_hdr_chunk meta)) @ d, st40_rfc8331_payload_bytes (m_udw_size meta)))"
  proof -
    have nat_eqs: "unat sz = n" "unat (st40_rfc8331_payload_bytes sz) = need"
      by (simp_all add: n_def need_def sz_def)
    have z: "8 - need = 0" using need by simp
    have "encode_udws n 0 udw_in d0 = Some d1"
      using encode_udws_eq [of 0 n udw_in d0] udw_in n d1(1) by simp
    then show ?thesis
      using size room need c(1) d(1) z
      by (simp add: st40_rfc8331_encode_packet_def Let_def st40_rfc8331_payload_hdr_bswap_def sz_def [symmetric] nat_eqs
          second_def [symmetric] st40_set_udw_def idx not_less d0_def)
  qed
  have "drop (need - 4) d0 = drop need buf" using need by (simp add: d0_def)
  then show ?thesis
    using enc fr fr1 len0 words low hdr d(3) c(2) sum by (auto simp: sz_def)
qed

text \<open>The fields of a sub-packet that fit on the wire.\<close>

definition wire_meta :: "st40_meta \<Rightarrow> st40_meta" where
  "wire_meta meta = \<lparr>m_c = m_c meta AND 1, m_line_number = m_line_number meta AND 0x7FF,
     m_hori_offset = m_hori_offset meta AND 0xFFF, m_s = m_s meta AND 1,
     m_stream_num = m_stream_num meta AND 0x7F, m_did = m_did meta AND 0xFF,
     m_sdid = m_sdid meta AND 0xFF, m_udw_size = m_udw_size meta, m_udw_offset = 0\<rparr>"

lemma first_hdr_fields:
  "ucast (drop_bit 31 (first_hdr_chunk meta)) = m_c meta AND 1"
  "ucast (drop_bit 20 (first_hdr_chunk meta) AND 0x7FF) = m_line_number meta AND 0x7FF"
  "ucast (drop_bit 8 (first_hdr_chunk meta) AND 0xFFF) = m_hori_offset meta AND 0xFFF"
  "ucast (drop_bit 7 (first_hdr_chunk meta) AND 1) = m_s meta AND 1"
  "ucast (first_hdr_chunk meta AND 0x7F) = m_stream_num meta AND 0x7F"
  by (simp_all only: first_hdr_chunk_def) (simp_all add: bit_blast)

lemma size_low: "(sz :: u16) \<le> 0xFF \<Longrightarrow> sz AND 0xFF = sz"
proof -
  assume "sz \<le> 0xFF"
  then have "unat sz < 2 ^ 8" by (simp add: word_le_nat_alt)
  then have "take_bit 8 sz = sz" by (metis take_bit_nat_eq_self unsigned_take_bit_eq word_unat_eq_iff)
  then show ?thesis by (simp add: mask8_u16 take_bit_eq_mask)
qed

text \<open>The decoder past its header checks.\<close>

lemma decode_packet_body:
  assumes ch1: "bswap32 (le_word32 (buf ! 0) (buf ! 1) (buf ! 2) (buf ! 3)) = ch1"
    and ch2: "bswap32 (le_word32 (buf ! 4) (buf ! 5) (buf ! 6) (buf ! 7)) = ch2"
    and "\<not> room < 8" and "8 \<le> length buf"
    and "st40_check_parity_bits (hdr_did ch2)" "st40_check_parity_bits (hdr_sdid ch2)"
      "st40_check_parity_bits (hdr_data_count ch2)"
    and "hdr_data_count ch2 AND 0xFF = sz" and "\<not> room < st40_rfc8331_payload_bytes sz"
    and "\<not> (udw_out \<noteq> None \<and> udw_cap < ucast sz)"
    and "decode_udws (unat sz) 0 (drop 4 buf) udw_out = Some (ok, udw_out')"
    and "get_10bit_udw (3 + unat sz) (drop 4 buf) = Some checksum_wire"
    and "st40_calc_checksum (3 + ucast sz) (drop 4 buf) = Some checksum_calc"
  shows "st40_rfc8331_decode_packet buf room meta udw_out udw_cap consumed = Some
    (if \<not> ok then (ST40_RFC8331_DECODE_PARITY_FAIL, meta, udw_out', consumed)
     else if checksum_wire \<noteq> checksum_calc
     then (ST40_RFC8331_DECODE_CHECKSUM_FAIL, meta, udw_out', consumed)
     else (ST40_RFC8331_DECODE_OK, meta_of_hdr ch1 ch2, udw_out', st40_rfc8331_payload_bytes sz))"
proof -
  have "unat sz < 65536" using unsigned_less [of sz, where ?'a = nat] by simp
  then have "unat (ucast sz + 3 :: u32) = 3 + unat sz"
    using unat_udw_idx [of "unat sz"] by (simp add: add.commute)
  then have "st40_get_udw (ucast sz + 3) (drop 4 buf) = Some checksum_wire"
    using assms(12) by (simp add: st40_get_udw_def)
  then show ?thesis
    using assms(3-)
    unfolding st40_rfc8331_decode_packet_def st40_rfc8331_payload_hdr_bswap_def Let_def fst_conv snd_conv
      prod.case ch1 ch2
    by simp
qed

text \<open>
  C11. Round trip of the ANC sub-packet codec: with room for the packet, \<open>st40_rfc8331_encode_packet\<close>
  succeeds, writes exactly the bytes it reports and leaves the rest of the buffer as it was, and
  \<open>st40_rfc8331_decode_packet\<close> on the result, with any room that covers the packet, accepts it and
  returns the metadata cut to the widths of the wire fields, the user data bytes and the number of
  bytes written.
\<close>

theorem rfc8331_roundtrip:
  assumes "m_udw_size meta \<le> 0xFF" and "st40_rfc8331_payload_bytes (m_udw_size meta) \<le> room"
    and "unat room \<le> length buf" and "unat (m_udw_size meta) \<le> length udw_in"
    and "ucast (m_udw_size meta) \<le> udw_cap" and "unat udw_cap \<le> length out"
    and "st40_rfc8331_payload_bytes (m_udw_size meta) \<le> room'"
  shows "\<exists>buf' written. st40_rfc8331_encode_packet buf room meta udw_in = Some (Inr (buf', written)) \<and>
    length buf' = length buf \<and> drop (unat written) buf' = drop (unat written) buf \<and>
    st40_rfc8331_decode_packet buf' room' meta0 (Some out) udw_cap consumed0 =
      Some (ST40_RFC8331_DECODE_OK, wire_meta meta,
        Some (take (unat (m_udw_size meta)) udw_in @ drop (unat (m_udw_size meta)) out), written)"
proof -
  define sz where "sz = m_udw_size meta"
  define n where "n = unat sz"
  define hd1 where "hd1 = le_bytes32 (bswap32 (first_hdr_chunk meta))"
  obtain d c where enc: "st40_rfc8331_encode_packet buf room meta udw_in =
      Some (Inr (hd1 @ d, st40_rfc8331_payload_bytes sz))"
    and d: "length d + 4 = length buf" "drop (unat (st40_rfc8331_payload_bytes sz) - 4) d =
       drop (unat (st40_rfc8331_payload_bytes sz)) buf"
    and hdr: "get_10bit_udw 0 d = Some (st40_add_parity_bits (m_did meta))"
      "get_10bit_udw 1 d = Some (st40_add_parity_bits (m_sdid meta))"
      "get_10bit_udw 2 d = Some (st40_add_parity_bits sz)"
    and words: "\<forall>k < n. get_10bit_udw (3 + k) d = Some (st40_add_parity_bits (ucast (udw_in ! k)))"
    and chk: "get_10bit_udw (3 + n) d = Some c" "st40_calc_checksum (3 + ucast sz) d = Some c"
    using encode_words [OF assms(1-4)] unfolding sz_def n_def hd1_def by blast
  have n: "n \<le> 255" using assms(1) by (simp add: n_def sz_def word_le_nat_alt)
  have sz: "sz AND 0xFF = sz" using size_low assms(1) by (simp add: sz_def)
  have idx: "unat (ucast sz + 3 :: u32) = 3 + n"
    using unat_udw_idx [of n] n by (simp add: n_def add.commute)
  have need: "12 \<le> unat (st40_rfc8331_payload_bytes sz)"
    using payload_bytes_room by blast
  have len: "8 \<le> length d"
    using need assms(2,3) d(1) by (simp add: word_le_nat_alt sz_def)
  have room': "\<not> room' < 8" "\<not> room' < st40_rfc8331_payload_bytes sz"
    using need assms(7) by (simp_all add: not_less word_le_nat_alt sz_def)
  define ch where "ch = bswap32 (le_word32 (d ! 0) (d ! 1) (d ! 2) (d ! 3))"
  have ch: "hdr_did ch = st40_add_parity_bits (m_did meta)"
    "hdr_sdid ch = st40_add_parity_bits (m_sdid meta)" "hdr_data_count ch = st40_add_parity_bits sz"
    using hdr_words [of d] hdr len by (simp_all add: ch_def)
  have bytes: "(hd1 @ d) ! 4 = d ! 0" "(hd1 @ d) ! 5 = d ! 1" "(hd1 @ d) ! 6 = d ! 2" "(hd1 @ d) ! 7 = d ! 3"
    by (simp_all add: hd1_def nth_append)
  have first: "bswap32 (le_word32 ((hd1 @ d) ! 0) ((hd1 @ d) ! 1) ((hd1 @ d) ! 2) ((hd1 @ d) ! 3)) =
      first_hdr_chunk meta"
    by (simp add: hd1_def le_bytes32_def nth_append numeral_2_eq_2 numeral_3_eq_3)
  have out: "n \<le> length out"
    using assms(5,6) by (simp add: word_le_nat_alt n_def sz_def)
  have "decode_udws n 0 d (Some out) = Some (True, Some (take n udw_in @ drop n out))"
    using decode_udws_eq [of n 0 d "take n udw_in" out] words n out assms(4) by (simp add: n_def sz_def)
  moreover have drop_hd1: "drop 4 (hd1 @ d) = d" by (simp add: hd1_def)
  moreover have "meta_of_hdr (first_hdr_chunk meta) ch = wire_meta meta"
    by (simp add: meta_of_hdr_def wire_meta_def first_hdr_fields ch sz) (simp add: sz_def)
  ultimately have "st40_rfc8331_decode_packet (hd1 @ d) room' meta0 (Some out) udw_cap consumed0 =
      Some (ST40_RFC8331_DECODE_OK, wire_meta meta, Some (take n udw_in @ drop n out),
        st40_rfc8331_payload_bytes sz)"
    using decode_packet_body [OF first, of ch room' sz "Some out" udw_cap True
        "Some (take n udw_in @ drop n out)" c c meta0 consumed0] room' len assms(5) ch chk sz
    unfolding bytes ch_def [symmetric] n_def [symmetric] sz_def [symmetric] hd1_def [symmetric]
    by (simp add: not_less drop_hd1)
  moreover have "length (hd1 @ d) = length buf" "drop (unat (st40_rfc8331_payload_bytes sz)) (hd1 @ d) =
      drop (unat (st40_rfc8331_payload_bytes sz)) buf"
    using d need by (simp_all add: hd1_def)
  ultimately show ?thesis using enc by (auto simp: n_def sz_def)
qed

lemma decode_udws_total:
  assumes "\<forall>j. j < i + 3 + n \<longrightarrow> udw_fits j src" and "\<forall>out. udw_out = Some out \<longrightarrow> i + n \<le> length out"
    and "i + n + 3 < 2 ^ 32"
  shows "\<exists>ok o'. decode_udws n i src udw_out = Some (ok, o') \<and>
    (ok \<longrightarrow> (\<forall>j. i + 3 \<le> j \<and> j < i + 3 + n \<longrightarrow>
       (\<exists>w. get_10bit_udw j src = Some w \<and> st40_check_parity_bits w)))"
  using assms
proof (induction n arbitrary: i udw_out)
  case (Suc n)
  obtain w where w: "get_10bit_udw (i + 3) src = Some w"
    using udw.get_some [of "i + 3" src] Suc.prems(1) by auto
  then have get: "st40_get_udw (of_nat i + 3) src = Some w"
    using unat_udw_idx [of i] Suc.prems(3) by (simp add: st40_get_udw_def)
  show ?case
  proof (cases "st40_check_parity_bits w")
    case True
    define o1 where "o1 = map_option (\<lambda>out. out[i := ucast (w AND 0xFF)]) udw_out"
    have o1: "(case udw_out of None \<Rightarrow> Some None
        | Some out \<Rightarrow> map_option Some (wr8 out i (ucast (w AND 0xFF)))) = Some o1"
      using Suc.prems(2) by (auto simp: o1_def wr8_def split: option.split)
    have "\<forall>out. o1 = Some out \<longrightarrow> (i + 1) + n \<le> length out"
      using Suc.prems(2) by (auto simp: o1_def)
    then obtain ok o' where rest: "decode_udws n (i + 1) src o1 = Some (ok, o')"
      "ok \<longrightarrow> (\<forall>j. (i + 1) + 3 \<le> j \<and> j < (i + 1) + 3 + n \<longrightarrow>
         (\<exists>w. get_10bit_udw j src = Some w \<and> st40_check_parity_bits w))"
      using Suc.IH [of "i + 1" o1] Suc.prems by auto
    have all: "\<forall>j. i + 3 \<le> j \<and> j < i + 3 + Suc n \<longrightarrow>
         (\<exists>w. get_10bit_udw j src = Some w \<and> st40_check_parity_bits w)" if "ok"
    proof (intro allI impI)
      fix j assume "i + 3 \<le> j \<and> j < i + 3 + Suc n"
      then show "\<exists>w. get_10bit_udw j src = Some w \<and> st40_check_parity_bits w"
        using rest(2) that w True by (cases "j = i + 3") auto
    qed
    show ?thesis using get o1 rest(1) all True by simp
  next
    case False
    then show ?thesis using get by (intro exI [of _ False]) simp
  qed
qed (auto intro: exI [of _ True])

lemma low_u16_le: "(w :: u16) AND 0xFF \<le> 0xFF"
  using word_and_le1 [of w "0xFF"] by (simp add: and.commute)

text \<open>
  C12. Memory safety and soundness of the decoder against arbitrary input: whatever the bytes of the
  buffer are, if \<open>room\<close> and \<open>udw_cap\<close> are at most the sizes of the buffers the decoder touches no
  byte outside them and returns; a rejected sub-packet leaves \<open>*meta\<close> and \<open>*consumed\<close> alone; an
  accepted one lies within \<open>room\<close>, every word of it passed its parity check and its checksum word is
  the checksum of the others.
\<close>

theorem rfc8331_decode_total:
  assumes "unat room \<le> length buf" and "\<And>out. udw_out = Some out \<Longrightarrow> unat udw_cap \<le> length out"
  shows "\<exists>r m u c. st40_rfc8331_decode_packet buf room meta udw_out udw_cap consumed = Some (r, m, u, c) \<and>
    (r \<noteq> ST40_RFC8331_DECODE_OK \<longrightarrow> m = meta \<and> c = consumed) \<and>
    (r = ST40_RFC8331_DECODE_OK \<longrightarrow> c \<le> room \<and> c = st40_rfc8331_payload_bytes (m_udw_size m) \<and>
       (\<forall>j < 3 + unat (m_udw_size m). \<exists>w. get_10bit_udw j (drop 4 buf) = Some w \<and> st40_check_parity_bits w) \<and>
       st40_calc_checksum (3 + ucast (m_udw_size m)) (drop 4 buf) =
         get_10bit_udw (3 + unat (m_udw_size m)) (drop 4 buf))"
proof (cases "room < 8")
  case False
  then have len: "8 \<le> length buf" using assms(1) by (simp add: not_less word_le_nat_alt)
  define d where "d = drop 4 buf"
  define ch where "ch = bswap32 (le_word32 (buf ! 4) (buf ! 5) (buf ! 6) (buf ! 7))"
  define sz where "sz = hdr_data_count ch AND 0xFF"
  define need where "need = st40_rfc8331_payload_bytes sz"
  have ch: "ch = bswap32 (le_word32 (d ! 0) (d ! 1) (d ! 2) (d ! 3))"
    using len by (simp add: ch_def d_def)
  have hdr: "get_10bit_udw 0 d = Some (hdr_did ch)" "get_10bit_udw 1 d = Some (hdr_sdid ch)"
    "get_10bit_udw 2 d = Some (hdr_data_count ch)"
    using hdr_words [of d] len by (simp_all add: ch d_def)
  show ?thesis
  proof (cases "st40_check_parity_bits (hdr_did ch) \<and> st40_check_parity_bits (hdr_sdid ch) \<and>
      st40_check_parity_bits (hdr_data_count ch) \<and> \<not> room < need \<and>
      \<not> (udw_out \<noteq> None \<and> ucast sz > udw_cap)")
    case True
    have n: "unat sz \<le> 255" using low_u16_le [of "hdr_data_count ch"] by (simp add: sz_def word_le_nat_alt)
    have fits: "udw_fits j d" if "j < 3 + unat sz + 1" for j
      using payload_bytes_room [of sz] True assms(1) that
      by (auto simp: udw_fits_def need_def d_def not_less word_le_nat_alt)
    have cap: "\<forall>out. udw_out = Some out \<longrightarrow> 0 + unat sz \<le> length out"
      using True assms(2) by (auto simp: not_less word_le_nat_alt)
    obtain ok o1 where dec: "decode_udws (unat sz) 0 d udw_out = Some (ok, o1)"
      "ok \<longrightarrow> (\<forall>j. 3 \<le> j \<and> j < 3 + unat sz \<longrightarrow>
         (\<exists>w. get_10bit_udw j d = Some w \<and> st40_check_parity_bits w))"
      using decode_udws_total [of 0 "unat sz" d udw_out] fits cap n by auto
    have idx: "unat (3 + ucast sz :: u32) = 3 + unat sz" "unat (ucast sz + 3 :: u32) = 3 + unat sz"
      using unat_udw_idx [of "unat sz"] n by (simp_all add: add.commute)
    obtain cw where cw: "get_10bit_udw (3 + unat sz) d = Some cw"
      using udw.get_some [of "3 + unat sz" d] fits by auto
    obtain cc where cc: "st40_calc_checksum (3 + ucast sz) d = Some cc"
      using get_from_total [of 0 "3 + unat sz" d] checksum_loop_sum [of 0 "3 + unat sz" d] fits
      by (auto simp: st40_calc_checksum_def idx)
    have par: "\<exists>w. get_10bit_udw j d = Some w \<and> st40_check_parity_bits w" if ok and "j < 3 + unat sz" for j
    proof -
      consider "j = 0" | "j = 1" | "j = 2" | "3 \<le> j" by linarith
      then show ?thesis using that dec(2) True hdr by cases auto
    qed
    show ?thesis
      using decode_packet_body [OF refl, of buf ch room sz udw_out udw_cap ok o1 cw cc meta consumed] False len True
        dec(1) cw cc par
      unfolding ch_def [symmetric] d_def [symmetric] sz_def [symmetric] need_def [symmetric]
      by (auto simp: sz_def need_def meta_of_hdr_def not_less)
  next
    case fail: False
    then show ?thesis
      using False len
      by (auto simp: st40_rfc8331_decode_packet_def st40_rfc8331_payload_hdr_bswap_def Let_def ch_def [symmetric] sz_def [symmetric] need_def [symmetric])
  qed
qed (simp add: st40_rfc8331_decode_packet_def)

theorem rfc8331_decode_total_witness:
  "\<exists>r m u c. st40_rfc8331_decode_packet (replicate 12 0xFF) 12
     (meta_of_hdr 0 0) (Some [0, 0]) 2 7 = Some (r, m, u, c)"
  using rfc8331_decode_total [of 12 "replicate 12 0xFF" "Some [0, 0]" 2 "meta_of_hdr 0 0" 7]
  by (auto simp: numeral_eq_Suc)

theorem rfc8331_roundtrip_witness:
  "\<exists>buf' written. st40_rfc8331_encode_packet (replicate 20 0xAA) 20
      \<lparr>m_c = 0, m_line_number = 9, m_hori_offset = 0, m_s = 0, m_stream_num = 0,
       m_did = 0x61, m_sdid = 1, m_udw_size = 2, m_udw_offset = 0\<rparr> [0x96, 0x69] =
      Some (Inr (buf', written)) \<and>
    (\<exists>meta. st40_rfc8331_decode_packet buf' 20 (meta_of_hdr 0 0) (Some [0, 0, 7]) 3 0 =
      Some (ST40_RFC8331_DECODE_OK, meta, Some [0x96, 0x69, 7], written))"
proof -
  have p: "st40_rfc8331_payload_bytes 2 = 12" by code_simp
  show ?thesis
    using rfc8331_roundtrip [of "\<lparr>m_c = 0, m_line_number = 9, m_hori_offset = 0, m_s = 0,
      m_stream_num = 0, m_did = 0x61, m_sdid = 1, m_udw_size = 2, m_udw_offset = 0\<rparr>"
      20 "replicate 20 0xAA" "[0x96, 0x69]" 3 "[0, 0, 7]" 20 "meta_of_hdr 0 0" 0]
    by (auto simp: p)
qed

end
