(* ===== verification/Media_Clock.thy ===== *)
theory Media_Clock
  imports MTL_Prelude
begin

text \<open>
  The time arithmetic of \<^verbatim>\<open>lib/src/st2110/st_fmt.c\<close>: rounding multiply-divide, frame epochs and
  TAI nanoseconds, and the RTP media clock. \<open>uint64_t\<close> and \<open>__uint128_t\<close> are words of their width,
  so every wrap and truncation of the code is in the model; the lemmas named \<open>unat_\<close> show where none
  happens and give the value as a natural number. A zero divisor (undefined in C) is excluded
  by a hypothesis. \<open>st10_media_clk_to_tai\<close>, which goes through \<open>long double\<close>, is not modelled.
\<close>

section \<open>Definitions\<close>

definition UINT64_MAX :: u64 where
  "UINT64_MAX = 0xFFFFFFFFFFFFFFFF"

definition st_muldiv_u64_round_closest :: "u64 \<Rightarrow> u64 \<Rightarrow> u64 \<Rightarrow> u64" where
  "st_muldiv_u64_round_closest val multiplier divisor =
     (let product = (ucast val :: u128) * ucast multiplier;
          quotient = product div ucast divisor;
          remainder = product - quotient * ucast divisor;
          half = (ucast (divisor div 2) :: u128);
          quotient = (if remainder > half then quotient + 1 else quotient)
      in ucast quotient)"

definition st_epoch_to_tai :: "u64 \<Rightarrow> u32 \<Rightarrow> u32 \<Rightarrow> u64" where
  "st_epoch_to_tai epoch mul den =
     (let tai = (ucast epoch :: u128) * of_nat NS_PER_S * ucast den div ucast mul
      in if tai \<ge> ucast UINT64_MAX then UINT64_MAX else ucast tai)"

definition st_tai_to_epoch :: "u64 \<Rightarrow> u32 \<Rightarrow> u32 \<Rightarrow> u64" where
  "st_tai_to_epoch tai_ns mul den =
     ucast ((((ucast tai_ns :: u128) + 1) * ucast mul - 1) div (of_nat NS_PER_S * ucast den))"

definition st_tai_to_nearest_epoch :: "u64 \<Rightarrow> u32 \<Rightarrow> u32 \<Rightarrow> u64" where
  "st_tai_to_nearest_epoch tai_ns mul den =
     (let period_num = of_nat NS_PER_S * (ucast den :: u128)
      in ucast ((2 * ucast tai_ns * ucast mul + period_num) div (2 * period_num)))"

definition st_tai_round_to_media_clk_ns :: "u64 \<Rightarrow> u32 \<Rightarrow> u64" where
  "st_tai_round_to_media_clk_ns tai_ns sampling_rate =
     (if sampling_rate = 0 then tai_ns
      else let tick = st_muldiv_u64_round_closest tai_ns (ucast sampling_rate) (of_nat NS_PER_S) in
        if (ucast tick :: u128) * of_nat NS_PER_S div ucast sampling_rate \<ge> ucast UINT64_MAX
        then UINT64_MAX
        else st_muldiv_u64_round_closest tick (of_nat NS_PER_S) (ucast sampling_rate))"

definition st10_tai_to_media_clk :: "u64 \<Rightarrow> u32 \<Rightarrow> u32" where
  "st10_tai_to_media_clk tai_ns sampling_rate =
     (if sampling_rate = 0 then 0
      else ucast (st_muldiv_u64_round_closest tai_ns (ucast sampling_rate) (of_nat NS_PER_S)))"

definition st10_media_clk_to_ns :: "u32 \<Rightarrow> u32 \<Rightarrow> u64" where
  "st10_media_clk_to_ns media_ts sampling_rate =
     (if sampling_rate = 0 then 0
      else st_muldiv_u64_round_closest (ucast media_ts) (of_nat NS_PER_S) (ucast sampling_rate))"

section \<open>Values without wrap-around\<close>

text \<open>The same computation on natural numbers.\<close>

definition rdiv :: "nat \<Rightarrow> nat \<Rightarrow> nat" where
  "rdiv p d = (if d div 2 < p mod d then p div d + 1 else p div d)"

lemma rdiv_near:
  assumes "0 < d"
  shows "2 * (rdiv p d * d) \<le> 2 * p + d \<and> 2 * p \<le> 2 * (rdiv p d * d) + d"
proof -
  define q r where "q = p div d" and "r = p mod d"
  have p: "p = q * d + r" and r: "r < d" using assms by (simp_all add: q_def r_def)
  show ?thesis
    using r by (simp add: rdiv_def q_def [symmetric] r_def [symmetric]) (auto simp: p algebra_simps)
qed

lemma rdiv_unique:
  assumes "2 * (x * d) < 2 * p + d" and "2 * p < 2 * (x * d) + d"
  shows "rdiv p d = x"
proof -
  have d: "0 < d" using assms by linarith
  define y where "y = rdiv p d"
  have y: "2 * (y * d) \<le> 2 * p + d" "2 * p \<le> 2 * (y * d) + d"
    using rdiv_near [OF d, of p] by (simp_all add: y_def)
  have "y * d < (x + 1) * d" "x * d < (y + 1) * d"
    using assms y by (simp_all add: algebra_simps)
  then have "y < x + 1" "x < y + 1" by (simp_all only: mult_less_cancel2)
  then show ?thesis by (simp add: y_def)
qed

lemma unat_muldiv:
  assumes "0 < d"
  shows "unat (st_muldiv_u64_round_closest v m d) = rdiv (unat v * unat m) (unat d) mod 2 ^ 64"
proof -
  define p :: u128 where "p = ucast v * ucast m"
  define q :: u128 where "q = p div ucast d"
  have "unat v * unat m \<le> 18446744073709551615 * 18446744073709551615"
    using unat_u64_lt [of v] unat_u64_lt [of m] by (intro mult_le_mono) auto
  then have p: "unat p = unat v * unat m" and small: "unat p < 2 ^ 128 - 1"
    unfolding p_def by (subst unat_mult_small; simp)+
  have q: "unat q = unat p div unat d" by (simp add: q_def unat_div)
  have r: "p - q * ucast d = p mod ucast d"
    by (simp add: q_def minus_div_mult_eq_mod)
  have "unat q \<le> unat p" by (simp add: q)
  then have q1: "unat (q + 1) = unat q + 1"
    using small by (subst unat_add_small) auto
  have cmp: "ucast (d div 2) < p mod ucast d \<longleftrightarrow> unat d div 2 < unat p mod unat d"
    by (simp add: word_less_nat_alt unat_div unat_mod)
  show ?thesis
    unfolding st_muldiv_u64_round_closest_def Let_def p_def [symmetric] q_def [symmetric] r cmp
    by (auto simp: unsigned_ucast_eq take_bit_eq_mod q1 q rdiv_def p [symmetric])
qed

text \<open>
  \<open>st_muldiv_u64_round_closest\<close> rounds to the nearest: when the exact quotient is below
  \<open>2^64 - 1\<close> the result is within half a unit of \<open>value * multiplier / divisor\<close>, with no wrap of the
  128-bit product and no truncation of the result.
\<close>

theorem muldiv_nearest:
  assumes "0 < divisor" and "unat val * unat multiplier < (2 ^ 64 - 1) * unat divisor"
  shows "2 * \<bar>int (unat (st_muldiv_u64_round_closest val multiplier divisor)) * int (unat divisor)
      - int (unat val) * int (unat multiplier)\<bar> \<le> int (unat divisor)"
proof -
  define p d where "p = unat val * unat multiplier" and "d = unat divisor"
  have d: "0 < d" using assms(1) by (simp add: d_def word_less_nat_alt)
  have "p div d < 2 ^ 64 - 1" using assms(2) d by (simp add: p_def d_def div_less_iff_less_mult)
  then have "rdiv p d < 2 ^ 64" by (auto simp: rdiv_def)
  then have r: "unat (st_muldiv_u64_round_closest val multiplier divisor) = rdiv p d"
    using unat_muldiv [OF assms(1), of val multiplier] by (simp add: p_def d_def)
  have "2 * (int (rdiv p d) * int d) \<le> 2 * int p + int d" "2 * int p \<le> 2 * (int (rdiv p d) * int d) + int d"
    using rdiv_near [OF d, of p] by (metis of_nat_add of_nat_le_iff of_nat_mult of_nat_numeral)+
  moreover have "int p = int (unat val) * int (unat multiplier)" by (simp only: p_def of_nat_mult)
  ultimately show ?thesis unfolding r d_def [symmetric] by arith
qed

lemma unat_epoch_to_tai:
  assumes "0 < mul" and "unat epoch * NS_PER_S * unat den div unat mul < 2 ^ 64 - 1"
  shows "unat (st_epoch_to_tai epoch mul den) = unat epoch * NS_PER_S * unat den div unat mul"
proof -
  have "unat epoch * NS_PER_S * unat den \<le> 18446744073709551616 * NS_PER_S * 4294967296"
    using unat_u64_lt [of epoch] unat_u32_lt [of den] by (intro mult_le_mono) auto
  then have "unat ((ucast epoch :: u128) * of_nat NS_PER_S * ucast den) = unat epoch * NS_PER_S * unat den"
    using unat_u64_lt [of epoch] by (subst unat_mult_small; subst unat_mult_small) simp_all
  then show ?thesis
    using assms(2)
    by (simp add: st_epoch_to_tai_def Let_def word_le_nat_alt UINT64_MAX_def unat_div unsigned_ucast_eq
       take_bit_eq_mod)
qed


lemma unat_tai_to_epoch:
  assumes "0 < mul" and "0 < den" and "unat mul \<le> NS_PER_S * unat den"
  shows "unat (st_tai_to_epoch tai mul den) = ((unat tai + 1) * unat mul - 1) div (NS_PER_S * unat den)"
proof -
  have m: "0 < unat mul" "0 < unat den" using assms(1,2) by (simp_all add: word_less_nat_alt)
  have P: "unat (of_nat NS_PER_S * (ucast den :: u128)) = NS_PER_S * unat den"
    using unat_u32_lt [of den] by (subst unat_mult_small) auto
  have "(unat tai + 1) * unat mul \<le> 18446744073709551616 * 4294967296"
    using unat_u64_lt [of tai] unat_u32_lt [of mul] by (intro mult_le_mono) auto
  then have N: "unat (((ucast tai :: u128) + 1) * ucast mul) = (unat tai + 1) * unat mul"
    using unat_u64_lt [of tai] by (subst unat_mult_small; subst unat_add_small) simp_all
  have N1: "unat (((ucast tai :: u128) + 1) * ucast mul - 1) = (unat tai + 1) * unat mul - 1"
    using N m by (subst unat_sub) (simp_all add: word_le_nat_alt)
  have "(unat tai + 1) * unat mul - 1 < (unat tai + 1) * unat mul" using m by simp
  also have "\<dots> \<le> 2 ^ 64 * (NS_PER_S * unat den)"
    using unat_u64_lt [of tai] assms(3) by (intro mult_le_mono) auto
  finally have "((unat tai + 1) * unat mul - 1) div (NS_PER_S * unat den) < 2 ^ 64"
    using m by (simp add: div_less_iff_less_mult)
  then show ?thesis
    unfolding st_tai_to_epoch_def
    by (simp only: unsigned_ucast_eq unat_div N1 P) (simp add: take_bit_nat_eq_self)
qed

text \<open>
  C25. Frame epochs and TAI time: \<open>st_tai_to_epoch\<close> is the exact adjoint of \<open>st_epoch_to_tai\<close>, an
  instant is at or after the start of an epoch exactly when its epoch is at least that epoch, and
  converting an epoch to TAI and back is the identity, for a frame rate of at most one per
  nanosecond and a start time below the saturation value.
\<close>

theorem epoch_tai_galois:
  assumes "0 < mul" and "0 < den" and "unat mul \<le> NS_PER_S * unat den"
    and "unat epoch * NS_PER_S * unat den div unat mul < 2 ^ 64 - 1"
  shows "(st_epoch_to_tai epoch mul den \<le> tai_ns \<longleftrightarrow> epoch \<le> st_tai_to_epoch tai_ns mul den) \<and>
    st_tai_to_epoch (st_epoch_to_tai epoch mul den) mul den = epoch"
proof -
  define P m e where "P = NS_PER_S * unat den" and "m = unat mul" and "e = unat epoch"
  have pos: "0 < m" "0 < P" using assms(1,2) by (simp_all add: word_less_nat_alt P_def m_def)
  have mP: "m \<le> P" using assms(3) by (simp add: P_def m_def)
  have E: "unat (st_epoch_to_tai epoch mul den) = e * P div m"
    using unat_epoch_to_tai [OF assms(1,4)] by (simp add: e_def P_def m_def mult.assoc)
  have T: "unat (st_tai_to_epoch t mul den) = ((unat t + 1) * m - 1) div P" for t
    using unat_tai_to_epoch [OF assms(1-3)] by (simp add: P_def m_def)
  have le: "e \<le> ((t + 1) * m - 1) div P \<longleftrightarrow> e * P div m \<le> t" for t
  proof -
    have "e \<le> ((t + 1) * m - 1) div P \<longleftrightarrow> e * P \<le> (t + 1) * m - 1"
      using pos by (simp add: less_eq_div_iff_mult_less_eq)
    also have "\<dots> \<longleftrightarrow> e * P < (t + 1) * m" using pos by (cases "(t + 1) * m") auto
    also have "\<dots> \<longleftrightarrow> e * P div m < t + 1" using pos by (simp add: div_less_iff_less_mult)
    finally show ?thesis by (simp add: less_Suc_eq_le)
  qed
  have "e * P div m * m \<le> e * P" by (rule div_times_less_eq_dividend)
  then have "(e * P div m + 1) * m - 1 < (e + 1) * P"
    using mP pos unfolding add_mult_distrib mult_1 by linarith
  then have "((e * P div m + 1) * m - 1) div P \<le> e"
    using pos by (simp add: div_less_iff_less_mult less_Suc_eq_le [symmetric])
  then have "unat (st_tai_to_epoch (st_epoch_to_tai epoch mul den) mul den) = unat epoch"
    using le [of "e * P div m"] unfolding T E e_def by simp
  then have "st_tai_to_epoch (st_epoch_to_tai epoch mul den) mul den = epoch"
    by (simp only: word_unat_eq_iff)
  then show ?thesis using le E T by (simp add: word_le_nat_alt e_def)
qed


theorem epoch_tai_galois_witness:
  "st_tai_to_epoch (st_epoch_to_tai 107892000000 60000 1001) 60000 1001 = 107892000000"
  using epoch_tai_galois [of 60000 1001 107892000000 0] by simp

lemma unat_nearest_epoch:
  assumes "0 < den" and "unat mul \<le> NS_PER_S * unat den" 
  shows "unat (st_tai_to_nearest_epoch tai mul den) =
    (2 * unat tai * unat mul + NS_PER_S * unat den) div (2 * (NS_PER_S * unat den))"
proof -
  define P where "P = NS_PER_S * unat den"
  have pos: "0 < P" using assms(1) by (simp add: word_less_nat_alt P_def)
  have P: "unat (of_nat NS_PER_S * (ucast den :: u128)) = P" "P \<le> NS_PER_S * 4294967296"
    using unat_u32_lt [of den] unfolding P_def by (subst unat_mult_small; simp) (simp add: unat_u32_lt less_imp_le)
  have P2: "unat (2 * (of_nat NS_PER_S * (ucast den :: u128))) = 2 * P"
    using P by (subst unat_mult_small) auto
  have "2 * unat tai * unat mul \<le> 2 * 18446744073709551616 * 4294967296"
    using unat_u64_lt [of tai] unat_u32_lt [of mul] by (intro mult_le_mono) auto
  then have S: "2 * unat tai * unat mul + P < 340282366920938463463374607431768211456" using P(2) by linarith
  then have N: "unat (2 * ucast tai * ucast mul :: u128) = 2 * unat tai * unat mul"
    using unat_u64_lt [of tai] by (subst unat_mult_small; subst unat_mult_small) simp_all
  have N2: "unat (2 * ucast tai * ucast mul + of_nat NS_PER_S * (ucast den :: u128)) = 2 * unat tai * unat mul + P"
    using N P S by (subst unat_add_small) auto
  have "unat tai * unat mul \<le> 18446744073709551615 * P"
    using unat_u64_lt [of tai] assms(2) by (intro mult_le_mono) (auto simp: P_def)
  then have "2 * unat tai * unat mul + P < 18446744073709551616 * (2 * P)" using pos by linarith
  then have "(2 * unat tai * unat mul + P) div (2 * P) < 2 ^ 64"
    using pos by (subst div_less_iff_less_mult) auto
  then show ?thesis
    unfolding st_tai_to_nearest_epoch_def Let_def P_def [symmetric]
    by (simp only: unsigned_ucast_eq unat_div N2 P2) (simp add: take_bit_nat_eq_self)
qed

text \<open>
  \<open>st_tai_to_nearest_epoch\<close> returns the epoch whose start is nearest: its distance to the
  instant is at most half a frame period, in exact rational arithmetic.
\<close>

theorem nearest_epoch_nearest:
  assumes "0 < den" and "unat mul \<le> NS_PER_S * unat den"
  shows "2 * \<bar>int (unat (st_tai_to_nearest_epoch tai_ns mul den)) * (int NS_PER_S * int (unat den))
      - int (unat tai_ns) * int (unat mul)\<bar> \<le> int NS_PER_S * int (unat den)"
proof -
  define P x q where "P = NS_PER_S * unat den" and "x = unat tai_ns * unat mul"
    and "q = (2 * x + P) div (2 * P)"
  have pos: "0 < P" using assms(1) by (simp add: word_less_nat_alt P_def)
  have q: "unat (st_tai_to_nearest_epoch tai_ns mul den) = q"
    using unat_nearest_epoch [OF assms] by (simp add: q_def x_def P_def mult.assoc)
  have "2 * x + P = q * (2 * P) + (2 * x + P) mod (2 * P)"
    unfolding q_def by (rule div_mult_mod_eq [symmetric])
  moreover have "(2 * x + P) mod (2 * P) < 2 * P" using pos by simp
  ultimately have "2 * (q * P) \<le> 2 * x + P" "2 * x + P \<le> 2 * (q * P) + 2 * P" by linarith+
  then have "int (2 * (q * P)) \<le> int (2 * x + P)" "int (2 * x + P) \<le> int (2 * (q * P) + 2 * P)"
    by (simp_all only: of_nat_le_iff)
  then have "2 * (int q * int P) \<le> 2 * int x + int P" "2 * int x + int P \<le> 2 * (int q * int P) + 2 * int P"
    by (simp_all only: of_nat_add of_nat_mult of_nat_numeral)
  moreover have eqs: "int NS_PER_S * int (unat den) = int P" "int (unat tai_ns) * int (unat mul) = int x"
    by (simp_all add: P_def x_def)
  ultimately show ?thesis unfolding q eqs by arith
qed


lemma unat_media_clk_to_ns:
  assumes "0 < sr"
  shows "unat (st10_media_clk_to_ns ts sr) = rdiv (unat ts * NS_PER_S) (unat sr)"
proof -
  have sr: "0 < unat sr" using assms by (simp add: word_less_nat_alt)
  have "unat ts * NS_PER_S div unat sr \<le> unat ts * NS_PER_S" by (rule div_le_dividend)
  then have "rdiv (unat ts * NS_PER_S) (unat sr) \<le> unat ts * NS_PER_S + 1"
    by (simp add: rdiv_def le_SucI)
  then have "rdiv (unat ts * NS_PER_S) (unat sr) < 18446744073709551616"
    using unat_u32_lt [of ts] by linarith
  moreover have "(0 :: u64) < ucast sr" using sr by (simp add: word_less_nat_alt)
  ultimately show ?thesis
    using assms unat_muldiv [of "ucast sr" "ucast ts" "of_nat NS_PER_S"]
    by (simp add: st10_media_clk_to_ns_def word_neq_0_conv [symmetric])
qed

text \<open>Half a nanosecond of rounding is less than half a tick when the rate is below 1 GHz.\<close>

lemma rdiv_inverse:
  assumes "0 < sr" and "sr < NS_PER_S"
  shows "rdiv (rdiv (t * NS_PER_S) sr * sr) NS_PER_S = t"
  using rdiv_near [OF assms(1), of "t * NS_PER_S"] assms(2) by (intro rdiv_unique) linarith+

lemma unat_muldiv_rate:
  assumes "0 < sr"
  shows "unat (st_muldiv_u64_round_closest t (ucast (sr :: u32)) (of_nat NS_PER_S)) =
    rdiv (unat t * unat sr) NS_PER_S mod 2 ^ 64"
  using unat_muldiv [of "of_nat NS_PER_S" t "ucast sr"] by (simp add: word_less_nat_alt)

text \<open>
  C29. A media clock timestamp survives the way to nanoseconds and back for every
  sampling rate below 1 GHz, for all 32-bit timestamps.
\<close>

theorem media_clk_roundtrip:
  assumes "0 < sampling_rate" and "unat sampling_rate < NS_PER_S"
  shows "st10_tai_to_media_clk (st10_media_clk_to_ns media_ts sampling_rate) sampling_rate = media_ts"
proof -
  let ?sr = "unat sampling_rate" and ?t = "st10_media_clk_to_ns media_ts sampling_rate"
  have sr: "0 < ?sr" using assms(1) by (simp add: word_less_nat_alt)
  have "unat (st_muldiv_u64_round_closest ?t (ucast sampling_rate) (of_nat NS_PER_S)) =
      unat media_ts mod 2 ^ 64"
    using unat_muldiv_rate [OF assms(1), of ?t] unat_media_clk_to_ns [OF assms(1), of media_ts]
      rdiv_inverse [OF sr assms(2), of "unat media_ts"] by simp
  then have "unat (st_muldiv_u64_round_closest ?t (ucast sampling_rate) (of_nat NS_PER_S)) = unat media_ts"
    using unat_u32_lt [of media_ts] by simp
  then have "unat (st10_tai_to_media_clk ?t sampling_rate) = unat media_ts"
    using assms(1) unat_u32_lt [of media_ts]
    by (simp add: st10_tai_to_media_clk_def unsigned_ucast_eq take_bit_nat_eq_self word_neq_0_conv [symmetric])
  then show ?thesis by (simp only: word_unat_eq_iff)
qed

lemma snap_eq:
  assumes "0 < sr" and "unat sr < NS_PER_S" and "st_tai_round_to_media_clk_ns t sr < UINT64_MAX"
  shows "unat (st_tai_round_to_media_clk_ns t sr) = rdiv (rdiv (unat t * unat sr) NS_PER_S * NS_PER_S) (unat sr) \<and>
    unat (st_muldiv_u64_round_closest t (ucast sr) (of_nat NS_PER_S)) = rdiv (unat t * unat sr) NS_PER_S"
proof -
  define tick where "tick = st_muldiv_u64_round_closest t (ucast sr) (of_nat NS_PER_S)"
  have sr: "0 < unat sr" using assms(1) by (simp add: word_less_nat_alt)
  have "unat t * unat sr \<le> 18446744073709551615 * 999999999"
    using unat_u64_lt [of t] assms(2) by (intro mult_le_mono) auto
  then have "rdiv (unat t * unat sr) NS_PER_S < 18446744073709551616"
    using rdiv_near [of NS_PER_S "unat t * unat sr"] by simp
  then have tick: "unat tick = rdiv (unat t * unat sr) NS_PER_S"
    unfolding tick_def unat_muldiv_rate [OF assms(1)] by simp
  have "unat (ucast tick * of_nat NS_PER_S :: u128) = unat tick * NS_PER_S"
    using unat_u64_lt [of tick] by (subst unat_mult_small) auto
  then have "unat (ucast tick * of_nat NS_PER_S div ucast sr :: u128) = unat tick * NS_PER_S div unat sr"
    by (simp add: unat_div)
  moreover have "\<not> ucast UINT64_MAX \<le> (ucast tick * of_nat NS_PER_S div ucast sr :: u128)"
    using assms(1,3) by (auto simp: st_tai_round_to_media_clk_ns_def Let_def tick_def split: if_splits)
  ultimately have "unat tick * NS_PER_S div unat sr < 18446744073709551615"
    by (simp add: word_le_nat_alt UINT64_MAX_def)
  then have "rdiv (unat tick * NS_PER_S) (unat sr) < 18446744073709551616"
    by (auto simp: rdiv_def)
  moreover have "st_tai_round_to_media_clk_ns t sr = st_muldiv_u64_round_closest tick (of_nat NS_PER_S) (ucast sr)"
    using assms(1,3) by (auto simp: st_tai_round_to_media_clk_ns_def Let_def tick_def split: if_splits)
  moreover have "(0 :: u64) < ucast sr" using sr by (simp add: word_less_nat_alt)
  ultimately show ?thesis
    using unat_muldiv [of "ucast sr" tick "of_nat NS_PER_S"] tick by (simp add: tick_def)
qed

text \<open>
  C28. Snapping a TAI time to the media clock: below saturation the snapped time is a fixed
  point of \<open>st_tai_round_to_media_clk_ns\<close>, has the same media clock timestamp as the original time,
  and moves it by at most half a tick plus half a nanosecond.
\<close>

theorem media_clk_snap:
  assumes "0 < sampling_rate" and "unat sampling_rate < NS_PER_S"
    and "st_tai_round_to_media_clk_ns tai_ns sampling_rate < UINT64_MAX"
  defines "snapped \<equiv> st_tai_round_to_media_clk_ns tai_ns sampling_rate"
  shows "st_tai_round_to_media_clk_ns snapped sampling_rate = snapped \<and>
    st10_tai_to_media_clk snapped sampling_rate = st10_tai_to_media_clk tai_ns sampling_rate \<and>
    2 * \<bar>int (unat snapped) - int (unat tai_ns)\<bar> * int (unat sampling_rate) \<le>
      int NS_PER_S + int (unat sampling_rate)"
proof -
  let ?sr = "unat sampling_rate"
  define k where "k = rdiv (unat tai_ns * ?sr) NS_PER_S"
  have sr: "0 < ?sr" using assms(1) by (simp add: word_less_nat_alt)
  have s: "unat snapped = rdiv (k * NS_PER_S) ?sr"
    and tick: "unat (st_muldiv_u64_round_closest tai_ns (ucast sampling_rate) (of_nat NS_PER_S)) = k"
    using snap_eq [OF assms(1-3)] by (simp_all add: k_def snapped_def)
  have k: "k < 18446744073709551616" using unat_u64_lt tick by metis
  have "rdiv (unat snapped * ?sr) NS_PER_S = k"
    using rdiv_inverse [OF sr assms(2), of k] s by simp
  then have "unat (st_muldiv_u64_round_closest snapped (ucast sampling_rate) (of_nat NS_PER_S)) = k"
    using unat_muldiv_rate [OF assms(1), of snapped] k by simp
  then have same: "st_muldiv_u64_round_closest snapped (ucast sampling_rate) (of_nat NS_PER_S) =
      st_muldiv_u64_round_closest tai_ns (ucast sampling_rate) (of_nat NS_PER_S)"
    unfolding word_unat_eq_iff tick .
  have near: "2 * (k * NS_PER_S) \<le> 2 * (unat tai_ns * ?sr) + NS_PER_S" "2 * (unat tai_ns * ?sr) \<le> 2 * (k * NS_PER_S) + NS_PER_S"
    "2 * (unat snapped * ?sr) \<le> 2 * (k * NS_PER_S) + ?sr" "2 * (k * NS_PER_S) \<le> 2 * (unat snapped * ?sr) + ?sr"
    using rdiv_near [of NS_PER_S "unat tai_ns * ?sr"] rdiv_near [OF sr, of "k * NS_PER_S"] s by (simp_all add: k_def)
  then have "2 * (unat snapped * ?sr) \<le> 2 * (unat tai_ns * ?sr) + NS_PER_S + ?sr"
    "2 * (unat tai_ns * ?sr) \<le> 2 * (unat snapped * ?sr) + NS_PER_S + ?sr" by linarith+
  then have "int (2 * (unat snapped * ?sr)) \<le> int (2 * (unat tai_ns * ?sr) + NS_PER_S + ?sr)"
    "int (2 * (unat tai_ns * ?sr)) \<le> int (2 * (unat snapped * ?sr) + NS_PER_S + ?sr)"
    by (simp_all only: of_nat_le_iff)
  then have "\<bar>2 * (int (unat snapped) * int ?sr) - 2 * (int (unat tai_ns) * int ?sr)\<bar> \<le> int NS_PER_S + int ?sr"
    unfolding of_nat_add of_nat_mult of_nat_numeral by arith
  moreover have "2 * (int (unat snapped) * int ?sr) - 2 * (int (unat tai_ns) * int ?sr) =
      (2 * (int (unat snapped) - int (unat tai_ns))) * int ?sr" by (simp add: algebra_simps)
  moreover have "\<bar>(2 * (int (unat snapped) - int (unat tai_ns))) * int ?sr\<bar> =
      2 * \<bar>int (unat snapped) - int (unat tai_ns)\<bar> * int ?sr"
    unfolding abs_mult by simp
  ultimately have "2 * \<bar>int (unat snapped) - int (unat tai_ns)\<bar> * int ?sr \<le> int NS_PER_S + int ?sr" by simp
  moreover have "st_tai_round_to_media_clk_ns snapped sampling_rate = snapped"
    unfolding st_tai_round_to_media_clk_ns_def [of snapped] same
    using assms(1) by (simp add: snapped_def st_tai_round_to_media_clk_ns_def)
  moreover have "st10_tai_to_media_clk snapped sampling_rate = st10_tai_to_media_clk tai_ns sampling_rate"
    unfolding st10_tai_to_media_clk_def same ..
  ultimately show ?thesis by blast
qed


theorem media_clk_snap_witness:
  "st_tai_round_to_media_clk_ns (st_tai_round_to_media_clk_ns 1234567890123456789 48000) 48000 =
     st_tai_round_to_media_clk_ns 1234567890123456789 48000"
proof -
  have "st_tai_round_to_media_clk_ns 1234567890123456789 48000 < UINT64_MAX"
    by (simp add: st_tai_round_to_media_clk_ns_def st_muldiv_u64_round_closest_def Let_def UINT64_MAX_def)
  then show ?thesis using media_clk_snap [of 48000 1234567890123456789] by simp
qed

theorem media_clk_roundtrip_witness:
  "st10_tai_to_media_clk (st10_media_clk_to_ns 0xFFFFFFFF 90000) 90000 = 0xFFFFFFFF"
  using media_clk_roundtrip [of 90000 "0xFFFFFFFF"] by simp

theorem nearest_epoch_nearest_witness:
  "2 * \<bar>int (unat (st_tai_to_nearest_epoch 1000000 60000 1001)) * (int NS_PER_S * 1001) - 1000000 * 60000\<bar>
     \<le> int NS_PER_S * 1001"
  using nearest_epoch_nearest [of 1001 60000 1000000] by simp

theorem muldiv_nearest_witness:
  "2 * \<bar>int (unat (st_muldiv_u64_round_closest 7 3 2)) * 2 - 7 * 3\<bar> \<le> 2"
  using muldiv_nearest [of 2 7 3] by simp

end
