(* ===== verification/Pixel_Groups.thy ===== *)
theory Pixel_Groups
  imports MTL_Prelude
begin

text \<open>
  What the scalar pixel format converters of \<^verbatim>\<open>lib/src/st2110/st_convert.c\<close> share: their loops over
  pixel groups, and the contract of a pixel group format. A pixel group is a packed C struct whose
  bit fields are words of their width, so that storing into a field is \<open>ucast\<close>. The loops return
  \<open>None\<close> when they read past the end of a source buffer, and otherwise the elements they write.
  A pixel group format packs \<open>ny\<close> luma (or green) and \<open>nc\<close> samples of each chroma plane.
\<close>

section \<open>Loops over pixel groups\<close>

text \<open>One packed group in, one packed group out.\<close>

fun pg_map :: "('a \<Rightarrow> 'b) \<Rightarrow> nat \<Rightarrow> 'a list \<Rightarrow> 'b list option" where
  "pg_map f 0 pgs = Some []"
| "pg_map f (Suc n) [] = None"
| "pg_map f (Suc n) (pg # pgs) = map_option (Cons (f pg)) (pg_map f n pgs)"

text \<open>Samples of three planes in, one packed group out.\<close>

fun planar_to_pg :: "(u16 list \<Rightarrow> u16 list \<Rightarrow> u16 list \<Rightarrow> 'pg) \<Rightarrow> nat \<Rightarrow> nat \<Rightarrow> nat \<Rightarrow>
    u16 list \<Rightarrow> u16 list \<Rightarrow> u16 list \<Rightarrow> 'pg list option" where
  "planar_to_pg f ny nc 0 y b r = Some []"
| "planar_to_pg f ny nc (Suc n) y b r =
     (if length y < ny \<or> length b < nc \<or> length r < nc then None
      else map_option (Cons (f (take ny y) (take nc b) (take nc r)))
             (planar_to_pg f ny nc n (drop ny y) (drop nc b) (drop nc r)))"

text \<open>One packed group in, samples of three planes out.\<close>

fun pg_to_planar :: "('pg \<Rightarrow> 's list \<times> 's list \<times> 's list) \<Rightarrow> nat \<Rightarrow> 'pg list \<Rightarrow>
    ('s list \<times> 's list \<times> 's list) option" where
  "pg_to_planar g 0 pgs = Some ([], [], [])"
| "pg_to_planar g (Suc n) [] = None"
| "pg_to_planar g (Suc n) (pg # pgs) =
     (case g pg of (ys, bs, rs) \<Rightarrow>
        map_option (\<lambda>(y, b, r). (ys @ y, bs @ b, rs @ r)) (pg_to_planar g n pgs))"

text \<open>A block of \<open>k\<close> bytes in, a block of bytes out.\<close>

fun block_map :: "nat \<Rightarrow> (u8 list \<Rightarrow> u8 list) \<Rightarrow> nat \<Rightarrow> u8 list \<Rightarrow> u8 list option" where
  "block_map k f 0 bytes = Some []"
| "block_map k f (Suc n) bytes =
     (if length bytes < k then None
      else map_option (append (f (take k bytes))) (block_map k f n (drop k bytes)))"

lemma pg_map_eq: "pg_map f n pgs = (if n \<le> length pgs then Some (map f (take n pgs)) else None)"
  by (induction f n pgs rule: pg_map.induct) auto

lemma pg_to_planar_eq:
  "n \<le> length pgs \<Longrightarrow> pg_to_planar g n pgs = Some (concat (map (\<lambda>p. fst (g p)) (take n pgs)),
     concat (map (\<lambda>p. fst (snd (g p))) (take n pgs)), concat (map (\<lambda>p. snd (snd (g p))) (take n pgs)))"
  by (induction g n pgs rule: pg_to_planar.induct) (auto split: prod.split)

text \<open>A format whose samples are a function of those of another.\<close>

definition map3 :: "('a \<Rightarrow> 'b) \<Rightarrow> 'a list \<times> 'a list \<times> 'a list \<Rightarrow> 'b list \<times> 'b list \<times> 'b list" where
  "map3 f p = (case p of (ys, bs, rs) \<Rightarrow> (map f ys, map f bs, map f rs))"

lemma pg_to_planar_map3:
  assumes "\<And>pg. g' pg = map3 f (g pg)"
  shows "pg_to_planar g' n pgs = map_option (map3 f) (pg_to_planar g n pgs)"
proof (induction n arbitrary: pgs)
  case (Suc n)
  show ?case
  proof (cases pgs)
    case (Cons pg rest)
    obtain ys bs rs where "g pg = (ys, bs, rs)" by (cases "g pg")
    then show ?thesis
      using Cons Suc.IH [of rest]
      by (cases "pg_to_planar g n rest") (auto simp: assms map3_def)
  qed simp
qed (simp add: map3_def)

lemma planar_to_pg_map:
  assumes "\<And>ys bs rs. length ys = ny \<Longrightarrow> length bs = nc \<Longrightarrow> length rs = nc \<Longrightarrow>
    p' ys bs rs = p (map f ys) (map f bs) (map f rs)"
  shows "planar_to_pg p' ny nc n y b r = planar_to_pg p ny nc n (map f y) (map f b) (map f r)"
  using assms by (induction n arbitrary: y b r) (simp_all add: take_map drop_map)

section \<open>Fields of samples\<close>

lemma field_add:
  fixes a :: "'a::len word" and b :: "'b::len word"
  assumes "LENGTH('b) \<le> k"
  shows "push_bit k (ucast a) + ucast b = (push_bit k (ucast a) OR ucast b :: u16)"
  and "ucast b + push_bit k (ucast a) = (push_bit k (ucast a) OR ucast b :: u16)"
proof -
  have "push_bit k (ucast a) + ucast b = (push_bit k (ucast a) OR ucast b :: u16)"
    using assms by (intro disjunctive_add) (auto simp: bit_simps bit_word_out)
  then show "push_bit k (ucast a) + ucast b = (push_bit k (ucast a) OR ucast b :: u16)"
    "ucast b + push_bit k (ucast a) = (push_bit k (ucast a) OR ucast b :: u16)"
    by (simp_all add: add.commute)
qed

lemma field_hi:
  fixes a :: "'a::len word" and b :: "'b::len word"
  assumes "LENGTH('b) \<le> k" and "k + LENGTH('a) \<le> 16"
  shows "ucast (drop_bit k (push_bit k (ucast a)) OR drop_bit k (ucast b) :: u16) = a"
  using assms by (intro bit_word_eqI) (auto simp: bit_simps bit_word_out)

lemma field_lo:
  fixes a :: "'a::len word" and b :: "'b::len word"
  assumes "LENGTH('b) \<le> k" and "LENGTH('b) \<le> 16"
  shows "ucast (push_bit k (ucast a) OR ucast b :: u16) = b"
  using assms by (intro bit_word_eqI) (auto simp: bit_simps bit_word_out)

lemma field_join:
  fixes x :: u16
  assumes "LENGTH('b::len) = k"
  shows "push_bit k (ucast (ucast (drop_bit k x) :: 'a::len word)) OR ucast (ucast x :: 'b word) =
    take_bit (k + LENGTH('a)) x"
  using assms by (intro bit_word_eqI) (auto simp: bit_simps bit_word_out)

section \<open>The contract of a pixel group format\<close>

text \<open>
  \<open>pack\<close> builds a group from samples and \<open>unpack\<close> takes it apart; a group holds the low \<open>bits\<close> bits of each
  sample and nothing else.
\<close>

locale pg_codec =
  fixes pack :: "u16 list \<Rightarrow> u16 list \<Rightarrow> u16 list \<Rightarrow> 'pg"
    and unpack :: "'pg \<Rightarrow> u16 list \<times> u16 list \<times> u16 list"
    and ny nc bits :: nat
  assumes unpack_pack: "length ys = ny \<Longrightarrow> length bs = nc \<Longrightarrow> length rs = nc \<Longrightarrow>
      unpack (pack ys bs rs) = (map (take_bit bits) ys, map (take_bit bits) bs, map (take_bit bits) rs)"
    and pack_unpack: "unpack pg = (ys, bs, rs) \<Longrightarrow>
      length ys = ny \<and> length bs = nc \<and> length rs = nc \<and> pack ys bs rs = pg"
begin

text \<open>A whole frame of planar samples survives packing and unpacking, cut to \<open>bits\<close> bits.\<close>

lemma planar_roundtrip:
  assumes "length y = n * ny" and "length b = n * nc" and "length r = n * nc"
  shows "\<exists>pgs. planar_to_pg pack ny nc n y b r = Some pgs \<and> length pgs = n \<and>
    pg_to_planar unpack n pgs = Some (map (take_bit bits) y, map (take_bit bits) b, map (take_bit bits) r)"
  using assms
proof (induction n arbitrary: y b r)
  case (Suc n)
  let ?pg = "pack (take ny y) (take nc b) (take nc r)"
  obtain pgs where pgs: "planar_to_pg pack ny nc n (drop ny y) (drop nc b) (drop nc r) = Some pgs"
    "length pgs = n" "pg_to_planar unpack n pgs = Some (map (take_bit bits) (drop ny y),
       map (take_bit bits) (drop nc b), map (take_bit bits) (drop nc r))"
    using Suc.IH [of "drop ny y" "drop nc b" "drop nc r"] Suc.prems by auto
  have "unpack ?pg = (map (take_bit bits) (take ny y), map (take_bit bits) (take nc b), map (take_bit bits) (take nc r))"
    using Suc.prems by (intro unpack_pack) auto
  moreover have "map (take_bit bits) (take k xs) @ map (take_bit bits) (drop k xs) = map (take_bit bits) xs"
    for k and xs :: "u16 list"
    by (simp flip: map_append)
  ultimately show ?case
    using pgs Suc.prems by (intro exI [of _ "?pg # pgs"]) auto
qed simp

text \<open>A frame of pixel groups survives unpacking and packing.\<close>

lemma pg_roundtrip:
  assumes "length pgs = n"
  shows "\<exists>y b r. pg_to_planar unpack n pgs = Some (y, b, r) \<and>
    length y = n * ny \<and> length b = n * nc \<and> length r = n * nc \<and>
    planar_to_pg pack ny nc n y b r = Some pgs"
  using assms
proof (induction n arbitrary: pgs)
  case (Suc n)
  then obtain pg rest where pgs: "pgs = pg # rest" "length rest = n" by (cases pgs) auto
  obtain ys bs rs where u: "unpack pg = (ys, bs, rs)" by (cases "unpack pg") auto
  note len = pack_unpack [OF u]
  obtain y b r where rest: "pg_to_planar unpack n rest = Some (y, b, r)"
    "length y = n * ny" "length b = n * nc" "length r = n * nc"
    "planar_to_pg pack ny nc n y b r = Some rest"
    using Suc.IH [OF pgs(2)] by auto
  show ?case using u len rest pgs by auto
qed simp

end

text \<open>Two formats of the same samples: converting a group directly between them loses nothing.\<close>

locale pg_transcode = A: pg_codec packA unpackA ny nc bits + B: pg_codec packB unpackB ny nc bits
  for packA :: "u16 list \<Rightarrow> u16 list \<Rightarrow> u16 list \<Rightarrow> 'pa" and unpackA
    and packB :: "u16 list \<Rightarrow> u16 list \<Rightarrow> u16 list \<Rightarrow> 'pb" and unpackB
    and ny nc bits
begin

definition a_to_b :: "'pa \<Rightarrow> 'pb" where
  "a_to_b pg = (case unpackA pg of (ys, bs, rs) \<Rightarrow> packB ys bs rs)"

definition b_to_a :: "'pb \<Rightarrow> 'pa" where
  "b_to_a pg = (case unpackB pg of (ys, bs, rs) \<Rightarrow> packA ys bs rs)"

lemma samples_cut:
  assumes "unpackA pg = (ys, bs, rs)"
  shows "map (take_bit bits) ys = ys" "map (take_bit bits) bs = bs" "map (take_bit bits) rs = rs"
  using A.pack_unpack [OF assms] A.unpack_pack [of ys bs rs] assms by auto

lemma same_samples: "unpackB (a_to_b pg) = unpackA pg"
proof (cases "unpackA pg")
  case (fields ys bs rs)
  then show ?thesis
    using A.pack_unpack [OF fields] B.unpack_pack [of ys bs rs] samples_cut [OF fields]
    by (simp add: a_to_b_def)
qed

lemma transcode_back: "b_to_a (a_to_b pg) = pg"
  using A.pack_unpack [of pg] by (cases "unpackA pg") (simp add: b_to_a_def same_samples)

lemma planar_commutes: "pg_to_planar unpackB n (map a_to_b pgs) = pg_to_planar unpackA n pgs"
proof (induction n arbitrary: pgs)
  case (Suc n)
  then show ?case by (cases pgs) (simp_all add: same_samples)
qed simp

end

section \<open>Formats defined on blocks of bytes\<close>

locale block_codec =
  fixes k l :: nat and f g :: "u8 list \<Rightarrow> u8 list"
  assumes block: "length xs = k \<Longrightarrow> length (f xs) = l \<and> g (f xs) = xs"
begin

lemma block_roundtrip:
  assumes "length xs = n * k"
  shows "\<exists>ys. block_map k f n xs = Some ys \<and> length ys = n * l \<and> block_map l g n ys = Some xs"
  using assms
proof (induction n arbitrary: xs)
  case (Suc n)
  have head: "length (f (take k xs)) = l" "g (f (take k xs)) = take k xs"
    using block [of "take k xs"] Suc.prems by simp_all
  obtain ys where ys: "block_map k f n (drop k xs) = Some ys" "length ys = n * l"
    "block_map l g n ys = Some (drop k xs)"
    using Suc.IH [of "drop k xs"] Suc.prems by auto
  show ?case
    using Suc.prems head ys by (intro exI [of _ "f (take k xs) @ ys"]) auto
qed simp

end

end
