(* ===== verification/Convert_422.thy ===== *)
theory Convert_422
  imports Pixel_Groups
begin

text \<open>
  The scalar converters of \<^verbatim>\<open>lib/src/st2110/st_convert.c\<close> between the YUV 4:2:2 formats of 10 and 12
  bits: RFC 4175 pixel groups in big-endian and little-endian order and planar frames. The structs
  are those of \<^verbatim>\<open>include/st20_api.h\<close> on a little-endian host; a field \<open>X_\<close> of the source is \<open>X'\<close>.
  \<open>pack\<close> and \<open>unpack\<close> are the bodies the loops repeat.
\<close>

section \<open>Pixel groups\<close>

record st20_rfc4175_422_10_pg2_be =
  b10_Cb00 :: "8 word"
  b10_Y00 :: "6 word"
  b10_Cb00' :: "2 word"
  b10_Cr00 :: "4 word"
  b10_Y00' :: "4 word"
  b10_Y01 :: "2 word"
  b10_Cr00' :: "6 word"
  b10_Y01' :: "8 word"

definition unpack_422be10 :: "st20_rfc4175_422_10_pg2_be \<Rightarrow> u16 list \<times> u16 list \<times> u16 list" where
  "unpack_422be10 pg =
     (let cb = push_bit 2 (ucast (b10_Cb00 pg)) + ucast (b10_Cb00' pg);
          y0 = push_bit 4 (ucast (b10_Y00 pg)) + ucast (b10_Y00' pg);
          cr = push_bit 6 (ucast (b10_Cr00 pg)) + ucast (b10_Cr00' pg);
          y1 = push_bit 8 (ucast (b10_Y01 pg)) + ucast (b10_Y01' pg)
      in ([y0, y1], [cb], [cr]))"

definition pack_422be10 :: "u16 list \<Rightarrow> u16 list \<Rightarrow> u16 list \<Rightarrow> st20_rfc4175_422_10_pg2_be" where
  "pack_422be10 y b r =
     (let cb = b ! 0; y0 = y ! 0; cr = r ! 0; y1 = y ! 1
      in \<lparr>b10_Cb00 = ucast (drop_bit 2 cb),
          b10_Y00 = ucast (drop_bit 4 y0),
          b10_Cb00' = ucast cb,
          b10_Cr00 = ucast (drop_bit 6 cr),
          b10_Y00' = ucast y0,
          b10_Y01 = ucast (drop_bit 8 y1),
          b10_Cr00' = ucast cr,
          b10_Y01' = ucast y1\<rparr>)"

record st20_rfc4175_422_10_pg2_le =
  l10_Cb00 :: "8 word"
  l10_Cb00' :: "2 word"
  l10_Y00 :: "6 word"
  l10_Y00' :: "4 word"
  l10_Cr00 :: "4 word"
  l10_Cr00' :: "6 word"
  l10_Y01 :: "2 word"
  l10_Y01' :: "8 word"

definition unpack_422le10 :: "st20_rfc4175_422_10_pg2_le \<Rightarrow> u16 list \<times> u16 list \<times> u16 list" where
  "unpack_422le10 pg =
     (let cb = ucast (l10_Cb00 pg) + push_bit 8 (ucast (l10_Cb00' pg));
          y0 = ucast (l10_Y00 pg) + push_bit 6 (ucast (l10_Y00' pg));
          cr = ucast (l10_Cr00 pg) + push_bit 4 (ucast (l10_Cr00' pg));
          y1 = ucast (l10_Y01 pg) + push_bit 2 (ucast (l10_Y01' pg))
      in ([y0, y1], [cb], [cr]))"

definition pack_422le10 :: "u16 list \<Rightarrow> u16 list \<Rightarrow> u16 list \<Rightarrow> st20_rfc4175_422_10_pg2_le" where
  "pack_422le10 y b r =
     (let cb = b ! 0; y0 = y ! 0; cr = r ! 0; y1 = y ! 1
      in \<lparr>l10_Cb00 = ucast cb,
          l10_Cb00' = ucast (drop_bit 8 cb),
          l10_Y00 = ucast y0,
          l10_Y00' = ucast (drop_bit 6 y0),
          l10_Cr00 = ucast cr,
          l10_Cr00' = ucast (drop_bit 4 cr),
          l10_Y01 = ucast y1,
          l10_Y01' = ucast (drop_bit 2 y1)\<rparr>)"

record st20_rfc4175_422_12_pg2_be =
  b12_Cb00 :: "8 word"
  b12_Y00 :: "4 word"
  b12_Cb00' :: "4 word"
  b12_Y00' :: "8 word"
  b12_Cr00 :: "8 word"
  b12_Y01 :: "4 word"
  b12_Cr00' :: "4 word"
  b12_Y01' :: "8 word"

definition unpack_422be12 :: "st20_rfc4175_422_12_pg2_be \<Rightarrow> u16 list \<times> u16 list \<times> u16 list" where
  "unpack_422be12 pg =
     (let cb = push_bit 4 (ucast (b12_Cb00 pg)) + ucast (b12_Cb00' pg);
          y0 = push_bit 8 (ucast (b12_Y00 pg)) + ucast (b12_Y00' pg);
          cr = push_bit 4 (ucast (b12_Cr00 pg)) + ucast (b12_Cr00' pg);
          y1 = push_bit 8 (ucast (b12_Y01 pg)) + ucast (b12_Y01' pg)
      in ([y0, y1], [cb], [cr]))"

definition pack_422be12 :: "u16 list \<Rightarrow> u16 list \<Rightarrow> u16 list \<Rightarrow> st20_rfc4175_422_12_pg2_be" where
  "pack_422be12 y b r =
     (let cb = b ! 0; y0 = y ! 0; cr = r ! 0; y1 = y ! 1
      in \<lparr>b12_Cb00 = ucast (drop_bit 4 cb),
          b12_Y00 = ucast (drop_bit 8 y0),
          b12_Cb00' = ucast cb,
          b12_Y00' = ucast y0,
          b12_Cr00 = ucast (drop_bit 4 cr),
          b12_Y01 = ucast (drop_bit 8 y1),
          b12_Cr00' = ucast cr,
          b12_Y01' = ucast y1\<rparr>)"

record st20_rfc4175_422_12_pg2_le =
  l12_Cb00 :: "8 word"
  l12_Cb00' :: "4 word"
  l12_Y00 :: "4 word"
  l12_Y00' :: "8 word"
  l12_Cr00 :: "8 word"
  l12_Cr00' :: "4 word"
  l12_Y01 :: "4 word"
  l12_Y01' :: "8 word"

definition unpack_422le12 :: "st20_rfc4175_422_12_pg2_le \<Rightarrow> u16 list \<times> u16 list \<times> u16 list" where
  "unpack_422le12 pg =
     (let cb = ucast (l12_Cb00 pg) + push_bit 8 (ucast (l12_Cb00' pg));
          y0 = ucast (l12_Y00 pg) + push_bit 4 (ucast (l12_Y00' pg));
          cr = ucast (l12_Cr00 pg) + push_bit 8 (ucast (l12_Cr00' pg));
          y1 = ucast (l12_Y01 pg) + push_bit 4 (ucast (l12_Y01' pg))
      in ([y0, y1], [cb], [cr]))"

definition pack_422le12 :: "u16 list \<Rightarrow> u16 list \<Rightarrow> u16 list \<Rightarrow> st20_rfc4175_422_12_pg2_le" where
  "pack_422le12 y b r =
     (let cb = b ! 0; y0 = y ! 0; cr = r ! 0; y1 = y ! 1
      in \<lparr>l12_Cb00 = ucast cb,
          l12_Cb00' = ucast (drop_bit 8 cb),
          l12_Y00 = ucast y0,
          l12_Y00' = ucast (drop_bit 4 y0),
          l12_Cr00 = ucast cr,
          l12_Cr00' = ucast (drop_bit 8 cr),
          l12_Y01 = ucast y1,
          l12_Y01' = ucast (drop_bit 4 y1)\<rparr>)"


section \<open>Converters\<close>

definition st20_yuv422p10le_to_rfc4175_422be10_scalar ::
  "u16 list \<Rightarrow> u16 list \<Rightarrow> u16 list \<Rightarrow> u32 \<Rightarrow> u32 \<Rightarrow> st20_rfc4175_422_10_pg2_be list option" where
  "st20_yuv422p10le_to_rfc4175_422be10_scalar y b r w h =
     planar_to_pg pack_422be10 2 1 (unat (w * h div 2)) y b r"

definition st20_rfc4175_422be10_to_yuv422p10le_scalar ::
  "st20_rfc4175_422_10_pg2_be list \<Rightarrow> u32 \<Rightarrow> u32 \<Rightarrow> (u16 list \<times> u16 list \<times> u16 list) option" where
  "st20_rfc4175_422be10_to_yuv422p10le_scalar pg w h =
     pg_to_planar unpack_422be10 (unat (w * h div 2)) pg"

definition st20_yuv422p10le_to_rfc4175_422le10 ::
  "u16 list \<Rightarrow> u16 list \<Rightarrow> u16 list \<Rightarrow> u32 \<Rightarrow> u32 \<Rightarrow> st20_rfc4175_422_10_pg2_le list option" where
  "st20_yuv422p10le_to_rfc4175_422le10 y b r w h =
     planar_to_pg pack_422le10 2 1 (unat (w * h div 2)) y b r"

definition st20_rfc4175_422le10_to_yuv422p10le ::
  "st20_rfc4175_422_10_pg2_le list \<Rightarrow> u32 \<Rightarrow> u32 \<Rightarrow> (u16 list \<times> u16 list \<times> u16 list) option" where
  "st20_rfc4175_422le10_to_yuv422p10le pg w h =
     pg_to_planar unpack_422le10 (unat (w * h div 2)) pg"

definition st20_rfc4175_422be10_to_422le10_scalar ::
  "st20_rfc4175_422_10_pg2_be list \<Rightarrow> u32 \<Rightarrow> u32 \<Rightarrow> st20_rfc4175_422_10_pg2_le list option" where
  "st20_rfc4175_422be10_to_422le10_scalar pg_be w h =
     pg_map (\<lambda>pg. case unpack_422be10 pg of (y, b, r) \<Rightarrow> pack_422le10 y b r) (unat (w * h div 2)) pg_be"

definition st20_rfc4175_422le10_to_422be10_scalar ::
  "st20_rfc4175_422_10_pg2_le list \<Rightarrow> u32 \<Rightarrow> u32 \<Rightarrow> st20_rfc4175_422_10_pg2_be list option" where
  "st20_rfc4175_422le10_to_422be10_scalar pg_le w h =
     pg_map (\<lambda>pg. case unpack_422le10 pg of (y, b, r) \<Rightarrow> pack_422be10 y b r) (unat (w * h div 2)) pg_le"

definition st20_yuv422p12le_to_rfc4175_422be12_scalar ::
  "u16 list \<Rightarrow> u16 list \<Rightarrow> u16 list \<Rightarrow> u32 \<Rightarrow> u32 \<Rightarrow> st20_rfc4175_422_12_pg2_be list option" where
  "st20_yuv422p12le_to_rfc4175_422be12_scalar y b r w h =
     planar_to_pg pack_422be12 2 1 (unat (w * h div 2)) y b r"

definition st20_rfc4175_422be12_to_yuv422p12le_scalar ::
  "st20_rfc4175_422_12_pg2_be list \<Rightarrow> u32 \<Rightarrow> u32 \<Rightarrow> (u16 list \<times> u16 list \<times> u16 list) option" where
  "st20_rfc4175_422be12_to_yuv422p12le_scalar pg w h =
     pg_to_planar unpack_422be12 (unat (w * h div 2)) pg"

definition st20_yuv422p12le_to_rfc4175_422le12 ::
  "u16 list \<Rightarrow> u16 list \<Rightarrow> u16 list \<Rightarrow> u32 \<Rightarrow> u32 \<Rightarrow> st20_rfc4175_422_12_pg2_le list option" where
  "st20_yuv422p12le_to_rfc4175_422le12 y b r w h =
     planar_to_pg pack_422le12 2 1 (unat (w * h div 2)) y b r"

definition st20_rfc4175_422le12_to_yuv422p12le ::
  "st20_rfc4175_422_12_pg2_le list \<Rightarrow> u32 \<Rightarrow> u32 \<Rightarrow> (u16 list \<times> u16 list \<times> u16 list) option" where
  "st20_rfc4175_422le12_to_yuv422p12le pg w h =
     pg_to_planar unpack_422le12 (unat (w * h div 2)) pg"

definition st20_rfc4175_422be12_to_422le12_scalar ::
  "st20_rfc4175_422_12_pg2_be list \<Rightarrow> u32 \<Rightarrow> u32 \<Rightarrow> st20_rfc4175_422_12_pg2_le list option" where
  "st20_rfc4175_422be12_to_422le12_scalar pg_be w h =
     pg_map (\<lambda>pg. case unpack_422be12 pg of (y, b, r) \<Rightarrow> pack_422le12 y b r) (unat (w * h div 2)) pg_be"

definition st20_rfc4175_422le12_to_422be12_scalar ::
  "st20_rfc4175_422_12_pg2_le list \<Rightarrow> u32 \<Rightarrow> u32 \<Rightarrow> st20_rfc4175_422_12_pg2_be list option" where
  "st20_rfc4175_422le12_to_422be12_scalar pg_le w h =
     pg_map (\<lambda>pg. case unpack_422le12 pg of (y, b, r) \<Rightarrow> pack_422be12 y b r) (unat (w * h div 2)) pg_le"

section \<open>The formats meet their contract\<close>

interpretation be10: pg_codec pack_422be10 unpack_422be10 2 1 10
proof
  fix ys bs rs :: "u16 list"
  assume "length ys = 2" "length bs = 1" "length rs = 1"
  then obtain y0 y1 cb cr where "ys = [y0, y1]" "bs = [cb]" "rs = [cr]"
    by (auto simp: numeral_2_eq_2 length_Suc_conv)
  then show "unpack_422be10 (pack_422be10 ys bs rs) =
      (map (take_bit 10) ys, map (take_bit 10) bs, map (take_bit 10) rs)"
    by (simp add: pack_422be10_def unpack_422be10_def Let_def field_add field_join)
next
  fix pg ys bs rs
  assume "unpack_422be10 pg = (ys, bs, rs)"
  then show "length ys = 2 \<and> length bs = 1 \<and> length rs = 1 \<and> pack_422be10 ys bs rs = pg"
    by (cases pg) (auto simp: pack_422be10_def unpack_422be10_def Let_def field_add field_hi field_lo)
qed

interpretation le10: pg_codec pack_422le10 unpack_422le10 2 1 10
proof
  fix ys bs rs :: "u16 list"
  assume "length ys = 2" "length bs = 1" "length rs = 1"
  then obtain y0 y1 cb cr where "ys = [y0, y1]" "bs = [cb]" "rs = [cr]"
    by (auto simp: numeral_2_eq_2 length_Suc_conv)
  then show "unpack_422le10 (pack_422le10 ys bs rs) =
      (map (take_bit 10) ys, map (take_bit 10) bs, map (take_bit 10) rs)"
    by (simp add: pack_422le10_def unpack_422le10_def Let_def field_add field_join)
next
  fix pg ys bs rs
  assume "unpack_422le10 pg = (ys, bs, rs)"
  then show "length ys = 2 \<and> length bs = 1 \<and> length rs = 1 \<and> pack_422le10 ys bs rs = pg"
    by (cases pg) (auto simp: pack_422le10_def unpack_422le10_def Let_def field_add field_hi field_lo)
qed

interpretation be12: pg_codec pack_422be12 unpack_422be12 2 1 12
proof
  fix ys bs rs :: "u16 list"
  assume "length ys = 2" "length bs = 1" "length rs = 1"
  then obtain y0 y1 cb cr where "ys = [y0, y1]" "bs = [cb]" "rs = [cr]"
    by (auto simp: numeral_2_eq_2 length_Suc_conv)
  then show "unpack_422be12 (pack_422be12 ys bs rs) =
      (map (take_bit 12) ys, map (take_bit 12) bs, map (take_bit 12) rs)"
    by (simp add: pack_422be12_def unpack_422be12_def Let_def field_add field_join)
next
  fix pg ys bs rs
  assume "unpack_422be12 pg = (ys, bs, rs)"
  then show "length ys = 2 \<and> length bs = 1 \<and> length rs = 1 \<and> pack_422be12 ys bs rs = pg"
    by (cases pg) (auto simp: pack_422be12_def unpack_422be12_def Let_def field_add field_hi field_lo)
qed

interpretation le12: pg_codec pack_422le12 unpack_422le12 2 1 12
proof
  fix ys bs rs :: "u16 list"
  assume "length ys = 2" "length bs = 1" "length rs = 1"
  then obtain y0 y1 cb cr where "ys = [y0, y1]" "bs = [cb]" "rs = [cr]"
    by (auto simp: numeral_2_eq_2 length_Suc_conv)
  then show "unpack_422le12 (pack_422le12 ys bs rs) =
      (map (take_bit 12) ys, map (take_bit 12) bs, map (take_bit 12) rs)"
    by (simp add: pack_422le12_def unpack_422le12_def Let_def field_add field_join)
next
  fix pg ys bs rs
  assume "unpack_422le12 pg = (ys, bs, rs)"
  then show "length ys = 2 \<and> length bs = 1 \<and> length rs = 1 \<and> pack_422le12 ys bs rs = pg"
    by (cases pg) (auto simp: pack_422le12_def unpack_422le12_def Let_def field_add field_hi field_lo)
qed

interpretation be_le_10: pg_transcode pack_422be10 unpack_422be10 pack_422le10 unpack_422le10 2 1 10 ..

lemma transcode_422_10:
  assumes "length pg = unat (w * h div 2)"
  shows "\<exists>le. st20_rfc4175_422be10_to_422le10_scalar pg w h = Some le \<and> length le = length pg \<and>
    st20_rfc4175_422le10_to_422be10_scalar le w h = Some pg \<and>
    st20_rfc4175_422le10_to_yuv422p10le le w h = st20_rfc4175_422be10_to_yuv422p10le_scalar pg w h"
proof -
  let ?le = "map be_le_10.a_to_b pg"
  have "st20_rfc4175_422be10_to_422le10_scalar pg w h = Some ?le"
    using assms by (simp add: st20_rfc4175_422be10_to_422le10_scalar_def pg_map_eq be_le_10.a_to_b_def)
  moreover have "st20_rfc4175_422le10_to_422be10_scalar ?le w h = Some pg"
    using assms be_le_10.transcode_back
    by (simp add: st20_rfc4175_422le10_to_422be10_scalar_def pg_map_eq be_le_10.b_to_a_def o_def)
  moreover have "st20_rfc4175_422le10_to_yuv422p10le ?le w h = st20_rfc4175_422be10_to_yuv422p10le_scalar pg w h"
    by (simp add: st20_rfc4175_422le10_to_yuv422p10le_def st20_rfc4175_422be10_to_yuv422p10le_scalar_def be_le_10.planar_commutes)
  ultimately show ?thesis by auto
qed

text \<open>
  C10. The 10-bit 4:2:2 converters over a whole frame. Unpacking big-endian pixel groups to planes and
  packing them again, and converting them to little-endian groups and back, are both the identity;
  the little-endian groups unpack to the same planes and pack back from them; and planar samples
  survive packing and unpacking cut to 10 bits. The loops read no sample and no group past the
  \<open>w * h / 2\<close> of the frame.
\<close>

theorem convert_422_10:
  assumes "length pg = unat (w * h div 2)" and "length y = 2 * unat (w * h div 2)"
    and "length b = unat (w * h div 2)" and "length r = unat (w * h div 2)"
  shows "(\<exists>Y B R le. st20_rfc4175_422be10_to_yuv422p10le_scalar pg w h = Some (Y, B, R) \<and>
      st20_yuv422p10le_to_rfc4175_422be10_scalar Y B R w h = Some pg \<and>
      st20_rfc4175_422be10_to_422le10_scalar pg w h = Some le \<and>
      st20_rfc4175_422le10_to_422be10_scalar le w h = Some pg \<and>
      st20_rfc4175_422le10_to_yuv422p10le le w h = Some (Y, B, R) \<and>
      st20_yuv422p10le_to_rfc4175_422le10 Y B R w h = Some le) \<and>
    (\<exists>pg'. st20_yuv422p10le_to_rfc4175_422be10_scalar y b r w h = Some pg' \<and>
      st20_rfc4175_422be10_to_yuv422p10le_scalar pg' w h =
        Some (map (take_bit 10) y, map (take_bit 10) b, map (take_bit 10) r))"
proof -
  obtain Y B R where planes: "st20_rfc4175_422be10_to_yuv422p10le_scalar pg w h = Some (Y, B, R)"
    "st20_yuv422p10le_to_rfc4175_422be10_scalar Y B R w h = Some pg"
    using be10.pg_roundtrip [OF assms(1)]
    by (auto simp: st20_rfc4175_422be10_to_yuv422p10le_scalar_def st20_yuv422p10le_to_rfc4175_422be10_scalar_def)
  obtain le where le: "st20_rfc4175_422be10_to_422le10_scalar pg w h = Some le" "length le = length pg"
    "st20_rfc4175_422le10_to_422be10_scalar le w h = Some pg"
    "st20_rfc4175_422le10_to_yuv422p10le le w h = Some (Y, B, R)"
    using transcode_422_10 [OF assms(1)] planes(1) by auto
  have "st20_yuv422p10le_to_rfc4175_422le10 Y B R w h = Some le"
    using le10.pg_roundtrip [of le "unat (w * h div 2)"] le(2,4) assms(1)
    by (auto simp: st20_rfc4175_422le10_to_yuv422p10le_def st20_yuv422p10le_to_rfc4175_422le10_def)
  moreover have "\<exists>pg'. st20_yuv422p10le_to_rfc4175_422be10_scalar y b r w h = Some pg' \<and>
      st20_rfc4175_422be10_to_yuv422p10le_scalar pg' w h =
        Some (map (take_bit 10) y, map (take_bit 10) b, map (take_bit 10) r)"
    using be10.planar_roundtrip [of y "unat (w * h div 2)" b r] assms
    by (auto simp: st20_rfc4175_422be10_to_yuv422p10le_scalar_def st20_yuv422p10le_to_rfc4175_422be10_scalar_def mult.commute)
  ultimately show ?thesis using planes le by blast
qed

theorem convert_422_10_witness:
  "\<exists>pg'. st20_yuv422p10le_to_rfc4175_422be10_scalar [0x3AC, 0x001] [0x200] [0x155] 2 1 = Some pg' \<and>
    st20_rfc4175_422be10_to_yuv422p10le_scalar pg' 2 1 = Some ([0x3AC, 0x001], [0x200], [0x155])"
  using convert_422_10 [of "[pack_422be10 [0, 0] [0] [0]]" 2 1 "[0x3AC, 0x001]" "[0x200]" "[0x155]"]
  by simp

interpretation be_le_12: pg_transcode pack_422be12 unpack_422be12 pack_422le12 unpack_422le12 2 1 12 ..

lemma transcode_422_12:
  assumes "length pg = unat (w * h div 2)"
  shows "\<exists>le. st20_rfc4175_422be12_to_422le12_scalar pg w h = Some le \<and> length le = length pg \<and>
    st20_rfc4175_422le12_to_422be12_scalar le w h = Some pg \<and>
    st20_rfc4175_422le12_to_yuv422p12le le w h = st20_rfc4175_422be12_to_yuv422p12le_scalar pg w h"
proof -
  let ?le = "map be_le_12.a_to_b pg"
  have "st20_rfc4175_422be12_to_422le12_scalar pg w h = Some ?le"
    using assms by (simp add: st20_rfc4175_422be12_to_422le12_scalar_def pg_map_eq be_le_12.a_to_b_def)
  moreover have "st20_rfc4175_422le12_to_422be12_scalar ?le w h = Some pg"
    using assms be_le_12.transcode_back
    by (simp add: st20_rfc4175_422le12_to_422be12_scalar_def pg_map_eq be_le_12.b_to_a_def o_def)
  moreover have "st20_rfc4175_422le12_to_yuv422p12le ?le w h = st20_rfc4175_422be12_to_yuv422p12le_scalar pg w h"
    by (simp add: st20_rfc4175_422le12_to_yuv422p12le_def st20_rfc4175_422be12_to_yuv422p12le_scalar_def be_le_12.planar_commutes)
  ultimately show ?thesis by auto
qed

text \<open>
  The 12-bit 4:2:2 converters over a whole frame. Unpacking big-endian pixel groups to planes and
  packing them again, and converting them to little-endian groups and back, are both the identity;
  the little-endian groups unpack to the same planes and pack back from them; and planar samples
  survive packing and unpacking cut to 12 bits. The loops read no sample and no group past the
  \<open>w * h / 2\<close> of the frame.
\<close>

theorem convert_422_12:
  assumes "length pg = unat (w * h div 2)" and "length y = 2 * unat (w * h div 2)"
    and "length b = unat (w * h div 2)" and "length r = unat (w * h div 2)"
  shows "(\<exists>Y B R le. st20_rfc4175_422be12_to_yuv422p12le_scalar pg w h = Some (Y, B, R) \<and>
      st20_yuv422p12le_to_rfc4175_422be12_scalar Y B R w h = Some pg \<and>
      st20_rfc4175_422be12_to_422le12_scalar pg w h = Some le \<and>
      st20_rfc4175_422le12_to_422be12_scalar le w h = Some pg \<and>
      st20_rfc4175_422le12_to_yuv422p12le le w h = Some (Y, B, R) \<and>
      st20_yuv422p12le_to_rfc4175_422le12 Y B R w h = Some le) \<and>
    (\<exists>pg'. st20_yuv422p12le_to_rfc4175_422be12_scalar y b r w h = Some pg' \<and>
      st20_rfc4175_422be12_to_yuv422p12le_scalar pg' w h =
        Some (map (take_bit 12) y, map (take_bit 12) b, map (take_bit 12) r))"
proof -
  obtain Y B R where planes: "st20_rfc4175_422be12_to_yuv422p12le_scalar pg w h = Some (Y, B, R)"
    "st20_yuv422p12le_to_rfc4175_422be12_scalar Y B R w h = Some pg"
    using be12.pg_roundtrip [OF assms(1)]
    by (auto simp: st20_rfc4175_422be12_to_yuv422p12le_scalar_def st20_yuv422p12le_to_rfc4175_422be12_scalar_def)
  obtain le where le: "st20_rfc4175_422be12_to_422le12_scalar pg w h = Some le" "length le = length pg"
    "st20_rfc4175_422le12_to_422be12_scalar le w h = Some pg"
    "st20_rfc4175_422le12_to_yuv422p12le le w h = Some (Y, B, R)"
    using transcode_422_12 [OF assms(1)] planes(1) by auto
  have "st20_yuv422p12le_to_rfc4175_422le12 Y B R w h = Some le"
    using le12.pg_roundtrip [of le "unat (w * h div 2)"] le(2,4) assms(1)
    by (auto simp: st20_rfc4175_422le12_to_yuv422p12le_def st20_yuv422p12le_to_rfc4175_422le12_def)
  moreover have "\<exists>pg'. st20_yuv422p12le_to_rfc4175_422be12_scalar y b r w h = Some pg' \<and>
      st20_rfc4175_422be12_to_yuv422p12le_scalar pg' w h =
        Some (map (take_bit 12) y, map (take_bit 12) b, map (take_bit 12) r)"
    using be12.planar_roundtrip [of y "unat (w * h div 2)" b r] assms
    by (auto simp: st20_rfc4175_422be12_to_yuv422p12le_scalar_def st20_yuv422p12le_to_rfc4175_422be12_scalar_def mult.commute)
  ultimately show ?thesis using planes le by blast
qed

theorem convert_422_12_witness:
  "\<exists>pg'. st20_yuv422p12le_to_rfc4175_422be12_scalar [0x3AC, 0x001] [0x200] [0x155] 2 1 = Some pg' \<and>
    st20_rfc4175_422be12_to_yuv422p12le_scalar pg' 2 1 = Some ([0x3AC, 0x001], [0x200], [0x155])"
  using convert_422_12 [of "[pack_422be12 [0, 0] [0] [0]]" 2 1 "[0x3AC, 0x001]" "[0x200]" "[0x155]"]
  by simp

end
