(* ===== verification/Convert_444.thy ===== *)
theory Convert_444
  imports Pixel_Groups
begin

text \<open>
  The scalar converters of \<^verbatim>\<open>lib/src/st2110/st_convert.c\<close> between the 4:4:4 formats (YUV or RGB) of 10
  and 12 bits: RFC 4175 pixel groups in big-endian and little-endian order and planar frames, as
  theory \<open>Convert_422\<close> for 4:2:2.
\<close>

section \<open>Pixel groups\<close>

record st20_rfc4175_444_10_pg4_be =
  fb10_Cb_R00 :: "8 word"
  fb10_Y_G00 :: "6 word"
  fb10_Cb_R00' :: "2 word"
  fb10_Cr_B00 :: "4 word"
  fb10_Y_G00' :: "4 word"
  fb10_Cb_R01 :: "2 word"
  fb10_Cr_B00' :: "6 word"
  fb10_Cb_R01' :: "8 word"
  fb10_Y_G01 :: "8 word"
  fb10_Cr_B01 :: "6 word"
  fb10_Y_G01' :: "2 word"
  fb10_Cb_R02 :: "4 word"
  fb10_Cr_B01' :: "4 word"
  fb10_Y_G02 :: "2 word"
  fb10_Cb_R02' :: "6 word"
  fb10_Y_G02' :: "8 word"
  fb10_Cr_B02 :: "8 word"
  fb10_Cb_R03 :: "6 word"
  fb10_Cr_B02' :: "2 word"
  fb10_Y_G03 :: "4 word"
  fb10_Cb_R03' :: "4 word"
  fb10_Cr_B03 :: "2 word"
  fb10_Y_G03' :: "6 word"
  fb10_Cr_B03' :: "8 word"

definition unpack_444be10 :: "st20_rfc4175_444_10_pg4_be \<Rightarrow> u16 list \<times> u16 list \<times> u16 list" where
  "unpack_444be10 pg =
     (let cb_r0 = push_bit 2 (ucast (fb10_Cb_R00 pg)) + ucast (fb10_Cb_R00' pg);
          y_g0 = push_bit 4 (ucast (fb10_Y_G00 pg)) + ucast (fb10_Y_G00' pg);
          cr_b0 = push_bit 6 (ucast (fb10_Cr_B00 pg)) + ucast (fb10_Cr_B00' pg);
          cb_r1 = push_bit 8 (ucast (fb10_Cb_R01 pg)) + ucast (fb10_Cb_R01' pg);
          y_g1 = push_bit 2 (ucast (fb10_Y_G01 pg)) + ucast (fb10_Y_G01' pg);
          cr_b1 = push_bit 4 (ucast (fb10_Cr_B01 pg)) + ucast (fb10_Cr_B01' pg);
          cb_r2 = push_bit 6 (ucast (fb10_Cb_R02 pg)) + ucast (fb10_Cb_R02' pg);
          y_g2 = push_bit 8 (ucast (fb10_Y_G02 pg)) + ucast (fb10_Y_G02' pg);
          cr_b2 = push_bit 2 (ucast (fb10_Cr_B02 pg)) + ucast (fb10_Cr_B02' pg);
          cb_r3 = push_bit 4 (ucast (fb10_Cb_R03 pg)) + ucast (fb10_Cb_R03' pg);
          y_g3 = push_bit 6 (ucast (fb10_Y_G03 pg)) + ucast (fb10_Y_G03' pg);
          cr_b3 = push_bit 8 (ucast (fb10_Cr_B03 pg)) + ucast (fb10_Cr_B03' pg)
      in ([y_g0, y_g1, y_g2, y_g3], [cb_r0, cb_r1, cb_r2, cb_r3], [cr_b0, cr_b1, cr_b2, cr_b3]))"

definition pack_444be10 :: "u16 list \<Rightarrow> u16 list \<Rightarrow> u16 list \<Rightarrow> st20_rfc4175_444_10_pg4_be" where
  "pack_444be10 y_g b_r r_b =
     (let cb_r0 = b_r ! 0; y_g0 = y_g ! 0; cr_b0 = r_b ! 0; cb_r1 = b_r ! 1; y_g1 = y_g ! 1; cr_b1 = r_b ! 1; cb_r2 = b_r ! 2; y_g2 = y_g ! 2; cr_b2 = r_b ! 2; cb_r3 = b_r ! 3; y_g3 = y_g ! 3; cr_b3 = r_b ! 3
      in \<lparr>fb10_Cb_R00 = ucast (drop_bit 2 cb_r0),
          fb10_Y_G00 = ucast (drop_bit 4 y_g0),
          fb10_Cb_R00' = ucast cb_r0,
          fb10_Cr_B00 = ucast (drop_bit 6 cr_b0),
          fb10_Y_G00' = ucast y_g0,
          fb10_Cb_R01 = ucast (drop_bit 8 cb_r1),
          fb10_Cr_B00' = ucast cr_b0,
          fb10_Cb_R01' = ucast cb_r1,
          fb10_Y_G01 = ucast (drop_bit 2 y_g1),
          fb10_Cr_B01 = ucast (drop_bit 4 cr_b1),
          fb10_Y_G01' = ucast y_g1,
          fb10_Cb_R02 = ucast (drop_bit 6 cb_r2),
          fb10_Cr_B01' = ucast cr_b1,
          fb10_Y_G02 = ucast (drop_bit 8 y_g2),
          fb10_Cb_R02' = ucast cb_r2,
          fb10_Y_G02' = ucast y_g2,
          fb10_Cr_B02 = ucast (drop_bit 2 cr_b2),
          fb10_Cb_R03 = ucast (drop_bit 4 cb_r3),
          fb10_Cr_B02' = ucast cr_b2,
          fb10_Y_G03 = ucast (drop_bit 6 y_g3),
          fb10_Cb_R03' = ucast cb_r3,
          fb10_Cr_B03 = ucast (drop_bit 8 cr_b3),
          fb10_Y_G03' = ucast y_g3,
          fb10_Cr_B03' = ucast cr_b3\<rparr>)"

record st20_rfc4175_444_10_pg4_le =
  fl10_Cb_R00 :: "8 word"
  fl10_Cb_R00' :: "2 word"
  fl10_Y_G00 :: "6 word"
  fl10_Y_G00' :: "4 word"
  fl10_Cr_B00 :: "4 word"
  fl10_Cr_B00' :: "6 word"
  fl10_Cb_R01 :: "2 word"
  fl10_Cb_R01' :: "8 word"
  fl10_Y_G01 :: "8 word"
  fl10_Y_G01' :: "2 word"
  fl10_Cr_B01 :: "6 word"
  fl10_Cr_B01' :: "4 word"
  fl10_Cb_R02 :: "4 word"
  fl10_Cb_R02' :: "6 word"
  fl10_Y_G02 :: "2 word"
  fl10_Y_G02' :: "8 word"
  fl10_Cr_B02 :: "8 word"
  fl10_Cr_B02' :: "2 word"
  fl10_Cb_R03 :: "6 word"
  fl10_Cb_R03' :: "4 word"
  fl10_Y_G03 :: "4 word"
  fl10_Y_G03' :: "6 word"
  fl10_Cr_B03 :: "2 word"
  fl10_Cr_B03' :: "8 word"

definition unpack_444le10 :: "st20_rfc4175_444_10_pg4_le \<Rightarrow> u16 list \<times> u16 list \<times> u16 list" where
  "unpack_444le10 pg =
     (let cb_r0 = ucast (fl10_Cb_R00 pg) + push_bit 8 (ucast (fl10_Cb_R00' pg));
          y_g0 = ucast (fl10_Y_G00 pg) + push_bit 6 (ucast (fl10_Y_G00' pg));
          cr_b0 = ucast (fl10_Cr_B00 pg) + push_bit 4 (ucast (fl10_Cr_B00' pg));
          cb_r1 = ucast (fl10_Cb_R01 pg) + push_bit 2 (ucast (fl10_Cb_R01' pg));
          y_g1 = ucast (fl10_Y_G01 pg) + push_bit 8 (ucast (fl10_Y_G01' pg));
          cr_b1 = ucast (fl10_Cr_B01 pg) + push_bit 6 (ucast (fl10_Cr_B01' pg));
          cb_r2 = ucast (fl10_Cb_R02 pg) + push_bit 4 (ucast (fl10_Cb_R02' pg));
          y_g2 = ucast (fl10_Y_G02 pg) + push_bit 2 (ucast (fl10_Y_G02' pg));
          cr_b2 = ucast (fl10_Cr_B02 pg) + push_bit 8 (ucast (fl10_Cr_B02' pg));
          cb_r3 = ucast (fl10_Cb_R03 pg) + push_bit 6 (ucast (fl10_Cb_R03' pg));
          y_g3 = ucast (fl10_Y_G03 pg) + push_bit 4 (ucast (fl10_Y_G03' pg));
          cr_b3 = ucast (fl10_Cr_B03 pg) + push_bit 2 (ucast (fl10_Cr_B03' pg))
      in ([y_g0, y_g1, y_g2, y_g3], [cb_r0, cb_r1, cb_r2, cb_r3], [cr_b0, cr_b1, cr_b2, cr_b3]))"

definition pack_444le10 :: "u16 list \<Rightarrow> u16 list \<Rightarrow> u16 list \<Rightarrow> st20_rfc4175_444_10_pg4_le" where
  "pack_444le10 y_g b_r r_b =
     (let cb_r0 = b_r ! 0; y_g0 = y_g ! 0; cr_b0 = r_b ! 0; cb_r1 = b_r ! 1; y_g1 = y_g ! 1; cr_b1 = r_b ! 1; cb_r2 = b_r ! 2; y_g2 = y_g ! 2; cr_b2 = r_b ! 2; cb_r3 = b_r ! 3; y_g3 = y_g ! 3; cr_b3 = r_b ! 3
      in \<lparr>fl10_Cb_R00 = ucast cb_r0,
          fl10_Cb_R00' = ucast (drop_bit 8 cb_r0),
          fl10_Y_G00 = ucast y_g0,
          fl10_Y_G00' = ucast (drop_bit 6 y_g0),
          fl10_Cr_B00 = ucast cr_b0,
          fl10_Cr_B00' = ucast (drop_bit 4 cr_b0),
          fl10_Cb_R01 = ucast cb_r1,
          fl10_Cb_R01' = ucast (drop_bit 2 cb_r1),
          fl10_Y_G01 = ucast y_g1,
          fl10_Y_G01' = ucast (drop_bit 8 y_g1),
          fl10_Cr_B01 = ucast cr_b1,
          fl10_Cr_B01' = ucast (drop_bit 6 cr_b1),
          fl10_Cb_R02 = ucast cb_r2,
          fl10_Cb_R02' = ucast (drop_bit 4 cb_r2),
          fl10_Y_G02 = ucast y_g2,
          fl10_Y_G02' = ucast (drop_bit 2 y_g2),
          fl10_Cr_B02 = ucast cr_b2,
          fl10_Cr_B02' = ucast (drop_bit 8 cr_b2),
          fl10_Cb_R03 = ucast cb_r3,
          fl10_Cb_R03' = ucast (drop_bit 6 cb_r3),
          fl10_Y_G03 = ucast y_g3,
          fl10_Y_G03' = ucast (drop_bit 4 y_g3),
          fl10_Cr_B03 = ucast cr_b3,
          fl10_Cr_B03' = ucast (drop_bit 2 cr_b3)\<rparr>)"

record st20_rfc4175_444_12_pg2_be =
  fb12_Cb_R00 :: "8 word"
  fb12_Y_G00 :: "4 word"
  fb12_Cb_R00' :: "4 word"
  fb12_Y_G00' :: "8 word"
  fb12_Cr_B00 :: "8 word"
  fb12_Cb_R01 :: "4 word"
  fb12_Cr_B00' :: "4 word"
  fb12_Cb_R01' :: "8 word"
  fb12_Y_G01 :: "8 word"
  fb12_Cr_B01 :: "4 word"
  fb12_Y_G01' :: "4 word"
  fb12_Cr_B01' :: "8 word"

definition unpack_444be12 :: "st20_rfc4175_444_12_pg2_be \<Rightarrow> u16 list \<times> u16 list \<times> u16 list" where
  "unpack_444be12 pg =
     (let cb_r0 = push_bit 4 (ucast (fb12_Cb_R00 pg)) + ucast (fb12_Cb_R00' pg);
          y_g0 = push_bit 8 (ucast (fb12_Y_G00 pg)) + ucast (fb12_Y_G00' pg);
          cr_b0 = push_bit 4 (ucast (fb12_Cr_B00 pg)) + ucast (fb12_Cr_B00' pg);
          cb_r1 = push_bit 8 (ucast (fb12_Cb_R01 pg)) + ucast (fb12_Cb_R01' pg);
          y_g1 = push_bit 4 (ucast (fb12_Y_G01 pg)) + ucast (fb12_Y_G01' pg);
          cr_b1 = push_bit 8 (ucast (fb12_Cr_B01 pg)) + ucast (fb12_Cr_B01' pg)
      in ([y_g0, y_g1], [cb_r0, cb_r1], [cr_b0, cr_b1]))"

definition pack_444be12 :: "u16 list \<Rightarrow> u16 list \<Rightarrow> u16 list \<Rightarrow> st20_rfc4175_444_12_pg2_be" where
  "pack_444be12 y_g b_r r_b =
     (let cb_r0 = b_r ! 0; y_g0 = y_g ! 0; cr_b0 = r_b ! 0; cb_r1 = b_r ! 1; y_g1 = y_g ! 1; cr_b1 = r_b ! 1
      in \<lparr>fb12_Cb_R00 = ucast (drop_bit 4 cb_r0),
          fb12_Y_G00 = ucast (drop_bit 8 y_g0),
          fb12_Cb_R00' = ucast cb_r0,
          fb12_Y_G00' = ucast y_g0,
          fb12_Cr_B00 = ucast (drop_bit 4 cr_b0),
          fb12_Cb_R01 = ucast (drop_bit 8 cb_r1),
          fb12_Cr_B00' = ucast cr_b0,
          fb12_Cb_R01' = ucast cb_r1,
          fb12_Y_G01 = ucast (drop_bit 4 y_g1),
          fb12_Cr_B01 = ucast (drop_bit 8 cr_b1),
          fb12_Y_G01' = ucast y_g1,
          fb12_Cr_B01' = ucast cr_b1\<rparr>)"

record st20_rfc4175_444_12_pg2_le =
  fl12_Cb_R00 :: "8 word"
  fl12_Cb_R00' :: "4 word"
  fl12_Y_G00 :: "4 word"
  fl12_Y_G00' :: "8 word"
  fl12_Cr_B00 :: "8 word"
  fl12_Cr_B00' :: "4 word"
  fl12_Cb_R01 :: "4 word"
  fl12_Cb_R01' :: "8 word"
  fl12_Y_G01 :: "8 word"
  fl12_Y_G01' :: "4 word"
  fl12_Cr_B01 :: "4 word"
  fl12_Cr_B01' :: "8 word"

definition unpack_444le12 :: "st20_rfc4175_444_12_pg2_le \<Rightarrow> u16 list \<times> u16 list \<times> u16 list" where
  "unpack_444le12 pg =
     (let cb_r0 = ucast (fl12_Cb_R00 pg) + push_bit 8 (ucast (fl12_Cb_R00' pg));
          y_g0 = ucast (fl12_Y_G00 pg) + push_bit 4 (ucast (fl12_Y_G00' pg));
          cr_b0 = ucast (fl12_Cr_B00 pg) + push_bit 8 (ucast (fl12_Cr_B00' pg));
          cb_r1 = ucast (fl12_Cb_R01 pg) + push_bit 4 (ucast (fl12_Cb_R01' pg));
          y_g1 = ucast (fl12_Y_G01 pg) + push_bit 8 (ucast (fl12_Y_G01' pg));
          cr_b1 = ucast (fl12_Cr_B01 pg) + push_bit 4 (ucast (fl12_Cr_B01' pg))
      in ([y_g0, y_g1], [cb_r0, cb_r1], [cr_b0, cr_b1]))"

definition pack_444le12 :: "u16 list \<Rightarrow> u16 list \<Rightarrow> u16 list \<Rightarrow> st20_rfc4175_444_12_pg2_le" where
  "pack_444le12 y_g b_r r_b =
     (let cb_r0 = b_r ! 0; y_g0 = y_g ! 0; cr_b0 = r_b ! 0; cb_r1 = b_r ! 1; y_g1 = y_g ! 1; cr_b1 = r_b ! 1
      in \<lparr>fl12_Cb_R00 = ucast cb_r0,
          fl12_Cb_R00' = ucast (drop_bit 8 cb_r0),
          fl12_Y_G00 = ucast y_g0,
          fl12_Y_G00' = ucast (drop_bit 4 y_g0),
          fl12_Cr_B00 = ucast cr_b0,
          fl12_Cr_B00' = ucast (drop_bit 8 cr_b0),
          fl12_Cb_R01 = ucast cb_r1,
          fl12_Cb_R01' = ucast (drop_bit 4 cb_r1),
          fl12_Y_G01 = ucast y_g1,
          fl12_Y_G01' = ucast (drop_bit 8 y_g1),
          fl12_Cr_B01 = ucast cr_b1,
          fl12_Cr_B01' = ucast (drop_bit 4 cr_b1)\<rparr>)"


section \<open>Converters\<close>

definition st20_444p10le_to_rfc4175_444be10_scalar ::
  "u16 list \<Rightarrow> u16 list \<Rightarrow> u16 list \<Rightarrow> u32 \<Rightarrow> u32 \<Rightarrow> st20_rfc4175_444_10_pg4_be list option" where
  "st20_444p10le_to_rfc4175_444be10_scalar y_g b_r r_b w h =
     planar_to_pg pack_444be10 4 4 (unat (w * h div 4)) y_g b_r r_b"

definition st20_rfc4175_444be10_to_444p10le_scalar ::
  "st20_rfc4175_444_10_pg4_be list \<Rightarrow> u32 \<Rightarrow> u32 \<Rightarrow> (u16 list \<times> u16 list \<times> u16 list) option" where
  "st20_rfc4175_444be10_to_444p10le_scalar pg w h =
     pg_to_planar unpack_444be10 (unat (w * h div 4)) pg"

definition st20_444p10le_to_rfc4175_444le10 ::
  "u16 list \<Rightarrow> u16 list \<Rightarrow> u16 list \<Rightarrow> u32 \<Rightarrow> u32 \<Rightarrow> st20_rfc4175_444_10_pg4_le list option" where
  "st20_444p10le_to_rfc4175_444le10 y_g b_r r_b w h =
     planar_to_pg pack_444le10 4 4 (unat (w * h div 4)) y_g b_r r_b"

definition st20_rfc4175_444le10_to_444p10le ::
  "st20_rfc4175_444_10_pg4_le list \<Rightarrow> u32 \<Rightarrow> u32 \<Rightarrow> (u16 list \<times> u16 list \<times> u16 list) option" where
  "st20_rfc4175_444le10_to_444p10le pg w h =
     pg_to_planar unpack_444le10 (unat (w * h div 4)) pg"

definition st20_rfc4175_444be10_to_444le10_scalar ::
  "st20_rfc4175_444_10_pg4_be list \<Rightarrow> u32 \<Rightarrow> u32 \<Rightarrow> st20_rfc4175_444_10_pg4_le list option" where
  "st20_rfc4175_444be10_to_444le10_scalar pg_be w h =
     pg_map (\<lambda>pg. case unpack_444be10 pg of (y_g, b_r, r_b) \<Rightarrow> pack_444le10 y_g b_r r_b)
       (unat (w * h div 4)) pg_be"

definition st20_rfc4175_444le10_to_444be10_scalar ::
  "st20_rfc4175_444_10_pg4_le list \<Rightarrow> u32 \<Rightarrow> u32 \<Rightarrow> st20_rfc4175_444_10_pg4_be list option" where
  "st20_rfc4175_444le10_to_444be10_scalar pg_le w h =
     pg_map (\<lambda>pg. case unpack_444le10 pg of (y_g, b_r, r_b) \<Rightarrow> pack_444be10 y_g b_r r_b)
       (unat (w * h div 4)) pg_le"

definition st20_444p12le_to_rfc4175_444be12_scalar ::
  "u16 list \<Rightarrow> u16 list \<Rightarrow> u16 list \<Rightarrow> u32 \<Rightarrow> u32 \<Rightarrow> st20_rfc4175_444_12_pg2_be list option" where
  "st20_444p12le_to_rfc4175_444be12_scalar y_g b_r r_b w h =
     planar_to_pg pack_444be12 2 2 (unat (w * h div 2)) y_g b_r r_b"

definition st20_rfc4175_444be12_to_444p12le_scalar ::
  "st20_rfc4175_444_12_pg2_be list \<Rightarrow> u32 \<Rightarrow> u32 \<Rightarrow> (u16 list \<times> u16 list \<times> u16 list) option" where
  "st20_rfc4175_444be12_to_444p12le_scalar pg w h =
     pg_to_planar unpack_444be12 (unat (w * h div 2)) pg"

definition st20_444p12le_to_rfc4175_444le12 ::
  "u16 list \<Rightarrow> u16 list \<Rightarrow> u16 list \<Rightarrow> u32 \<Rightarrow> u32 \<Rightarrow> st20_rfc4175_444_12_pg2_le list option" where
  "st20_444p12le_to_rfc4175_444le12 y_g b_r r_b w h =
     planar_to_pg pack_444le12 2 2 (unat (w * h div 2)) y_g b_r r_b"

definition st20_rfc4175_444le12_to_444p12le ::
  "st20_rfc4175_444_12_pg2_le list \<Rightarrow> u32 \<Rightarrow> u32 \<Rightarrow> (u16 list \<times> u16 list \<times> u16 list) option" where
  "st20_rfc4175_444le12_to_444p12le pg w h =
     pg_to_planar unpack_444le12 (unat (w * h div 2)) pg"

definition st20_rfc4175_444be12_to_444le12_scalar ::
  "st20_rfc4175_444_12_pg2_be list \<Rightarrow> u32 \<Rightarrow> u32 \<Rightarrow> st20_rfc4175_444_12_pg2_le list option" where
  "st20_rfc4175_444be12_to_444le12_scalar pg_be w h =
     pg_map (\<lambda>pg. case unpack_444be12 pg of (y_g, b_r, r_b) \<Rightarrow> pack_444le12 y_g b_r r_b)
       (unat (w * h div 2)) pg_be"

definition st20_rfc4175_444le12_to_444be12_scalar ::
  "st20_rfc4175_444_12_pg2_le list \<Rightarrow> u32 \<Rightarrow> u32 \<Rightarrow> st20_rfc4175_444_12_pg2_be list option" where
  "st20_rfc4175_444le12_to_444be12_scalar pg_le w h =
     pg_map (\<lambda>pg. case unpack_444le12 pg of (y_g, b_r, r_b) \<Rightarrow> pack_444be12 y_g b_r r_b)
       (unat (w * h div 2)) pg_le"

section \<open>The formats meet their contract\<close>

interpretation be10: pg_codec pack_444be10 unpack_444be10 4 4 10
proof
  fix ys bs rs :: "u16 list"
  assume "length ys = 4" "length bs = 4" "length rs = 4"
  then obtain y_g0 y_g1 y_g2 y_g3 b_r0 b_r1 b_r2 b_r3 r_b0 r_b1 r_b2 r_b3
    where "ys = [y_g0, y_g1, y_g2, y_g3]" "bs = [b_r0, b_r1, b_r2, b_r3]" "rs = [r_b0, r_b1, r_b2, r_b3]"
    by (auto simp: numeral_eq_Suc length_Suc_conv)
  then show "unpack_444be10 (pack_444be10 ys bs rs) =
      (map (take_bit 10) ys, map (take_bit 10) bs, map (take_bit 10) rs)"
    by (simp add: pack_444be10_def unpack_444be10_def Let_def field_add field_join)
next
  fix pg ys bs rs
  assume "unpack_444be10 pg = (ys, bs, rs)"
  then show "length ys = 4 \<and> length bs = 4 \<and> length rs = 4 \<and> pack_444be10 ys bs rs = pg"
    by (cases pg) (auto simp: pack_444be10_def unpack_444be10_def Let_def field_add field_hi field_lo)
qed

interpretation le10: pg_codec pack_444le10 unpack_444le10 4 4 10
proof
  fix ys bs rs :: "u16 list"
  assume "length ys = 4" "length bs = 4" "length rs = 4"
  then obtain y_g0 y_g1 y_g2 y_g3 b_r0 b_r1 b_r2 b_r3 r_b0 r_b1 r_b2 r_b3
    where "ys = [y_g0, y_g1, y_g2, y_g3]" "bs = [b_r0, b_r1, b_r2, b_r3]" "rs = [r_b0, r_b1, r_b2, r_b3]"
    by (auto simp: numeral_eq_Suc length_Suc_conv)
  then show "unpack_444le10 (pack_444le10 ys bs rs) =
      (map (take_bit 10) ys, map (take_bit 10) bs, map (take_bit 10) rs)"
    by (simp add: pack_444le10_def unpack_444le10_def Let_def field_add field_join)
next
  fix pg ys bs rs
  assume "unpack_444le10 pg = (ys, bs, rs)"
  then show "length ys = 4 \<and> length bs = 4 \<and> length rs = 4 \<and> pack_444le10 ys bs rs = pg"
    by (cases pg) (auto simp: pack_444le10_def unpack_444le10_def Let_def field_add field_hi field_lo)
qed

interpretation be12: pg_codec pack_444be12 unpack_444be12 2 2 12
proof
  fix ys bs rs :: "u16 list"
  assume "length ys = 2" "length bs = 2" "length rs = 2"
  then obtain y_g0 y_g1 b_r0 b_r1 r_b0 r_b1
    where "ys = [y_g0, y_g1]" "bs = [b_r0, b_r1]" "rs = [r_b0, r_b1]"
    by (auto simp: numeral_2_eq_2 length_Suc_conv)
  then show "unpack_444be12 (pack_444be12 ys bs rs) =
      (map (take_bit 12) ys, map (take_bit 12) bs, map (take_bit 12) rs)"
    by (simp add: pack_444be12_def unpack_444be12_def Let_def field_add field_join)
next
  fix pg ys bs rs
  assume "unpack_444be12 pg = (ys, bs, rs)"
  then show "length ys = 2 \<and> length bs = 2 \<and> length rs = 2 \<and> pack_444be12 ys bs rs = pg"
    by (cases pg) (auto simp: pack_444be12_def unpack_444be12_def Let_def field_add field_hi field_lo)
qed

interpretation le12: pg_codec pack_444le12 unpack_444le12 2 2 12
proof
  fix ys bs rs :: "u16 list"
  assume "length ys = 2" "length bs = 2" "length rs = 2"
  then obtain y_g0 y_g1 b_r0 b_r1 r_b0 r_b1
    where "ys = [y_g0, y_g1]" "bs = [b_r0, b_r1]" "rs = [r_b0, r_b1]"
    by (auto simp: numeral_2_eq_2 length_Suc_conv)
  then show "unpack_444le12 (pack_444le12 ys bs rs) =
      (map (take_bit 12) ys, map (take_bit 12) bs, map (take_bit 12) rs)"
    by (simp add: pack_444le12_def unpack_444le12_def Let_def field_add field_join)
next
  fix pg ys bs rs
  assume "unpack_444le12 pg = (ys, bs, rs)"
  then show "length ys = 2 \<and> length bs = 2 \<and> length rs = 2 \<and> pack_444le12 ys bs rs = pg"
    by (cases pg) (auto simp: pack_444le12_def unpack_444le12_def Let_def field_add field_hi field_lo)
qed

interpretation be_le_10: pg_transcode pack_444be10 unpack_444be10 pack_444le10 unpack_444le10 4 4 10 ..

lemma transcode_444_10:
  assumes "length pg = unat (w * h div 4)"
  shows "\<exists>le. st20_rfc4175_444be10_to_444le10_scalar pg w h = Some le \<and> length le = length pg \<and>
    st20_rfc4175_444le10_to_444be10_scalar le w h = Some pg \<and>
    st20_rfc4175_444le10_to_444p10le le w h = st20_rfc4175_444be10_to_444p10le_scalar pg w h"
proof -
  let ?le = "map be_le_10.a_to_b pg"
  have "st20_rfc4175_444be10_to_444le10_scalar pg w h = Some ?le"
    using assms by (simp add: st20_rfc4175_444be10_to_444le10_scalar_def pg_map_eq be_le_10.a_to_b_def)
  moreover have "st20_rfc4175_444le10_to_444be10_scalar ?le w h = Some pg"
    using assms be_le_10.transcode_back
    by (simp add: st20_rfc4175_444le10_to_444be10_scalar_def pg_map_eq be_le_10.b_to_a_def o_def)
  moreover have "st20_rfc4175_444le10_to_444p10le ?le w h = st20_rfc4175_444be10_to_444p10le_scalar pg w h"
    by (simp add: st20_rfc4175_444le10_to_444p10le_def st20_rfc4175_444be10_to_444p10le_scalar_def be_le_10.planar_commutes)
  ultimately show ?thesis by auto
qed

text \<open>
  C32. The 10-bit 4:4:4 converters over a whole frame. Unpacking big-endian pixel groups to planes and
  packing them again, and converting them to little-endian groups and back, are both the identity;
  the little-endian groups unpack to the same planes and pack back from them; and planar samples
  survive packing and unpacking cut to 10 bits. The loops read no sample and no group past the
  \<open>w * h / 4\<close> of the frame.
\<close>

theorem convert_444_10:
  assumes "length pg = unat (w * h div 4)" and "length y = 4 * unat (w * h div 4)"
    and "length b = 4 * unat (w * h div 4)" and "length r = 4 * unat (w * h div 4)"
  shows "(\<exists>Y B R le. st20_rfc4175_444be10_to_444p10le_scalar pg w h = Some (Y, B, R) \<and>
      st20_444p10le_to_rfc4175_444be10_scalar Y B R w h = Some pg \<and>
      st20_rfc4175_444be10_to_444le10_scalar pg w h = Some le \<and>
      st20_rfc4175_444le10_to_444be10_scalar le w h = Some pg \<and>
      st20_rfc4175_444le10_to_444p10le le w h = Some (Y, B, R) \<and>
      st20_444p10le_to_rfc4175_444le10 Y B R w h = Some le) \<and>
    (\<exists>pg'. st20_444p10le_to_rfc4175_444be10_scalar y b r w h = Some pg' \<and>
      st20_rfc4175_444be10_to_444p10le_scalar pg' w h =
        Some (map (take_bit 10) y, map (take_bit 10) b, map (take_bit 10) r))"
proof -
  obtain Y B R where planes: "st20_rfc4175_444be10_to_444p10le_scalar pg w h = Some (Y, B, R)"
    "st20_444p10le_to_rfc4175_444be10_scalar Y B R w h = Some pg"
    using be10.pg_roundtrip [OF assms(1)]
    by (auto simp: st20_rfc4175_444be10_to_444p10le_scalar_def st20_444p10le_to_rfc4175_444be10_scalar_def)
  obtain le where le: "st20_rfc4175_444be10_to_444le10_scalar pg w h = Some le" "length le = length pg"
    "st20_rfc4175_444le10_to_444be10_scalar le w h = Some pg"
    "st20_rfc4175_444le10_to_444p10le le w h = Some (Y, B, R)"
    using transcode_444_10 [OF assms(1)] planes(1) by auto
  have "st20_444p10le_to_rfc4175_444le10 Y B R w h = Some le"
    using le10.pg_roundtrip [of le "unat (w * h div 4)"] le(2,4) assms(1)
    by (auto simp: st20_rfc4175_444le10_to_444p10le_def st20_444p10le_to_rfc4175_444le10_def)
  moreover have "\<exists>pg'. st20_444p10le_to_rfc4175_444be10_scalar y b r w h = Some pg' \<and>
      st20_rfc4175_444be10_to_444p10le_scalar pg' w h =
        Some (map (take_bit 10) y, map (take_bit 10) b, map (take_bit 10) r)"
    using be10.planar_roundtrip [of y "unat (w * h div 4)" b r] assms
    by (auto simp: st20_rfc4175_444be10_to_444p10le_scalar_def st20_444p10le_to_rfc4175_444be10_scalar_def mult.commute)
  ultimately show ?thesis using planes le by blast
qed

theorem convert_444_10_witness:
  "\<exists>pg'. st20_444p10le_to_rfc4175_444be10_scalar [0x3AC, 0x001, 0x12, 0x200] [0x200, 0, 1, 2] [0x155, 3, 4, 5] 4 1 = Some pg' \<and>
    st20_rfc4175_444be10_to_444p10le_scalar pg' 4 1 = Some ([0x3AC, 0x001, 0x12, 0x200], [0x200, 0, 1, 2], [0x155, 3, 4, 5])"
  using convert_444_10 [of "[pack_444be10 [0, 0, 0, 0] [0, 0, 0, 0] [0, 0, 0, 0]]" 4 1 "[0x3AC, 0x001, 0x12, 0x200]" "[0x200, 0, 1, 2]" "[0x155, 3, 4, 5]"]
  by simp

interpretation be_le_12: pg_transcode pack_444be12 unpack_444be12 pack_444le12 unpack_444le12 2 2 12 ..

lemma transcode_444_12:
  assumes "length pg = unat (w * h div 2)"
  shows "\<exists>le. st20_rfc4175_444be12_to_444le12_scalar pg w h = Some le \<and> length le = length pg \<and>
    st20_rfc4175_444le12_to_444be12_scalar le w h = Some pg \<and>
    st20_rfc4175_444le12_to_444p12le le w h = st20_rfc4175_444be12_to_444p12le_scalar pg w h"
proof -
  let ?le = "map be_le_12.a_to_b pg"
  have "st20_rfc4175_444be12_to_444le12_scalar pg w h = Some ?le"
    using assms by (simp add: st20_rfc4175_444be12_to_444le12_scalar_def pg_map_eq be_le_12.a_to_b_def)
  moreover have "st20_rfc4175_444le12_to_444be12_scalar ?le w h = Some pg"
    using assms be_le_12.transcode_back
    by (simp add: st20_rfc4175_444le12_to_444be12_scalar_def pg_map_eq be_le_12.b_to_a_def o_def)
  moreover have "st20_rfc4175_444le12_to_444p12le ?le w h = st20_rfc4175_444be12_to_444p12le_scalar pg w h"
    by (simp add: st20_rfc4175_444le12_to_444p12le_def st20_rfc4175_444be12_to_444p12le_scalar_def be_le_12.planar_commutes)
  ultimately show ?thesis by auto
qed

text \<open>
  C33. The 12-bit 4:4:4 converters over a whole frame. Unpacking big-endian pixel groups to planes and
  packing them again, and converting them to little-endian groups and back, are both the identity;
  the little-endian groups unpack to the same planes and pack back from them; and planar samples
  survive packing and unpacking cut to 12 bits. The loops read no sample and no group past the
  \<open>w * h / 2\<close> of the frame.
\<close>

theorem convert_444_12:
  assumes "length pg = unat (w * h div 2)" and "length y = 2 * unat (w * h div 2)"
    and "length b = 2 * unat (w * h div 2)" and "length r = 2 * unat (w * h div 2)"
  shows "(\<exists>Y B R le. st20_rfc4175_444be12_to_444p12le_scalar pg w h = Some (Y, B, R) \<and>
      st20_444p12le_to_rfc4175_444be12_scalar Y B R w h = Some pg \<and>
      st20_rfc4175_444be12_to_444le12_scalar pg w h = Some le \<and>
      st20_rfc4175_444le12_to_444be12_scalar le w h = Some pg \<and>
      st20_rfc4175_444le12_to_444p12le le w h = Some (Y, B, R) \<and>
      st20_444p12le_to_rfc4175_444le12 Y B R w h = Some le) \<and>
    (\<exists>pg'. st20_444p12le_to_rfc4175_444be12_scalar y b r w h = Some pg' \<and>
      st20_rfc4175_444be12_to_444p12le_scalar pg' w h =
        Some (map (take_bit 12) y, map (take_bit 12) b, map (take_bit 12) r))"
proof -
  obtain Y B R where planes: "st20_rfc4175_444be12_to_444p12le_scalar pg w h = Some (Y, B, R)"
    "st20_444p12le_to_rfc4175_444be12_scalar Y B R w h = Some pg"
    using be12.pg_roundtrip [OF assms(1)]
    by (auto simp: st20_rfc4175_444be12_to_444p12le_scalar_def st20_444p12le_to_rfc4175_444be12_scalar_def)
  obtain le where le: "st20_rfc4175_444be12_to_444le12_scalar pg w h = Some le" "length le = length pg"
    "st20_rfc4175_444le12_to_444be12_scalar le w h = Some pg"
    "st20_rfc4175_444le12_to_444p12le le w h = Some (Y, B, R)"
    using transcode_444_12 [OF assms(1)] planes(1) by auto
  have "st20_444p12le_to_rfc4175_444le12 Y B R w h = Some le"
    using le12.pg_roundtrip [of le "unat (w * h div 2)"] le(2,4) assms(1)
    by (auto simp: st20_rfc4175_444le12_to_444p12le_def st20_444p12le_to_rfc4175_444le12_def)
  moreover have "\<exists>pg'. st20_444p12le_to_rfc4175_444be12_scalar y b r w h = Some pg' \<and>
      st20_rfc4175_444be12_to_444p12le_scalar pg' w h =
        Some (map (take_bit 12) y, map (take_bit 12) b, map (take_bit 12) r)"
    using be12.planar_roundtrip [of y "unat (w * h div 2)" b r] assms
    by (auto simp: st20_rfc4175_444be12_to_444p12le_scalar_def st20_444p12le_to_rfc4175_444be12_scalar_def mult.commute)
  ultimately show ?thesis using planes le by blast
qed

theorem convert_444_12_witness:
  "\<exists>pg'. st20_444p12le_to_rfc4175_444be12_scalar [0x3AC, 0x001] [0x200, 0] [0x155, 3] 2 1 = Some pg' \<and>
    st20_rfc4175_444be12_to_444p12le_scalar pg' 2 1 = Some ([0x3AC, 0x001], [0x200, 0], [0x155, 3])"
  using convert_444_12 [of "[pack_444be12 [0, 0] [0, 0] [0, 0]]" 2 1 "[0x3AC, 0x001]" "[0x200, 0]" "[0x155, 3]"]
  by simp

end
