(* ===== verification/Convert_Packed.thy ===== *)
theory Convert_Packed
  imports Convert_422
begin

text \<open>
  The remaining scalar 4:2:2 converters of \<^verbatim>\<open>lib/src/st2110/st_convert.c\<close>: V210 (three 10-bit
  samples in each little-endian 32-bit word), Y210 and 16-bit planes (samples in the high bits of
  16), and the 8-bit targets. The V210 routines work on the bytes of the pixel groups, so the byte
  layout of the two 10-bit structs is defined here too. The byte expressions of the code are
  evaluated in \<open>int\<close> and stored into a byte; they only use shifts of bytes, masks and disjunctions,
  so evaluating them on 8-bit words gives the same byte.
\<close>

section \<open>Byte layout\<close>

definition bytes_422be10 :: "st20_rfc4175_422_10_pg2_be \<Rightarrow> u8 list" where
  "bytes_422be10 pg =
     [b10_Cb00 pg,
      ucast (b10_Y00 pg) OR push_bit 6 (ucast (b10_Cb00' pg)),
      ucast (b10_Cr00 pg) OR push_bit 4 (ucast (b10_Y00' pg)),
      ucast (b10_Y01 pg) OR push_bit 2 (ucast (b10_Cr00' pg)),
      b10_Y01' pg]"

definition bytes_422le10 :: "st20_rfc4175_422_10_pg2_le \<Rightarrow> u8 list" where
  "bytes_422le10 pg =
     [l10_Cb00 pg,
      ucast (l10_Cb00' pg) OR push_bit 2 (ucast (l10_Y00 pg)),
      ucast (l10_Y00' pg) OR push_bit 4 (ucast (l10_Cr00 pg)),
      ucast (l10_Cr00' pg) OR push_bit 6 (ucast (l10_Y01 pg)),
      l10_Y01' pg]"

section \<open>V210\<close>

definition v210_of_le15 :: "u8 list \<Rightarrow> u8 list" where
  "v210_of_le15 le =
     [le ! 0,
      le ! 1,
      le ! 2,
      le ! 3 AND 0x3F,
      drop_bit 6 (le ! 3) OR push_bit 2 (le ! 4),
      drop_bit 6 (le ! 4) OR push_bit 2 (le ! 5),
      drop_bit 6 (le ! 5) OR push_bit 2 (le ! 6),
      (drop_bit 6 (le ! 6) OR push_bit 2 (le ! 7)) AND 0x3F,
      drop_bit 4 (le ! 7) OR push_bit 4 (le ! 8),
      drop_bit 4 (le ! 8) OR push_bit 4 (le ! 9),
      drop_bit 4 (le ! 9) OR push_bit 4 (le ! 10),
      (drop_bit 4 (le ! 10) OR push_bit 4 (le ! 11)) AND 0x3F,
      drop_bit 2 (le ! 11) OR push_bit 6 (le ! 12),
      drop_bit 2 (le ! 12) OR push_bit 6 (le ! 13),
      drop_bit 2 (le ! 13) OR push_bit 6 (le ! 14),
      drop_bit 2 (le ! 14)]"

definition st20_rfc4175_422le10_to_v210_scalar :: "u8 list \<Rightarrow> u32 \<Rightarrow> u32 \<Rightarrow> u8 list res option" where
  "st20_rfc4175_422le10_to_v210_scalar pg_le w h =
     (let pg_count = w * h div 2 in
      if pg_count mod 3 \<noteq> 0 then Some (Inl EINVAL)
      else map_option Inr (block_map 15 v210_of_le15 (unat (pg_count div 3)) pg_le))"

definition le15_of_v210 :: "u8 list \<Rightarrow> u8 list" where
  "le15_of_v210 v210 =
     [v210 ! 0,
      v210 ! 1,
      v210 ! 2,
      v210 ! 3 OR push_bit 6 (v210 ! 4),
      push_bit 6 (v210 ! 5) OR drop_bit 2 (v210 ! 4),
      push_bit 6 (v210 ! 6) OR drop_bit 2 (v210 ! 5),
      push_bit 6 (v210 ! 7) OR drop_bit 2 (v210 ! 6),
      push_bit 4 (v210 ! 8) OR drop_bit 2 (v210 ! 7),
      push_bit 4 (v210 ! 9) OR drop_bit 4 (v210 ! 8),
      push_bit 4 (v210 ! 10) OR drop_bit 4 (v210 ! 9),
      push_bit 4 (v210 ! 11) OR drop_bit 4 (v210 ! 10),
      push_bit 2 (v210 ! 12) OR drop_bit 4 (v210 ! 11),
      push_bit 2 (v210 ! 13) OR drop_bit 6 (v210 ! 12),
      push_bit 2 (v210 ! 14) OR drop_bit 6 (v210 ! 13),
      push_bit 2 (v210 ! 15) OR drop_bit 6 (v210 ! 14)]"

definition st20_v210_to_rfc4175_422le10 :: "u8 list \<Rightarrow> u32 \<Rightarrow> u32 \<Rightarrow> u8 list res option" where
  "st20_v210_to_rfc4175_422le10 pg_v210 w h =
     (let pg_count = w * h div 2 in
      if pg_count mod 3 \<noteq> 0 then Some (Inl EINVAL)
      else map_option Inr (block_map 16 le15_of_v210 (unat (pg_count div 3)) pg_v210))"

definition v210_of_be15 :: "u8 list \<Rightarrow> u8 list" where
  "v210_of_be15 be =
     [push_bit 2 (be ! 0) OR drop_bit 6 (be ! 1),
      drop_bit 6 (be ! 0) OR push_bit 6 (be ! 1) OR (drop_bit 2 (be ! 2) AND 0x3C),
      (drop_bit 2 (be ! 1) AND 0x0F) OR (push_bit 2 (be ! 3) AND 0xF0),
      (push_bit 2 (be ! 2) OR drop_bit 6 (be ! 3)) AND 0x3F,
      be ! 4,
      push_bit 4 (be ! 5) OR (drop_bit 4 (be ! 6) AND 0x0C) OR (be ! 3 AND 0x03),
      drop_bit 4 (be ! 5) OR (be ! 7 AND 0xF0),
      be ! 6 AND 0x3F,
      push_bit 6 (be ! 7) OR drop_bit 2 (be ! 8),
      (drop_bit 2 (be ! 7) AND 0x03) OR push_bit 2 (be ! 9),
      (push_bit 2 (be ! 8) AND 0x0C) OR drop_bit 6 (be ! 9) OR push_bit 6 (be ! 10) OR (drop_bit 2 (be ! 11) AND 0x30),
      drop_bit 2 (be ! 10),
      drop_bit 4 (be ! 12) OR push_bit 4 (be ! 11),
      (drop_bit 4 (be ! 11) AND 0x03) OR (be ! 13 AND 0xFC),
      (be ! 12 AND 0x0F) OR push_bit 4 (be ! 14),
      (drop_bit 4 (be ! 14) OR push_bit 4 (be ! 13)) AND 0x3F]"

definition st20_rfc4175_422be10_to_v210_scalar :: "u8 list \<Rightarrow> u32 \<Rightarrow> u32 \<Rightarrow> u8 list res option" where
  "st20_rfc4175_422be10_to_v210_scalar pg_be w h =
     (let pg_count = w * h div 2 in
      if pg_count mod 3 \<noteq> 0 then Some (Inl EINVAL)
      else map_option Inr (block_map 15 v210_of_be15 (unat (pg_count div 3)) pg_be))"

definition be15_of_v210 :: "u8 list \<Rightarrow> u8 list" where
  "be15_of_v210 v210 =
     [push_bit 6 (v210 ! 1) OR drop_bit 2 (v210 ! 0),
      push_bit 6 (v210 ! 0) OR (push_bit 2 (v210 ! 2) AND 0x3C) OR drop_bit 6 (v210 ! 1),
      (push_bit 2 (v210 ! 1) AND 0xF0) OR (drop_bit 2 (v210 ! 3) AND 0x0F),
      (v210 ! 5 AND 0x03) OR (drop_bit 2 (v210 ! 2) AND 0x3C) OR push_bit 6 (v210 ! 3),
      v210 ! 4,
      push_bit 4 (v210 ! 6) OR drop_bit 4 (v210 ! 5),
      (push_bit 4 (v210 ! 5) AND 0xC0) OR (v210 ! 7 AND 0x3F),
      (v210 ! 6 AND 0xF0) OR (push_bit 2 (v210 ! 9) AND 0x0C) OR drop_bit 6 (v210 ! 8),
      push_bit 2 (v210 ! 8) OR (drop_bit 2 (v210 ! 10) AND 0x3),
      push_bit 6 (v210 ! 10) OR drop_bit 2 (v210 ! 9),
      push_bit 2 (v210 ! 11) OR drop_bit 6 (v210 ! 10),
      (push_bit 2 (v210 ! 10) AND 0xC0) OR (push_bit 4 (v210 ! 13) AND 0x30) OR drop_bit 4 (v210 ! 12),
      push_bit 4 (v210 ! 12) OR (v210 ! 14 AND 0x0F),
      (v210 ! 13 AND 0xFC) OR (drop_bit 4 (v210 ! 15) AND 0x03),
      push_bit 4 (v210 ! 15) OR drop_bit 4 (v210 ! 14)]"

definition st20_v210_to_rfc4175_422be10_scalar :: "u8 list \<Rightarrow> u32 \<Rightarrow> u32 \<Rightarrow> u8 list res option" where
  "st20_v210_to_rfc4175_422be10_scalar v210 w h =
     (let pg_count = w * h div 2 in
      if pg_count mod 3 \<noteq> 0 then Some (Inl EINVAL)
      else map_option Inr (block_map 16 be15_of_v210 (unat (pg_count div 3)) v210))"


section \<open>Y210 and 16-bit planes\<close>

text \<open>One group as Y210 stores it, \<open>Y0 Cb Y1 Cr\<close>.\<close>

definition y210_of_pg :: "st20_rfc4175_422_10_pg2_be \<Rightarrow> u16 list" where
  "y210_of_pg pg =
     [push_bit 10 (ucast (b10_Y00 pg)) + push_bit 6 (ucast (b10_Y00' pg)),
      push_bit 8 (ucast (b10_Cb00 pg)) + push_bit 6 (ucast (b10_Cb00' pg)),
      push_bit 14 (ucast (b10_Y01 pg)) + push_bit 6 (ucast (b10_Y01' pg)),
      push_bit 12 (ucast (b10_Cr00 pg)) + push_bit 6 (ucast (b10_Cr00' pg))]"

definition pg_of_y210 :: "u16 list \<Rightarrow> st20_rfc4175_422_10_pg2_be" where
  "pg_of_y210 s =
     \<lparr>b10_Cb00 = ucast (drop_bit 8 (s ! 1)),
      b10_Y00 = ucast (drop_bit 10 (s ! 0)),
      b10_Cb00' = ucast (drop_bit 6 (s ! 1) AND 0x3),
      b10_Cr00 = ucast (drop_bit 12 (s ! 3)),
      b10_Y00' = ucast (drop_bit 6 (s ! 0) AND 0xF),
      b10_Y01 = ucast (drop_bit 14 (s ! 2)),
      b10_Cr00' = ucast (drop_bit 6 (s ! 3) AND 0x3F),
      b10_Y01' = ucast (drop_bit 6 (s ! 2) AND 0xFF)\<rparr>"

definition st20_rfc4175_422be10_to_y210_scalar ::
  "st20_rfc4175_422_10_pg2_be list \<Rightarrow> u32 \<Rightarrow> u32 \<Rightarrow> u16 list option" where
  "st20_rfc4175_422be10_to_y210_scalar pg_be w h =
     map_option concat (pg_map y210_of_pg (unat (w * h div 2)) pg_be)"

text \<open>The loop over groups of four samples.\<close>

fun y210_loop :: "nat \<Rightarrow> u16 list \<Rightarrow> st20_rfc4175_422_10_pg2_be list option" where
  "y210_loop 0 s = Some []"
| "y210_loop (Suc n) s =
     (if length s < 4 then None
      else map_option (Cons (pg_of_y210 (take 4 s))) (y210_loop n (drop 4 s)))"

definition st20_y210_to_rfc4175_422be10_scalar ::
  "u16 list \<Rightarrow> u32 \<Rightarrow> u32 \<Rightarrow> st20_rfc4175_422_10_pg2_be list option" where
  "st20_y210_to_rfc4175_422be10_scalar pg_y210 w h = y210_loop (unat (w * h div 2)) pg_y210"

definition st20_unpack_pg2be_422le16 ::
  "st20_rfc4175_422_10_pg2_be \<Rightarrow> u16 list \<times> u16 list \<times> u16 list" where
  "st20_unpack_pg2be_422le16 pg =
     (let cb = push_bit 8 (ucast (b10_Cb00 pg)) + push_bit 6 (ucast (b10_Cb00' pg));
          y0 = push_bit 10 (ucast (b10_Y00 pg)) + push_bit 6 (ucast (b10_Y00' pg));
          cr = push_bit 12 (ucast (b10_Cr00 pg)) + push_bit 6 (ucast (b10_Cr00' pg));
          y1 = push_bit 14 (ucast (b10_Y01 pg)) + push_bit 6 (ucast (b10_Y01' pg))
      in ([y0, y1], [cb], [cr]))"

definition st20_rfc4175_422be10_to_yuv422p16le_scalar ::
  "st20_rfc4175_422_10_pg2_be list \<Rightarrow> u32 \<Rightarrow> u32 \<Rightarrow> (u16 list \<times> u16 list \<times> u16 list) option" where
  "st20_rfc4175_422be10_to_yuv422p16le_scalar pg w h =
     pg_to_planar st20_unpack_pg2be_422le16 (unat (w * h div 2)) pg"

definition pack_422le16 :: "u16 list \<Rightarrow> u16 list \<Rightarrow> u16 list \<Rightarrow> st20_rfc4175_422_10_pg2_be" where
  "pack_422le16 y b r =
     (let cb = b ! 0; y0 = y ! 0; cr = r ! 0; y1 = y ! 1
      in \<lparr>b10_Cb00 = ucast (drop_bit 8 cb),
          b10_Y00 = ucast (drop_bit 10 y0),
          b10_Cb00' = ucast (drop_bit 6 cb),
          b10_Cr00 = ucast (drop_bit 12 cr),
          b10_Y00' = ucast (drop_bit 6 y0),
          b10_Y01 = ucast (drop_bit 14 y1),
          b10_Cr00' = ucast (drop_bit 6 cr),
          b10_Y01' = ucast (drop_bit 6 y1)\<rparr>)"

definition st20_yuv422p16le_to_rfc4175_422be10_scalar ::
  "u16 list \<Rightarrow> u16 list \<Rightarrow> u16 list \<Rightarrow> u32 \<Rightarrow> u32 \<Rightarrow> st20_rfc4175_422_10_pg2_be list option" where
  "st20_yuv422p16le_to_rfc4175_422be10_scalar y b r w h =
     planar_to_pg pack_422le16 2 1 (unat (w * h div 2)) y b r"

section \<open>8-bit targets\<close>

record st20_rfc4175_422_8_pg2_le =
  p8_Cb00 :: u8
  p8_Y00 :: u8
  p8_Cr00 :: u8
  p8_Y01 :: u8

definition pg8_of_pg10 :: "st20_rfc4175_422_10_pg2_be \<Rightarrow> st20_rfc4175_422_8_pg2_le" where
  "pg8_of_pg10 pg =
     \<lparr>p8_Cb00 = b10_Cb00 pg,
      p8_Y00 = push_bit 2 (ucast (b10_Y00 pg)) + ucast (drop_bit 2 (b10_Y00' pg)),
      p8_Cr00 = push_bit 4 (ucast (b10_Cr00 pg)) + ucast (drop_bit 2 (b10_Cr00' pg)),
      p8_Y01 = push_bit 6 (ucast (b10_Y01 pg)) + ucast (drop_bit 2 (b10_Y01' pg))\<rparr>"

definition st20_rfc4175_422be10_to_422le8_scalar ::
  "st20_rfc4175_422_10_pg2_be list \<Rightarrow> u32 \<Rightarrow> u32 \<Rightarrow> st20_rfc4175_422_8_pg2_le list option" where
  "st20_rfc4175_422be10_to_422le8_scalar pg_10 w h = pg_map pg8_of_pg10 (unat (w * h div 2)) pg_10"

definition unpack_422p8 :: "st20_rfc4175_422_10_pg2_be \<Rightarrow> u8 list \<times> u8 list \<times> u8 list" where
  "unpack_422p8 pg =
     ([push_bit 2 (ucast (b10_Y00 pg)) OR ucast (drop_bit 2 (b10_Y00' pg)),
       push_bit 6 (ucast (b10_Y01 pg)) OR ucast (drop_bit 2 (b10_Y01' pg))],
      [b10_Cb00 pg],
      [push_bit 4 (ucast (b10_Cr00 pg)) OR ucast (drop_bit 2 (b10_Cr00' pg))])"

definition st20_rfc4175_422be10_to_yuv422p8_scalar ::
  "st20_rfc4175_422_10_pg2_be list \<Rightarrow> u32 \<Rightarrow> u32 \<Rightarrow> (u8 list \<times> u8 list \<times> u8 list) option" where
  "st20_rfc4175_422be10_to_yuv422p8_scalar pg w h = pg_to_planar unpack_422p8 (unat (w * h div 2)) pg"

text \<open>Two lines each round: the second gives its luma only.\<close>

fun yuv420p8_lines :: "nat \<Rightarrow> nat \<Rightarrow> st20_rfc4175_422_10_pg2_be list \<Rightarrow>
    (u8 list \<times> u8 list \<times> u8 list) option" where
  "yuv420p8_lines 0 line_pg_cnt pg = Some ([], [], [])"
| "yuv420p8_lines (Suc i) line_pg_cnt pg = do {
     (y1, b1, r1) \<leftarrow> pg_to_planar unpack_422p8 line_pg_cnt pg;
     let pg = drop line_pg_cnt pg;
     (y2, _, _) \<leftarrow> pg_to_planar (\<lambda>p. (fst (unpack_422p8 p), [], [])) line_pg_cnt pg;
     (y, b, r) \<leftarrow> yuv420p8_lines i line_pg_cnt (drop line_pg_cnt pg);
     Some (y1 @ y2 @ y, b1 @ b, r1 @ r)
   }"

definition st20_rfc4175_422be10_to_yuv420p8_scalar ::
  "st20_rfc4175_422_10_pg2_be list \<Rightarrow> u32 \<Rightarrow> u32 \<Rightarrow> (u8 list \<times> u8 list \<times> u8 list) option" where
  "st20_rfc4175_422be10_to_yuv420p8_scalar pg w h =
     yuv420p8_lines (unat (h div 2)) (unat (w div 2)) pg"

section \<open>The V210 converters\<close>

lemma list15:
  assumes "length (xs :: 'a list) = 15"
  obtains b0 b1 b2 b3 b4 b5 b6 b7 b8 b9 b10 b11 b12 b13 b14 where "xs = [b0, b1, b2, b3, b4, b5, b6, b7, b8, b9, b10, b11, b12, b13, b14]"
  using assms by (auto simp: numeral_eq_Suc length_Suc_conv)

interpretation be_v210: block_codec 15 16 v210_of_be15 be15_of_v210
proof
  fix xs :: "u8 list"
  assume "length xs = 15"
  then obtain b0 b1 b2 b3 b4 b5 b6 b7 b8 b9 b10 b11 b12 b13 b14 where xs: "xs = [b0, b1, b2, b3, b4, b5, b6, b7, b8, b9, b10, b11, b12, b13, b14]" by (rule list15)
  show "length (v210_of_be15 xs) = 16 \<and> be15_of_v210 (v210_of_be15 xs) = xs"
    by (simp add: xs v210_of_be15_def be15_of_v210_def) (simp add: bit_blast, simp add: small_idx)
qed

interpretation le_v210: block_codec 15 16 v210_of_le15 le15_of_v210
proof
  fix xs :: "u8 list"
  assume "length xs = 15"
  then obtain b0 b1 b2 b3 b4 b5 b6 b7 b8 b9 b10 b11 b12 b13 b14 where xs: "xs = [b0, b1, b2, b3, b4, b5, b6, b7, b8, b9, b10, b11, b12, b13, b14]" by (rule list15)
  show "length (v210_of_le15 xs) = 16 \<and> le15_of_v210 (v210_of_le15 xs) = xs"
    by (simp add: xs v210_of_le15_def le15_of_v210_def) (simp add: bit_blast, simp add: small_idx)
qed

lemma v210_same_block:
  "v210_of_le15 (bytes_422le10 (be_le_10.a_to_b p) @ bytes_422le10 (be_le_10.a_to_b q) @ bytes_422le10 (be_le_10.a_to_b s)) =
   v210_of_be15 (bytes_422be10 p @ bytes_422be10 q @ bytes_422be10 s)"
  by (simp add: v210_of_le15_def v210_of_be15_def bytes_422le10_def bytes_422be10_def be_le_10.a_to_b_def
      unpack_422be10_def pack_422le10_def Let_def field_add)
    (simp add: bit_blast, simp add: numeral_eq_Suc)


lemma length_bytes_422 [simp]: "length (bytes_422be10 p) = 5" "length (bytes_422le10 p') = 5"
  by (simp_all add: bytes_422be10_def bytes_422le10_def)

lemma length_concat_bytes:
  "length (concat (map bytes_422be10 pgs)) = 5 * length pgs"
  "length (concat (map bytes_422le10 pgs')) = 5 * length pgs'"
  by (simp_all add: length_concat comp_def sum_list_triv)

lemma v210_same_frame:
  assumes "length pgs = 3 * n"
  shows "block_map 15 v210_of_le15 n (concat (map bytes_422le10 (map be_le_10.a_to_b pgs))) =
    block_map 15 v210_of_be15 n (concat (map bytes_422be10 pgs))"
  using assms
proof (induction n arbitrary: pgs)
  case (Suc n)
  then obtain p q s rest where pgs: "pgs = p # q # s # rest" "length rest = 3 * n"
    by (auto simp: length_Suc_conv numeral_3_eq_3)
  then show ?case using Suc.IH [OF pgs(2)] v210_same_block [of p q s] by simp
qed simp



section \<open>Y210, 16-bit planes and 8-bit targets\<close>

lemma unpack_16: "st20_unpack_pg2be_422le16 pg = map3 (push_bit 6) (unpack_422be10 pg)"
  by (simp add: st20_unpack_pg2be_422le16_def unpack_422be10_def Let_def map3_def push_bit_add)

lemma ucast_masks:
  "ucast ((x :: u16) AND 0x3) = (ucast x :: 2 word)" "ucast (x AND 0xF) = (ucast x :: 4 word)"
  "ucast (x AND 0x3F) = (ucast x :: 6 word)" "ucast (x AND 0xFF) = (ucast x :: 8 word)"
proof -
  have m: "(0x3 :: u16) = mask 2" "(0xF :: u16) = mask 4" "(0x3F :: u16) = mask 6" "(0xFF :: u16) = mask 8"
    by (simp_all add: mask_eq_exp_minus_1)
  show "ucast ((x :: u16) AND 0x3) = (ucast x :: 2 word)" "ucast (x AND 0xF) = (ucast x :: 4 word)"
    "ucast (x AND 0x3F) = (ucast x :: 6 word)" "ucast (x AND 0xFF) = (ucast x :: 8 word)"
    unfolding m by (auto simp: bit_simps intro!: bit_word_eqI)
qed

lemma pack_16:
  assumes "length ys = 2" "length bs = 1" "length rs = 1"
  shows "pack_422le16 ys bs rs = pack_422be10 (map (drop_bit 6) ys) (map (drop_bit 6) bs) (map (drop_bit 6) rs)"
  using assms by (auto simp: pack_422le16_def pack_422be10_def Let_def numeral_2_eq_2 length_Suc_conv)

lemma drop_push_6: "map (drop_bit 6) (map (push_bit 6) xs) = map (take_bit 10) (xs :: u16 list)"
  by (auto simp: bit_simps intro!: bit_word_eqI)

lemma y210_pg: "pg_of_y210 (y210_of_pg pg) = pg"
proof (cases "unpack_422be10 pg")
  case (fields ys bs rs)
  note len = be10.pack_unpack [OF fields]
  then obtain y0 y1 cb cr where s: "ys = [y0, y1]" "bs = [cb]" "rs = [cr]"
    by (auto simp: numeral_2_eq_2 length_Suc_conv)
  have "y210_of_pg pg = [push_bit 6 y0, push_bit 6 cb, push_bit 6 y1, push_bit 6 cr]"
    using unpack_16 [of pg] fields s
    by (simp add: y210_of_pg_def st20_unpack_pg2be_422le16_def Let_def map3_def)
  then have "pg_of_y210 (y210_of_pg pg) = pack_422le16 (map (push_bit 6) ys) (map (push_bit 6) bs) (map (push_bit 6) rs)"
    by (simp add: s pg_of_y210_def pack_422le16_def Let_def ucast_masks)
  also have "\<dots> = pack_422be10 ys bs rs"
    using len pack_16 [of "map (push_bit 6) ys" "map (push_bit 6) bs" "map (push_bit 6) rs"]
      be_le_10.samples_cut [OF fields] by (simp add: drop_push_6 del: map_map)
  finally show ?thesis using len by simp
qed

lemma y210_loop_concat: "y210_loop (length pgs) (concat (map y210_of_pg pgs)) = Some pgs"
proof (induction pgs)
  case (Cons pg pgs)
  have "length (y210_of_pg pg) = 4" by (simp add: y210_of_pg_def)
  then show ?case using Cons by (simp add: y210_pg)
qed simp

text \<open>
  The 16-bit targets hold each 10-bit sample in their high bits and lose nothing: converting a frame
  to Y210 and back, and to 16-bit planes and back, are both the identity, and the 16-bit planes are
  the planes of the 10-bit converter shifted left by six.
\<close>

theorem convert_422_16:
  assumes "length pg = unat (w * h div 2)"
  shows "(\<exists>s. st20_rfc4175_422be10_to_y210_scalar pg w h = Some s \<and>
      st20_y210_to_rfc4175_422be10_scalar s w h = Some pg) \<and>
    (\<exists>y b r. st20_rfc4175_422be10_to_yuv422p10le_scalar pg w h = Some (y, b, r) \<and>
      st20_rfc4175_422be10_to_yuv422p16le_scalar pg w h =
        Some (map (push_bit 6) y, map (push_bit 6) b, map (push_bit 6) r) \<and>
      st20_yuv422p16le_to_rfc4175_422be10_scalar (map (push_bit 6) y) (map (push_bit 6) b)
        (map (push_bit 6) r) w h = Some pg)"
proof -
  define n where "n = unat (w * h div 2)"
  obtain y b r where u: "pg_to_planar unpack_422be10 n pg = Some (y, b, r)"
    "length y = n * 2" "length b = n * 1" "length r = n * 1" "planar_to_pg pack_422be10 2 1 n y b r = Some pg"
    using be10.pg_roundtrip [of pg n] assms by (auto simp: n_def)
  have cut: "map (take_bit 10) y = y" "map (take_bit 10) b = b" "map (take_bit 10) r = r"
    using be10.planar_roundtrip [OF u(2-4)] u(1,5) by auto
  have "planar_to_pg pack_422le16 2 1 n (map (push_bit 6) y) (map (push_bit 6) b) (map (push_bit 6) r) = Some pg"
    using u(5) cut
    by (subst planar_to_pg_map [where p = pack_422be10 and f = "drop_bit 6"])
       (simp_all add: pack_16 drop_push_6 del: map_map)
  moreover have "pg_to_planar st20_unpack_pg2be_422le16 n pg =
      Some (map (push_bit 6) y, map (push_bit 6) b, map (push_bit 6) r)"
    using u(1) by (simp add: pg_to_planar_map3 [OF unpack_16] map3_def)
  moreover have "y210_loop n (concat (map y210_of_pg pg)) = Some pg"
    using y210_loop_concat [of pg] assms by (simp add: n_def)
  ultimately show ?thesis
    using u(1) assms
    unfolding st20_rfc4175_422be10_to_y210_scalar_def st20_y210_to_rfc4175_422be10_scalar_def
      st20_rfc4175_422be10_to_yuv422p10le_scalar_def st20_rfc4175_422be10_to_yuv422p16le_scalar_def
      st20_yuv422p16le_to_rfc4175_422be10_scalar_def n_def [symmetric]
    by (simp add: pg_map_eq)
qed

theorem convert_422_16_witness:
  "\<exists>s. st20_rfc4175_422be10_to_y210_scalar [pack_422be10 [1, 2] [3] [4]] 2 1 = Some s \<and>
    st20_y210_to_rfc4175_422be10_scalar s 2 1 = Some [pack_422be10 [1, 2] [3] [4]]"
  using convert_422_16 [of "[pack_422be10 [1, 2] [3] [4]]" 2 1] by auto

lemma unpack_8: "unpack_422p8 pg = map3 (\<lambda>s. ucast (drop_bit 2 s)) (unpack_422be10 pg)"
  by (simp add: unpack_422p8_def unpack_422be10_def Let_def map3_def field_add)
     (simp add: bit_blast)

lemma byte_add:
  "(\<And>i. k \<le> i \<Longrightarrow> \<not> bit (b :: u8) i) \<Longrightarrow> push_bit k a + b = push_bit k a OR b"
  by (rule disjunctive_add) (auto simp: bit_simps not_less)

lemma pg8_samples:
  "unpack_422p8 pg = ([p8_Y00 (pg8_of_pg10 pg), p8_Y01 (pg8_of_pg10 pg)], [p8_Cb00 (pg8_of_pg10 pg)],
     [p8_Cr00 (pg8_of_pg10 pg)])"
  unfolding unpack_422p8_def pg8_of_pg10_def
  by (simp add: byte_add bit_simps bit_blast)

text \<open>The lines of a 4:2:0 frame: all luma, and the chroma of every other line.\<close>

definition even_lines :: "nat \<Rightarrow> nat \<Rightarrow> 'a list \<Rightarrow> 'a list" where
  "even_lines n c xs = concat (map (\<lambda>i. take c (drop (2 * i * c) xs)) [0..<n])"

lemma even_lines_Suc: "even_lines (Suc n) c xs = take c xs @ even_lines n c (drop (2 * c) xs)"
proof -
  have "[0..<Suc n] = 0 # map Suc [0..<n]" by (simp add: map_Suc_upt upt_conv_Cons)
  then show ?thesis by (simp add: even_lines_def o_def algebra_simps del: upt_Suc)
qed

lemma p8_lines:
  assumes "length pg = 2 * n * c"
  shows "yuv420p8_lines n c pg = Some (concat (map (\<lambda>p. fst (unpack_422p8 p)) pg),
    even_lines n c (map (\<lambda>p. p8_Cb00 (pg8_of_pg10 p)) pg), even_lines n c (map (\<lambda>p. p8_Cr00 (pg8_of_pg10 p)) pg))"
  using assms
proof (induction n arbitrary: pg)
  case (Suc n)
  define p1 p2 p3 where "p1 = take c pg" and "p2 = take c (drop c pg)" and "p3 = drop (2 * c) pg"
  have pg: "pg = p1 @ p2 @ p3"
    by (simp add: p1_def p2_def p3_def) (metis append_take_drop_id drop_drop mult_2)
  have len: "length p1 = c" "length p2 = c" "length p3 = 2 * n * c"
    using Suc.prems by (simp_all add: p1_def p2_def p3_def algebra_simps)
  show ?case
    using Suc.IH [OF len(3)] len
    by (simp add: pg even_lines_Suc pg_to_planar_eq) (simp add: pg8_samples concat_map_singleton mult_2)
qed (simp add: even_lines_def)



end
