(* ===== verification/Convert_Audio.thy ===== *)
theory Convert_Audio
  imports Pixel_Groups
begin

text \<open>
  The AM824 and AES3 audio subframe converters at the end of \<^verbatim>\<open>lib/src/st2110/st_convert.c\<close>
  (ST 2110-31). The structs are those of \<^verbatim>\<open>include/st30_api.h\<close> on a little-endian host, their bit
  fields words of their width; the array \<open>data[3]\<close> is three fields.
\<close>

section \<open>Definitions\<close>

record st31_am824 =
  am_v :: "1 word"
  am_u :: "1 word"
  am_c :: "1 word"
  am_p :: "1 word"
  am_f :: "1 word"
  am_b :: "1 word"
  am_unused :: "2 word"
  am_data0 :: u8
  am_data1 :: u8
  am_data2 :: u8

record st31_aes3 =
  ae_preamble :: "4 word"
  ae_data_0 :: "4 word"
  ae_data_1 :: u16
  ae_data_2 :: "4 word"
  ae_v :: "1 word"
  ae_u :: "1 word"
  ae_c :: "1 word"
  ae_p :: "1 word"

definition aes3_of_am824 :: "st31_am824 \<Rightarrow> st31_aes3" where
  "aes3_of_am824 sf =
     \<lparr>ae_preamble = (if am_b sf \<noteq> 0 then 0x2 else if am_f sf \<noteq> 0 then 0x0 else 0x1),
      ae_data_0 = ucast (am_data0 sf),
      ae_data_1 = drop_bit 4 (ucast (am_data0 sf)) OR push_bit 4 (ucast (am_data1 sf)) OR
        push_bit 12 (ucast (am_data2 sf)),
      ae_data_2 = ucast (drop_bit 4 (am_data2 sf)),
      ae_v = am_v sf, ae_u = am_u sf, ae_c = am_c sf, ae_p = am_p sf\<rparr>"

definition am824_of_aes3 :: "st31_aes3 \<Rightarrow> st31_am824" where
  "am824_of_aes3 sf =
     \<lparr>am_v = ae_v sf, am_u = ae_u sf, am_c = ae_c sf, am_p = ae_p sf,
      am_f = (if ae_preamble sf = 0x2 then 1 else if ae_preamble sf = 0x0 then 1 else 0),
      am_b = (if ae_preamble sf = 0x2 then 1 else 0),
      am_unused = 0,
      am_data0 = ucast (ae_data_0 sf) OR ucast (push_bit 4 (ae_data_1 sf)),
      am_data1 = ucast (drop_bit 4 (ae_data_1 sf)),
      am_data2 = push_bit 4 (ucast (ae_data_2 sf)) OR ucast (drop_bit 12 (ae_data_1 sf))\<rparr>"

definition st31_am824_to_aes3 :: "st31_am824 list \<Rightarrow> u16 \<Rightarrow> st31_aes3 list option" where
  "st31_am824_to_aes3 sf_am824 subframes = pg_map aes3_of_am824 (unat subframes) sf_am824"

definition st31_aes3_to_am824 :: "st31_aes3 list \<Rightarrow> u16 \<Rightarrow> st31_am824 list option" where
  "st31_aes3_to_am824 sf_aes3 subframes = pg_map am824_of_aes3 (unat subframes) sf_aes3"

section \<open>Round trips\<close>

lemma bit_u1_out [bit_blast]: "1 \<le> n \<Longrightarrow> \<not> bit (w :: 1 word) n"
  using bit_word_out [of n w] by simp

lemma word1_cases: "(w :: 1 word) = 0 \<or> w = 1"
  by (cases w rule: word_nat_cases) (auto simp: less_Suc_eq numeral_2_eq_2)

text \<open>A well formed AM824 subframe: a block start is a frame start, the unused bits are zero.\<close>

definition am824_wf :: "st31_am824 \<Rightarrow> bool" where
  "am824_wf sf \<longleftrightarrow> (am_b sf \<noteq> 0 \<longrightarrow> am_f sf \<noteq> 0) \<and> am_unused sf = 0"

definition aes3_wf :: "st31_aes3 \<Rightarrow> bool" where
  "aes3_wf sf \<longleftrightarrow> ae_preamble sf = 0 \<or> ae_preamble sf = 1 \<or> ae_preamble sf = 2"

lemma am824_back:
  assumes "am824_wf sf"
  shows "am824_of_aes3 (aes3_of_am824 sf) = sf"
proof (cases sf)
  case (fields v u c p f b unused d0 d1 d2)
  have "ucast (ucast d0 :: 4 word) OR ucast (push_bit 4 (drop_bit 4 (ucast d0) OR push_bit 4 (ucast d1) OR
      push_bit 12 (ucast d2) :: u16)) = d0"
    "ucast (drop_bit 4 (drop_bit 4 (ucast d0) OR push_bit 4 (ucast d1) OR push_bit 12 (ucast d2) :: u16)) = d1"
    "push_bit 4 (ucast (ucast (drop_bit 4 d2) :: 4 word)) OR
      ucast (drop_bit 12 (drop_bit 4 (ucast d0) OR push_bit 4 (ucast d1) OR push_bit 12 (ucast d2) :: u16)) = d2"
    by (simp_all add: bit_blast)
  then show ?thesis
    using assms fields word1_cases [of f] word1_cases [of b]
    by (auto simp: am824_of_aes3_def aes3_of_am824_def am824_wf_def)
qed

lemma aes3_back:
  assumes "aes3_wf sf"
  shows "aes3_of_am824 (am824_of_aes3 sf) = sf"
proof (cases sf)
  case (fields preamble d0 d1 d2 v u c p)
  have "ucast (ucast d0 OR ucast (push_bit 4 d1) :: u8) = d0"
    "drop_bit 4 (ucast (ucast d0 OR ucast (push_bit 4 d1) :: u8)) OR push_bit 4 (ucast (ucast (drop_bit 4 d1) :: u8)) OR
      push_bit 12 (ucast (push_bit 4 (ucast d2) OR ucast (drop_bit 12 d1) :: u8)) = d1"
    "ucast (drop_bit 4 (push_bit 4 (ucast d2) OR ucast (drop_bit 12 d1) :: u8)) = d2"
    by (simp_all add: bit_blast)
  then show ?thesis
    using assms fields
    by (auto simp: am824_of_aes3_def aes3_of_am824_def aes3_wf_def)
qed


text \<open>
  C36. Round trip of the ST 2110-31 audio subframe formats: well formed AM824 subframes survive the
  conversion to AES3 and back, and AES3 subframes with one of the three preambles survive the
  conversion to AM824 and back: audio data, channel status, user, validity and parity bits and the
  block and frame start marks.
\<close>

theorem am824_aes3_roundtrip:
  assumes "length sf = unat subframes" and "list_all am824_wf sf"
    and "length af = unat subframes" and "list_all aes3_wf af"
  shows "(\<exists>a. st31_am824_to_aes3 sf subframes = Some a \<and> st31_aes3_to_am824 a subframes = Some sf) \<and>
    (\<exists>m. st31_aes3_to_am824 af subframes = Some m \<and> st31_am824_to_aes3 m subframes = Some af)"
proof -
  have "map (am824_of_aes3 \<circ> aes3_of_am824) sf = sf"
    using assms(2) am824_back by (intro map_idI) (auto simp: list_all_iff)
  moreover have "map (aes3_of_am824 \<circ> am824_of_aes3) af = af"
    using assms(4) aes3_back by (intro map_idI) (auto simp: list_all_iff)
  ultimately show ?thesis
    using assms(1,3) by (auto simp: st31_am824_to_aes3_def st31_aes3_to_am824_def pg_map_eq)
qed

theorem am824_aes3_roundtrip_witness:
  "\<exists>a. st31_am824_to_aes3 [\<lparr>am_v = 0, am_u = 1, am_c = 0, am_p = 1, am_f = 1, am_b = 1, am_unused = 0,
      am_data0 = 0x12, am_data1 = 0x34, am_data2 = 0x56\<rparr>] 1 = Some a \<and>
    st31_aes3_to_am824 a 1 = Some [\<lparr>am_v = 0, am_u = 1, am_c = 0, am_p = 1, am_f = 1, am_b = 1, am_unused = 0,
      am_data0 = 0x12, am_data1 = 0x34, am_data2 = 0x56\<rparr>]"
  using am824_aes3_roundtrip [of "[\<lparr>am_v = 0, am_u = 1, am_c = 0, am_p = 1, am_f = 1, am_b = 1, am_unused = 0,
      am_data0 = 0x12, am_data1 = 0x34, am_data2 = 0x56\<rparr>]" 1
      "[\<lparr>ae_preamble = 1, ae_data_0 = 0, ae_data_1 = 0, ae_data_2 = 0, ae_v = 0, ae_u = 0, ae_c = 0, ae_p = 0\<rparr>]"]
  by (simp add: am824_wf_def aes3_wf_def)

end
