(* ===== verification/Formats.thy ===== *)
theory Formats
  imports Media_Clock
begin

text \<open>
  The format tables and size computations of \<^verbatim>\<open>lib/src/st2110/st_fmt.c\<close> and the converter
  table of \<^verbatim>\<open>lib/src/st2110/st_convert.c\<close>. Enums are datatypes with the names of the source (the
  last constructor also stands for any value outside the enum, which every lookup refuses), tables
  are lists in the order of the source, and a lookup takes the first match as the loops do.
  \<open>size_t\<close> values are natural numbers with the wrap at 64 bits written out. The columns of
  \<open>st_fps_timings\<close> that hold floating point numbers, and the functions on them, are not modelled.
\<close>

section \<open>Enumerations\<close>

datatype st20_fmt =
    ST20_FMT_YUV_422_10BIT | ST20_FMT_YUV_422_8BIT | ST20_FMT_YUV_422_12BIT
    | ST20_FMT_YUV_422_16BIT | ST20_FMT_YUV_420_8BIT | ST20_FMT_YUV_420_10BIT
    | ST20_FMT_YUV_420_12BIT | ST20_FMT_YUV_420_16BIT | ST20_FMT_RGB_8BIT | ST20_FMT_RGB_10BIT
    | ST20_FMT_RGB_12BIT | ST20_FMT_RGB_16BIT | ST20_FMT_YUV_444_8BIT | ST20_FMT_YUV_444_10BIT
    | ST20_FMT_YUV_444_12BIT | ST20_FMT_YUV_444_16BIT | ST20_FMT_YUV_422_PLANAR10LE
    | ST20_FMT_V210 | ST20_FMT_MAX

datatype st_fps =
    ST_FPS_P59_94 | ST_FPS_P50 | ST_FPS_P29_97 | ST_FPS_P25 | ST_FPS_P119_88 | ST_FPS_P120
    | ST_FPS_P100 | ST_FPS_P60 | ST_FPS_P30 | ST_FPS_P24 | ST_FPS_P23_98 | ST_FPS_MAX

datatype st_frame_fmt =
    ST_FRAME_FMT_YUV422PLANAR10LE | ST_FRAME_FMT_V210 | ST_FRAME_FMT_Y210
    | ST_FRAME_FMT_YUV422PLANAR8 | ST_FRAME_FMT_UYVY | ST_FRAME_FMT_YUV422RFC4175PG2BE10
    | ST_FRAME_FMT_YUV422PLANAR12LE | ST_FRAME_FMT_YUV422RFC4175PG2BE12
    | ST_FRAME_FMT_YUV444PLANAR10LE | ST_FRAME_FMT_YUV444RFC4175PG4BE10
    | ST_FRAME_FMT_YUV444PLANAR12LE | ST_FRAME_FMT_YUV444RFC4175PG2BE12
    | ST_FRAME_FMT_YUV420CUSTOM8 | ST_FRAME_FMT_YUV422CUSTOM8 | ST_FRAME_FMT_YUV420PLANAR8
    | ST_FRAME_FMT_YUV422PLANAR16LE | ST_FRAME_FMT_ARGB | ST_FRAME_FMT_BGRA | ST_FRAME_FMT_RGB8
    | ST_FRAME_FMT_GBRPLANAR10LE | ST_FRAME_FMT_RGBRFC4175PG4BE10 | ST_FRAME_FMT_GBRPLANAR12LE
    | ST_FRAME_FMT_RGBRFC4175PG2BE12 | ST_FRAME_FMT_JPEGXS_CODESTREAM
    | ST_FRAME_FMT_H264_CBR_CODESTREAM | ST_FRAME_FMT_H264_CODESTREAM
    | ST_FRAME_FMT_H265_CBR_CODESTREAM | ST_FRAME_FMT_H265_CODESTREAM | ST_FRAME_FMT_MAX

datatype st_frame_sampling =
    ST_FRAME_SAMPLING_422 | ST_FRAME_SAMPLING_444 | ST_FRAME_SAMPLING_420
    | ST_FRAME_SAMPLING_MAX

datatype st22_codec =
    ST22_CODEC_JPEGXS | ST22_CODEC_H264_CBR | ST22_CODEC_H264 | ST22_CODEC_H265_CBR
    | ST22_CODEC_H265 | ST22_CODEC_MAX

datatype st30_fmt =
    ST30_FMT_PCM8 | ST30_FMT_PCM16 | ST30_FMT_PCM24 | ST31_FMT_AM824 | ST30_FMT_MAX

datatype st30_sampling =
    ST30_SAMPLING_48K | ST30_SAMPLING_96K | ST31_SAMPLING_44K | ST30_SAMPLING_MAX

datatype st30_ptime =
    ST30_PTIME_1MS | ST30_PTIME_125US | ST30_PTIME_250US | ST30_PTIME_333US | ST30_PTIME_4MS
    | ST31_PTIME_80US | ST31_PTIME_1_09MS | ST31_PTIME_0_14MS | ST31_PTIME_0_09MS
    | ST30_PTIME_MAX

datatype st20_packing =
    ST20_PACKING_BPM | ST20_PACKING_GPM | ST20_PACKING_GPM_SL | ST20_PACKING_MAX

section \<open>Tables\<close>

record st20_pgroup =
  pg_fmt :: st20_fmt
  pg_size :: nat
  pg_coverage :: nat
  pg_name :: string

record st_fps_timing =
  ft_fps :: st_fps
  ft_name :: string
  ft_sampling_clock_rate :: nat
  ft_mul :: int
  ft_den :: int

record st_frame_fmt_desc =
  fd_fmt :: st_frame_fmt
  fd_name :: string
  fd_planes :: nat
  fd_sampling :: st_frame_sampling

record cvl_pad_table =
  cp_fmt :: st20_fmt
  cp_width :: u32
  cp_height :: u32
  cp_fps :: st_fps
  cp_packing :: st20_packing
  cp_interlaced :: bool
  cp_pad_interval :: u16

definition st20_pgroups :: "st20_pgroup list" where
  "st20_pgroups = [
     \<lparr>pg_fmt = ST20_FMT_YUV_422_10BIT, pg_size = 5, pg_coverage = 2,
      pg_name = ''ST20_FMT_YUV_422_10BIT''\<rparr>,
     \<lparr>pg_fmt = ST20_FMT_YUV_422_8BIT, pg_size = 4, pg_coverage = 2,
      pg_name = ''ST20_FMT_YUV_422_8BIT''\<rparr>,
     \<lparr>pg_fmt = ST20_FMT_YUV_422_12BIT, pg_size = 6, pg_coverage = 2,
      pg_name = ''ST20_FMT_YUV_422_12BIT''\<rparr>,
     \<lparr>pg_fmt = ST20_FMT_YUV_422_16BIT, pg_size = 8, pg_coverage = 2,
      pg_name = ''ST20_FMT_YUV_422_16BIT''\<rparr>,
     \<lparr>pg_fmt = ST20_FMT_YUV_420_8BIT, pg_size = 6, pg_coverage = 4,
      pg_name = ''ST20_FMT_YUV_420_8BIT''\<rparr>,
     \<lparr>pg_fmt = ST20_FMT_YUV_420_10BIT, pg_size = 15, pg_coverage = 8,
      pg_name = ''ST20_FMT_YUV_420_10BIT''\<rparr>,
     \<lparr>pg_fmt = ST20_FMT_YUV_420_12BIT, pg_size = 9, pg_coverage = 4,
      pg_name = ''ST20_FMT_YUV_420_12BIT''\<rparr>,
     \<lparr>pg_fmt = ST20_FMT_YUV_420_16BIT, pg_size = 12, pg_coverage = 4,
      pg_name = ''ST20_FMT_YUV_420_16BIT''\<rparr>,
     \<lparr>pg_fmt = ST20_FMT_RGB_8BIT, pg_size = 3, pg_coverage = 1,
      pg_name = ''ST20_FMT_RGB_8BIT''\<rparr>,
     \<lparr>pg_fmt = ST20_FMT_RGB_10BIT, pg_size = 15, pg_coverage = 4,
      pg_name = ''ST20_FMT_RGB_10BIT''\<rparr>,
     \<lparr>pg_fmt = ST20_FMT_RGB_12BIT, pg_size = 9, pg_coverage = 2,
      pg_name = ''ST20_FMT_RGB_12BIT''\<rparr>,
     \<lparr>pg_fmt = ST20_FMT_RGB_16BIT, pg_size = 6, pg_coverage = 1,
      pg_name = ''ST20_FMT_RGB_16BIT''\<rparr>,
     \<lparr>pg_fmt = ST20_FMT_YUV_444_8BIT, pg_size = 3, pg_coverage = 1,
      pg_name = ''ST20_FMT_YUV_444_8BIT''\<rparr>,
     \<lparr>pg_fmt = ST20_FMT_YUV_444_10BIT, pg_size = 15, pg_coverage = 4,
      pg_name = ''ST20_FMT_YUV_444_10BIT''\<rparr>,
     \<lparr>pg_fmt = ST20_FMT_YUV_444_12BIT, pg_size = 9, pg_coverage = 2,
      pg_name = ''ST20_FMT_YUV_444_12BIT''\<rparr>,
     \<lparr>pg_fmt = ST20_FMT_YUV_444_16BIT, pg_size = 6, pg_coverage = 1,
      pg_name = ''ST20_FMT_YUV_444_16BIT''\<rparr>,
     \<lparr>pg_fmt = ST20_FMT_YUV_422_PLANAR10LE, pg_size = 4, pg_coverage = 1,
      pg_name = ''ST20_FMT_YUV_422_PLANAR10LE''\<rparr>,
     \<lparr>pg_fmt = ST20_FMT_V210, pg_size = 8, pg_coverage = 3,
      pg_name = ''ST20_FMT_V210''\<rparr>]"

definition st_fps_timings :: "st_fps_timing list" where
  "st_fps_timings = [
     \<lparr>ft_fps = ST_FPS_P120, ft_name = ''120'', ft_sampling_clock_rate = 90 * 1000,
      ft_mul = 120, ft_den = 1\<rparr>,
     \<lparr>ft_fps = ST_FPS_P119_88, ft_name = ''119.88'', ft_sampling_clock_rate = 90 * 1000,
      ft_mul = 60000 * 2, ft_den = 1001\<rparr>,
     \<lparr>ft_fps = ST_FPS_P100, ft_name = ''100'', ft_sampling_clock_rate = 90 * 1000,
      ft_mul = 100, ft_den = 1\<rparr>,
     \<lparr>ft_fps = ST_FPS_P60, ft_name = ''60'', ft_sampling_clock_rate = 90 * 1000,
      ft_mul = 60, ft_den = 1\<rparr>,
     \<lparr>ft_fps = ST_FPS_P59_94, ft_name = ''59.94'', ft_sampling_clock_rate = 90 * 1000,
      ft_mul = 60000, ft_den = 1001\<rparr>,
     \<lparr>ft_fps = ST_FPS_P50, ft_name = ''50'', ft_sampling_clock_rate = 90 * 1000,
      ft_mul = 50, ft_den = 1\<rparr>,
     \<lparr>ft_fps = ST_FPS_P30, ft_name = ''30'', ft_sampling_clock_rate = 90 * 1000,
      ft_mul = 30, ft_den = 1\<rparr>,
     \<lparr>ft_fps = ST_FPS_P29_97, ft_name = ''29.97'', ft_sampling_clock_rate = 90 * 1000,
      ft_mul = 30000, ft_den = 1001\<rparr>,
     \<lparr>ft_fps = ST_FPS_P25, ft_name = ''25'', ft_sampling_clock_rate = 90 * 1000,
      ft_mul = 25, ft_den = 1\<rparr>,
     \<lparr>ft_fps = ST_FPS_P24, ft_name = ''24'', ft_sampling_clock_rate = 90 * 1000,
      ft_mul = 24, ft_den = 1\<rparr>,
     \<lparr>ft_fps = ST_FPS_P23_98, ft_name = ''23.98'', ft_sampling_clock_rate = 90 * 1000,
      ft_mul = 24000, ft_den = 1001\<rparr>]"

definition st_frame_fmt_descs :: "st_frame_fmt_desc list" where
  "st_frame_fmt_descs = [
     \<lparr>fd_fmt = ST_FRAME_FMT_YUV422PLANAR10LE, fd_name = ''YUV422PLANAR10LE'',
      fd_planes = 3, fd_sampling = ST_FRAME_SAMPLING_422\<rparr>,
     \<lparr>fd_fmt = ST_FRAME_FMT_V210, fd_name = ''V210'',
      fd_planes = 1, fd_sampling = ST_FRAME_SAMPLING_422\<rparr>,
     \<lparr>fd_fmt = ST_FRAME_FMT_Y210, fd_name = ''Y210'',
      fd_planes = 1, fd_sampling = ST_FRAME_SAMPLING_422\<rparr>,
     \<lparr>fd_fmt = ST_FRAME_FMT_YUV422PLANAR8, fd_name = ''YUV422PLANAR8'',
      fd_planes = 3, fd_sampling = ST_FRAME_SAMPLING_422\<rparr>,
     \<lparr>fd_fmt = ST_FRAME_FMT_UYVY, fd_name = ''UYVY'',
      fd_planes = 1, fd_sampling = ST_FRAME_SAMPLING_422\<rparr>,
     \<lparr>fd_fmt = ST_FRAME_FMT_YUV422PLANAR12LE, fd_name = ''YUV422PLANAR12LE'',
      fd_planes = 3, fd_sampling = ST_FRAME_SAMPLING_422\<rparr>,
     \<lparr>fd_fmt = ST_FRAME_FMT_YUV444PLANAR10LE, fd_name = ''YUV444PLANAR10LE'',
      fd_planes = 3, fd_sampling = ST_FRAME_SAMPLING_444\<rparr>,
     \<lparr>fd_fmt = ST_FRAME_FMT_YUV444PLANAR12LE, fd_name = ''YUV444PLANAR12LE'',
      fd_planes = 3, fd_sampling = ST_FRAME_SAMPLING_444\<rparr>,
     \<lparr>fd_fmt = ST_FRAME_FMT_GBRPLANAR10LE, fd_name = ''GBRPLANAR10LE'',
      fd_planes = 3, fd_sampling = ST_FRAME_SAMPLING_444\<rparr>,
     \<lparr>fd_fmt = ST_FRAME_FMT_GBRPLANAR12LE, fd_name = ''GBRPLANAR12LE'',
      fd_planes = 3, fd_sampling = ST_FRAME_SAMPLING_444\<rparr>,
     \<lparr>fd_fmt = ST_FRAME_FMT_YUV422RFC4175PG2BE10, fd_name = ''YUV422RFC4175PG2BE10'',
      fd_planes = 1, fd_sampling = ST_FRAME_SAMPLING_422\<rparr>,
     \<lparr>fd_fmt = ST_FRAME_FMT_YUV422RFC4175PG2BE12, fd_name = ''YUV422RFC4175PG2BE12'',
      fd_planes = 1, fd_sampling = ST_FRAME_SAMPLING_422\<rparr>,
     \<lparr>fd_fmt = ST_FRAME_FMT_YUV444RFC4175PG4BE10, fd_name = ''YUV444RFC4175PG4BE10'',
      fd_planes = 1, fd_sampling = ST_FRAME_SAMPLING_444\<rparr>,
     \<lparr>fd_fmt = ST_FRAME_FMT_YUV444RFC4175PG2BE12, fd_name = ''YUV444RFC4175PG2BE12'',
      fd_planes = 1, fd_sampling = ST_FRAME_SAMPLING_444\<rparr>,
     \<lparr>fd_fmt = ST_FRAME_FMT_YUV420CUSTOM8, fd_name = ''YUV420CUSTOM8'',
      fd_planes = 1, fd_sampling = ST_FRAME_SAMPLING_420\<rparr>,
     \<lparr>fd_fmt = ST_FRAME_FMT_YUV422CUSTOM8, fd_name = ''YUV422CUSTOM8'',
      fd_planes = 1, fd_sampling = ST_FRAME_SAMPLING_422\<rparr>,
     \<lparr>fd_fmt = ST_FRAME_FMT_YUV420PLANAR8, fd_name = ''YUV420PLANAR8'',
      fd_planes = 3, fd_sampling = ST_FRAME_SAMPLING_420\<rparr>,
     \<lparr>fd_fmt = ST_FRAME_FMT_RGBRFC4175PG4BE10, fd_name = ''RGBRFC4175PG4BE10'',
      fd_planes = 1, fd_sampling = ST_FRAME_SAMPLING_444\<rparr>,
     \<lparr>fd_fmt = ST_FRAME_FMT_RGBRFC4175PG2BE12, fd_name = ''RGBRFC4175PG2BE12'',
      fd_planes = 1, fd_sampling = ST_FRAME_SAMPLING_444\<rparr>,
     \<lparr>fd_fmt = ST_FRAME_FMT_ARGB, fd_name = ''ARGB'',
      fd_planes = 1, fd_sampling = ST_FRAME_SAMPLING_444\<rparr>,
     \<lparr>fd_fmt = ST_FRAME_FMT_BGRA, fd_name = ''BGRA'',
      fd_planes = 1, fd_sampling = ST_FRAME_SAMPLING_444\<rparr>,
     \<lparr>fd_fmt = ST_FRAME_FMT_RGB8, fd_name = ''RGB8'',
      fd_planes = 1, fd_sampling = ST_FRAME_SAMPLING_444\<rparr>,
     \<lparr>fd_fmt = ST_FRAME_FMT_JPEGXS_CODESTREAM, fd_name = ''JPEGXS_CODESTREAM'',
      fd_planes = 1, fd_sampling = ST_FRAME_SAMPLING_MAX\<rparr>,
     \<lparr>fd_fmt = ST_FRAME_FMT_H264_CBR_CODESTREAM, fd_name = ''H264_CBR_CODESTREAM'',
      fd_planes = 1, fd_sampling = ST_FRAME_SAMPLING_MAX\<rparr>,
     \<lparr>fd_fmt = ST_FRAME_FMT_H264_CODESTREAM, fd_name = ''H264_CODESTREAM'',
      fd_planes = 1, fd_sampling = ST_FRAME_SAMPLING_MAX\<rparr>,
     \<lparr>fd_fmt = ST_FRAME_FMT_H265_CBR_CODESTREAM, fd_name = ''H265_CBR_CODESTREAM'',
      fd_planes = 1, fd_sampling = ST_FRAME_SAMPLING_MAX\<rparr>,
     \<lparr>fd_fmt = ST_FRAME_FMT_H265_CODESTREAM, fd_name = ''H265_CODESTREAM'',
      fd_planes = 1, fd_sampling = ST_FRAME_SAMPLING_MAX\<rparr>,
     \<lparr>fd_fmt = ST_FRAME_FMT_YUV422PLANAR16LE, fd_name = ''YUV422PLANAR16LE'',
      fd_planes = 3, fd_sampling = ST_FRAME_SAMPLING_422\<rparr>]"

definition g_cvl_static_pad_tables :: "cvl_pad_table list" where
  "g_cvl_static_pad_tables = [
     \<lparr>cp_fmt = ST20_FMT_YUV_422_10BIT, cp_width = 1920, cp_height = 1080, cp_fps = ST_FPS_P50,
      cp_packing = ST20_PACKING_GPM, cp_interlaced = True, cp_pad_interval = 155\<rparr>,
     \<lparr>cp_fmt = ST20_FMT_YUV_422_10BIT, cp_width = 1920, cp_height = 1080, cp_fps = ST_FPS_P50,
      cp_packing = ST20_PACKING_BPM, cp_interlaced = True, cp_pad_interval = 268\<rparr>,
     \<lparr>cp_fmt = ST20_FMT_YUV_422_10BIT, cp_width = 1920, cp_height = 1080, cp_fps = ST_FPS_P50,
      cp_packing = ST20_PACKING_GPM, cp_interlaced = False, cp_pad_interval = 156\<rparr>,
     \<lparr>cp_fmt = ST20_FMT_YUV_422_10BIT, cp_width = 1920, cp_height = 1080, cp_fps = ST_FPS_P50,
      cp_packing = ST20_PACKING_BPM, cp_interlaced = False, cp_pad_interval = 254\<rparr>,
     \<lparr>cp_fmt = ST20_FMT_YUV_422_10BIT, cp_width = 1920, cp_height = 1080, cp_fps = ST_FPS_P59_94,
      cp_packing = ST20_PACKING_GPM, cp_interlaced = False, cp_pad_interval = 160\<rparr>,
     \<lparr>cp_fmt = ST20_FMT_YUV_422_10BIT, cp_width = 1920, cp_height = 1080, cp_fps = ST_FPS_P59_94,
      cp_packing = ST20_PACKING_BPM, cp_interlaced = False, cp_pad_interval = 262\<rparr>,
     \<lparr>cp_fmt = ST20_FMT_YUV_422_10BIT, cp_width = 1920 * 2, cp_height = 1080 * 2, cp_fps = ST_FPS_P50,
      cp_packing = ST20_PACKING_GPM, cp_interlaced = False, cp_pad_interval = 144\<rparr>,
     \<lparr>cp_fmt = ST20_FMT_YUV_422_10BIT, cp_width = 1920 * 2, cp_height = 1080 * 2, cp_fps = ST_FPS_P59_94,
      cp_packing = ST20_PACKING_BPM, cp_interlaced = False, cp_pad_interval = 215\<rparr>,
     \<lparr>cp_fmt = ST20_FMT_YUV_422_10BIT, cp_width = 1920 * 2, cp_height = 1080 * 2, cp_fps = ST_FPS_P59_94,
      cp_packing = ST20_PACKING_GPM, cp_interlaced = False, cp_pad_interval = 145\<rparr>,
     \<lparr>cp_fmt = ST20_FMT_YUV_422_10BIT, cp_width = 1920 * 2, cp_height = 1080 * 2, cp_fps = ST_FPS_P59_94,
      cp_packing = ST20_PACKING_BPM, cp_interlaced = False, cp_pad_interval = 217\<rparr>]"

text \<open>The conversion functions, by name.\<close>

datatype convert_func =
    convert_rfc4175_422be10_to_yuv422p10le | convert_rfc4175_422be10_to_422le8
    | convert_rfc4175_422be10_to_yuv422p8 | convert_rfc4175_422be10_to_yuv420p8
    | convert_rfc4175_422be10_to_v210 | convert_rfc4175_422be10_to_y210
    | convert_rfc4175_422be12_to_yuv422p12le | convert_rfc4175_444be10_to_yuv444p10le
    | convert_rfc4175_444be12_to_yuv444p12le | convert_rfc4175_444be10_to_gbrp10le
    | convert_rfc4175_444be12_to_gbrp12le | convert_yuv422p10le_to_rfc4175_422be10
    | convert_v210_to_rfc4175_422be10 | convert_y210_to_rfc4175_422be10
    | convert_yuv422p12le_to_rfc4175_422be12 | convert_yuv444p10le_to_rfc4175_444be10
    | convert_yuv444p12le_to_rfc4175_444be12 | convert_gbrp10le_to_rfc4175_444be10
    | convert_gbrp12le_to_rfc4175_444be12 | convert_rfc4175_422be10_to_yuv422p16le
    | convert_yuv422p16le_to_rfc4175_422be10

definition converters :: "(st_frame_fmt \<times> st_frame_fmt \<times> convert_func) list" where
  "converters = [
     (ST_FRAME_FMT_YUV422RFC4175PG2BE10, ST_FRAME_FMT_YUV422PLANAR10LE,
      convert_rfc4175_422be10_to_yuv422p10le),
     (ST_FRAME_FMT_YUV422RFC4175PG2BE10, ST_FRAME_FMT_UYVY,
      convert_rfc4175_422be10_to_422le8),
     (ST_FRAME_FMT_YUV422RFC4175PG2BE10, ST_FRAME_FMT_YUV422PLANAR8,
      convert_rfc4175_422be10_to_yuv422p8),
     (ST_FRAME_FMT_YUV422RFC4175PG2BE10, ST_FRAME_FMT_YUV420PLANAR8,
      convert_rfc4175_422be10_to_yuv420p8),
     (ST_FRAME_FMT_YUV422RFC4175PG2BE10, ST_FRAME_FMT_V210,
      convert_rfc4175_422be10_to_v210),
     (ST_FRAME_FMT_YUV422RFC4175PG2BE10, ST_FRAME_FMT_Y210,
      convert_rfc4175_422be10_to_y210),
     (ST_FRAME_FMT_YUV422RFC4175PG2BE12, ST_FRAME_FMT_YUV422PLANAR12LE,
      convert_rfc4175_422be12_to_yuv422p12le),
     (ST_FRAME_FMT_YUV444RFC4175PG4BE10, ST_FRAME_FMT_YUV444PLANAR10LE,
      convert_rfc4175_444be10_to_yuv444p10le),
     (ST_FRAME_FMT_YUV444RFC4175PG2BE12, ST_FRAME_FMT_YUV444PLANAR12LE,
      convert_rfc4175_444be12_to_yuv444p12le),
     (ST_FRAME_FMT_RGBRFC4175PG4BE10, ST_FRAME_FMT_GBRPLANAR10LE,
      convert_rfc4175_444be10_to_gbrp10le),
     (ST_FRAME_FMT_RGBRFC4175PG2BE12, ST_FRAME_FMT_GBRPLANAR12LE,
      convert_rfc4175_444be12_to_gbrp12le),
     (ST_FRAME_FMT_YUV422PLANAR10LE, ST_FRAME_FMT_YUV422RFC4175PG2BE10,
      convert_yuv422p10le_to_rfc4175_422be10),
     (ST_FRAME_FMT_V210, ST_FRAME_FMT_YUV422RFC4175PG2BE10,
      convert_v210_to_rfc4175_422be10),
     (ST_FRAME_FMT_Y210, ST_FRAME_FMT_YUV422RFC4175PG2BE10,
      convert_y210_to_rfc4175_422be10),
     (ST_FRAME_FMT_YUV422PLANAR12LE, ST_FRAME_FMT_YUV422RFC4175PG2BE12,
      convert_yuv422p12le_to_rfc4175_422be12),
     (ST_FRAME_FMT_YUV444PLANAR10LE, ST_FRAME_FMT_YUV444RFC4175PG4BE10,
      convert_yuv444p10le_to_rfc4175_444be10),
     (ST_FRAME_FMT_YUV444PLANAR12LE, ST_FRAME_FMT_YUV444RFC4175PG2BE12,
      convert_yuv444p12le_to_rfc4175_444be12),
     (ST_FRAME_FMT_GBRPLANAR10LE, ST_FRAME_FMT_RGBRFC4175PG4BE10,
      convert_gbrp10le_to_rfc4175_444be10),
     (ST_FRAME_FMT_GBRPLANAR12LE, ST_FRAME_FMT_RGBRFC4175PG2BE12,
      convert_gbrp12le_to_rfc4175_444be12),
     (ST_FRAME_FMT_YUV422RFC4175PG2BE10, ST_FRAME_FMT_YUV422PLANAR16LE,
      convert_rfc4175_422be10_to_yuv422p16le),
     (ST_FRAME_FMT_YUV422PLANAR16LE, ST_FRAME_FMT_YUV422RFC4175PG2BE10,
      convert_yuv422p16le_to_rfc4175_422be10)]"

section \<open>Lookups\<close>

definition st20_get_pgroup :: "st20_fmt \<Rightarrow> st20_pgroup res" where
  "st20_get_pgroup fmt =
     (case find (\<lambda>pg. fmt = pg_fmt pg) st20_pgroups of Some pg \<Rightarrow> Inr pg | None \<Rightarrow> Inl EINVAL)"

definition st20_fmt_name :: "st20_fmt \<Rightarrow> string" where
  "st20_fmt_name fmt = (case st20_get_pgroup fmt of Inl _ \<Rightarrow> ''unknown'' | Inr pg \<Rightarrow> pg_name pg)"

definition st20_name_to_fmt :: "string \<Rightarrow> st20_fmt" where
  "st20_name_to_fmt name =
     (case find (\<lambda>pg. name = pg_name pg) st20_pgroups of Some pg \<Rightarrow> pg_fmt pg | None \<Rightarrow> ST20_FMT_MAX)"

definition st_get_fps_timing :: "st_fps \<Rightarrow> st_fps_timing res" where
  "st_get_fps_timing fps =
     (case find (\<lambda>t. fps = ft_fps t) st_fps_timings of Some t \<Rightarrow> Inr t | None \<Rightarrow> Inl EINVAL)"

text \<open>The product fits in 64 bits for every entry of the table; it is written with its wrap.\<close>

definition st_frame_period_ns :: "st_fps \<Rightarrow> nat res" where
  "st_frame_period_ns fps =
     (case st_get_fps_timing fps of
        Inl e \<Rightarrow> Inl e
      | Inr t \<Rightarrow>
          if ft_mul t \<le> 0 \<or> ft_den t \<le> 0 then Inl EINVAL
          else Inr ((NS_PER_S * nat (ft_den t)) mod 2 ^ 64 div nat (ft_mul t)))"

definition st_name_to_fps :: "string \<Rightarrow> st_fps" where
  "st_name_to_fps name =
     (case find (\<lambda>t. name = ft_name t) st_fps_timings of Some t \<Rightarrow> ft_fps t | None \<Rightarrow> ST_FPS_MAX)"

definition st_frame_fmt_name :: "st_frame_fmt \<Rightarrow> string" where
  "st_frame_fmt_name fmt =
     (case find (\<lambda>d. fmt = fd_fmt d) st_frame_fmt_descs of Some d \<Rightarrow> fd_name d | None \<Rightarrow> ''unknown'')"

definition st_frame_name_to_fmt :: "string \<Rightarrow> st_frame_fmt" where
  "st_frame_name_to_fmt name =
     (case find (\<lambda>d. name = fd_name d) st_frame_fmt_descs of
        Some d \<Rightarrow> fd_fmt d | None \<Rightarrow> ST_FRAME_FMT_MAX)"

definition st_name_to_codec :: "string \<Rightarrow> st22_codec" where
  "st_name_to_codec name =
     (if name = ''jpegxs'' then ST22_CODEC_JPEGXS
      else if name = ''h264_cbr'' then ST22_CODEC_H264_CBR
      else if name = ''h264'' then ST22_CODEC_H264
      else if name = ''h265_cbr'' then ST22_CODEC_H265_CBR
      else if name = ''h265'' then ST22_CODEC_H265
      else ST22_CODEC_MAX)"

definition st_codec_codestream_fmt :: "st22_codec \<Rightarrow> st_frame_fmt" where
  "st_codec_codestream_fmt codec =
     (if codec = ST22_CODEC_JPEGXS then ST_FRAME_FMT_JPEGXS_CODESTREAM
      else if codec = ST22_CODEC_H264_CBR then ST_FRAME_FMT_H264_CBR_CODESTREAM
      else if codec = ST22_CODEC_H264 then ST_FRAME_FMT_H264_CODESTREAM
      else if codec = ST22_CODEC_H265_CBR then ST_FRAME_FMT_H265_CBR_CODESTREAM
      else if codec = ST22_CODEC_H265 then ST_FRAME_FMT_H265_CODESTREAM
      else ST_FRAME_FMT_MAX)"

definition st_frame_fmt_planes :: "st_frame_fmt \<Rightarrow> nat" where
  "st_frame_fmt_planes fmt =
     (case find (\<lambda>d. fmt = fd_fmt d) st_frame_fmt_descs of Some d \<Rightarrow> fd_planes d | None \<Rightarrow> 0)"

definition st_frame_fmt_get_sampling :: "st_frame_fmt \<Rightarrow> st_frame_sampling" where
  "st_frame_fmt_get_sampling fmt =
     (case find (\<lambda>d. fmt = fd_fmt d) st_frame_fmt_descs of
        Some d \<Rightarrow> fd_sampling d | None \<Rightarrow> ST_FRAME_SAMPLING_MAX)"

definition st_frame_fmt_to_transport :: "st_frame_fmt \<Rightarrow> st20_fmt" where
  "st_frame_fmt_to_transport fmt =
     (case fmt of
        ST_FRAME_FMT_YUV422RFC4175PG2BE10 \<Rightarrow> ST20_FMT_YUV_422_10BIT
      | ST_FRAME_FMT_UYVY \<Rightarrow> ST20_FMT_YUV_422_8BIT
      | ST_FRAME_FMT_YUV422CUSTOM8 \<Rightarrow> ST20_FMT_YUV_422_8BIT
      | ST_FRAME_FMT_YUV422RFC4175PG2BE12 \<Rightarrow> ST20_FMT_YUV_422_12BIT
      | ST_FRAME_FMT_YUV444RFC4175PG4BE10 \<Rightarrow> ST20_FMT_YUV_444_10BIT
      | ST_FRAME_FMT_YUV444RFC4175PG2BE12 \<Rightarrow> ST20_FMT_YUV_444_12BIT
      | ST_FRAME_FMT_YUV420CUSTOM8 \<Rightarrow> ST20_FMT_YUV_420_8BIT
      | ST_FRAME_FMT_RGBRFC4175PG4BE10 \<Rightarrow> ST20_FMT_RGB_10BIT
      | ST_FRAME_FMT_RGBRFC4175PG2BE12 \<Rightarrow> ST20_FMT_RGB_12BIT
      | ST_FRAME_FMT_RGB8 \<Rightarrow> ST20_FMT_RGB_8BIT
      | _ \<Rightarrow> ST20_FMT_MAX)"

definition st_frame_fmt_from_transport :: "st20_fmt \<Rightarrow> st_frame_fmt" where
  "st_frame_fmt_from_transport tfmt =
     (case tfmt of
        ST20_FMT_YUV_422_10BIT \<Rightarrow> ST_FRAME_FMT_YUV422RFC4175PG2BE10
      | ST20_FMT_YUV_422_8BIT \<Rightarrow> ST_FRAME_FMT_UYVY
      | ST20_FMT_YUV_422_12BIT \<Rightarrow> ST_FRAME_FMT_YUV422RFC4175PG2BE12
      | ST20_FMT_YUV_444_10BIT \<Rightarrow> ST_FRAME_FMT_YUV444RFC4175PG4BE10
      | ST20_FMT_YUV_444_12BIT \<Rightarrow> ST_FRAME_FMT_YUV444RFC4175PG2BE12
      | ST20_FMT_YUV_420_8BIT \<Rightarrow> ST_FRAME_FMT_YUV420CUSTOM8
      | ST20_FMT_RGB_10BIT \<Rightarrow> ST_FRAME_FMT_RGBRFC4175PG4BE10
      | ST20_FMT_RGB_12BIT \<Rightarrow> ST_FRAME_FMT_RGBRFC4175PG2BE12
      | ST20_FMT_RGB_8BIT \<Rightarrow> ST_FRAME_FMT_RGB8
      | ST20_FMT_YUV_422_PLANAR10LE \<Rightarrow> ST_FRAME_FMT_YUV422PLANAR10LE
      | ST20_FMT_V210 \<Rightarrow> ST_FRAME_FMT_V210
      | _ \<Rightarrow> ST_FRAME_FMT_MAX)"

definition st_frame_fmt_equal_transport :: "st_frame_fmt \<Rightarrow> st20_fmt \<Rightarrow> bool" where
  "st_frame_fmt_equal_transport fmt tfmt =
     (if fmt = ST_FRAME_FMT_YUV422CUSTOM8 \<or> fmt = ST_FRAME_FMT_YUV420CUSTOM8 then True
      else let to_fmt = st_frame_fmt_from_transport tfmt in
        if to_fmt = ST_FRAME_FMT_MAX then False else fmt = to_fmt)"

definition st_frame_get_converter :: "st_frame_fmt \<Rightarrow> st_frame_fmt \<Rightarrow> convert_func res" where
  "st_frame_get_converter src_fmt dst_fmt =
     (case find (\<lambda>(s, d, _). src_fmt = s \<and> dst_fmt = d) converters of
        Some (_, _, f) \<Rightarrow> Inr f | None \<Rightarrow> Inl EINVAL)"

section \<open>Frame sizes\<close>

text \<open>A \<open>size_t\<close> result.\<close>

definition size_t :: "nat \<Rightarrow> nat" where
  "size_t n = n mod 2 ^ 64"

definition st20_frame_size :: "st20_fmt \<Rightarrow> u32 \<Rightarrow> u32 \<Rightarrow> nat" where
  "st20_frame_size fmt width height =
     (case st20_get_pgroup fmt of
        Inl _ \<Rightarrow> 0
      | Inr pg \<Rightarrow>
          let sz = size_t (unat width * unat height) in
          if sz mod pg_coverage pg \<noteq> 0 then 0
          else size_t (sz * pg_size pg) div pg_coverage pg)"

definition st_frame_size :: "st_frame_fmt \<Rightarrow> u32 \<Rightarrow> u32 \<Rightarrow> bool \<Rightarrow> nat" where
  "st_frame_size fmt width height interlaced =
     (let pixels = size_t (unat width * unat height);
          sz = (case fmt of
              ST_FRAME_FMT_YUV422PLANAR10LE \<Rightarrow> size_t (pixels * 2 * 2)
            | ST_FRAME_FMT_YUV422PLANAR12LE \<Rightarrow> size_t (pixels * 2 * 2)
            | ST_FRAME_FMT_Y210 \<Rightarrow> size_t (pixels * 2 * 2)
            | ST_FRAME_FMT_V210 \<Rightarrow> if pixels mod 3 \<noteq> 0 then 0 else size_t (pixels * 8) div 3
            | ST_FRAME_FMT_YUV422PLANAR8 \<Rightarrow> size_t (pixels * 2)
            | ST_FRAME_FMT_YUV422CUSTOM8 \<Rightarrow> size_t (pixels * 2)
            | ST_FRAME_FMT_UYVY \<Rightarrow> size_t (pixels * 2)
            | ST_FRAME_FMT_YUV444PLANAR10LE \<Rightarrow> size_t (pixels * 2 * 3)
            | ST_FRAME_FMT_YUV444PLANAR12LE \<Rightarrow> size_t (pixels * 2 * 3)
            | ST_FRAME_FMT_GBRPLANAR10LE \<Rightarrow> size_t (pixels * 2 * 3)
            | ST_FRAME_FMT_GBRPLANAR12LE \<Rightarrow> size_t (pixels * 2 * 3)
            | ST_FRAME_FMT_YUV422RFC4175PG2BE10 \<Rightarrow> st20_frame_size ST20_FMT_YUV_422_10BIT width height
            | ST_FRAME_FMT_YUV422RFC4175PG2BE12 \<Rightarrow> st20_frame_size ST20_FMT_YUV_422_12BIT width height
            | ST_FRAME_FMT_YUV444RFC4175PG4BE10 \<Rightarrow> st20_frame_size ST20_FMT_YUV_444_10BIT width height
            | ST_FRAME_FMT_RGBRFC4175PG4BE10 \<Rightarrow> st20_frame_size ST20_FMT_YUV_444_10BIT width height
            | ST_FRAME_FMT_YUV444RFC4175PG2BE12 \<Rightarrow> st20_frame_size ST20_FMT_YUV_444_12BIT width height
            | ST_FRAME_FMT_RGBRFC4175PG2BE12 \<Rightarrow> st20_frame_size ST20_FMT_YUV_444_12BIT width height
            | ST_FRAME_FMT_ARGB \<Rightarrow> size_t (pixels * 4)
            | ST_FRAME_FMT_BGRA \<Rightarrow> size_t (pixels * 4)
            | ST_FRAME_FMT_RGB8 \<Rightarrow> size_t (pixels * 3)
            | ST_FRAME_FMT_YUV420CUSTOM8 \<Rightarrow> st20_frame_size ST20_FMT_YUV_420_8BIT width height
            | ST_FRAME_FMT_YUV420PLANAR8 \<Rightarrow> st20_frame_size ST20_FMT_YUV_420_8BIT width height
            | ST_FRAME_FMT_YUV422PLANAR16LE \<Rightarrow> st20_frame_size ST20_FMT_YUV_422_16BIT width height
            | _ \<Rightarrow> 0)
      in if interlaced then sz div 2 else sz)"

definition st_frame_least_linesize :: "st_frame_fmt \<Rightarrow> u32 \<Rightarrow> nat \<Rightarrow> nat" where
  "st_frame_least_linesize fmt width plane =
     (if st_frame_fmt_planes fmt = 1
      then if plane > 0 then 0 else st_frame_size fmt width 1 False
      else
        case st_frame_fmt_get_sampling fmt of
          ST_FRAME_SAMPLING_422 \<Rightarrow>
            if plane = 0 then st_frame_size fmt width 1 False div 2
            else if plane = 1 \<or> plane = 2 then st_frame_size fmt width 1 False div 4
            else 0
        | ST_FRAME_SAMPLING_444 \<Rightarrow>
            if plane = 0 \<or> plane = 1 \<or> plane = 2 then st_frame_size fmt width 1 False div 3
            else 0
        | ST_FRAME_SAMPLING_420 \<Rightarrow>
            if plane = 0 then size_t (st_frame_size fmt width 1 False * 4) div 6
            else if plane = 1 \<or> plane = 2 then st_frame_size fmt width 1 False div 6
            else 0
        | ST_FRAME_SAMPLING_MAX \<Rightarrow> 0)"

text \<open>
  \<open>struct st_frame\<close>, with the fields the functions below use. Addresses are numbers, 0 for NULL;
  \<open>ST_MAX_PLANES\<close> is 4, so the three arrays have length 4.
\<close>

record st_frame =
  f_addr :: "nat list"
  f_iova :: "nat list"
  f_linesize :: "nat list"
  f_fmt :: st_frame_fmt
  f_interlaced :: bool
  f_second_field :: bool
  f_buffer_size :: nat
  f_data_size :: nat
  f_width :: u32
  f_height :: u32

definition st_frame_data_height :: "st_frame \<Rightarrow> u32" where
  "st_frame_data_height frame = (if f_interlaced frame then f_height frame div 2 else f_height frame)"

text \<open>The checks of one plane, in the order of the loop body.\<close>

definition plane_sane :: "st_frame \<Rightarrow> nat \<Rightarrow> bool" where
  "plane_sane frame plane \<longleftrightarrow>
     f_addr frame ! plane \<noteq> 0 \<and>
     st_frame_least_linesize (f_fmt frame) (f_width frame) plane \<le> f_linesize frame ! plane \<and>
     f_data_size frame \<le> f_buffer_size frame \<and>
     st_frame_size (f_fmt frame) (f_width frame) (f_height frame) (f_interlaced frame) \<le> f_data_size frame"

definition st_frame_sanity_check :: "st_frame \<Rightarrow> unit res" where
  "st_frame_sanity_check frame =
     (let planes = st_frame_fmt_planes (f_fmt frame) in
      if planes = 0 then Inl EINVAL
      else if list_all (plane_sane frame) [0..<planes] then Inr () else Inl EINVAL)"

text \<open>One round of the loop over the planes.\<close>

definition init_plane :: "nat \<Rightarrow> nat \<Rightarrow> nat \<Rightarrow> st_frame \<Rightarrow> st_frame" where
  "init_plane addr iova plane frame =
     (let frame = frame\<lparr>f_linesize := (f_linesize frame)
            [plane := st_frame_least_linesize (f_fmt frame) (f_width frame) plane]\<rparr> in
      if plane = 0
      then frame\<lparr>f_addr := (f_addr frame)[plane := addr], f_iova := (f_iova frame)[plane := iova]\<rparr>
      else
        let step = size_t (f_linesize frame ! (plane - 1) * unat (st_frame_data_height frame)) in
        frame\<lparr>f_addr := (f_addr frame)[plane := size_t (f_addr frame ! (plane - 1) + step)],
          f_iova := (f_iova frame)[plane := size_t (f_iova frame ! (plane - 1) + step)]\<rparr>)"

definition st_frame_init_plane_single_src :: "st_frame \<Rightarrow> nat \<Rightarrow> nat \<Rightarrow> st_frame" where
  "st_frame_init_plane_single_src frame addr iova =
     fold (init_plane addr iova) [0..<st_frame_fmt_planes (f_fmt frame)] frame"

section \<open>Pacing profile\<close>

text \<open>The fields of \<open>struct st20_tx_ops\<close> the lookup compares; \<open>st22\<close> is the session being compressed.\<close>

definition st20_pacing_static_profiling ::
  "bool \<Rightarrow> st20_fmt \<Rightarrow> u32 \<Rightarrow> u32 \<Rightarrow> st_fps \<Rightarrow> st20_packing \<Rightarrow> bool \<Rightarrow> u16" where
  "st20_pacing_static_profiling st22 fmt width height fps packing interlaced =
     (if st22 then 0
      else case find (\<lambda>r. fmt = cp_fmt r \<and> width = cp_width r \<and> height = cp_height r \<and> fps = cp_fps r \<and>
             packing = cp_packing r \<and> interlaced = cp_interlaced r) g_cvl_static_pad_tables of
          Some r \<Rightarrow> cp_pad_interval r
        | None \<Rightarrow> 0)"

section \<open>Audio\<close>

definition st30_get_sample_size :: "st30_fmt \<Rightarrow> int res" where
  "st30_get_sample_size fmt =
     (case fmt of
        ST30_FMT_PCM16 \<Rightarrow> Inr 2
      | ST30_FMT_PCM24 \<Rightarrow> Inr 3
      | ST30_FMT_PCM8 \<Rightarrow> Inr 1
      | ST31_FMT_AM824 \<Rightarrow> Inr 4
      | _ \<Rightarrow> Inl EINVAL)"

definition st30_get_sample_num :: "st30_ptime \<Rightarrow> st30_sampling \<Rightarrow> int res" where
  "st30_get_sample_num ptime sampling =
     (case sampling of
        ST30_SAMPLING_48K \<Rightarrow>
          (case ptime of
             ST30_PTIME_1MS \<Rightarrow> Inr 48
           | ST30_PTIME_125US \<Rightarrow> Inr 6
           | ST30_PTIME_250US \<Rightarrow> Inr 12
           | ST30_PTIME_333US \<Rightarrow> Inr 16
           | ST30_PTIME_4MS \<Rightarrow> Inr 192
           | ST31_PTIME_80US \<Rightarrow> Inr 4
           | _ \<Rightarrow> Inl EINVAL)
      | ST30_SAMPLING_96K \<Rightarrow>
          (case ptime of
             ST30_PTIME_1MS \<Rightarrow> Inr 96
           | ST30_PTIME_125US \<Rightarrow> Inr 12
           | ST30_PTIME_250US \<Rightarrow> Inr 24
           | ST30_PTIME_333US \<Rightarrow> Inr 32
           | ST30_PTIME_4MS \<Rightarrow> Inr 384
           | ST31_PTIME_80US \<Rightarrow> Inr 8
           | _ \<Rightarrow> Inl EINVAL)
      | ST31_SAMPLING_44K \<Rightarrow>
          (case ptime of
             ST31_PTIME_1_09MS \<Rightarrow> Inr 48
           | ST31_PTIME_0_14MS \<Rightarrow> Inr 6
           | ST31_PTIME_0_09MS \<Rightarrow> Inr 4
           | _ \<Rightarrow> Inl EINVAL)
      | ST30_SAMPLING_MAX \<Rightarrow> Inl EINVAL)"

definition st30_get_sample_rate :: "st30_sampling \<Rightarrow> int res" where
  "st30_get_sample_rate sampling =
     (case sampling of
        ST30_SAMPLING_48K \<Rightarrow> Inr 48000
      | ST30_SAMPLING_96K \<Rightarrow> Inr 96000
      | ST31_SAMPLING_44K \<Rightarrow> Inr 44100
      | ST30_SAMPLING_MAX \<Rightarrow> Inl EINVAL)"

definition st30_get_packet_size :: "st30_fmt \<Rightarrow> st30_ptime \<Rightarrow> st30_sampling \<Rightarrow> u16 \<Rightarrow> int res" where
  "st30_get_packet_size fmt ptime sampling channel =
     (case st30_get_sample_size fmt of
        Inl e \<Rightarrow> Inl e
      | Inr sample_size \<Rightarrow>
          (case st30_get_sample_num ptime sampling of
             Inl e \<Rightarrow> Inl e
           | Inr sample_num \<Rightarrow>
               if channel = 0 then Inl EINVAL
               else Inr (sample_size * sample_num * int (unat channel))))"

end
