(* ===== verification/Format_Laws.thy ===== *)
theory Format_Laws
  imports Formats
begin

text \<open>
  Properties of the format tables and size computations of theory \<open>Formats\<close>: the name tables are
  invertible (one locale, three tables), the planes of a frame lie inside its buffer without
  overlap, frame and transport formats agree, frame periods and audio packet sizes are exact.
\<close>

section \<open>Tables with a key and a name\<close>

lemma find_distinct:
  "distinct (map f rows) \<Longrightarrow> r \<in> set rows \<Longrightarrow> find (\<lambda>x. f r = f x) rows = Some r"
proof (induction rows)
  case (Cons a rows)
  then show ?case by (cases "r = a") (auto simp: image_iff)
qed simp

locale named_table =
  fixes rows :: "'r list" and key :: "'r \<Rightarrow> 'k" and nm :: "'r \<Rightarrow> string"
  assumes keys: "distinct (map key rows)" and names: "distinct (map nm rows)"
begin

lemma find_key: "r \<in> set rows \<Longrightarrow> find (\<lambda>x. key r = key x) rows = Some r"
  by (rule find_distinct [OF keys])

lemma find_name: "r \<in> set rows \<Longrightarrow> find (\<lambda>x. nm r = nm x) rows = Some r"
  by (rule find_distinct [OF names])

end

interpretation pgroups: named_table st20_pgroups pg_fmt pg_name
  by unfold_locales (simp_all add: st20_pgroups_def)

interpretation fps_timings: named_table st_fps_timings ft_fps ft_name
  by unfold_locales (simp_all add: st_fps_timings_def)

interpretation frame_descs: named_table st_frame_fmt_descs fd_fmt fd_name
  by unfold_locales (simp_all add: st_frame_fmt_descs_def)

lemma pgroup_row: "fmt \<noteq> ST20_FMT_MAX \<Longrightarrow> \<exists>r \<in> set st20_pgroups. fmt = pg_fmt r"
  by (cases fmt) (simp_all add: st20_pgroups_def)

lemma fps_row: "fps \<noteq> ST_FPS_MAX \<Longrightarrow> \<exists>r \<in> set st_fps_timings. fps = ft_fps r"
  by (cases fps) (simp_all add: st_fps_timings_def)

lemma desc_row: "fmt \<noteq> ST_FRAME_FMT_MAX \<Longrightarrow> \<exists>r \<in> set st_frame_fmt_descs. fmt = fd_fmt r"
  by (cases fmt) (simp_all add: st_frame_fmt_descs_def)

text \<open>
  C37. The name tables are invertible: every transport format and every frame format is found
  again by its own name, and every entry of the frame rate table by its name and then its rate.
\<close>

theorem format_names_roundtrip:
  "(fmt \<noteq> ST20_FMT_MAX \<longrightarrow> st20_name_to_fmt (st20_fmt_name fmt) = fmt) \<and>
   (ffmt \<noteq> ST_FRAME_FMT_MAX \<longrightarrow> st_frame_name_to_fmt (st_frame_fmt_name ffmt) = ffmt) \<and>
   (t \<in> set st_fps_timings \<longrightarrow> st_get_fps_timing (st_name_to_fps (ft_name t)) = Inr t)"
proof (intro conjI impI)
  assume "fmt \<noteq> ST20_FMT_MAX"
  then obtain r where r: "r \<in> set st20_pgroups" "fmt = pg_fmt r" using pgroup_row by blast
  show "st20_name_to_fmt (st20_fmt_name fmt) = fmt"
    using pgroups.find_key [OF r(1)] pgroups.find_name [OF r(1)]
    by (simp add: st20_name_to_fmt_def st20_fmt_name_def st20_get_pgroup_def r(2))
next
  assume "ffmt \<noteq> ST_FRAME_FMT_MAX"
  then obtain r where r: "r \<in> set st_frame_fmt_descs" "ffmt = fd_fmt r" using desc_row by blast
  show "st_frame_name_to_fmt (st_frame_fmt_name ffmt) = ffmt"
    using frame_descs.find_key [OF r(1)] frame_descs.find_name [OF r(1)]
    by (simp add: st_frame_name_to_fmt_def st_frame_fmt_name_def r(2))
next
  assume t: "t \<in> set st_fps_timings"
  show "st_get_fps_timing (st_name_to_fps (ft_name t)) = Inr t"
    using fps_timings.find_key [OF t] fps_timings.find_name [OF t]
    by (simp add: st_name_to_fps_def st_get_fps_timing_def)
qed

theorem format_names_roundtrip_witness:
  "st20_name_to_fmt (st20_fmt_name ST20_FMT_V210) = ST20_FMT_V210 \<and>
   st_frame_name_to_fmt (st_frame_fmt_name ST_FRAME_FMT_UYVY) = ST_FRAME_FMT_UYVY"
  using format_names_roundtrip [of ST20_FMT_V210 ST_FRAME_FMT_UYVY "st_fps_timings ! 0"] by simp

section \<open>Sizes\<close>

lemma size_t_small [simp]: "n < 18446744073709551616 \<Longrightarrow> size_t n = n"
  by (simp add: size_t_def)

lemma size_t_le: "size_t n \<le> n"
  by (simp add: size_t_def)

lemma pgroup_bounds: "r \<in> set st20_pgroups \<Longrightarrow> 0 < pg_coverage r \<and> pg_size r \<le> 15"
  by (auto simp: st20_pgroups_def)

lemma st20_frame_size_row:
  assumes "r \<in> set st20_pgroups" and "unat w * unat h * 16 < 18446744073709551616"
  shows "st20_frame_size (pg_fmt r) w h =
    (if pg_coverage r dvd unat w * unat h then unat w * unat h * pg_size r div pg_coverage r else 0)"
proof -
  have "unat w * unat h * pg_size r \<le> unat w * unat h * 16"
    using pgroup_bounds [OF assms(1)] by (intro mult_le_mono2) simp
  then have "size_t (unat w * unat h) = unat w * unat h"
    "size_t (unat w * unat h * pg_size r) = unat w * unat h * pg_size r"
    using assms(2) by (intro size_t_small; linarith)+
  then show ?thesis
    using pgroups.find_key [OF assms(1)]
    by (simp add: st20_frame_size_def st20_get_pgroup_def dvd_eq_mod_eq_0)
qed

text \<open>A line at a time is never more than the frame.\<close>

lemma st20_line_total:
  assumes "fmt \<noteq> ST20_FMT_MAX" and "unat w * unat h * 16 < 18446744073709551616"
  shows "st20_frame_size fmt w 1 * unat h \<le> st20_frame_size fmt w h"
proof -
  obtain r where r: "r \<in> set st20_pgroups" "fmt = pg_fmt r" using pgroup_row [OF assms(1)] by blast
  have w: "unat w * unat (1::u32) * 16 < 18446744073709551616" using unat_u32_lt [of w] by simp
  show ?thesis
  proof (cases "pg_coverage r dvd unat w")
    case True
    then obtain k where "unat w = pg_coverage r * k" by blast
    then show ?thesis
      using st20_frame_size_row [OF r(1) w] st20_frame_size_row [OF r(1) assms(2)] pgroup_bounds [OF r(1)] r(2)
      by (simp add: mult.assoc mult.left_commute)
  next
    case False
    then show ?thesis using st20_frame_size_row [OF r(1) w] r(2) by simp
  qed
qed

lemma line_total:
  assumes "unat w * unat h * 16 < 18446744073709551616"
  shows "st_frame_size fmt w 1 False * unat h \<le> st_frame_size fmt w h False"
proof -
  have w: "unat w < 4294967296" by (rule unat_u32_lt)
  have px: "size_t (unat w * unat h) = unat w * unat h" "size_t (unat w) = unat w"
    using assms w by (intro size_t_small; linarith)+
  show ?thesis
  proof (cases "fmt = ST_FRAME_FMT_V210")
    case True
    show ?thesis
    proof (cases "unat w mod 3 = 0")
      case mod3: True
      then obtain k where "unat w = 3 * k" by auto
      then show ?thesis using True assms w by (simp add: st_frame_size_def mult.commute mult.left_commute)
    next
      case False
      then show ?thesis using True px by (simp add: st_frame_size_def)
    qed
  next
    case False
    then show ?thesis
      using assms w st20_line_total [OF _ assms]
      by (cases fmt) (auto simp: st_frame_size_def mult.assoc mult.commute mult.left_commute)
  qed
qed

lemma frame_line_total:
  assumes "unat (f_width fr) * unat (f_height fr) * 16 < 18446744073709551616"
  shows "st_frame_size (f_fmt fr) (f_width fr) 1 False * unat (st_frame_data_height fr) \<le>
    st_frame_size (f_fmt fr) (f_width fr) (f_height fr) (f_interlaced fr)"
proof -
  define L where "L = st_frame_size (f_fmt fr) (f_width fr) 1 False"
  have le: "L * unat (f_height fr) \<le> st_frame_size (f_fmt fr) (f_width fr) (f_height fr) False"
    unfolding L_def by (rule line_total [OF assms])
  have i: "st_frame_size (f_fmt fr) (f_width fr) (f_height fr) True =
      st_frame_size (f_fmt fr) (f_width fr) (f_height fr) False div 2"
    by (simp add: st_frame_size_def Let_def)
  have "L * (unat (f_height fr) div 2) \<le> (L * unat (f_height fr)) div 2"
    by (metis div_mult1_eq le_add1 mult.commute)
  also have "\<dots> \<le> st_frame_size (f_fmt fr) (f_width fr) (f_height fr) False div 2"
    using le by (rule div_le_mono)
  finally show ?thesis
    using le i by (simp add: st_frame_data_height_def unat_div L_def [symmetric])
qed

lemma planes_1_or_3: "st_frame_fmt_planes fmt \<in> {0, 1, 3}"
  by (cases fmt) (simp_all add: st_frame_fmt_planes_def st_frame_fmt_descs_def)

text \<open>The line sizes of the planes together are at most a line of the frame.\<close>

lemma planes_line:
  assumes "st_frame_fmt_planes fmt = 3"
  shows "st_frame_least_linesize fmt w 0 + st_frame_least_linesize fmt w 1 + st_frame_least_linesize fmt w 2 \<le>
    st_frame_size fmt w 1 False"
proof -
  let ?L = "st_frame_size fmt w 1 False"
  have "?L div 2 + ?L div 4 + ?L div 4 \<le> ?L" "?L div 3 + ?L div 3 + ?L div 3 \<le> ?L" by linarith+
  moreover have "size_t (?L * 4) div 6 + ?L div 6 + ?L div 6 \<le> ?L"
    using size_t_le [of "?L * 4"] by linarith
  ultimately show ?thesis
    using assms by (simp add: st_frame_least_linesize_def split: st_frame_sampling.split)
qed


text \<open>The planes after the loop.\<close>

lemma init_planes_1:
  assumes "st_frame_fmt_planes (f_fmt fr) = 1" and "length (f_addr fr) = 4" "length (f_linesize fr) = 4"
  shows "f_addr (st_frame_init_plane_single_src fr addr iova) ! 0 = addr \<and>
    f_linesize (st_frame_init_plane_single_src fr addr iova) ! 0 =
      st_frame_least_linesize (f_fmt fr) (f_width fr) 0"
  using assms by (simp add: st_frame_init_plane_single_src_def init_plane_def Let_def)

lemma init_planes_3:
  fixes fr :: st_frame and addr iova :: nat
  assumes "st_frame_fmt_planes (f_fmt fr) = 3" and "length (f_addr fr) = 4" "length (f_linesize fr) = 4"
  shows "let fr' = st_frame_init_plane_single_src fr addr iova;
      ls = st_frame_least_linesize (f_fmt fr) (f_width fr); H = unat (st_frame_data_height fr);
      a1 = size_t (addr + size_t (ls 0 * H)); a2 = size_t (a1 + size_t (ls 1 * H)) in
    f_addr fr' ! 0 = addr \<and> f_addr fr' ! 1 = a1 \<and> f_addr fr' ! 2 = a2 \<and>
    f_linesize fr' ! 0 = ls 0 \<and> f_linesize fr' ! 1 = ls 1 \<and> f_linesize fr' ! 2 = ls 2"
proof -
  have u: "[0..<3] = [0, 1, 2 :: nat]" by (simp add: upt_rec)
  show ?thesis
    using assms by (simp add: st_frame_init_plane_single_src_def init_plane_def Let_def u st_frame_data_height_def)
qed

lemma init_keeps:
  "f_fmt (st_frame_init_plane_single_src fr addr iova) = f_fmt fr"
  "f_width (st_frame_init_plane_single_src fr addr iova) = f_width fr"
  "f_height (st_frame_init_plane_single_src fr addr iova) = f_height fr"
  "f_interlaced (st_frame_init_plane_single_src fr addr iova) = f_interlaced fr"
  "f_data_size (st_frame_init_plane_single_src fr addr iova) = f_data_size fr"
  "f_buffer_size (st_frame_init_plane_single_src fr addr iova) = f_buffer_size fr"
proof -
  have *: "f_fmt (fold (init_plane addr iova) ps fr) = f_fmt fr \<and> f_width (fold (init_plane addr iova) ps fr) = f_width fr \<and>
    f_height (fold (init_plane addr iova) ps fr) = f_height fr \<and>
    f_interlaced (fold (init_plane addr iova) ps fr) = f_interlaced fr \<and>
    f_data_size (fold (init_plane addr iova) ps fr) = f_data_size fr \<and>
    f_buffer_size (fold (init_plane addr iova) ps fr) = f_buffer_size fr" for ps
    by (induction ps arbitrary: fr) (simp_all add: init_plane_def Let_def)
  show "f_fmt (st_frame_init_plane_single_src fr addr iova) = f_fmt fr"
    "f_width (st_frame_init_plane_single_src fr addr iova) = f_width fr"
    "f_height (st_frame_init_plane_single_src fr addr iova) = f_height fr"
    "f_interlaced (st_frame_init_plane_single_src fr addr iova) = f_interlaced fr"
    "f_data_size (st_frame_init_plane_single_src fr addr iova) = f_data_size fr"
    "f_buffer_size (st_frame_init_plane_single_src fr addr iova) = f_buffer_size fr"
    by (simp_all add: st_frame_init_plane_single_src_def *)
qed

text \<open>
  C38. \<open>st_frame_init_plane_single_src\<close> lays the planes of a frame out inside a buffer of
  \<open>st_frame_size\<close> bytes, for every format, progressive or interlaced: every plane starts at or after
  the buffer, ends within it, and starts after the end of the planes before it; and a frame so laid
  out whose sizes are those of the buffer passes \<open>st_frame_sanity_check\<close>. No \<open>size_t\<close> computation
  wraps for \<open>width * height * 16\<close> below \<open>2^64\<close>.
\<close>

theorem planes_layout:
  fixes fr :: st_frame and addr iova :: nat
  assumes "length (f_addr fr) = 4" and "length (f_linesize fr) = 4"
    and "unat (f_width fr) * unat (f_height fr) * 16 < 2 ^ 64"
    and "addr + st_frame_size (f_fmt fr) (f_width fr) (f_height fr) (f_interlaced fr) < 2 ^ 64"
  shows "let fr' = st_frame_init_plane_single_src fr addr iova;
      top = addr + st_frame_size (f_fmt fr) (f_width fr) (f_height fr) (f_interlaced fr);
      end_of = (\<lambda>p. f_addr fr' ! p + f_linesize fr' ! p * unat (st_frame_data_height fr)) in
    (\<forall>p < st_frame_fmt_planes (f_fmt fr). addr \<le> f_addr fr' ! p \<and> end_of p \<le> top \<and>
      (\<forall>q < p. end_of q \<le> f_addr fr' ! p)) \<and>
    (0 < addr \<longrightarrow> 0 < st_frame_fmt_planes (f_fmt fr) \<longrightarrow> f_data_size fr = f_buffer_size fr \<longrightarrow>
      f_buffer_size fr = st_frame_size (f_fmt fr) (f_width fr) (f_height fr) (f_interlaced fr) \<longrightarrow>
      st_frame_sanity_check fr' = Inr ())"
proof -
  define fr' where "fr' = st_frame_init_plane_single_src fr addr iova"
  define S where "S = st_frame_size (f_fmt fr) (f_width fr) (f_height fr) (f_interlaced fr)"
  define H where "H = unat (st_frame_data_height fr)"
  define ls where "ls = st_frame_least_linesize (f_fmt fr) (f_width fr)"
  define L where "L = st_frame_size (f_fmt fr) (f_width fr) 1 False"
  have LH: "L * H \<le> S" using frame_line_total [of fr] assms(3) by (simp add: L_def H_def S_def)
  have sane: "st_frame_sanity_check fr' = Inr ()"
    if "0 < st_frame_fmt_planes (f_fmt fr)" "f_data_size fr = f_buffer_size fr" "f_buffer_size fr = S"
      "\<forall>p < st_frame_fmt_planes (f_fmt fr). 0 < f_addr fr' ! p \<and> f_linesize fr' ! p = ls p"
    using that by (simp add: st_frame_sanity_check_def plane_sane_def Let_def list_all_iff fr'_def init_keeps
        S_def [symmetric] ls_def)
  consider "st_frame_fmt_planes (f_fmt fr) = 0" | "st_frame_fmt_planes (f_fmt fr) = 1"
    | "st_frame_fmt_planes (f_fmt fr) = 3" using planes_1_or_3 [of "f_fmt fr"] by auto
  then show ?thesis
  proof cases
    case 2
    have p0: "f_addr fr' ! 0 = addr" "f_linesize fr' ! 0 = ls 0"
      using init_planes_1 [OF 2 assms(1,2)] by (simp_all add: fr'_def ls_def)
    have "ls 0 = L" using 2 by (simp add: ls_def st_frame_least_linesize_def L_def)
    then show ?thesis
      using 2 p0 LH sane unfolding Let_def fr'_def [symmetric] S_def [symmetric] H_def [symmetric] by simp
  next
    case 3
    have "ls 0 + ls 1 + ls 2 \<le> L" using planes_line [OF 3] by (simp add: ls_def L_def)
    then have "(ls 0 + ls 1 + ls 2) * H \<le> L * H" by (rule mult_le_mono1)
    then have sum: "ls 0 * H + ls 1 * H + ls 2 * H \<le> S" using LH by (simp add: algebra_simps)
    have "size_t (ls 0 * H) = ls 0 * H" "size_t (addr + ls 0 * H) = addr + ls 0 * H"
      "size_t (ls 1 * H) = ls 1 * H" "size_t (addr + ls 0 * H + ls 1 * H) = addr + ls 0 * H + ls 1 * H"
      using sum assms(4) unfolding S_def [symmetric] by (intro size_t_small; simp)+
    then have pl: "f_addr fr' ! 0 = addr" "f_addr fr' ! 1 = addr + ls 0 * H"
      "f_addr fr' ! 2 = addr + ls 0 * H + ls 1 * H"
      "f_linesize fr' ! 0 = ls 0" "f_linesize fr' ! 1 = ls 1" "f_linesize fr' ! 2 = ls 2"
      using init_planes_3 [OF 3 assms(1,2), of addr iova] unfolding Let_def fr'_def [symmetric] ls_def [symmetric]
        H_def [symmetric] by simp_all
    have lt3: "p < 3 \<longleftrightarrow> p = 0 \<or> p = 1 \<or> p = (2::nat)" for p by auto
    have lt: "(q::nat) < 1 \<longleftrightarrow> q = 0" "q < 2 \<longleftrightarrow> q = 0 \<or> q = 1" for q by auto
    have "\<forall>p < 3. addr \<le> f_addr fr' ! p \<and> f_addr fr' ! p + f_linesize fr' ! p * H \<le> addr + S \<and>
        (\<forall>q < p. f_addr fr' ! q + f_linesize fr' ! q * H \<le> f_addr fr' ! p)"
      using sum pl unfolding lt3 by (auto simp: lt)
    moreover have "0 < addr \<longrightarrow> (\<forall>p < 3. 0 < f_addr fr' ! p \<and> f_linesize fr' ! p = ls p)"
      using pl unfolding lt3 by auto
    ultimately show ?thesis
      using 3 sane unfolding Let_def fr'_def [symmetric] S_def [symmetric] H_def [symmetric] by simp
  qed (simp add: Let_def)
qed


theorem planes_layout_witness:
  "let fr = \<lparr>f_addr = [0, 0, 0, 0], f_iova = [0, 0, 0, 0], f_linesize = [0, 0, 0, 0],
        f_fmt = ST_FRAME_FMT_YUV422PLANAR10LE, f_interlaced = True, f_second_field = False,
        f_buffer_size = 4147200, f_data_size = 4147200, f_width = 1920, f_height = 1080\<rparr> in
   st_frame_sanity_check (st_frame_init_plane_single_src fr 4096 0) = Inr ()"
proof -
  let ?fr = "\<lparr>f_addr = [0, 0, 0, 0], f_iova = [0, 0, 0, 0], f_linesize = [0, 0, 0, 0],
        f_fmt = ST_FRAME_FMT_YUV422PLANAR10LE, f_interlaced = True, f_second_field = False,
        f_buffer_size = 4147200, f_data_size = 4147200, f_width = 1920, f_height = 1080\<rparr>"
  have "st_frame_size ST_FRAME_FMT_YUV422PLANAR10LE 1920 1080 True = 4147200"
    by (simp add: st_frame_size_def)
  moreover have "st_frame_fmt_planes ST_FRAME_FMT_YUV422PLANAR10LE = 3"
    by (simp add: st_frame_fmt_planes_def st_frame_fmt_descs_def)
  ultimately show ?thesis
    using planes_layout [of ?fr 4096 0] by (simp add: Let_def)
qed

section \<open>Transport formats, periods and audio\<close>

text \<open>
  C39. Frame formats and transport formats agree: mapping a transport format to its frame format
  and back is the identity (apart from the two formats that are transported as they are and have no
  way back), a frame format matches its own transport format, and both sides compute the same frame
  size for frames with an even number of pixels.
\<close>

theorem transport_formats:
  "(st_frame_fmt_from_transport tfmt \<noteq> ST_FRAME_FMT_MAX \<longrightarrow>
      tfmt \<notin> {ST20_FMT_YUV_422_PLANAR10LE, ST20_FMT_V210} \<longrightarrow>
      st_frame_fmt_to_transport (st_frame_fmt_from_transport tfmt) = tfmt) \<and>
   (st_frame_fmt_to_transport fmt \<noteq> ST20_FMT_MAX \<longrightarrow>
      st_frame_fmt_equal_transport fmt (st_frame_fmt_to_transport fmt)) \<and>
   (st_frame_fmt_to_transport fmt \<noteq> ST20_FMT_MAX \<longrightarrow> unat w * unat h * 16 < 2 ^ 64 \<longrightarrow>
      even (unat w * unat h) \<longrightarrow>
      st_frame_size fmt w h False = st20_frame_size (st_frame_fmt_to_transport fmt) w h)"
proof (intro conjI impI)
  assume "st_frame_fmt_from_transport tfmt \<noteq> ST_FRAME_FMT_MAX"
    "tfmt \<notin> {ST20_FMT_YUV_422_PLANAR10LE, ST20_FMT_V210}"
  then show "st_frame_fmt_to_transport (st_frame_fmt_from_transport tfmt) = tfmt"
    by (cases tfmt) (simp_all add: st_frame_fmt_to_transport_def st_frame_fmt_from_transport_def)
next
  assume "st_frame_fmt_to_transport fmt \<noteq> ST20_FMT_MAX"
  then show "st_frame_fmt_equal_transport fmt (st_frame_fmt_to_transport fmt)"
    by (cases fmt) (simp_all add: st_frame_fmt_to_transport_def st_frame_fmt_from_transport_def
        st_frame_fmt_equal_transport_def Let_def)
next
  assume fmt: "st_frame_fmt_to_transport fmt \<noteq> ST20_FMT_MAX" and wh: "unat w * unat h * 16 < 2 ^ 64"
    and ev: "even (unat w * unat h)"
  have px: "size_t (unat w * unat h) = unat w * unat h" using wh by (intro size_t_small) (simp add: mult.commute)
  have bytes: "size_t (unat w * unat h * k) = unat w * unat h * k" if "k \<le> 16" for k
  proof -
    have "unat w * unat h * k \<le> unat w * unat h * 16" using that by (rule mult_le_mono2)
    also have "\<dots> < 18446744073709551616" using wh by simp
    finally show ?thesis by (rule size_t_small)
  qed
  have b: "size_t (unat w * unat h * 2) = unat w * unat h * 2" "size_t (unat w * unat h * 3) = unat w * unat h * 3"
    "size_t (unat w * unat h * 4) = unat w * unat h * 4" by (simp_all add: bytes)
  have e: "unat w * unat h mod 2 = 0" using ev by presburger
  have half: "unat w * unat h * 4 div 2 = unat w * unat h * 2" by simp
  show "st_frame_size fmt w h False = st20_frame_size (st_frame_fmt_to_transport fmt) w h"
    using fmt
    by (cases fmt) (simp_all add: st_frame_fmt_to_transport_def st_frame_size_def st20_frame_size_def px b e half
        st20_get_pgroup_def st20_pgroups_def Let_def)
qed

theorem transport_formats_witness:
  "st_frame_fmt_to_transport (st_frame_fmt_from_transport ST20_FMT_RGB_10BIT) = ST20_FMT_RGB_10BIT \<and>
   st_frame_size ST_FRAME_FMT_UYVY 1920 1080 False = st20_frame_size ST20_FMT_YUV_422_8BIT 1920 1080"
  using transport_formats [of ST20_FMT_RGB_10BIT ST_FRAME_FMT_UYVY 1920 1080]
  by (simp add: st_frame_fmt_to_transport_def st_frame_fmt_from_transport_def)

text \<open>
  \<open>st_frame_period_ns\<close> is the frame period rounded down to whole nanoseconds for every
  frame rate of the table, it equals the start of epoch 1 of \<open>st_epoch_to_tai\<close>, and an unknown rate is
  refused with \<open>EINVAL\<close>.
\<close>

theorem frame_period_exact:
  "if fps = ST_FPS_MAX then st_frame_period_ns fps = Inl EINVAL
   else \<exists>t p. st_get_fps_timing fps = Inr t \<and> st_frame_period_ns fps = Inr p \<and>
     int p * ft_mul t \<le> int NS_PER_S * ft_den t \<and> int NS_PER_S * ft_den t < (int p + 1) * ft_mul t \<and>
     st_epoch_to_tai 1 (of_int (ft_mul t)) (of_int (ft_den t)) = of_nat p"
  by (cases fps) (simp_all add: st_frame_period_ns_def st_get_fps_timing_def st_fps_timings_def
      st_epoch_to_tai_def Let_def UINT64_MAX_def)

text \<open>
  \<open>st30_get_packet_size\<close> either refuses with \<open>EINVAL\<close>, which happens only for an unknown
  format, no channel or a packet time the sampling rate does not support, or returns the positive
  product of sample size, samples per packet and channels, which fits in an \<open>int\<close>; a packet never
  covers more than 4 ms of samples.
\<close>

theorem audio_packet_sizes:
  "case st30_get_packet_size fmt ptime sampling channel of
     Inl e \<Rightarrow> e = EINVAL \<and> (fmt = ST30_FMT_MAX \<or> channel = 0 \<or> st30_get_sample_num ptime sampling = Inl EINVAL)
   | Inr n \<Rightarrow> 0 < n \<and> n < 2 ^ 31 \<and>
       (\<exists>sz num rate. st30_get_sample_size fmt = Inr sz \<and> st30_get_sample_num ptime sampling = Inr num \<and>
          st30_get_sample_rate sampling = Inr rate \<and> n = sz * num * int (unat channel) \<and>
          num * 250 \<le> rate)"
proof -
  have ch: "uint channel < 65536" using unsigned_less [of channel, where ?'a = int] by simp
  have pos: "channel \<noteq> 0 \<Longrightarrow> 0 < uint channel" by (simp add: order_less_le unsigned_eq_0_iff)
  show ?thesis
    using ch pos
    by (cases fmt; cases sampling; cases ptime)
      (auto simp: st30_get_packet_size_def st30_get_sample_size_def st30_get_sample_num_def st30_get_sample_rate_def)
qed

text \<open>
  The static pacing table has no entry for 2160p50 in block packing mode: the entry its
  comment announces for it carries the rate 59.94, so the lookup for 50 finds nothing and the lookup
  for 59.94 finds the interval measured for 50 instead of the one of the last entry.
\<close>

theorem pad_table_4k_bpm:
  "st20_pacing_static_profiling False ST20_FMT_YUV_422_10BIT 3840 2160 ST_FPS_P50 ST20_PACKING_BPM False = 0 \<and>
   st20_pacing_static_profiling False ST20_FMT_YUV_422_10BIT 3840 2160 ST_FPS_P59_94 ST20_PACKING_BPM False = 215"
  by (simp add: st20_pacing_static_profiling_def g_cvl_static_pad_tables_def)

end
