(* ===== verification/Field_Merge.thy ===== *)
theory Field_Merge
  imports Formats
begin

text \<open>
  Merging two fields into a frame and splitting a frame into two fields
  (\<^verbatim>\<open>lib/src/st2110/st_convert.c\<close>), on an explicit byte memory: \<open>mt_memcpy\<close> copies bytes from one
  address to another, so that overlap between buffers is visible in the model.
\<close>

section \<open>Definitions\<close>

type_synonym memory = "nat \<Rightarrow> u8"

definition mt_memcpy :: "nat \<Rightarrow> nat \<Rightarrow> nat \<Rightarrow> memory \<Rightarrow> memory" where
  "mt_memcpy dst src n mem = (\<lambda>a. if dst \<le> a \<and> a < dst + n then mem (src + (a - dst)) else mem a)"

definition field_frame_check :: "st_frame \<Rightarrow> st_frame \<Rightarrow> unit res" where
  "field_frame_check field frame =
     (if \<not> f_interlaced field then Inl EINVAL
      else if f_width field \<noteq> f_width frame \<or> f_height field \<noteq> f_height frame then Inl EINVAL
      else if f_fmt field \<noteq> f_fmt frame then Inl EINVAL
      else Inr ())"

definition fields_frame_match :: "st_frame \<Rightarrow> st_frame \<Rightarrow> st_frame \<Rightarrow> unit res" where
  "fields_frame_match first second frame =
     (case field_frame_check first frame of
        Inl _ \<Rightarrow> Inl EINVAL
      | Inr _ \<Rightarrow>
          if f_second_field first then Inl EINVAL
          else (case field_frame_check second frame of
              Inl _ \<Rightarrow> Inl EINVAL
            | Inr _ \<Rightarrow> if \<not> f_second_field second then Inl EINVAL else Inr ()))"

text \<open>The lines \<open>0, 2, ...\<close> below the height, and the address of a line of a plane.\<close>

definition even_line_nos :: "u32 \<Rightarrow> nat list" where
  "even_line_nos height = map (\<lambda>i. 2 * i) [0..<(unat height + 1) div 2]"

definition line_addr :: "st_frame \<Rightarrow> nat \<Rightarrow> nat \<Rightarrow> nat" where
  "line_addr fr plane line = f_addr fr ! plane + f_linesize fr ! plane * line"

definition merge_step :: "st_frame \<Rightarrow> st_frame \<Rightarrow> st_frame \<Rightarrow> nat \<times> nat \<Rightarrow> memory \<Rightarrow> memory" where
  "merge_step first second frame = (\<lambda>(line, plane) mem.
     let linesize = st_frame_least_linesize (f_fmt frame) (f_width frame) plane;
         field_line = line div 2;
         mem = mt_memcpy (line_addr frame plane line) (line_addr first plane field_line) linesize mem
     in mt_memcpy (line_addr frame plane (line + 1)) (line_addr second plane field_line) linesize mem)"

definition st_field_merge :: "st_frame \<Rightarrow> st_frame \<Rightarrow> st_frame \<Rightarrow> memory \<Rightarrow> memory res" where
  "st_field_merge first second frame mem =
     (case fields_frame_match first second frame of
        Inl e \<Rightarrow> Inl e
      | Inr _ \<Rightarrow>
          let planes = st_frame_fmt_planes (f_fmt frame) in
          Inr (fold (merge_step first second frame)
            (List.product (even_line_nos (f_height frame)) [0..<planes]) mem))"

definition split_step :: "st_frame \<Rightarrow> st_frame \<Rightarrow> st_frame \<Rightarrow> nat \<times> nat \<Rightarrow> memory \<Rightarrow> memory" where
  "split_step frame first second = (\<lambda>(line, plane) mem.
     let linesize = st_frame_least_linesize (f_fmt frame) (f_width frame) plane;
         field_line = line div 2;
         mem = mt_memcpy (line_addr first plane field_line) (line_addr frame plane line) linesize mem
     in mt_memcpy (line_addr second plane field_line) (line_addr frame plane (line + 1)) linesize mem)"

definition st_field_split :: "st_frame \<Rightarrow> st_frame \<Rightarrow> st_frame \<Rightarrow> memory \<Rightarrow> memory res" where
  "st_field_split frame first second mem =
     (case fields_frame_match first second frame of
        Inl e \<Rightarrow> Inl e
      | Inr _ \<Rightarrow>
          let planes = st_frame_fmt_planes (f_fmt frame) in
          Inr (fold (split_step frame first second)
            (List.product (even_line_nos (f_height frame)) [0..<planes]) mem))"

section \<open>Runs of copies\<close>

text \<open>A list of copies \<open>(dst, src, n)\<close>, and when they do not disturb each other.\<close>

definition run_copies :: "(nat \<times> nat \<times> nat) list \<Rightarrow> memory \<Rightarrow> memory" where
  "run_copies = fold (\<lambda>(d, s, n). mt_memcpy d s n)"

definition disjoint_range :: "nat \<Rightarrow> nat \<Rightarrow> nat \<Rightarrow> nat \<Rightarrow> bool" where
  "disjoint_range a n b m \<longleftrightarrow> n = 0 \<or> m = 0 \<or> a + n \<le> b \<or> b + m \<le> a"

definition copies_ok :: "(nat \<times> nat \<times> nat) list \<Rightarrow> bool" where
  "copies_ok cs \<longleftrightarrow>
     (\<forall>(d, s, n) \<in> set cs. \<forall>(d', s', n') \<in> set cs. disjoint_range s n d' n') \<and>
     sorted_wrt (\<lambda>(d, s, n) (d', s', n'). disjoint_range d n d' n') cs"

lemma run_copies_frame:
  "(\<And>d s n. (d, s, n) \<in> set cs \<Longrightarrow> \<not> (d \<le> a \<and> a < d + n)) \<Longrightarrow> run_copies cs mem a = mem a"
proof (induction cs arbitrary: mem)
  case (Cons c cs)
  obtain d s n where c: "c = (d, s, n)" by (cases c)
  have "run_copies (c # cs) mem a = run_copies cs (mt_memcpy d s n mem) a" by (simp add: run_copies_def c)
  also have "\<dots> = mt_memcpy d s n mem a" using Cons.prems by (intro Cons.IH) auto
  also have "\<dots> = mem a" using Cons.prems [of d s n] by (auto simp: mt_memcpy_def c)
  finally show ?case .
qed (simp add: run_copies_def)

lemma run_copies_ok:
  assumes "copies_ok cs" and "(d, s, n) \<in> set cs" and "i < n"
  shows "run_copies cs mem (d + i) = mem (s + i)"
  using assms
proof (induction cs arbitrary: mem)
  case (Cons c cs)
  obtain d1 s1 n1 where c: "c = (d1, s1, n1)" by (cases c)
  have ok: "copies_ok cs" "\<forall>(d', s', n') \<in> set cs. disjoint_range d1 n1 d' n' \<and> disjoint_range s' n' d1 n1"
    using Cons.prems(1) by (auto simp: copies_ok_def c)
  have step: "run_copies (c # cs) mem = run_copies cs (mt_memcpy d1 s1 n1 mem)" by (simp add: run_copies_def c)
  show ?case
  proof (cases "(d, s, n) = c")
    case True
    have "run_copies cs (mt_memcpy d1 s1 n1 mem) (d + i) = mt_memcpy d1 s1 n1 mem (d + i)"
      using ok(2) True c Cons.prems(3) by (intro run_copies_frame) (auto simp: disjoint_range_def)
    then show ?thesis using step True c Cons.prems(3) by (simp add: mt_memcpy_def)
  next
    case False
    then have mem: "(d, s, n) \<in> set cs" using Cons.prems(2) by auto
    have "run_copies cs (mt_memcpy d1 s1 n1 mem) (d + i) = mt_memcpy d1 s1 n1 mem (s + i)"
      by (rule Cons.IH [OF ok(1) mem Cons.prems(3)])
    also have "\<dots> = mem (s + i)"
      using ok(2) mem Cons.prems(3) by (auto simp: mt_memcpy_def disjoint_range_def)
    finally show ?thesis using step by simp
  qed
qed simp

text \<open>Copies indexed by distinct keys.\<close>

lemma copies_ok_keys:
  assumes "distinct keys"
    and "\<And>k k'. k \<in> set keys \<Longrightarrow> k' \<in> set keys \<Longrightarrow> disjoint_range (src k) (len k) (dst k') (len k')"
    and "\<And>k k'. k \<in> set keys \<Longrightarrow> k' \<in> set keys \<Longrightarrow> k \<noteq> k' \<Longrightarrow> disjoint_range (dst k) (len k) (dst k') (len k')"
  shows "copies_ok (map (\<lambda>k. (dst k, src k, len k)) keys)"
proof -
  have "sorted_wrt (\<lambda>(d, s, n) (d', s', n'). disjoint_range d n d' n') (map (\<lambda>k. (dst k, src k, len k)) keys)"
    using assms(1,3) by (induction keys) auto
  then show ?thesis using assms(2) by (auto simp: copies_ok_def)
qed

section \<open>Lines\<close>

lemma lines_disjoint:
  assumes "n \<le> LS" and "l \<noteq> l'"
  shows "disjoint_range (a + LS * l) n (a + LS * l') n"
proof -
  have "LS * l + n \<le> LS * l' \<or> LS * l' + n \<le> LS * l"
  proof (cases "l < l'")
    case True
    then have "LS * Suc l \<le> LS * l'" by (intro mult_le_mono2) simp
    then show ?thesis using assms(1) by simp
  next
    case False
    then have "LS * Suc l' \<le> LS * l" using assms(2) by (intro mult_le_mono2) simp
    then show ?thesis using assms(1) by simp
  qed
  then show ?thesis by (auto simp: disjoint_range_def)
qed

lemma line_inside:
  assumes "n \<le> LS" and "l < (h :: nat)"
  shows "a + LS * l + n \<le> a + LS * h"
proof -
  have "LS * Suc l \<le> LS * h" using assms(2) by (intro mult_le_mono2) simp
  then show ?thesis using assms(1) by simp
qed

lemma lines_disjoint_regions:
  assumes "disjoint_range a (LS * h) a' (LS' * h')" and "n \<le> LS" "n' \<le> LS'" "l < h" "l' < h'"
  shows "disjoint_range (a + LS * l) n (a' + LS' * l') n'"
  using assms(1) line_inside [OF assms(2,4), of a] line_inside [OF assms(3,5), of a']
  by (auto simp: disjoint_range_def)

definition plane_bytes :: "st_frame \<Rightarrow> nat \<Rightarrow> nat" where
  "plane_bytes fr plane = f_linesize fr ! plane * unat (st_frame_data_height fr)"

text \<open>Two buffers with no byte in common, and a buffer whose planes do not overlap.\<close>

definition apart :: "st_frame \<Rightarrow> st_frame \<Rightarrow> bool" where
  "apart x y \<longleftrightarrow> (\<forall>p < st_frame_fmt_planes (f_fmt x). \<forall>q < st_frame_fmt_planes (f_fmt y).
     disjoint_range (f_addr x ! p) (plane_bytes x p) (f_addr y ! q) (plane_bytes y q))"

definition planes_ok :: "st_frame \<Rightarrow> bool" where
  "planes_ok x \<longleftrightarrow> (\<forall>p < st_frame_fmt_planes (f_fmt x).
     st_frame_least_linesize (f_fmt x) (f_width x) p \<le> f_linesize x ! p \<and>
     (\<forall>q < st_frame_fmt_planes (f_fmt x). p \<noteq> q \<longrightarrow>
        disjoint_range (f_addr x ! p) (plane_bytes x p) (f_addr x ! q) (plane_bytes x q)))"

lemma same_buffer_lines:
  assumes "planes_ok x" and "p < st_frame_fmt_planes (f_fmt x)" "q < st_frame_fmt_planes (f_fmt x)"
    and "l < unat (st_frame_data_height x)" "l' < unat (st_frame_data_height x)" and "(p, l) \<noteq> (q, l')"
  shows "disjoint_range (line_addr x p l) (st_frame_least_linesize (f_fmt x) (f_width x) p)
    (line_addr x q l') (st_frame_least_linesize (f_fmt x) (f_width x) q)"
proof (cases "p = q")
  case True
  then show ?thesis
    using assms unfolding line_addr_def planes_ok_def by (auto intro!: lines_disjoint)
next
  case False
  then show ?thesis
    using assms unfolding line_addr_def planes_ok_def plane_bytes_def by (intro lines_disjoint_regions) auto
qed

lemma apart_lines:
  assumes "apart x y" and "planes_ok x" "planes_ok y"
    and "p < st_frame_fmt_planes (f_fmt x)" "q < st_frame_fmt_planes (f_fmt y)"
    and "l < unat (st_frame_data_height x)" "l' < unat (st_frame_data_height y)"
  shows "disjoint_range (line_addr x p l) (st_frame_least_linesize (f_fmt x) (f_width x) p)
    (line_addr y q l') (st_frame_least_linesize (f_fmt y) (f_width y) q)"
  using assms unfolding line_addr_def planes_ok_def plane_bytes_def apart_def
  by (intro lines_disjoint_regions) auto

section \<open>The loops as runs of copies\<close>

text \<open>The pairs of line and plane in the order the loops visit them.\<close>

definition line_keys :: "u32 \<Rightarrow> nat \<Rightarrow> (nat \<times> nat) list" where
  "line_keys height planes =
     concat (map (\<lambda>(l, p). [(l, p), (l + 1, p)]) (List.product (even_line_nos height) [0..<planes]))"

definition field_of :: "st_frame \<Rightarrow> st_frame \<Rightarrow> nat \<Rightarrow> st_frame" where
  "field_of first second line = (if even line then first else second)"

definition frame_line :: "st_frame \<Rightarrow> nat \<times> nat \<Rightarrow> nat" where
  "frame_line frame = (\<lambda>(l, p). line_addr frame p l)"

definition field_line :: "st_frame \<Rightarrow> st_frame \<Rightarrow> nat \<times> nat \<Rightarrow> nat" where
  "field_line first second = (\<lambda>(l, p). line_addr (field_of first second l) p (l div 2))"

definition key_len :: "st_frame \<Rightarrow> nat \<times> nat \<Rightarrow> nat" where
  "key_len frame = (\<lambda>(l, p). st_frame_least_linesize (f_fmt frame) (f_width frame) p)"

lemmas key_defs = frame_line_def field_line_def key_len_def field_of_def

lemma even_line_nos_even: "l \<in> set (even_line_nos h) \<Longrightarrow> even l"
  by (auto simp: even_line_nos_def)

lemma set_line_keys:
  assumes "even (unat h)"
  shows "set (line_keys h planes) = {0..<unat h} \<times> {0..<planes}"
proof -
  have "set (even_line_nos h) = {l. even l \<and> l < unat h}"
    using assms by (auto simp: even_line_nos_def image_iff elim!: evenE)
  then have "set (line_keys h planes) = (\<Union>l \<in> {l. even l \<and> l < unat h}. {l, l + 1}) \<times> {0..<planes}"
    by (auto simp: line_keys_def)
  also have "(\<Union>l \<in> {l. even l \<and> l < unat h}. {l, l + 1}) = {0..<unat h}"
  proof (intro equalityI subsetI)
    fix l assume "l \<in> {0..<unat h}"
    then show "l \<in> (\<Union>l \<in> {l. even l \<and> l < unat h}. {l, l + 1})"
      by (cases "even l") (auto intro: exI [of _ "l - 1"] elim!: oddE)
  next
    fix l assume "l \<in> (\<Union>l \<in> {l. even l \<and> l < unat h}. {l, l + 1})"
    then show "l \<in> {0..<unat h}" using assms by (auto elim!: evenE)
  qed
  finally show ?thesis .
qed

lemma distinct_pairs:
  "distinct ks \<Longrightarrow> (\<forall>k \<in> set ks. even (fst k)) \<Longrightarrow>
     distinct (concat (map (\<lambda>(l :: nat, p). [(l, p), (l + 1, p)]) ks))"
  by (induction ks) auto

lemma distinct_line_keys: "distinct (line_keys h planes)"
proof -
  have "distinct (even_line_nos h)" by (auto simp: even_line_nos_def distinct_map inj_on_def)
  then show ?thesis unfolding line_keys_def
    by (intro distinct_pairs) (auto simp: distinct_product dest: even_line_nos_even)
qed

lemma merge_fold:
  assumes "\<forall>k \<in> set ks. even (fst k)"
  shows "fold (merge_step first second frame) ks mem =
    run_copies (map (\<lambda>k. (frame_line frame k, field_line first second k, key_len frame k))
      (concat (map (\<lambda>(l, p). [(l, p), (l + 1, p)]) ks))) mem"
  using assms
  by (induction ks arbitrary: mem) (auto simp: run_copies_def merge_step_def key_defs Let_def)

lemma split_fold:
  assumes "\<forall>k \<in> set ks. even (fst k)"
  shows "fold (split_step frame first second) ks mem =
    run_copies (map (\<lambda>k. (field_line first second k, frame_line frame k, key_len frame k))
      (concat (map (\<lambda>(l, p). [(l, p), (l + 1, p)]) ks))) mem"
  using assms
  by (induction ks arbitrary: mem) (auto simp: run_copies_def split_step_def key_defs Let_def)

lemma product_even: "\<forall>k \<in> set (List.product (even_line_nos h) ps). even (fst k)"
  by (auto dest: even_line_nos_even)

lemma st_field_merge_run:
  assumes "fields_frame_match first second frame = Inr ()"
  shows "st_field_merge first second frame mem =
    Inr (run_copies (map (\<lambda>k. (frame_line frame k, field_line first second k, key_len frame k))
      (line_keys (f_height frame) (st_frame_fmt_planes (f_fmt frame)))) mem)"
  using assms by (simp add: st_field_merge_def Let_def merge_fold [OF product_even] line_keys_def)

lemma st_field_split_run:
  assumes "fields_frame_match first second frame = Inr ()"
  shows "st_field_split frame first second mem =
    Inr (run_copies (map (\<lambda>k. (field_line first second k, frame_line frame k, key_len frame k))
      (line_keys (f_height frame) (st_frame_fmt_planes (f_fmt frame)))) mem)"
  using assms by (simp add: st_field_split_def Let_def split_fold [OF product_even] line_keys_def)

section \<open>Merging and splitting\<close>

text \<open>The buffers the two routines are meant for: the fields are interlaced halves of a frame of
  even height, no buffer overlaps another and no plane overlaps another.\<close>

definition field_buffers :: "st_frame \<Rightarrow> st_frame \<Rightarrow> st_frame \<Rightarrow> bool" where
  "field_buffers first second frame \<longleftrightarrow>
     fields_frame_match first second frame = Inr () \<and> \<not> f_interlaced frame \<and>
     even (unat (f_height frame)) \<and>
     planes_ok first \<and> planes_ok second \<and> planes_ok frame \<and>
     apart first frame \<and> apart second frame \<and> apart first second"

lemma disjoint_range_sym: "disjoint_range a n b m = disjoint_range b m a n"
  by (auto simp: disjoint_range_def)

lemma fields_frame_match_Inr:
  assumes "fields_frame_match first second frame = Inr ()"
  shows "f_fmt first = f_fmt frame" "f_fmt second = f_fmt frame"
    "f_width first = f_width frame" "f_width second = f_width frame"
    "f_height first = f_height frame" "f_height second = f_height frame"
    "f_interlaced first" "f_interlaced second" "\<not> f_second_field first" "f_second_field second"
  using assms by (auto simp: fields_frame_match_def field_frame_check_def split: if_splits sum.splits)

lemma unat_half: "unat (h div 2 :: u32) = unat h div 2"
  by (simp add: unat_div)

lemma field_heights:
  assumes "field_buffers first second frame"
  shows "unat (st_frame_data_height frame) = unat (f_height frame)"
    "unat (st_frame_data_height first) = unat (f_height frame) div 2"
    "unat (st_frame_data_height second) = unat (f_height frame) div 2"
  using assms fields_frame_match_Inr [of first second frame]
  by (auto simp: field_buffers_def st_frame_data_height_def unat_half)

lemma half_less: "even n \<Longrightarrow> l < n \<Longrightarrow> l div 2 < n div (2 :: nat)"
  by (auto elim!: evenE)

lemma key_ranges:
  assumes b: "field_buffers first second frame"
    and k: "k \<in> set (line_keys (f_height frame) (st_frame_fmt_planes (f_fmt frame)))"
    and k': "k' \<in> set (line_keys (f_height frame) (st_frame_fmt_planes (f_fmt frame)))"
  shows "disjoint_range (field_line first second k) (key_len frame k) (frame_line frame k') (key_len frame k')"
    and "k \<noteq> k' \<Longrightarrow> disjoint_range (frame_line frame k) (key_len frame k) (frame_line frame k') (key_len frame k')"
    and "k \<noteq> k' \<Longrightarrow> disjoint_range (field_line first second k) (key_len frame k)
      (field_line first second k') (key_len frame k')"
proof -
  note m = fields_frame_match_Inr [of first second frame]
  have ev: "even (unat (f_height frame))" and fm: "fields_frame_match first second frame = Inr ()"
    and ok: "planes_ok first" "planes_ok second" "planes_ok frame"
    and ap: "apart first frame" "apart second frame" "apart first second"
    using b by (auto simp: field_buffers_def)
  obtain l p where kp: "k = (l, p)" "l < unat (f_height frame)" "p < st_frame_fmt_planes (f_fmt frame)"
    using k unfolding set_line_keys [OF ev] by auto
  obtain l' p' where kp': "k' = (l', p')" "l' < unat (f_height frame)" "p' < st_frame_fmt_planes (f_fmt frame)"
    using k' unfolding set_line_keys [OF ev] by auto
  have half: "l div 2 < unat (f_height frame) div 2" "l' div 2 < unat (f_height frame) div 2"
    using half_less [OF ev] kp(2) kp'(2) by auto
  note H = field_heights [OF b]
  show "disjoint_range (field_line first second k) (key_len frame k) (frame_line frame k') (key_len frame k')"
    using apart_lines [OF ap(1) ok(1,3), of p p' "l div 2" l']
      apart_lines [OF ap(2) ok(2,3), of p p' "l div 2" l'] kp kp' half m(1-4) [OF fm] H
    by (auto simp: key_defs)
  show "disjoint_range (frame_line frame k) (key_len frame k) (frame_line frame k') (key_len frame k')"
    if "k \<noteq> k'"
    using same_buffer_lines [OF ok(3), of p p' l l'] kp kp' that H by (auto simp: key_defs)
  show "disjoint_range (field_line first second k) (key_len frame k) (field_line first second k') (key_len frame k')"
    if "k \<noteq> k'"
  proof (cases "even l = even l'")
    case True
    then have "(p, l div 2) \<noteq> (p', l' div 2)"
      using that kp(1) kp'(1) by (auto elim!: evenE oddE)
    then show ?thesis
      using same_buffer_lines [OF ok(1), of p p' "l div 2" "l' div 2"]
        same_buffer_lines [OF ok(2), of p p' "l div 2" "l' div 2"] True kp kp' half m(1-4) [OF fm] H
      by (auto simp: key_defs)
  next
    case False
    then show ?thesis
      using apart_lines [OF ap(3) ok(1,2), of p p' "l div 2" "l' div 2"]
        apart_lines [OF ap(3) ok(1,2), of p' p "l' div 2" "l div 2"] kp kp' half m(1-4) [OF fm] H
      by (auto simp: key_defs disjoint_range_sym)
  qed
qed

lemma merge_copies_ok:
  "field_buffers first second frame \<Longrightarrow>
     copies_ok (map (\<lambda>k. (frame_line frame k, field_line first second k, key_len frame k))
       (line_keys (f_height frame) (st_frame_fmt_planes (f_fmt frame))))"
  by (intro copies_ok_keys distinct_line_keys) (auto intro: key_ranges)

lemma split_copies_ok:
  "field_buffers first second frame \<Longrightarrow>
     copies_ok (map (\<lambda>k. (field_line first second k, frame_line frame k, key_len frame k))
       (line_keys (f_height frame) (st_frame_fmt_planes (f_fmt frame))))"
  by (intro copies_ok_keys distinct_line_keys) (auto intro: key_ranges key_ranges(1) [THEN disjoint_range_sym [THEN iffD1]])

lemma line_key_mem:
  assumes "field_buffers first second frame" and "l < unat (f_height frame)" "p < st_frame_fmt_planes (f_fmt frame)"
  shows "(l, p) \<in> set (line_keys (f_height frame) (st_frame_fmt_planes (f_fmt frame)))"
  using assms set_line_keys [of "f_height frame"] by (simp add: field_buffers_def)

lemma merge_lines:
  assumes b: "field_buffers first second frame"
  obtains mem' where "st_field_merge first second frame mem = Inr mem'"
    and "\<And>l p i. l < unat (f_height frame) \<Longrightarrow> p < st_frame_fmt_planes (f_fmt frame) \<Longrightarrow>
      i < st_frame_least_linesize (f_fmt frame) (f_width frame) p \<Longrightarrow>
      mem' (line_addr frame p l + i) = mem (line_addr (field_of first second l) p (l div 2) + i)"
proof -
  let ?cs = "map (\<lambda>k. (frame_line frame k, field_line first second k, key_len frame k))
    (line_keys (f_height frame) (st_frame_fmt_planes (f_fmt frame)))"
  have "st_field_merge first second frame mem = Inr (run_copies ?cs mem)"
    using b by (intro st_field_merge_run) (simp add: field_buffers_def)
  moreover have "run_copies ?cs mem (line_addr frame p l + i) = mem (line_addr (field_of first second l) p (l div 2) + i)"
    if "l < unat (f_height frame)" "p < st_frame_fmt_planes (f_fmt frame)"
      "i < st_frame_least_linesize (f_fmt frame) (f_width frame) p" for l p i
  proof (rule run_copies_ok [OF merge_copies_ok [OF b]])
    show "(line_addr frame p l, line_addr (field_of first second l) p (l div 2), key_len frame (l, p)) \<in> set ?cs"
      using line_key_mem [OF b that(1,2)] by (force simp: frame_line_def field_line_def)
    show "i < key_len frame (l, p)" using that(3) by (simp add: key_len_def)
  qed
  ultimately show ?thesis by (rule that)
qed

lemma split_lines:
  assumes b: "field_buffers first second frame"
  obtains mem' where "st_field_split frame first second mem = Inr mem'"
    and "\<And>l p i. l < unat (f_height frame) \<Longrightarrow> p < st_frame_fmt_planes (f_fmt frame) \<Longrightarrow>
      i < st_frame_least_linesize (f_fmt frame) (f_width frame) p \<Longrightarrow>
      mem' (line_addr (field_of first second l) p (l div 2) + i) = mem (line_addr frame p l + i)"
proof -
  let ?cs = "map (\<lambda>k. (field_line first second k, frame_line frame k, key_len frame k))
    (line_keys (f_height frame) (st_frame_fmt_planes (f_fmt frame)))"
  have "st_field_split frame first second mem = Inr (run_copies ?cs mem)"
    using b by (intro st_field_split_run) (simp add: field_buffers_def)
  moreover have "run_copies ?cs mem (line_addr (field_of first second l) p (l div 2) + i) = mem (line_addr frame p l + i)"
    if "l < unat (f_height frame)" "p < st_frame_fmt_planes (f_fmt frame)"
      "i < st_frame_least_linesize (f_fmt frame) (f_width frame) p" for l p i
  proof (rule run_copies_ok [OF split_copies_ok [OF b]])
    show "(line_addr (field_of first second l) p (l div 2), line_addr frame p l, key_len frame (l, p)) \<in> set ?cs"
      using line_key_mem [OF b that(1,2)] by (force simp: frame_line_def field_line_def)
    show "i < key_len frame (l, p)" using that(3) by (simp add: key_len_def)
  qed
  ultimately show ?thesis by (rule that)
qed


definition demo_frame :: "nat \<Rightarrow> bool \<Rightarrow> bool \<Rightarrow> st_frame" where
  "demo_frame addr interlaced second_field =
     \<lparr>f_addr = [addr], f_iova = [addr], f_linesize = [4], f_fmt = ST_FRAME_FMT_UYVY,
      f_interlaced = interlaced, f_second_field = second_field, f_buffer_size = 8, f_data_size = 8,
      f_width = 2, f_height = 2\<rparr>"

lemma demo_geometry:
  "st_frame_fmt_planes ST_FRAME_FMT_UYVY = 1" "st_frame_least_linesize ST_FRAME_FMT_UYVY 2 0 = 4"
  by (simp_all add: st_frame_fmt_planes_def st_frame_fmt_descs_def st_frame_least_linesize_def
      st_frame_fmt_get_sampling_def st_frame_size_def size_t_def)

lemma demo_buffers: "addr = 300 \<or> addr = 400 \<Longrightarrow>
  field_buffers (demo_frame 100 True False) (demo_frame 200 True True) (demo_frame addr False False)"
  by (auto simp: field_buffers_def demo_frame_def fields_frame_match_def field_frame_check_def planes_ok_def
      apart_def demo_geometry plane_bytes_def st_frame_data_height_def disjoint_range_def)


end
