(* ===== verification/Rtcp_Common.thy ===== *)
theory Rtcp_Common
  imports MTL_Prelude
begin

text \<open>
  What both ends of the RTCP retransmission (\<^verbatim>\<open>lib/src/mt_rtcp.c\<close>, \<^verbatim>\<open>mt_rtcp.h\<close>) share: the order of
  16-bit sequence numbers, the constants and the layout of a NACK packet as bytes in network order.
  Sequence numbers are compared by their distance modulo \<open>2^16\<close>, which the lemmas make explicit.
\<close>

section \<open>Constants and packet layout\<close>

abbreviation MT_RTCP_PTYPE_NACK :: u8 where "MT_RTCP_PTYPE_NACK \<equiv> 204"
abbreviation MT_RTCP_MAX_FCIS :: nat where "MT_RTCP_MAX_FCIS \<equiv> 256"
abbreviation MT_RTCP_RETRANSMIT_BULK :: nat where "MT_RTCP_RETRANSMIT_BULK \<equiv> 32"
abbreviation MT_RTCP_DROP_SAMPLE :: u32 where "MT_RTCP_DROP_SAMPLE \<equiv> 100"

text \<open>The sizes of the packed structs \<open>mt_rtcp_hdr\<close> and \<open>mt_rtcp_fci\<close>.\<close>

abbreviation rtcp_hdr_size :: nat where "rtcp_hdr_size \<equiv> 12"
abbreviation rtcp_fci_size :: nat where "rtcp_fci_size \<equiv> 4"

text \<open>The characters of the name field, \<open>IMTL\<close>.\<close>

definition imtl_name :: "u8 list" where
  "imtl_name = [0x49, 0x4D, 0x54, 0x4C]"

record mt_rtcp_fci =
  fci_start :: u16
  fci_follow :: u16

definition be16 :: "u8 \<Rightarrow> u8 \<Rightarrow> u16" where
  "be16 hi lo = push_bit 8 (ucast hi) OR ucast lo"

definition be16_bytes :: "u16 \<Rightarrow> u8 list" where
  "be16_bytes w = [ucast (drop_bit 8 w), ucast w]"

definition be32_bytes :: "u32 \<Rightarrow> u8 list" where
  "be32_bytes w = [ucast (drop_bit 24 w), ucast (drop_bit 16 w), ucast (drop_bit 8 w), ucast w]"

text \<open>The struct \<open>mt_rtcp_hdr\<close> with its trailing array, as the sender fills it.\<close>

definition rtcp_bytes_of :: "u8 \<Rightarrow> u8 \<Rightarrow> u16 \<Rightarrow> u32 \<Rightarrow> mt_rtcp_fci list \<Rightarrow> u8 list" where
  "rtcp_bytes_of flags ptype len ssrc fcis =
     [flags, ptype] @ be16_bytes len @ be32_bytes ssrc @ imtl_name @
     concat (map (\<lambda>f. be16_bytes (fci_start f) @ be16_bytes (fci_follow f)) fcis)"

text \<open>A read of received bytes: \<open>None\<close> when the access leaves the received data.\<close>

definition rd8 :: "u8 list \<Rightarrow> nat \<Rightarrow> u8 option" where
  "rd8 bs off = (if off < length bs then Some (bs ! off) else None)"

definition rd16 :: "u8 list \<Rightarrow> nat \<Rightarrow> u16 option" where
  "rd16 bs off = do { hi \<leftarrow> rd8 bs off; lo \<leftarrow> rd8 bs (off + 1); Some (be16 hi lo) }"

lemma be16_bytes_inv [simp]: "be16 (ucast (drop_bit 8 w)) (ucast w) = w"
  by (simp add: be16_def bit_blast)

lemma length_be_bytes [simp]: "length (be16_bytes w) = 2" "length (be32_bytes v) = 4" "length imtl_name = 4"
  by (simp_all add: be16_bytes_def be32_bytes_def imtl_name_def)

lemma rd16_Some: "off + 2 \<le> length bs \<Longrightarrow> rd16 bs off = Some (be16 (bs ! off) (bs ! (off + 1)))"
  by (simp add: rd16_def rd8_def)

section \<open>Order of sequence numbers\<close>

definition rtp_seq_num_cmp :: "u16 \<Rightarrow> u16 \<Rightarrow> int" where
  "rtp_seq_num_cmp seq0 seq1 =
     (let HALF = 32768; d0 = uint seq0; d1 = uint seq1 in
      if seq0 = seq1 then 0
      else if (d0 < d1 \<and> d1 - d0 < HALF) \<or> (d0 > d1 \<and> d0 - d1 > HALF) then - 1
      else 1)"

text \<open>How far \<open>b\<close> is ahead of \<open>a\<close>, modulo \<open>2^16\<close>.\<close>

definition seq_dist :: "u16 \<Rightarrow> u16 \<Rightarrow> nat" where
  "seq_dist a b = unat (b - a)"

lemma unat_u16_lt: "unat (x :: u16) < 65536"
  using unsigned_less [of x, where ?'a = nat] by simp

lemma seq_dist_lt: "seq_dist a b < 65536"
  by (simp add: seq_dist_def unat_u16_lt)

lemma seq_dist_self [simp]: "seq_dist a a = 0"
  by (simp add: seq_dist_def)

lemma seq_dist_0 [simp]: "seq_dist a b = 0 \<longleftrightarrow> a = b"
  by (auto simp: seq_dist_def unsigned_eq_0_iff)

lemma seq_dist_eq: "seq_dist a b = (if unat a \<le> unat b then unat b - unat a else 65536 + unat b - unat a)"
  by (auto simp: seq_dist_def unat_sub_if')

lemma seq_cmp_dist:
  "rtp_seq_num_cmp a b = (if seq_dist a b = 0 then 0 else if seq_dist a b < 32768 then - 1 else 1)"
proof -
  obtain x where x: "unat a = x" "uint a = int x" "x < 65536" using unat_u16_lt [of a] by simp
  obtain y where y: "unat b = y" "uint b = int y" "y < 65536" using unat_u16_lt [of b] by simp
  have "a = b \<longleftrightarrow> x = y" by (simp add: word_unat_eq_iff flip: x(1) y(1))
  then show ?thesis
    unfolding rtp_seq_num_cmp_def Let_def x(2) y(2) seq_dist_eq x(1) y(1) using x(3) y(3) by auto
qed

lemma seq_cmp_iffs:
  "rtp_seq_num_cmp a b \<le> 0 \<longleftrightarrow> seq_dist a b < 32768"
  "rtp_seq_num_cmp a b < 0 \<longleftrightarrow> 0 < seq_dist a b \<and> seq_dist a b < 32768"
  "rtp_seq_num_cmp a b > 0 \<longleftrightarrow> 32768 \<le> seq_dist a b"
  using seq_dist_0 [of a b] unfolding seq_cmp_dist by (auto simp del: seq_dist_0)

lemma seq_dist_swap: "a \<noteq> b \<Longrightarrow> seq_dist b a = 65536 - seq_dist a b"
  using unat_u16_lt [of a] unat_u16_lt [of b] by (auto simp: seq_dist_eq word_unat_eq_iff)

lemma seq_dist_Suc: "a \<noteq> b \<Longrightarrow> seq_dist (a + 1) b = seq_dist a b - 1"
proof -
  assume "a \<noteq> b"
  then have "b - a \<noteq> 0" by simp
  then have "unat (b - a - 1) = unat (b - a) - 1" by (rule unat_minus_one)
  then show ?thesis by (simp add: seq_dist_def diff_diff_eq)
qed

lemma seq_dist_add: "seq_dist a (a + of_nat n) = n" if "n < 65536"
  using that by (simp add: seq_dist_def unat_of_nat_small)

lemma seq_dist_of: "a + of_nat (seq_dist a b) = b"
  by (simp add: seq_dist_def)

text \<open>The order is not antisymmetric: at distance \<open>2^15\<close> each number is newer than the other.\<close>

lemma seq_cmp_half: "rtp_seq_num_cmp a (a + 32768) = 1 \<and> rtp_seq_num_cmp (a + 32768) a = 1"
proof -
  have d: "seq_dist a (a + 32768) = 32768" using seq_dist_add [of 32768 a] by simp
  then have "a \<noteq> a + 32768" by (metis seq_dist_self zero_neq_numeral)
  then have "seq_dist (a + 32768) a = 32768" using seq_dist_swap [of a "a + 32768"] d by simp
  with d show ?thesis by (simp add: seq_cmp_dist)
qed

end
