(* ===== verification/Rtcp_Tx.thy ===== *)
theory Rtcp_Tx
  imports Rtcp_Common U64_Fifo
begin

text \<open>
  The transmit side of the RTCP retransmission (\<^verbatim>\<open>lib/src/mt_rtcp.c\<close>): sent RTP packets are kept in a
  ring, and a NACK packet makes the sender copy and send the packets it names again. The ring is the
  \<open>mt_u64_fifo\<close> of mbuf pointers; \<open>pkt\<close> gives the packet an mbuf holds. The mbuf library and the
  queue are parameters over a world \<open>'w\<close>: \<open>copy w m\<close> is \<open>rte_pktmbuf_copy\<close> (\<open>None\<close> when the pool is
  empty), \<open>burst w ps\<close> is \<open>mt_txq_burst\<close> (the number of packets the queue took, the first ones of
  \<open>ps\<close> and never more than it was given).
\<close>

section \<open>State\<close>

record rtp_pkt =
  p_seq :: u16
  p_row_length :: u16
  p_rest :: "u8 list"

datatype mt_rtp_payload_format =
  MT_RTP_PAYLOAD_FORMAT_RAW | MT_RTP_PAYLOAD_FORMAT_RFC4175 | MT_RTP_PAYLOAD_FORMAT_RFC9134

datatype mt_rtcp_drop_reason =
  MT_RTCP_DROP_SHORT | MT_RTCP_DROP_FLAGS | MT_RTCP_DROP_NAME | MT_RTCP_DROP_LEN

record mt_rtcp_tx =
  mbuf_ring :: mt_u64_fifo
  tx_ssrc :: u32
  tx_active :: bool
  payload_format :: mt_rtp_payload_format
  last_seq_num :: u16
  stat_rtp_sent :: u32
  stat_rtp_retransmit_succ :: u32
  stat_rtp_retransmit_fail :: u32
  stat_rtp_retransmit_fail_nobuf :: u32
  stat_rtp_retransmit_fail_read :: u32
  stat_rtp_retransmit_fail_obsolete :: u32
  stat_rtp_retransmit_fail_burst :: u32
  stat_nack_received :: u32
  stat_nack_drop_invalid :: u32
  stat_nack_drop_reason :: "mt_rtcp_drop_reason \<Rightarrow> u32"
  nack_drop_seen :: "mt_rtcp_drop_reason \<Rightarrow> u32"
  nack_drop_sampled :: bool

section \<open>Buffering sent packets\<close>

text \<open>The result: the return value, the state, the mbufs freed and the mbufs whose reference count
  went up.\<close>

definition mt_rtcp_tx_buffer_rtp_packets ::
    "(u64 \<Rightarrow> rtp_pkt) \<Rightarrow> mt_rtcp_tx \<Rightarrow> u64 list \<Rightarrow> u32 \<Rightarrow> unit res \<times> mt_rtcp_tx \<times> u64 list \<times> u64 list" where
  "mt_rtcp_tx_buffer_rtp_packets pkt tx mbufs bulk =
     (if \<not> tx_active tx then (Inr (), tx, [], [])
      else
        case (if (word_of_int (mt_u64_fifo_free_count (mbuf_ring tx)) :: u32) < bulk
              then (case mt_u64_fifo_get_bulk (mbuf_ring tx) bulk of
                      Inl _ \<Rightarrow> None
                    | Inr (clean_mbufs, ring) \<Rightarrow> Some (clean_mbufs, tx\<lparr>mbuf_ring := ring\<rparr>))
              else Some ([], tx)) of
          None \<Rightarrow> (Inl EIO, tx, [], [])
        | Some (freed, tx) \<Rightarrow>
            let seq = p_seq (pkt (mbufs ! 0));
                diff = seq - last_seq_num tx
            in if diff \<noteq> 1 \<and> mt_u64_fifo_count (mbuf_ring tx) \<noteq> 0 then (Inl EIO, tx, freed, [])
               else
                 case mt_u64_fifo_put_bulk (mbuf_ring tx) mbufs bulk of
                   Inl _ \<Rightarrow> (Inl EIO, tx, freed, [])
                 | Inr ring \<Rightarrow>
                     (Inr (), tx\<lparr>mbuf_ring := ring,
                        last_seq_num := p_seq (pkt (mbufs ! unat (bulk - 1))),
                        stat_rtp_sent := stat_rtp_sent tx + bulk\<rparr>, freed, take (unat bulk) mbufs))"

section \<open>Retransmission\<close>

abbreviation ST20_RETRANSMIT :: u16 where "ST20_RETRANSMIT \<equiv> 0x4000"

definition mark_retransmit :: "mt_rtp_payload_format \<Rightarrow> rtp_pkt \<Rightarrow> rtp_pkt" where
  "mark_retransmit fmt copied =
     (if fmt = MT_RTP_PAYLOAD_FORMAT_RFC4175
      then copied\<lparr>p_row_length := p_row_length copied OR ST20_RETRANSMIT\<rparr> else copied)"

text \<open>The copy loop of a chunk: the copies made before the first failure.\<close>

fun copy_mbufs :: "('w \<Rightarrow> u64 \<Rightarrow> rtp_pkt option \<times> 'w) \<Rightarrow> mt_rtp_payload_format \<Rightarrow> u64 list \<Rightarrow> 'w \<Rightarrow>
    rtp_pkt list \<times> 'w" where
  "copy_mbufs copy fmt [] w = ([], w)"
| "copy_mbufs copy fmt (m # ms) w =
     (case copy w m of
        (None, w1) \<Rightarrow> ([], w1)
      | (Some copied, w1) \<Rightarrow>
          let (rest, w2) = copy_mbufs copy fmt ms w1 in (mark_retransmit fmt copied # rest, w2))"

text \<open>The chunk loop: \<open>done_n\<close> is the C \<open>done\<close>, \<open>out\<close> collects the packets the queue took.\<close>

function retransmit_loop :: "('w \<Rightarrow> u64 \<Rightarrow> rtp_pkt option \<times> 'w) \<Rightarrow> ('w \<Rightarrow> rtp_pkt list \<Rightarrow> nat \<times> 'w) \<Rightarrow>
    nat \<Rightarrow> nat \<Rightarrow> nat \<Rightarrow> rtp_pkt list \<Rightarrow> mt_rtcp_tx \<Rightarrow> 'w \<Rightarrow> rtp_pkt list \<times> mt_rtcp_tx \<times> 'w" where
  "retransmit_loop copy burst bulk diff done_n out tx w =
     (if done_n < bulk then
        let nb = min (bulk - done_n) MT_RTCP_RETRANSMIT_BULK in
        case mt_u64_fifo_read_any_bulk (mbuf_ring tx) (of_nat nb) (int (diff + done_n)) of
          Inl _ \<Rightarrow> (out, tx\<lparr>stat_rtp_retransmit_fail_read :=
                     stat_rtp_retransmit_fail_read tx + of_nat (bulk - done_n)\<rparr>, w)
        | Inr mbufs \<Rightarrow>
            let (copies, w1) = copy_mbufs copy (payload_format tx) mbufs w;
                nb_rt = length copies;
                tx1 = (if nb_rt < nb then tx\<lparr>stat_rtp_retransmit_fail_nobuf :=
                     stat_rtp_retransmit_fail_nobuf tx + of_nat (bulk - done_n - nb_rt)\<rparr> else tx);
                (sent, w2) = burst w1 copies;
                out1 = out @ take sent copies
            in if sent < nb_rt then
                 let tx2 = tx1\<lparr>stat_rtp_retransmit_fail_burst :=
                       stat_rtp_retransmit_fail_burst tx1 + of_nat (nb_rt - sent)\<rparr>
                 in (out1, (if nb_rt = nb then tx2\<lparr>stat_rtp_retransmit_fail_burst :=
                       stat_rtp_retransmit_fail_burst tx2 + of_nat (bulk - done_n - nb)\<rparr> else tx2), w2)
               else if nb_rt < nb then (out1, tx1, w2)
               else retransmit_loop copy burst bulk diff (done_n + nb) out1 tx1 w2
      else (out, tx, w))"
  by pat_completeness auto
termination
  by (relation "measure (\<lambda>(copy, burst, bulk, diff, done_n, out, tx, w). bulk - done_n)") auto

declare retransmit_loop.simps [simp del]

definition rtcp_tx_retransmit_rtp_packets ::
    "(u64 \<Rightarrow> rtp_pkt) \<Rightarrow> ('w \<Rightarrow> u64 \<Rightarrow> rtp_pkt option \<times> 'w) \<Rightarrow> ('w \<Rightarrow> rtp_pkt list \<Rightarrow> nat \<times> 'w) \<Rightarrow>
      mt_rtcp_tx \<Rightarrow> u16 \<Rightarrow> u16 \<Rightarrow> 'w \<Rightarrow> nat res \<times> rtp_pkt list \<times> mt_rtcp_tx \<times> 'w" where
  "rtcp_tx_retransmit_rtp_packets pkt copy burst tx seq bulk w =
     (if bulk = 0 then (Inl EIO, [], tx\<lparr>stat_rtp_retransmit_fail := stat_rtp_retransmit_fail tx + 1\<rparr>, w)
      else
        let rt_exit = (\<lambda>ret (send :: nat) tx. (ret, tx\<lparr>
              stat_rtp_retransmit_succ := stat_rtp_retransmit_succ tx + of_nat send,
              stat_rtp_retransmit_fail := stat_rtp_retransmit_fail tx + of_nat (unat bulk - send)\<rparr>));
            fail = (\<lambda>tx. let (ret, tx') = rt_exit (Inl EIO) 0 tx in (ret, [], tx', w))
        in case mt_u64_fifo_read_front (mbuf_ring tx) of
             Inl _ \<Rightarrow> fail tx
           | Inr head_mbuf \<Rightarrow>
               if head_mbuf = 0 then fail tx
               else
                 let ring_head_seq = p_seq (pkt head_mbuf) in
                 if rtp_seq_num_cmp ring_head_seq seq > 0 then
                   fail (tx\<lparr>stat_rtp_retransmit_fail_obsolete := stat_rtp_retransmit_fail_obsolete tx + ucast bulk\<rparr>)
                 else
                   let diff = seq - ring_head_seq in
                   if (ucast diff :: u32) + ucast bulk > word_of_int (mt_u64_fifo_count (mbuf_ring tx)) then
                     fail (tx\<lparr>stat_rtp_retransmit_fail_read := stat_rtp_retransmit_fail_read tx + ucast bulk\<rparr>)
                   else
                     let (out, tx1, w1) = retransmit_loop copy burst (unat bulk) (unat diff) 0 [] tx w;
                         (ret, tx2) = rt_exit (Inr (length out)) (length out) tx1
                     in (ret, out, tx2, w1))"

section \<open>NACK packets\<close>

definition rtcp_tx_drop_invalid :: "mt_rtcp_tx \<Rightarrow> mt_rtcp_drop_reason \<Rightarrow> mt_rtcp_tx" where
  "rtcp_tx_drop_invalid tx reason =
     (let seen = nack_drop_seen tx reason + 1;
          tx = tx\<lparr>stat_nack_drop_invalid := stat_nack_drop_invalid tx + 1,
                  stat_nack_drop_reason := (stat_nack_drop_reason tx)(reason := stat_nack_drop_reason tx reason + 1),
                  nack_drop_seen := (nack_drop_seen tx)(reason := seen)\<rparr>
      in if seen mod MT_RTCP_DROP_SAMPLE \<noteq> 1 then tx else tx\<lparr>nack_drop_sampled := True\<rparr>)"

text \<open>The loop over the FCIs from offset \<open>off\<close>: \<open>None\<close> is a read outside the received bytes.\<close>

fun nack_fcis ::
    "(u64 \<Rightarrow> rtp_pkt) \<Rightarrow> ('w \<Rightarrow> u64 \<Rightarrow> rtp_pkt option \<times> 'w) \<Rightarrow> ('w \<Rightarrow> rtp_pkt list \<Rightarrow> nat \<times> 'w) \<Rightarrow>
      u8 list \<Rightarrow> nat \<Rightarrow> nat \<Rightarrow> u32 \<Rightarrow> mt_rtcp_tx \<Rightarrow> 'w \<Rightarrow> (rtp_pkt list \<times> mt_rtcp_tx \<times> 'w) option" where
  "nack_fcis pkt copy burst bytes off 0 budget tx w = Some ([], tx, w)"
| "nack_fcis pkt copy burst bytes off (Suc n) budget tx w = do {
     start \<leftarrow> rd16 bytes off;
     follow \<leftarrow> rd16 bytes (off + 2);
     let bulk = (ucast follow :: u32) + 1;
     if bulk > budget then
       nack_fcis pkt copy burst bytes (off + rtcp_fci_size) n budget
         (tx\<lparr>stat_rtp_retransmit_fail := stat_rtp_retransmit_fail tx + bulk\<rparr>) w
     else do {
       let (ret, out, tx1, w1) = rtcp_tx_retransmit_rtp_packets pkt copy burst tx start (ucast bulk) w;
       (out2, tx2, w2) \<leftarrow> nack_fcis pkt copy burst bytes (off + rtcp_fci_size) n (budget - bulk) tx1 w1;
       Some (out @ out2, tx2, w2)
     }
   }"

definition mt_rtcp_tx_parse_rtcp_packet ::
    "(u64 \<Rightarrow> rtp_pkt) \<Rightarrow> ('w \<Rightarrow> u64 \<Rightarrow> rtp_pkt option \<times> 'w) \<Rightarrow> ('w \<Rightarrow> rtp_pkt list \<Rightarrow> nat \<times> 'w) \<Rightarrow>
      mt_rtcp_tx \<Rightarrow> u8 list \<Rightarrow> 'w \<Rightarrow> (unit res \<times> rtp_pkt list \<times> mt_rtcp_tx \<times> 'w) option" where
  "mt_rtcp_tx_parse_rtcp_packet pkt copy burst tx bytes w =
     (if \<not> tx_active tx then Some (Inr (), [], tx, w)
      else
        let tx = tx\<lparr>nack_drop_sampled := False\<rparr>; len = length bytes;
            drop_invalid = (\<lambda>tx reason. Some (Inl EIO, [], rtcp_tx_drop_invalid tx reason, w))
        in if len < rtcp_hdr_size then drop_invalid tx MT_RTCP_DROP_SHORT
           else do {
             flags \<leftarrow> rd8 bytes 0;
             if flags \<noteq> 0x80 then drop_invalid tx MT_RTCP_DROP_FLAGS
             else do {
               ptype \<leftarrow> rd8 bytes 1;
               if ptype \<noteq> MT_RTCP_PTYPE_NACK then Some (Inr (), [], tx, w)
               else do {
                 n0 \<leftarrow> rd8 bytes 8; n1 \<leftarrow> rd8 bytes 9; n2 \<leftarrow> rd8 bytes 10; n3 \<leftarrow> rd8 bytes 11;
                 if [n0, n1, n2, n3] \<noteq> imtl_name then drop_invalid tx MT_RTCP_DROP_NAME
                 else do {
                   let tx = tx\<lparr>stat_nack_received := stat_nack_received tx + 1\<rparr>;
                   hdr_len \<leftarrow> rd16 bytes 2;
                   let rtcp_bytes = (unat hdr_len + 1) * 4;
                   if rtcp_bytes < rtcp_hdr_size \<or> rtcp_bytes > len then drop_invalid tx MT_RTCP_DROP_LEN
                   else do {
                     let num_fcis = unat (of_nat ((rtcp_bytes - rtcp_hdr_size) div rtcp_fci_size) :: u16);
                     let num_fcis = min num_fcis MT_RTCP_MAX_FCIS;
                     let budget = word_of_int (mt_u64_fifo_count (mbuf_ring tx));
                     (out, tx, w) \<leftarrow> nack_fcis pkt copy burst bytes rtcp_hdr_size num_fcis budget tx w;
                     Some (Inr (), out, tx, w)
                   }
                 }
               }
             }
           })"

section \<open>Life cycle\<close>

definition rtcp_tx_stat :: "mt_rtcp_tx \<Rightarrow> mt_rtcp_tx" where
  "rtcp_tx_stat tx =
     (let tx = tx\<lparr>stat_rtp_sent := 0, stat_nack_received := 0, stat_rtp_retransmit_succ := 0\<rparr>;
          tx = (if stat_nack_drop_invalid tx \<noteq> 0
                then tx\<lparr>stat_nack_drop_invalid := 0, stat_nack_drop_reason := (\<lambda>_. 0)\<rparr> else tx)
      in if stat_rtp_retransmit_fail tx \<noteq> 0
         then tx\<lparr>stat_rtp_retransmit_fail_nobuf := 0, stat_rtp_retransmit_fail_read := 0,
                 stat_rtp_retransmit_fail_obsolete := 0, stat_rtp_retransmit_fail_burst := 0,
                 stat_rtp_retransmit_fail := 0\<rparr>
         else tx)"

text \<open>The size of the pool of copies; the queue facts of the interface are arguments.\<close>

definition rtcp_tx_pool_n :: "bool \<Rightarrow> u16 \<Rightarrow> u32 \<Rightarrow> u16 \<Rightarrow> u32" where
  "rtcp_tx_pool_n tx_deep nb_tx_desc ring_share buffer_size =
     (if \<not> tx_deep then ucast buffer_size + ucast nb_tx_desc
      else ring_share + of_nat MT_RTCP_RETRANSMIT_BULK)"

record mt_rtcp_tx_ops =
  tops_ssrc :: u32
  tops_buffer_size :: u16
  tops_payload_format :: mt_rtp_payload_format

text \<open>
  What creation asks of its surroundings: the allocator of the struct and of the ring, the mempool
  (granted or not for a number of mbufs) and the queue.
\<close>

record rtcp_tx_env =
  env_alloc :: "u64 \<Rightarrow> bool"
  env_struct_ok :: bool
  env_pool_ok :: "u32 \<Rightarrow> bool"
  env_txq_ok :: bool
  env_tx_deep :: bool
  env_nb_tx_desc :: u16
  env_ring_share :: u32

definition mt_rtcp_tx_create :: "rtcp_tx_env \<Rightarrow> mt_rtcp_tx_ops \<Rightarrow> mt_rtcp_tx option" where
  "mt_rtcp_tx_create env ops =
     (if \<not> env_struct_ok env then None
      else
        let buffer_size = (if tops_buffer_size ops < env_nb_tx_desc env then env_nb_tx_desc env
                           else tops_buffer_size ops);
            n = rtcp_tx_pool_n (env_tx_deep env) (env_nb_tx_desc env) (env_ring_share env) buffer_size
        in if \<not> env_pool_ok env n then None
           else if \<not> env_txq_ok env then None
           else case mt_u64_fifo_init (env_alloc env) (int (unat buffer_size)) of
                  None \<Rightarrow> None
                | Some ring \<Rightarrow> Some
                    \<lparr>mbuf_ring = ring, tx_ssrc = tops_ssrc ops, tx_active = True,
                     payload_format = tops_payload_format ops, last_seq_num = 0, stat_rtp_sent = 0,
                     stat_rtp_retransmit_succ = 0, stat_rtp_retransmit_fail = 0,
                     stat_rtp_retransmit_fail_nobuf = 0, stat_rtp_retransmit_fail_read = 0,
                     stat_rtp_retransmit_fail_obsolete = 0, stat_rtp_retransmit_fail_burst = 0,
                     stat_nack_received = 0, stat_nack_drop_invalid = 0,
                     stat_nack_drop_reason = (\<lambda>_. 0), nack_drop_seen = (\<lambda>_. 0),
                     nack_drop_sampled = False\<rparr>)"

text \<open>Freeing returns the mbufs the ring still held, in order, and whether the ring went away.\<close>

definition mt_rtcp_tx_free :: "mt_rtcp_tx \<Rightarrow> u64 list \<times> unit res" where
  "mt_rtcp_tx_free tx =
     (let (freed, ring) = mt_fifo_mbuf_clean (mbuf_ring tx) in (freed, mt_u64_fifo_uinit ring))"

section \<open>What the mbuf layer promises\<close>

text \<open>A copy that succeeds has the contents of its original, and a burst takes at most the packets
  it is given.\<close>

definition copy_sound :: "(u64 \<Rightarrow> rtp_pkt) \<Rightarrow> ('w \<Rightarrow> u64 \<Rightarrow> rtp_pkt option \<times> 'w) \<Rightarrow> bool" where
  "copy_sound pkt copy \<longleftrightarrow> (\<forall>w m p. fst (copy w m) = Some p \<longrightarrow> p = pkt m)"

definition burst_sound :: "('w \<Rightarrow> rtp_pkt list \<Rightarrow> nat \<times> 'w) \<Rightarrow> bool" where
  "burst_sound burst \<longleftrightarrow> (\<forall>w ps. fst (burst w ps) \<le> length ps)"

text \<open>Neither runs short of mbufs or of room.\<close>

definition lossless :: "('w \<Rightarrow> u64 \<Rightarrow> rtp_pkt option \<times> 'w) \<Rightarrow> ('w \<Rightarrow> rtp_pkt list \<Rightarrow> nat \<times> 'w) \<Rightarrow> bool" where
  "lossless copy burst \<longleftrightarrow> (\<forall>w m. fst (copy w m) \<noteq> None) \<and> (\<forall>w ps. length ps \<le> fst (burst w ps))"

section \<open>The ring of sent packets\<close>

abbreviation tx_contents :: "mt_rtcp_tx \<Rightarrow> u64 list" where
  "tx_contents tx \<equiv> fifo_contents (mbuf_ring tx)"

text \<open>Consecutive sequence numbers from \<open>s\<close> on.\<close>

definition seq_run :: "(u64 \<Rightarrow> rtp_pkt) \<Rightarrow> u16 \<Rightarrow> u64 list \<Rightarrow> bool" where
  "seq_run pkt s ms \<longleftrightarrow> (\<forall>i < length ms. p_seq (pkt (ms ! i)) = s + of_nat i)"

definition tx_inv :: "(u64 \<Rightarrow> rtp_pkt) \<Rightarrow> mt_rtcp_tx \<Rightarrow> bool" where
  "tx_inv pkt tx \<longleftrightarrow>
     fifo_wf (mbuf_ring tx) \<and> fifo_cap (mbuf_ring tx) < 65536 \<and> 0 \<notin> set (tx_contents tx) \<and>
     seq_run pkt (last_seq_num tx + 1 - of_nat (length (tx_contents tx))) (tx_contents tx)"

lemma seq_run_append:
  "seq_run pkt s (xs @ ys) \<longleftrightarrow> seq_run pkt s xs \<and> seq_run pkt (s + of_nat (length xs)) ys"
proof -
  have "(\<forall>i < length (xs @ ys). P i) \<longleftrightarrow> (\<forall>i < length xs. P i) \<and> (\<forall>i < length ys. P (length xs + i))"
    for P :: "nat \<Rightarrow> bool"
    by (auto) (metis add_diff_inverse_nat nat_add_left_cancel_less)
  from this [of "\<lambda>i. p_seq (pkt ((xs @ ys) ! i)) = s + of_nat i"] show ?thesis
    by (simp add: seq_run_def nth_append add.assoc)
qed

lemma seq_run_drop: "seq_run pkt s ms \<Longrightarrow> seq_run pkt (s + of_nat k) (drop k ms)"
  by (auto simp: seq_run_def add.assoc)

lemma seq_run_take: "seq_run pkt s ms \<Longrightarrow> seq_run pkt s (take k ms)"
  by (auto simp: seq_run_def)

lemma tx_inv_drop:
  assumes "tx_inv pkt tx" and "fifo_wf ring" "fifo_cap ring = fifo_cap (mbuf_ring tx)"
    "fifo_contents ring = drop k (tx_contents tx)" and "k \<le> length (tx_contents tx)"
  shows "tx_inv pkt (tx\<lparr>mbuf_ring := ring\<rparr>)"
proof -
  let ?s = "last_seq_num tx + 1 - of_nat (length (tx_contents tx))"
  have "seq_run pkt (?s + of_nat k) (drop k (tx_contents tx))"
    using assms(1) by (intro seq_run_drop) (simp add: tx_inv_def)
  moreover have "?s + of_nat k = last_seq_num tx + 1 - of_nat (length (tx_contents tx) - k)"
    using assms(5) by (simp add: of_nat_diff algebra_simps)
  ultimately show ?thesis using assms by (auto simp: tx_inv_def dest: in_set_dropD)
qed

lemma tx_count: "fifo_wf f \<Longrightarrow> mt_u64_fifo_count f = int (length (fifo_contents f))"
  by (simp add: mt_u64_fifo_count_def length_fifo_contents fifo_wf_def)

lemma tx_free: "fifo_wf f \<Longrightarrow> unat (word_of_int (mt_u64_fifo_free_count f) :: u32) = fifo_cap f - length (fifo_contents f)"
proof -
  assume "fifo_wf f"
  then have "unat (word_of_int (size_f f - used f) :: u32) = nat (size_f f - used f)"
    by (intro unat_small) (auto simp: fifo_wf_def)
  then show ?thesis
    using \<open>fifo_wf f\<close>
    unfolding mt_u64_fifo_free_count_def length_fifo_contents fifo_cap_def
    by (simp add: fifo_wf_def nat_diff_distrib)
qed

text \<open>The packets handed over by the session: as many as announced, real mbufs, consecutive.\<close>

definition burst_ok :: "(u64 \<Rightarrow> rtp_pkt) \<Rightarrow> u64 list \<Rightarrow> u32 \<Rightarrow> bool" where
  "burst_ok pkt mbufs bulk \<longleftrightarrow> mbufs \<noteq> [] \<and> length mbufs = unat bulk \<and> length mbufs < 2 ^ 31 \<and>
     0 \<notin> set mbufs \<and> seq_run pkt (p_seq (pkt (mbufs ! 0))) mbufs"

lemma burst_last:
  assumes "burst_ok pkt mbufs bulk"
  shows "p_seq (pkt (mbufs ! unat (bulk - 1))) = p_seq (pkt (mbufs ! 0)) + of_nat (length mbufs) - 1"
proof -
  have "bulk \<noteq> 0" using assms by (auto simp: burst_ok_def)
  then have u: "unat (bulk - 1) = length mbufs - 1"
    using assms unat_minus_one [of bulk] by (simp add: burst_ok_def)
  have pos: "0 < length mbufs" using assms unfolding burst_ok_def length_greater_0_conv by blast
  have run: "seq_run pkt (p_seq (pkt (mbufs ! 0))) mbufs" using assms by (simp add: burst_ok_def)
  have "length mbufs - 1 < length mbufs" using pos by simp
  with run have "p_seq (pkt (mbufs ! (length mbufs - 1))) = p_seq (pkt (mbufs ! 0)) + of_nat (length mbufs - 1)"
    unfolding seq_run_def by blast
  moreover have "(of_nat (length mbufs - 1) :: u16) = of_nat (length mbufs) - 1"
    using pos by (cases "length mbufs") auto
  ultimately show ?thesis unfolding u by (simp only: add_diff_eq)
qed

lemma tx_inv_append:
  assumes "tx_inv pkt tx" and b: "burst_ok pkt mbufs bulk" and "fifo_wf ring" "fifo_cap ring = fifo_cap (mbuf_ring tx)"
    "fifo_contents ring = tx_contents tx @ mbufs"
    and "tx_contents tx = [] \<or> p_seq (pkt (mbufs ! 0)) = last_seq_num tx + 1"
  shows "tx_inv pkt (tx\<lparr>mbuf_ring := ring, last_seq_num := p_seq (pkt (mbufs ! unat (bulk - 1))),
    stat_rtp_sent := n\<rparr>)"
proof -
  let ?s = "p_seq (pkt (mbufs ! 0)) - of_nat (length (tx_contents tx))"
  have "seq_run pkt ?s (tx_contents tx)"
    using assms(1,6) by (cases "tx_contents tx = []") (auto simp: tx_inv_def seq_run_def)
  then have "seq_run pkt ?s (tx_contents tx @ mbufs)"
    using b unfolding seq_run_append burst_ok_def by simp
  moreover have "?s = p_seq (pkt (mbufs ! unat (bulk - 1))) + 1 - of_nat (length (tx_contents tx @ mbufs))"
    by (simp add: burst_last [OF b])
  ultimately show ?thesis using assms by (auto simp: tx_inv_def burst_ok_def)
qed

text \<open>Every outcome of buffering: on success the freed mbufs are the oldest ones, exactly as many as
  needed, and the new ones follow the old; on failure nothing is added.\<close>

lemma buffer_cases:
  assumes inv: "tx_inv pkt tx" and b: "burst_ok pkt mbufs bulk" and act: "tx_active tx"
    and res: "mt_rtcp_tx_buffer_rtp_packets pkt tx mbufs bulk = (r, tx', freed, inc)"
  shows "tx_inv pkt tx'" and "freed = take (length freed) (tx_contents tx)"
    and "tx_contents tx' = drop (length freed) (tx_contents tx) @ inc"
    and "inc = (if r = Inr () then mbufs else [])"
    and "r = Inr () \<Longrightarrow> drop (length freed) (tx_contents tx) = [] \<or> p_seq (pkt (mbufs ! 0)) = last_seq_num tx + 1"
proof -
  define bad where "bad = ((word_of_int (mt_u64_fifo_free_count (mbuf_ring tx)) :: u32) < bulk)"
  define g where "g = mt_u64_fifo_get_bulk (mbuf_ring tx) bulk"
  have wf: "fifo_wf (mbuf_ring tx)" using inv by (simp add: tx_inv_def)
  note gb = fifo_get_bulk_eq [OF wf, of bulk, folded g_def]
  have "tx_inv pkt tx' \<and> freed = take (length freed) (tx_contents tx) \<and>
    tx_contents tx' = drop (length freed) (tx_contents tx) @ inc \<and>
    inc = (if r = Inr () then mbufs else []) \<and>
    (r = Inr () \<longrightarrow> drop (length freed) (tx_contents tx) = [] \<or> p_seq (pkt (mbufs ! 0)) = last_seq_num tx + 1)"
  proof (cases "bad \<and> (\<exists>e. g = Inl e)")
    case True
    then have "r = Inl EIO \<and> tx' = tx \<and> freed = [] \<and> inc = []"
      using res act by (auto simp: mt_rtcp_tx_buffer_rtp_packets_def bad_def g_def)
    then show ?thesis using inv by simp
  next
    case False
    then obtain fr tx1 where mid: "(if bad then (case g of Inl _ \<Rightarrow> None
          | Inr (clean_mbufs, ring) \<Rightarrow> Some (clean_mbufs, tx\<lparr>mbuf_ring := ring\<rparr>)) else Some ([], tx)) = Some (fr, tx1)"
      by (cases bad; cases g) (auto split: prod.splits)
    then have c1: "tx_inv pkt tx1" "fr = take (length fr) (tx_contents tx)"
      "tx_contents tx1 = drop (length fr) (tx_contents tx)" "last_seq_num tx1 = last_seq_num tx"
      using gb inv by (auto split: if_splits sum.splits prod.splits intro!: tx_inv_drop)
    have wf1: "fifo_wf (mbuf_ring tx1)" using c1(1) by (simp add: tx_inv_def)
    have len: "length mbufs = unat bulk" and small: "unat bulk < 2 ^ 31" using b by (auto simp: burst_ok_def)
    have "nat (used (mbuf_ring tx1)) < 65536"
      using fifo_length_bound [OF wf1] c1(1) by (simp add: tx_inv_def length_fifo_contents)
    then have "nat (used (mbuf_ring tx1)) + unat bulk < 2 ^ 32" using small by simp
    note pb = fifo_put_bulk_eq [OF wf1 len this]
    let ?seq = "p_seq (pkt (mbufs ! 0))"
    have eq: "mt_rtcp_tx_buffer_rtp_packets pkt tx mbufs bulk =
      (if ?seq - last_seq_num tx \<noteq> 1 \<and> tx_contents tx1 \<noteq> [] then (Inl EIO, tx1, fr, [])
       else case mt_u64_fifo_put_bulk (mbuf_ring tx1) mbufs bulk of
          Inl _ \<Rightarrow> (Inl EIO, tx1, fr, [])
        | Inr ring \<Rightarrow> (Inr (), tx1\<lparr>mbuf_ring := ring, last_seq_num := p_seq (pkt (mbufs ! unat (bulk - 1))),
            stat_rtp_sent := stat_rtp_sent tx1 + bulk\<rparr>, fr, take (unat bulk) mbufs))"
      using act mid c1(4) tx_count [OF wf1]
      unfolding mt_rtcp_tx_buffer_rtp_packets_def bad_def g_def by (simp add: Let_def)
    show ?thesis
    proof (cases "?seq - last_seq_num tx \<noteq> 1 \<and> tx_contents tx1 \<noteq> []")
      case True
      then have "(r, tx', freed, inc) = (Inl EIO, tx1, fr, [])" using res eq by simp
      then show ?thesis using c1 by simp
    next
      case False
      then have cont: "tx_contents tx1 = [] \<or> ?seq = last_seq_num tx1 + 1"
        using c1(4) by (auto simp: algebra_simps)
      show ?thesis
      proof (cases "mt_u64_fifo_put_bulk (mbuf_ring tx1) mbufs bulk")
        case (Inl e)
        then have "(r, tx', freed, inc) = (Inl EIO, tx1, fr, [])" using res eq False by simp
        then show ?thesis using c1 by simp
      next
        case (Inr ring)
        then have R: "(r, tx', freed, inc) = (Inr (), tx1\<lparr>mbuf_ring := ring,
            last_seq_num := p_seq (pkt (mbufs ! unat (bulk - 1))),
            stat_rtp_sent := stat_rtp_sent tx1 + bulk\<rparr>, fr, mbufs)"
          unfolding res [symmetric] eq if_not_P [OF False] Inr using len by simp
        have "tx_inv pkt (tx1\<lparr>mbuf_ring := ring, last_seq_num := p_seq (pkt (mbufs ! unat (bulk - 1))),
            stat_rtp_sent := stat_rtp_sent tx1 + bulk\<rparr>)"
          using pb Inr by (intro tx_inv_append [OF c1(1) b _ _ _ cont]) auto
        then show ?thesis using R c1 cont pb Inr by auto
      qed
    qed
  qed
  then show "tx_inv pkt tx'" and "freed = take (length freed) (tx_contents tx)"
    and "tx_contents tx' = drop (length freed) (tx_contents tx) @ inc"
    and "inc = (if r = Inr () then mbufs else [])"
    and "r = Inr () \<Longrightarrow> drop (length freed) (tx_contents tx) = [] \<or> p_seq (pkt (mbufs ! 0)) = last_seq_num tx + 1"
    by auto
qed

section \<open>What a retransmission sends\<close>

abbreviation resend :: "(u64 \<Rightarrow> rtp_pkt) \<Rightarrow> mt_rtcp_tx \<Rightarrow> u64 list \<Rightarrow> rtp_pkt list" where
  "resend pkt tx \<equiv> map (\<lambda>m. mark_retransmit (payload_format tx) (pkt m))"

lemma copy_mbufs_prefix:
  assumes "copy_sound pkt copy"
  shows "fst (copy_mbufs copy fmt ms w) =
    map (\<lambda>m. mark_retransmit fmt (pkt m)) (take (length (fst (copy_mbufs copy fmt ms w))) ms)"
  using assms
proof (induction ms arbitrary: w)
  case (Cons m ms)
  obtain c w1 where c: "copy w m = (c, w1)" by (cases "copy w m")
  show ?case
  proof (cases c)
    case None
    then show ?thesis using c by simp
  next
    case (Some p)
    then have "p = pkt m" using Cons.prems c unfolding copy_sound_def by (metis fst_conv)
    then show ?thesis using c Some Cons.IH [OF Cons.prems, of w1] by (simp add: split_beta Let_def)
  qed
qed simp

lemma copy_mbufs_length: "length (fst (copy_mbufs copy fmt ms w)) \<le> length ms"
proof (induction ms arbitrary: w)
  case (Cons m ms)
  obtain c w1 where c: "copy w m = (c, w1)" by (cases "copy w m")
  then show ?case using Cons.IH [of w1] by (cases c) (simp_all add: split_beta Let_def)
qed simp

lemma copy_mbufs_all:
  "\<forall>w m. fst (copy w m) \<noteq> None \<Longrightarrow> length (fst (copy_mbufs copy fmt ms w)) = length ms"
proof (induction ms arbitrary: w)
  case (Cons m ms)
  obtain p w1 where c: "copy w m = (Some p, w1)" using Cons.prems by (metis fst_conv option.exhaust prod.exhaust)
  then show ?case using Cons.IH [OF Cons.prems, of w1] by (simp add: split_beta Let_def)
qed simp

text \<open>The failures counted by reason.\<close>

definition fail_reasons :: "mt_rtcp_tx \<Rightarrow> u32" where
  "fail_reasons tx = stat_rtp_retransmit_fail_nobuf tx + stat_rtp_retransmit_fail_read tx +
     stat_rtp_retransmit_fail_obsolete tx + stat_rtp_retransmit_fail_burst tx"

text \<open>The fields a retransmission leaves alone.\<close>

definition same_tx :: "mt_rtcp_tx \<Rightarrow> mt_rtcp_tx \<Rightarrow> bool" where
  "same_tx tx tx' \<longleftrightarrow> mbuf_ring tx' = mbuf_ring tx \<and> payload_format tx' = payload_format tx \<and>
     last_seq_num tx' = last_seq_num tx \<and> tx_active tx' = tx_active tx \<and>
     stat_rtp_retransmit_succ tx' = stat_rtp_retransmit_succ tx"

text \<open>One turn of the chunk loop when the chunk is in the ring.\<close>

lemma retransmit_step:
  fixes copy burst w tx bulk diff done_n
  assumes wf: "fifo_wf (mbuf_ring tx)" and "done_n < bulk" "bulk < 65536" "diff < 65536"
    and fits: "diff + bulk \<le> length (tx_contents tx)" and sound: "burst_sound burst"
  defines "nb \<equiv> min (bulk - done_n) 32"
  defines "ms \<equiv> take nb (drop (diff + done_n) (tx_contents tx))"
  defines "copies \<equiv> fst (copy_mbufs copy (payload_format tx) ms w)"
  defines "sent \<equiv> fst (burst (snd (copy_mbufs copy (payload_format tx) ms w)) copies)"
  shows "(sent < nb \<and> (\<exists>tx' w'. retransmit_loop copy burst bulk diff done_n out tx w = (out @ take sent copies, tx', w') \<and>
            same_tx tx tx' \<and> stat_rtp_retransmit_fail tx' = stat_rtp_retransmit_fail tx \<and>
            fail_reasons tx' = fail_reasons tx + of_nat (bulk - done_n - sent))) \<or>
     (sent = nb \<and> length copies = nb \<and> (\<exists>w'. retransmit_loop copy burst bulk diff done_n out tx w =
            retransmit_loop copy burst bulk diff (done_n + nb) (out @ take sent copies) tx w'))"
proof -
  have nb: "0 < nb" "nb \<le> bulk - done_n" "nb \<le> 32" using assms(2) by (auto simp: nb_def)
  have "unat (of_nat nb :: u32) = nb" using nb(3) by (intro unat_of_nat_small) simp
  moreover have "int (diff + done_n) < 2 ^ 31" using assms(2-4) by simp
  ultimately have rd: "mt_u64_fifo_read_any_bulk (mbuf_ring tx) (of_nat nb) (int (diff + done_n)) = Inr ms"
    using fifo_read_any_bulk_eq [OF wf, of "int (diff + done_n)" "of_nat nb"] nb fits assms(2)
    by (simp add: ms_def nat_int del: of_nat_add)
  have lms: "length ms = nb" using nb fits by (simp add: ms_def)
  have le: "length copies \<le> nb" using copy_mbufs_length lms unfolding copies_def by metis
  have sle: "sent \<le> length copies" using sound by (simp add: burst_sound_def sent_def)
  obtain w1 where cp: "copy_mbufs copy (payload_format tx) ms w = (copies, w1)"
    by (cases "copy_mbufs copy (payload_format tx) ms w") (simp add: copies_def)
  obtain w2 where bu: "burst w1 copies = (sent, w2)"
    by (cases "burst w1 copies") (simp add: sent_def cp)
  let ?tx1 = "if length copies < nb then tx\<lparr>stat_rtp_retransmit_fail_nobuf :=
      stat_rtp_retransmit_fail_nobuf tx + of_nat (bulk - done_n - length copies)\<rparr> else tx"
  let ?tx2 = "?tx1\<lparr>stat_rtp_retransmit_fail_burst :=
      stat_rtp_retransmit_fail_burst ?tx1 + of_nat (length copies - sent)\<rparr>"
  let ?tx3 = "if length copies = nb then ?tx2\<lparr>stat_rtp_retransmit_fail_burst :=
      stat_rtp_retransmit_fail_burst ?tx2 + of_nat (bulk - done_n - nb)\<rparr> else ?tx2"
  have eq: "retransmit_loop copy burst bulk diff done_n out tx w =
    (if sent < length copies then (out @ take sent copies, ?tx3, w2)
     else if length copies < nb then (out @ take sent copies, ?tx1, w2)
     else retransmit_loop copy burst bulk diff (done_n + nb) (out @ take sent copies) ?tx1 w2)"
    using assms(2) rd unfolding retransmit_loop.simps [of copy burst bulk diff done_n] nb_def [symmetric] Let_def
    by (simp add: cp bu del: of_nat_add)
  consider "sent < length copies" | "sent = length copies" "length copies < nb" | "sent = nb" "length copies = nb"
    using sle le by linarith
  then show ?thesis
  proof cases
    case 1
    have "bulk - done_n - sent = (bulk - done_n - length copies) + (length copies - sent)"
      using sle le nb by linarith
    then have "(of_nat (bulk - done_n - sent) :: u32) =
        of_nat (bulk - done_n - length copies) + of_nat (length copies - sent)"
      by (simp only: of_nat_add)
    then show ?thesis using 1 le eq
      by (intro disjI1 conjI exI [of _ ?tx3] exI [of _ w2]) (auto simp: same_tx_def fail_reasons_def)
  next
    case 2
    then show ?thesis using eq
      by (intro disjI1 conjI exI [of _ ?tx1] exI [of _ w2]) (auto simp: same_tx_def fail_reasons_def)
  next
    case 3
    then show ?thesis using eq by (intro disjI2 conjI exI [of _ w2]) auto
  qed
qed

text \<open>The whole loop sends a prefix of what was asked for, and counts the rest by reason.\<close>

lemma retransmit_loop_sends:
  assumes "copy_sound pkt copy" and sound: "burst_sound burst"
    and "fifo_wf (mbuf_ring tx)" "bulk < 65536" "diff < 65536"
    and "diff + bulk \<le> length (tx_contents tx)" and "done_n \<le> bulk"
  shows "\<exists>k tx' w'. retransmit_loop copy burst bulk diff done_n out tx w =
      (out @ resend pkt tx (take k (drop (diff + done_n) (tx_contents tx))), tx', w') \<and>
    k \<le> bulk - done_n \<and> same_tx tx tx' \<and> stat_rtp_retransmit_fail tx' = stat_rtp_retransmit_fail tx \<and>
    fail_reasons tx' = fail_reasons tx + of_nat (bulk - done_n - k) \<and>
    (lossless copy burst \<longrightarrow> k = bulk - done_n)"
  using assms
proof (induction "bulk - done_n" arbitrary: done_n out w rule: less_induct)
  case less
  show ?case
  proof (cases "done_n < bulk")
    case False
    then show ?thesis using less.prems(7)
      by (subst (1) retransmit_loop.simps)
        (auto simp: same_tx_def intro!: exI [of _ 0])
  next
    case True
    define nb where "nb = min (bulk - done_n) 32"
    define ms where "ms = take nb (drop (diff + done_n) (tx_contents tx))"
    define copies where "copies = fst (copy_mbufs copy (payload_format tx) ms w)"
    define sent where "sent = fst (burst (snd (copy_mbufs copy (payload_format tx) ms w)) copies)"
    have nb: "0 < nb" "nb \<le> bulk - done_n" using True by (auto simp: nb_def)
    have lms: "length ms = nb" using nb less.prems(6) by (simp add: ms_def)
    have sle: "sent \<le> length copies" using sound by (simp add: burst_sound_def sent_def)
    have lossy: "sent = nb" if "lossless copy burst"
    proof -
      have "length copies = nb" using that copy_mbufs_all lms unfolding copies_def lossless_def by metis
      then show ?thesis using that sle unfolding lossless_def sent_def by (metis le_antisym)
    qed
    have le: "sent \<le> nb" using sle copy_mbufs_length lms unfolding copies_def by (metis order_trans)
    have "take sent copies = resend pkt tx (take sent (take (length copies) ms))"
      using copy_mbufs_prefix [OF less.prems(1), of "payload_format tx" ms w, folded copies_def]
      by (metis take_map)
    then have pre: "take sent copies = resend pkt tx (take sent (drop (diff + done_n) (tx_contents tx)))"
      using sle le by (simp add: ms_def min.absorb1)
    note step = retransmit_step [where copy = copy and burst = burst and w = w and tx = tx and bulk = bulk and
        diff = diff and done_n = done_n and out = out, OF less.prems(3) True less.prems(4-6) sound,
        folded nb_def, folded ms_def, folded copies_def, folded sent_def]
    from step show ?thesis
    proof (elim disjE conjE exE)
      fix tx' w'
      assume "sent < nb" and r: "retransmit_loop copy burst bulk diff done_n out tx w = (out @ take sent copies, tx', w')"
        and "same_tx tx tx'" "stat_rtp_retransmit_fail tx' = stat_rtp_retransmit_fail tx"
        "fail_reasons tx' = fail_reasons tx + of_nat (bulk - done_n - sent)"
      then show ?thesis using lossy le nb
        by (intro exI [of _ sent] exI [of _ tx'] exI [of _ w']) (auto simp: pre)
    next
      fix w'
      assume s: "sent = nb" and r: "retransmit_loop copy burst bulk diff done_n out tx w =
        retransmit_loop copy burst bulk diff (done_n + nb) (out @ take sent copies) tx w'"
      have shorter: "bulk - (done_n + nb) < bulk - done_n" and le': "done_n + nb \<le> bulk"
        using nb True by auto
      obtain k tx' w'' where k: "retransmit_loop copy burst bulk diff (done_n + nb) (out @ take sent copies) tx w' =
          ((out @ take sent copies) @ resend pkt tx (take k (drop (diff + (done_n + nb)) (tx_contents tx))), tx', w'')"
        "k \<le> bulk - (done_n + nb)" "same_tx tx tx'" "stat_rtp_retransmit_fail tx' = stat_rtp_retransmit_fail tx"
        "fail_reasons tx' = fail_reasons tx + of_nat (bulk - (done_n + nb) - k)"
        "lossless copy burst \<longrightarrow> k = bulk - (done_n + nb)"
        using less.hyps [OF shorter less.prems(1-6) le', of "out @ take sent copies" w'] by blast
      have "take (nb + k) (drop (diff + done_n) (tx_contents tx)) =
          take nb (drop (diff + done_n) (tx_contents tx)) @ take k (drop (diff + (done_n + nb)) (tx_contents tx))"
        unfolding take_add drop_drop by (simp only: ac_simps)
      then show ?thesis using k nb r pre [unfolded s]
        by (intro exI [of _ "nb + k"] exI [of _ tx'] exI [of _ w'']) (auto simp: s)
    qed
  qed
qed

text \<open>The position of a sequence number in the ring, from the oldest packet.\<close>

definition ring_pos :: "mt_rtcp_tx \<Rightarrow> u16 \<Rightarrow> nat" where
  "ring_pos tx seq = unat (seq - (last_seq_num tx + 1 - of_nat (length (tx_contents tx))))"

definition in_ring :: "mt_rtcp_tx \<Rightarrow> u16 \<Rightarrow> u16 \<Rightarrow> bool" where
  "in_ring tx seq bulk \<longleftrightarrow> ring_pos tx seq < 32768 \<and> ring_pos tx seq + unat bulk \<le> length (tx_contents tx)"

lemma ring_head:
  assumes "tx_inv pkt tx" and "tx_contents tx \<noteq> []"
  shows "mt_u64_fifo_read_front (mbuf_ring tx) = Inr (hd (tx_contents tx))" "hd (tx_contents tx) \<noteq> 0"
    "p_seq (pkt (hd (tx_contents tx))) = last_seq_num tx + 1 - of_nat (length (tx_contents tx))"
  using assms unfolding tx_inv_def
  by (cases "tx_contents tx"; auto simp: fifo_read_front_eq seq_run_def)+

lemma retransmit_result:
  assumes inv: "tx_inv pkt tx" and "copy_sound pkt copy" "burst_sound burst" and bulk: "bulk \<noteq> 0"
  shows "\<exists>r out tx' w'. rtcp_tx_retransmit_rtp_packets pkt copy burst tx seq bulk w = (r, out, tx', w') \<and>
    length out \<le> unat bulk \<and> mbuf_ring tx' = mbuf_ring tx \<and> payload_format tx' = payload_format tx \<and>
    last_seq_num tx' = last_seq_num tx \<and> tx_active tx' = tx_active tx \<and>
    stat_rtp_retransmit_succ tx' = stat_rtp_retransmit_succ tx + of_nat (length out) \<and>
    stat_rtp_retransmit_fail tx' = stat_rtp_retransmit_fail tx + of_nat (unat bulk - length out) \<and>
    (tx_contents tx \<noteq> [] \<longrightarrow> fail_reasons tx' = fail_reasons tx + of_nat (unat bulk - length out)) \<and>
    (if in_ring tx seq bulk
     then r = Inr (length out) \<and>
       out = resend pkt tx (take (length out) (drop (ring_pos tx seq) (tx_contents tx))) \<and>
       (lossless copy burst \<longrightarrow> length out = unat bulk)
     else r = Inl EIO \<and> out = [])"
proof (cases "tx_contents tx = []")
  case True
  have "in_ring tx seq bulk \<longleftrightarrow> False" using True bulk by (simp add: in_ring_def unat_eq_0)
  then show ?thesis
    using True inv bulk by (simp add: rtcp_tx_retransmit_rtp_packets_def tx_inv_def fifo_read_front_eq)
next
  case False
  note head = ring_head [OF inv False]
  let ?h = "last_seq_num tx + 1 - of_nat (length (tx_contents tx))"
  have wf: "fifo_wf (mbuf_ring tx)" and lt: "length (tx_contents tx) < 65536"
    using inv fifo_length_bound [of "mbuf_ring tx"] by (auto simp: tx_inv_def)
  have pos: "ring_pos tx seq = unat (seq - ?h)" by (simp add: ring_pos_def)
  have old: "rtp_seq_num_cmp ?h seq > 0 \<longleftrightarrow> 32768 \<le> ring_pos tx seq"
    by (simp add: seq_cmp_iffs seq_dist_def ring_pos_def)
  have sum: "unat ((ucast (seq - ?h) :: u32) + ucast bulk) = unat (seq - ?h) + unat bulk"
    using unat_u16_lt [of "seq - ?h"] unat_u16_lt [of bulk] by (subst unat_add_small) simp_all
  have cnt: "unat (word_of_int (mt_u64_fifo_count (mbuf_ring tx)) :: u32) = length (tx_contents tx)"
    using lt by (simp add: tx_count [OF wf] unat_of_nat_small)
  have far: "(ucast (seq - ?h) :: u32) + ucast bulk > word_of_int (mt_u64_fifo_count (mbuf_ring tx)) \<longleftrightarrow>
      \<not> ring_pos tx seq + unat bulk \<le> length (tx_contents tx)"
    unfolding word_less_nat_alt sum cnt by (simp add: ring_pos_def not_le)
  show ?thesis
  proof (cases "in_ring tx seq bulk")
    case True
    then have fits: "unat (seq - ?h) + unat bulk \<le> length (tx_contents tx)"
      unfolding in_ring_def pos by simp
    obtain k tx' w' where k: "retransmit_loop copy burst (unat bulk) (unat (seq - ?h)) 0 [] tx w =
        (resend pkt tx (take k (drop (unat (seq - ?h)) (tx_contents tx))), tx', w')" "k \<le> unat bulk"
      "same_tx tx tx'" "stat_rtp_retransmit_fail tx' = stat_rtp_retransmit_fail tx"
      "fail_reasons tx' = fail_reasons tx + of_nat (unat bulk - k)" "lossless copy burst \<longrightarrow> k = unat bulk"
      using retransmit_loop_sends [OF assms(2,3) wf unat_u16_lt [of bulk] unat_u16_lt [of "seq - ?h"] fits,
          of 0 "[]" w]
      unfolding append_Nil add_0_right diff_zero by blast
    have len: "length (take k (drop (unat (seq - ?h)) (tx_contents tx))) = k"
      unfolding length_take length_drop using k(2) fits by linarith
    have minb: "min (length (tx_contents tx) - unat (seq - ?h)) (unat bulk) = unat bulk"
      using fits by linarith
    show ?thesis using True bulk k len old far minb
      unfolding rtcp_tx_retransmit_rtp_packets_def head(1) head(3)
      by (simp add: head(2,3) in_ring_def pos same_tx_def fail_reasons_def Let_def)
  next
    case False
    then consider "32768 \<le> ring_pos tx seq" | "ring_pos tx seq < 32768" "\<not> ring_pos tx seq + unat bulk \<le> length (tx_contents tx)"
      by (cases "ring_pos tx seq < 32768") (auto simp: in_ring_def not_less)
    then show ?thesis
      using False bulk old far unfolding rtcp_tx_retransmit_rtp_packets_def head(1)
      by cases (simp_all add: head(2,3) fail_reasons_def Let_def)
  qed
qed

lemma seq_run_map: "seq_run pkt s ms \<Longrightarrow> map (\<lambda>m. p_seq (pkt m)) ms = map (\<lambda>i. s + of_nat i) [0..<length ms]"
  by (intro nth_equalityI) (simp_all add: seq_run_def)

lemma mark_retransmit_seq [simp]: "p_seq (mark_retransmit fmt p) = p_seq p"
  by (simp add: mark_retransmit_def)

lemma ring_pos_seq: "last_seq_num tx + 1 - of_nat (length (tx_contents tx)) + of_nat (ring_pos tx seq) = seq"
  by (simp add: ring_pos_def)

lemma resend_seqs:
  assumes "tx_inv pkt tx"
  shows "map p_seq (resend pkt tx (take k (drop (ring_pos tx seq) (tx_contents tx)))) =
    map (\<lambda>i. seq + of_nat i) [0..<length (take k (drop (ring_pos tx seq) (tx_contents tx)))]"
proof -
  have "seq_run pkt seq (take k (drop (ring_pos tx seq) (tx_contents tx)))"
    using assms seq_run_drop [of pkt _ "tx_contents tx" "ring_pos tx seq"] ring_pos_seq [of tx seq]
    unfolding tx_inv_def by (metis seq_run_take)
  from seq_run_map [OF this] show ?thesis by (simp add: comp_def)
qed


text \<open>A ring with the packets 65534, 65535, 0 and 1, asked for 65535 and 0 with two copies to make.\<close>

definition demo_pkt :: "u64 \<Rightarrow> rtp_pkt" where
  "demo_pkt m = \<lparr>p_seq = ucast m + 65433, p_row_length = 1200, p_rest = []\<rparr>"

definition demo_copy :: "nat \<Rightarrow> u64 \<Rightarrow> rtp_pkt option \<times> nat" where
  "demo_copy n m = (if n = 0 then (None, 0) else (Some (demo_pkt m), n - 1))"

definition demo_burst :: "nat \<Rightarrow> rtp_pkt list \<Rightarrow> nat \<times> nat" where
  "demo_burst n ps = (length ps, n)"

definition demo_tx :: mt_rtcp_tx where
  "demo_tx = \<lparr>mbuf_ring = \<lparr>data = [101, 102, 103, 104], write_idx = 0, read_idx = 0, size_f = 4, used = 4\<rparr>,
     tx_ssrc = 1, tx_active = True, payload_format = MT_RTP_PAYLOAD_FORMAT_RFC4175, last_seq_num = 1,
     stat_rtp_sent = 4, stat_rtp_retransmit_succ = 0, stat_rtp_retransmit_fail = 0,
     stat_rtp_retransmit_fail_nobuf = 0, stat_rtp_retransmit_fail_read = 0,
     stat_rtp_retransmit_fail_obsolete = 0, stat_rtp_retransmit_fail_burst = 0, stat_nack_received = 0,
     stat_nack_drop_invalid = 0, stat_nack_drop_reason = (\<lambda>_. 0), nack_drop_seen = (\<lambda>_. 0),
     nack_drop_sampled = False\<rparr>"

lemma demo_contents: "tx_contents demo_tx = [101, 102, 103, 104]"
  by code_simp

lemma demo_inv: "tx_inv demo_pkt demo_tx"
proof -
  have "fifo_wf (mbuf_ring demo_tx)" "fifo_cap (mbuf_ring demo_tx) = 4" "last_seq_num demo_tx = 1"
    by (simp_all add: demo_tx_def fifo_wf_def fifo_cap_def)
  moreover have "seq_run demo_pkt (1 + 1 - 4) [101, 102, 103, 104]"
    by (simp add: seq_run_def All_less_Suc demo_pkt_def)
  ultimately show ?thesis by (simp add: tx_inv_def demo_contents)
qed

lemma demo_sound: "copy_sound demo_pkt demo_copy" "burst_sound demo_burst"
  by (auto simp: copy_sound_def demo_copy_def burst_sound_def demo_burst_def)


section \<open>NACK packets stay inside their bounds\<close>

lemma tx_inv_cong:
  "tx_inv pkt tx \<Longrightarrow> mbuf_ring tx' = mbuf_ring tx \<Longrightarrow> last_seq_num tx' = last_seq_num tx \<Longrightarrow> tx_inv pkt tx'"
  by (simp add: tx_inv_def)

text \<open>The packets a retransmission may send: those of the ring.\<close>

lemma retransmit_within:
  assumes "tx_inv pkt tx" and "copy_sound pkt copy" and "burst_sound burst" and "bulk \<noteq> 0"
    and "rtcp_tx_retransmit_rtp_packets pkt copy burst tx seq bulk w = (r, out, tx', w')"
  shows "length out \<le> unat bulk" "set out \<subseteq> set (resend pkt tx (tx_contents tx))"
    "mbuf_ring tx' = mbuf_ring tx" "last_seq_num tx' = last_seq_num tx"
    "payload_format tx' = payload_format tx"
proof -
  note R = retransmit_result [OF assms(1-4), of seq w, unfolded assms(5)]
  then show "length out \<le> unat bulk" "mbuf_ring tx' = mbuf_ring tx" "last_seq_num tx' = last_seq_num tx"
    "payload_format tx' = payload_format tx"
    by auto
  show "set out \<subseteq> set (resend pkt tx (tx_contents tx))"
  proof (cases "in_ring tx seq bulk")
    case True
    then have "out = resend pkt tx (take (length out) (drop (ring_pos tx seq) (tx_contents tx)))"
      using R by auto
    then show ?thesis by (metis image_mono in_set_dropD in_set_takeD list.set_map subsetI)
  next
    case False
    then show ?thesis using R by simp
  qed
qed

lemma nack_fcis_within:
  assumes "copy_sound pkt copy" "burst_sound burst"
    and "tx_inv pkt tx" "off + 4 * n \<le> length bytes" "unat budget < 65536"
  shows "\<exists>out tx' w'. nack_fcis pkt copy burst bytes off n budget tx w = Some (out, tx', w') \<and>
    length out \<le> unat budget \<and> set out \<subseteq> set (resend pkt tx (tx_contents tx)) \<and>
    mbuf_ring tx' = mbuf_ring tx \<and> last_seq_num tx' = last_seq_num tx"
  using assms(3-5)
proof (induction n arbitrary: off budget tx w)
  case 0
  then show ?case by simp
next
  case (Suc n)
  let ?start = "be16 (bytes ! off) (bytes ! (off + 1))" and ?follow = "be16 (bytes ! (off + 2)) (bytes ! (off + 2 + 1))"
  let ?bulk = "(ucast ?follow :: u32) + 1"
  have rd: "rd16 bytes off = Some ?start" "rd16 bytes (off + 2) = Some ?follow"
    using Suc.prems(2) rd16_Some [of off bytes] rd16_Some [of "off + 2" bytes] by simp_all
  have off: "off + 4 + 4 * n \<le> length bytes" using Suc.prems(2) by simp
  have ub: "unat ?bulk = unat ?follow + 1"
    using unat_u16_lt [of ?follow] by (subst unat_add_small) simp_all
  show ?case
  proof (cases "?bulk > budget")
    case True
    let ?tx = "tx\<lparr>stat_rtp_retransmit_fail := stat_rtp_retransmit_fail tx + ?bulk\<rparr>"
    have "tx_inv pkt ?tx" using Suc.prems(1) by (rule tx_inv_cong) simp_all
    from Suc.IH [OF this off Suc.prems(3), of w] True rd show ?thesis by simp
  next
    case False
    then have le: "unat ?bulk \<le> unat budget" unfolding word_less_nat_alt not_less .
    then have b16: "unat (ucast ?bulk :: u16) = unat ?bulk"
      using Suc.prems(3) ub by (simp add: unsigned_ucast_eq take_bit_nat_eq_self)
    then have "(ucast ?bulk :: u16) \<noteq> 0" using ub by (metis Suc_eq_plus1 nat.simps(3) unat_0)
    obtain r out1 tx1 w1 where rt: "rtcp_tx_retransmit_rtp_packets pkt copy burst tx ?start (ucast ?bulk) w = (r, out1, tx1, w1)"
      by (metis surj_pair)
    note W = retransmit_within [OF Suc.prems(1) assms(1,2) \<open>ucast ?bulk \<noteq> 0\<close> rt]
    have inv1: "tx_inv pkt tx1" using Suc.prems(1) W(3,4) by (rule tx_inv_cong)
    have bud: "unat (budget - ?bulk) = unat budget - unat ?bulk" using le by (simp add: unat_sub word_le_nat_alt)
    have small: "unat (budget - ?bulk) < 65536" using bud Suc.prems(3) by linarith
    obtain out2 tx2 w2 where n: "nack_fcis pkt copy burst bytes (off + 4) n (budget - ?bulk) tx1 w1 = Some (out2, tx2, w2)"
      "length out2 \<le> unat budget - unat ?bulk" "set out2 \<subseteq> set (resend pkt tx1 (tx_contents tx1))"
      "mbuf_ring tx2 = mbuf_ring tx1" "last_seq_num tx2 = last_seq_num tx1"
      using Suc.IH [OF inv1 off small, of w1] unfolding bud by blast
    have "nack_fcis pkt copy burst bytes off (Suc n) budget tx w = Some (out1 @ out2, tx2, w2)"
      using False rd rt n(1) by (simp add: Let_def)
    moreover have "length (out1 @ out2) \<le> unat budget" using W(1) n(2) b16 le by simp
    ultimately show ?thesis using W n by auto
  qed
qed

lemma drop_invalid_same [simp]:
  "mbuf_ring (rtcp_tx_drop_invalid tx reason) = mbuf_ring tx"
  "last_seq_num (rtcp_tx_drop_invalid tx reason) = last_seq_num tx"
  by (simp_all add: rtcp_tx_drop_invalid_def Let_def)

text \<open>The parser on a packet with a whole header, with its reads done.\<close>

lemma parse_rtcp_eq:
  fixes tx bytes
  assumes "tx_active tx" and "12 \<le> length bytes"
  defines "nb \<equiv> (unat (be16 (bytes ! 2) (bytes ! 3)) + 1) * 4"
    and "tx0 \<equiv> tx\<lparr>nack_drop_sampled := False\<rparr>"
  defines "tx1 \<equiv> tx0\<lparr>stat_nack_received := stat_nack_received tx + 1\<rparr>"
  shows "mt_rtcp_tx_parse_rtcp_packet pkt copy burst tx bytes w =
    (if bytes ! 0 \<noteq> 0x80 then Some (Inl EIO, [], rtcp_tx_drop_invalid tx0 MT_RTCP_DROP_FLAGS, w)
     else if bytes ! 1 \<noteq> MT_RTCP_PTYPE_NACK then Some (Inr (), [], tx0, w)
     else if [bytes ! 8, bytes ! 9, bytes ! 10, bytes ! 11] \<noteq> imtl_name
     then Some (Inl EIO, [], rtcp_tx_drop_invalid tx0 MT_RTCP_DROP_NAME, w)
     else if nb < 12 \<or> nb > length bytes
     then Some (Inl EIO, [], rtcp_tx_drop_invalid tx1 MT_RTCP_DROP_LEN, w)
     else case nack_fcis pkt copy burst bytes 12 (min (unat (of_nat ((nb - 12) div 4) :: u16)) 256)
            (word_of_int (mt_u64_fifo_count (mbuf_ring tx))) tx1 w of
            None \<Rightarrow> None
          | Some (out, tx', w') \<Rightarrow> Some (Inr (), out, tx', w'))"
proof -
  have rd: "rd8 bytes k = Some (bytes ! k)" if "k < 12" for k using that assms(2) by (simp add: rd8_def)
  have "rd16 bytes 2 = Some (be16 (bytes ! 2) (bytes ! (2 + 1)))" using assms(2) by (intro rd16_Some) simp
  also have "(2 :: nat) + 1 = 3" by simp
  finally have rl: "rd16 bytes 2 = Some (be16 (bytes ! 2) (bytes ! 3))" .
  have bind: "Option.bind x (\<lambda>(out, tx', w'). Some (Inr (), out, tx', w')) =
      (case x of None \<Rightarrow> None | Some (out, tx', w') \<Rightarrow> Some (Inr (), out, tx', w'))" for x :: "(_ \<times> _ \<times> _) option"
    by (cases x) auto
  show ?thesis
    using assms(1,2) unfolding mt_rtcp_tx_parse_rtcp_packet_def Let_def
    by (simp add: rd rl bind tx0_def tx1_def nb_def del: One_nat_def)
qed

text \<open>
  C9. Whatever bytes a peer sends as an RTCP packet, the transmitter reads none outside the received
  data and returns; a NACK makes it send at most as many packets as the ring holds, each a copy of a
  packet of the ring, and leaves the ring as it was.
\<close>

theorem rtcp_nack_bounded:
  assumes "tx_inv pkt tx" and "copy_sound pkt copy" and "burst_sound burst"
  shows "\<exists>r out tx' w'. mt_rtcp_tx_parse_rtcp_packet pkt copy burst tx bytes w = Some (r, out, tx', w') \<and>
    length out \<le> length (tx_contents tx) \<and> set out \<subseteq> set (resend pkt tx (tx_contents tx)) \<and>
    mbuf_ring tx' = mbuf_ring tx \<and> tx_inv pkt tx'"
proof (cases "tx_active tx \<and> 12 \<le> length bytes")
  case False
  then show ?thesis
    using assms(1) by (auto simp: mt_rtcp_tx_parse_rtcp_packet_def Let_def intro!: tx_inv_cong [OF assms(1)])
next
  case True
  let ?nb = "(unat (be16 (bytes ! 2) (bytes ! 3)) + 1) * 4"
  let ?tx = "tx\<lparr>nack_drop_sampled := False, stat_nack_received := stat_nack_received tx + 1\<rparr>"
  let ?n = "min (unat (of_nat ((?nb - 12) div 4) :: u16)) 256"
  let ?budget = "word_of_int (mt_u64_fifo_count (mbuf_ring tx)) :: u32"
  note cong = tx_inv_cong [OF assms(1)]
  have eq: "mt_rtcp_tx_parse_rtcp_packet pkt copy burst tx bytes w = Some (r, out, tx', w') \<Longrightarrow> ?thesis"
    if "length out \<le> length (tx_contents tx)" "set out \<subseteq> set (resend pkt tx (tx_contents tx))"
      "mbuf_ring tx' = mbuf_ring tx" "last_seq_num tx' = last_seq_num tx" for r out tx' w'
    using that cong by blast
  show ?thesis
  proof (cases "bytes ! 0 = 0x80 \<and> bytes ! 1 = MT_RTCP_PTYPE_NACK \<and>
      [bytes ! 8, bytes ! 9, bytes ! 10, bytes ! 11] = imtl_name \<and> 12 \<le> ?nb \<and> ?nb \<le> length bytes")
    case False
    then consider "bytes ! 0 \<noteq> 0x80" | "bytes ! 0 = 0x80" "bytes ! 1 \<noteq> MT_RTCP_PTYPE_NACK"
      | "bytes ! 0 = 0x80" "bytes ! 1 = MT_RTCP_PTYPE_NACK" "[bytes ! 8, bytes ! 9, bytes ! 10, bytes ! 11] \<noteq> imtl_name"
      | "bytes ! 0 = 0x80" "bytes ! 1 = MT_RTCP_PTYPE_NACK" "[bytes ! 8, bytes ! 9, bytes ! 10, bytes ! 11] = imtl_name"
        "?nb < 12 \<or> ?nb > length bytes"
      unfolding not_less [symmetric] by blast
    then have "\<exists>r tx'. mt_rtcp_tx_parse_rtcp_packet pkt copy burst tx bytes w = Some (r, [], tx', w) \<and>
        mbuf_ring tx' = mbuf_ring tx \<and> last_seq_num tx' = last_seq_num tx"
      unfolding parse_rtcp_eq [OF conjunct1 [OF True] conjunct2 [OF True]]
      by cases (simp_all only: if_True if_False simp_thms, auto)
    then show ?thesis using eq [of "[]"] by auto
  next
    case ok: True
    have wf: "fifo_wf (mbuf_ring tx)" and lt: "length (tx_contents tx) < 65536"
      using assms(1) fifo_length_bound [of "mbuf_ring tx"] by (auto simp: tx_inv_def)
    have cnt: "unat ?budget = length (tx_contents tx)"
      using lt by (simp add: tx_count [OF wf] unat_of_nat_small)
    have "?n \<le> (?nb - 12) div 4"
      by (simp add: unat_of_nat take_bit_nat_def min.coboundedI1)
    then have bound: "12 + 4 * ?n \<le> length bytes" using ok by linarith
    have inv: "tx_inv pkt ?tx" by (rule cong) simp_all
    obtain out tx' w' where nf: "nack_fcis pkt copy burst bytes 12 ?n ?budget ?tx w = Some (out, tx', w')"
      "length out \<le> length (tx_contents tx)" "set out \<subseteq> set (resend pkt tx (tx_contents tx))"
      "mbuf_ring tx' = mbuf_ring tx" "last_seq_num tx' = last_seq_num tx"
      using nack_fcis_within [OF assms(2,3) inv bound, of ?budget w] cnt lt by auto
    show ?thesis
      using True ok nf by (intro eq [OF nf(2-5)]) (simp add: parse_rtcp_eq del: One_nat_def)
  qed
qed

theorem rtcp_nack_bounded_witness:
  "\<exists>r out tx' w'. mt_rtcp_tx_parse_rtcp_packet demo_pkt demo_copy demo_burst demo_tx
      (rtcp_bytes_of 0x80 204 4 7 [\<lparr>fci_start = 65535, fci_follow = 1\<rparr>, \<lparr>fci_start = 0, fci_follow = 65535\<rparr>])
      (9 :: nat) = Some (r, out, tx', w') \<and> length out \<le> length (tx_contents demo_tx)"
  using rtcp_nack_bounded [OF demo_inv demo_sound] by blast

section \<open>Reachable states\<close>

lemma retransmit_loop_frame:
  "case retransmit_loop copy burst bulk diff done_n out tx w of
     (out', tx', w') \<Rightarrow> mbuf_ring tx' = mbuf_ring tx \<and> last_seq_num tx' = last_seq_num tx"
proof (induction copy burst bulk diff done_n out tx w rule: retransmit_loop.induct)
  case (1 copy burst bulk diff done_n out tx w)
  show ?case
    by (subst retransmit_loop.simps) (auto simp: Let_def split: sum.splits prod.splits dest: 1 [OF _ refl])
qed

lemma retransmit_loop_frameD:
  "retransmit_loop copy burst bulk diff done_n out tx w = (out', tx', w') \<Longrightarrow>
     mbuf_ring tx' = mbuf_ring tx \<and> last_seq_num tx' = last_seq_num tx"
  using retransmit_loop_frame [where copy = copy and burst = burst and bulk = bulk and diff = diff and
      done_n = done_n and out = out and tx = tx and w = w] by simp

lemma retransmit_frame:
  assumes "rtcp_tx_retransmit_rtp_packets pkt copy burst tx seq bulk w = (r, out, tx', w')"
  shows "mbuf_ring tx' = mbuf_ring tx \<and> last_seq_num tx' = last_seq_num tx"
  using assms
  by (auto simp: rtcp_tx_retransmit_rtp_packets_def Let_def split: if_splits sum.splits prod.splits
      dest: retransmit_loop_frameD)

lemma nack_fcis_frame:
  "nack_fcis pkt copy burst bytes off n budget tx w = Some (out, tx', w') \<Longrightarrow>
     mbuf_ring tx' = mbuf_ring tx \<and> last_seq_num tx' = last_seq_num tx"
proof (induction n arbitrary: off budget tx w out)
  case (Suc n)
  from Suc.prems show ?case
    by (auto simp: Let_def split: if_splits bind_splits prod.splits dest!: Suc.IH retransmit_frame)
qed simp

lemma parse_rtcp_frame:
  assumes "mt_rtcp_tx_parse_rtcp_packet pkt copy burst tx bytes w = Some (r, out, tx', w')"
  shows "mbuf_ring tx' = mbuf_ring tx \<and> last_seq_num tx' = last_seq_num tx"
proof (cases "tx_active tx \<and> 12 \<le> length bytes")
  case False
  then show ?thesis using assms by (auto simp: mt_rtcp_tx_parse_rtcp_packet_def Let_def split: if_splits)
next
  case True
  show ?thesis
    using assms unfolding parse_rtcp_eq [OF conjunct1 [OF True] conjunct2 [OF True]]
    by (auto split: if_splits option.splits prod.splits dest: nack_fcis_frame)
qed

text \<open>
  The life of a transmitter: it is created, buffers bursts of consecutive packets, answers RTCP
  packets, reports its counters, and mbufs that it does not hold are reused for new packets.
\<close>

inductive rtcp_tx_reach :: "('w \<Rightarrow> u64 \<Rightarrow> rtp_pkt option \<times> 'w) \<Rightarrow> ('w \<Rightarrow> rtp_pkt list \<Rightarrow> nat \<times> 'w) \<Rightarrow>
    (u64 \<Rightarrow> rtp_pkt) \<Rightarrow> mt_rtcp_tx \<Rightarrow> bool" for copy burst where
  create: "mt_rtcp_tx_create env ops = Some tx \<Longrightarrow> 0 < env_nb_tx_desc env \<Longrightarrow> rtcp_tx_reach copy burst pkt tx"
| buffer: "rtcp_tx_reach copy burst pkt tx \<Longrightarrow> burst_ok pkt mbufs bulk \<Longrightarrow>
    mt_rtcp_tx_buffer_rtp_packets pkt tx mbufs bulk = (r, tx', freed, inc) \<Longrightarrow> rtcp_tx_reach copy burst pkt tx'"
| nack: "rtcp_tx_reach copy burst pkt tx \<Longrightarrow>
    mt_rtcp_tx_parse_rtcp_packet pkt copy burst tx bytes w = Some (r, out, tx', w') \<Longrightarrow> rtcp_tx_reach copy burst pkt tx'"
| stat: "rtcp_tx_reach copy burst pkt tx \<Longrightarrow> rtcp_tx_reach copy burst pkt (rtcp_tx_stat tx)"
| reuse: "rtcp_tx_reach copy burst pkt tx \<Longrightarrow> (\<forall>m \<in> set (tx_contents tx). pkt' m = pkt m) \<Longrightarrow>
    rtcp_tx_reach copy burst pkt' tx"

lemma rtcp_tx_stat_same: "mbuf_ring (rtcp_tx_stat tx) = mbuf_ring tx" "last_seq_num (rtcp_tx_stat tx) = last_seq_num tx"
  by (simp_all add: rtcp_tx_stat_def Let_def)

lemma create_inv:
  assumes "mt_rtcp_tx_create env ops = Some tx" and "0 < env_nb_tx_desc env"
  shows "tx_inv pkt tx"
proof -
  define b where "b = (if tops_buffer_size ops < env_nb_tx_desc env then env_nb_tx_desc env else tops_buffer_size ops)"
  have "0 < unat b" using assms(2) unfolding b_def by (auto simp: word_less_nat_alt)
  then have "0 < int (unat b)" by (simp only: of_nat_0_less_iff)
  moreover have "int (unat b) < 2 ^ 31" using uint_lt2p [of b] by simp
  moreover obtain ring where ring: "mt_u64_fifo_init (env_alloc env) (int (unat b)) = Some ring" "mbuf_ring tx = ring"
    using assms(1) by (auto simp: mt_rtcp_tx_create_def b_def Let_def split: if_splits option.splits)
  ultimately have "fifo_wf ring" "fifo_contents ring = []" "fifo_cap ring = unat b"
    using fifo_init_wf [OF ring(1)] by simp_all
  then show ?thesis using ring(2) unat_u16_lt [of b] by (simp add: tx_inv_def seq_run_def)
qed

lemma buffer_inactive:
  "\<not> tx_active tx \<Longrightarrow> mt_rtcp_tx_buffer_rtp_packets pkt tx mbufs bulk = (Inr (), tx, [], [])"
  by (simp add: mt_rtcp_tx_buffer_rtp_packets_def)

lemma rtcp_tx_reach_tx_inv: "rtcp_tx_reach copy burst pkt tx \<Longrightarrow> tx_inv pkt tx"
proof (induction rule: rtcp_tx_reach.induct)
  case (create env ops tx pkt)
  then show ?case by (rule create_inv)
next
  case (buffer pkt tx mbufs bulk r tx' freed inc)
  then show ?case by (cases "tx_active tx") (auto simp: buffer_inactive intro: buffer_cases(1))
next
  case (nack pkt tx bytes w r out tx' w')
  then show ?case using parse_rtcp_frame [OF nack(2)] by (auto intro: tx_inv_cong)
next
  case (stat pkt tx)
  then show ?case by (auto simp: rtcp_tx_stat_same intro: tx_inv_cong)
next
  case (reuse pkt tx pkt')
  then show ?case by (auto simp: tx_inv_def seq_run_def)
qed


definition demo_env :: rtcp_tx_env where
  "demo_env = \<lparr>env_alloc = (\<lambda>_. True), env_struct_ok = True, env_pool_ok = (\<lambda>_. True), env_txq_ok = True,
     env_tx_deep = False, env_nb_tx_desc = 3, env_ring_share = 0\<rparr>"

definition demo_ops :: mt_rtcp_tx_ops where
  "demo_ops = \<lparr>tops_ssrc = 1, tops_buffer_size = 2, tops_payload_format = MT_RTP_PAYLOAD_FORMAT_RAW\<rparr>"


end
