(* ===== verification/Rtcp_Rx.thy ===== *)
theory Rtcp_Rx
  imports Rtcp_Common Bitmap
begin

text \<open>
  The receive side of the RTCP retransmission (\<^verbatim>\<open>lib/src/mt_rtcp.c\<close>): a bitmap remembers which of the
  last \<open>seq_window_size\<close> sequence numbers arrived, \<open>last_seq\<close> is the newest and \<open>last_cont\<close> the last
  before the first gap; from time to time a NACK packet asks for the missing ones. The time, the
  allocator and the queue are arguments of the operations.
\<close>

section \<open>State\<close>

record mt_rtcp_rx =
  nacks_send_interval :: u64
  rx_ssrc :: u32
  rx_active :: bool
  nacks_send_time :: u64
  last_seq :: u16
  last_cont :: u16
  seq_bitmap :: "u8 list option"
  seq_bitmap_size :: u16
  seq_window_size :: u16
  seq_skip_window :: u16
  stat_rtp_received :: u32
  stat_rtp_lost_detected :: u32
  stat_nack_sent :: u32
  stat_nack_drop_exceed :: u32

text \<open>The index of a sequence number and the three accesses to its bit.\<close>

definition rx_idx :: "mt_rtcp_rx \<Rightarrow> u16 \<Rightarrow> int" where
  "rx_idx rx s = int (unat s mod unat (seq_window_size rx))"

definition rx_test :: "mt_rtcp_rx \<Rightarrow> u16 \<Rightarrow> bool" where
  "rx_test rx s = mt_bitmap_test (seq_bitmap rx) (unat (seq_bitmap_size rx)) (rx_idx rx s)"

definition rx_set :: "u16 \<Rightarrow> mt_rtcp_rx \<Rightarrow> mt_rtcp_rx" where
  "rx_set s rx = rx\<lparr>seq_bitmap :=
     snd (mt_bitmap_test_and_set (seq_bitmap rx) (unat (seq_bitmap_size rx)) (rx_idx rx s))\<rparr>"

definition rx_unset :: "u16 \<Rightarrow> mt_rtcp_rx \<Rightarrow> mt_rtcp_rx" where
  "rx_unset s rx = rx\<lparr>seq_bitmap :=
     snd (mt_bitmap_test_and_unset (seq_bitmap rx) (unat (seq_bitmap_size rx)) (rx_idx rx s))\<rparr>"

section \<open>Receiving packets\<close>

lemma seq_measure_step:
  assumes "rtp_seq_num_cmp i l \<le> 0"
  shows "(if seq_dist (i + 1) l < 32768 then Suc (seq_dist (i + 1) l) else 0)
    < (if seq_dist i l < 32768 then Suc (seq_dist i l) else 0)"
proof (cases "i = l")
  case True
  have "l + 1 \<noteq> l" by simp
  then have "seq_dist (l + 1) l = 65535"
    using seq_dist_swap [of l "l + 1"] seq_dist_add [of 1 l] by simp
  with True show ?thesis by simp
next
  case False
  then have "0 < seq_dist i l" by (metis seq_dist_0 neq0_conv)
  with False assms show ?thesis by (simp add: seq_cmp_iffs seq_dist_Suc)
qed

text \<open>The loop of \<open>rtcp_rx_update_last_cont\<close>: \<open>acc\<close> is \<open>rx->last_cont\<close>.\<close>

function cont_scan :: "(u16 \<Rightarrow> bool) \<Rightarrow> u16 \<Rightarrow> u16 \<Rightarrow> u16 \<Rightarrow> u16" where
  "cont_scan tst l i acc =
     (if rtp_seq_num_cmp i l \<le> 0
      then if \<not> tst i then acc else cont_scan tst l (i + 1) i
      else acc)"
  by pat_completeness auto
termination
  by (relation "measure (\<lambda>(tst, l, i, acc). if seq_dist i l < 32768 then Suc (seq_dist i l) else 0)")
    (use seq_measure_step in auto)

declare cont_scan.simps [simp del]

definition rtcp_rx_update_last_cont :: "mt_rtcp_rx \<Rightarrow> mt_rtcp_rx" where
  "rtcp_rx_update_last_cont rx =
     rx\<lparr>last_cont := cont_scan (rx_test rx) (last_seq rx) (last_cont rx + 1) (last_cont rx)\<rparr>"

text \<open>The loop that clears the bits of the packets that a newer one overtook.\<close>

function clear_missing :: "u16 \<Rightarrow> u16 \<Rightarrow> mt_rtcp_rx \<Rightarrow> mt_rtcp_rx" where
  "clear_missing i seq rx =
     (if rtp_seq_num_cmp i seq < 0 then clear_missing (i + 1) seq (rx_unset i rx) else rx)"
  by pat_completeness auto
termination
  by (relation "measure (\<lambda>(i, seq, rx). if seq_dist i seq < 32768 then Suc (seq_dist i seq) else 0)")
    (use seq_measure_step in auto)

declare clear_missing.simps [simp del]

text \<open>\<open>seq == rx->last_cont + 1\<close> compares in \<open>int\<close>: at 65535 the sum does not wrap.\<close>

definition follows_last_cont :: "u16 \<Rightarrow> mt_rtcp_rx \<Rightarrow> bool" where
  "follows_last_cont seq rx \<longleftrightarrow> uint seq = uint (last_cont rx) + 1"

definition mt_rtcp_rx_parse_rtp_packet :: "mt_rtcp_rx \<Rightarrow> u16 \<Rightarrow> u32 \<Rightarrow> mt_rtcp_rx" where
  "mt_rtcp_rx_parse_rtp_packet rx seq ssrc =
     (if \<not> rx_active rx then rx
      else if rx_ssrc rx = 0 then
        let rx = rx_set seq (rx\<lparr>rx_ssrc := ssrc, last_cont := seq, last_seq := seq\<rparr>)
        in rx\<lparr>stat_rtp_received := stat_rtp_received rx + 1\<rparr>
      else
        let cmp_result = rtp_seq_num_cmp seq (last_seq rx);
            rx = (if cmp_result > 0 then
                let rx = clear_missing (last_seq rx + 1) seq rx;
                    rx = rx\<lparr>last_seq := seq\<rparr>;
                    last_cont_diff = seq - last_cont rx
                in if last_cont_diff > seq_window_size rx then
                     rtcp_rx_update_last_cont (rx\<lparr>last_cont := seq - seq_window_size rx\<rparr>)
                   else if last_cont_diff = 1 then rx\<lparr>last_cont := seq\<rparr>
                   else rx
              else if cmp_result < 0 then
                if follows_last_cont seq rx then rtcp_rx_update_last_cont (rx\<lparr>last_cont := seq\<rparr>) else rx
              else rx);
            rx = rx_set seq rx
        in rx\<lparr>stat_rtp_received := stat_rtp_received rx + 1\<rparr>)"

section \<open>Sending NACK packets\<close>

text \<open>
  The loop over the window: the result tells whether the packet has room, the FCIs, and the counter
  of lost packets. \<open>miss\<close> counts the run of missing packets that began at \<open>start\<close>.
\<close>

function nack_scan :: "(u16 \<Rightarrow> bool) \<Rightarrow> u16 \<Rightarrow> u16 \<Rightarrow> u16 \<Rightarrow> u16 \<Rightarrow> mt_rtcp_fci list \<Rightarrow> u32 \<Rightarrow>
    bool \<times> mt_rtcp_fci list \<times> u32" where
  "nack_scan tst e seq start miss fcis lost =
     (if rtp_seq_num_cmp seq e \<le> 0 then
        if \<not> tst seq then nack_scan tst e (seq + 1) start (miss + 1) fcis lost
        else if miss \<noteq> 0 then
          let fcis = fcis @ [\<lparr>fci_start = start, fci_follow = miss - 1\<rparr>] in
          if length fcis \<ge> MT_RTCP_MAX_FCIS then (False, fcis, lost)
          else nack_scan tst e (seq + 1) (seq + 1) 0 fcis (lost + ucast miss)
        else nack_scan tst e (seq + 1) (seq + 1) miss fcis lost
      else (True, fcis, lost))"
  by pat_completeness auto
termination
  by (relation "measure (\<lambda>(tst, e, seq, start, miss, fcis, lost).
      if seq_dist seq e < 32768 then Suc (seq_dist seq e) else 0)")
    (use seq_measure_step in auto)

declare nack_scan.simps [simp del]

text \<open>The result: the return value, the NACK packet that was sent, and the state.\<close>

definition mt_rtcp_rx_send_nack_packet ::
    "u64 \<Rightarrow> bool \<Rightarrow> bool \<Rightarrow> mt_rtcp_rx \<Rightarrow> unit res \<times> u8 list option \<times> mt_rtcp_rx" where
  "mt_rtcp_rx_send_nack_packet now alloc_ok send_ok rx =
     (if \<not> rx_active rx then (Inr (), None, rx)
      else if now < nacks_send_time rx then (Inr (), None, rx)
      else
        let rx = rx\<lparr>nacks_send_time := now + nacks_send_interval rx\<rparr> in
        if \<not> alloc_ok then (Inl ENOMEM, None, rx)
        else
          let seq = last_cont rx + 1;
              e = last_seq rx - seq_skip_window rx;
              end_state = fst (mt_bitmap_test_and_set (seq_bitmap rx) (unat (seq_bitmap_size rx)) (rx_idx rx e));
              rx1 = rx_set e rx;
              (room, fcis, lost) = nack_scan (rx_test rx1) e seq seq 0 [] (stat_rtp_lost_detected rx1);
              rx2 = rx1\<lparr>stat_rtp_lost_detected := lost\<rparr>;
              num_fci = length fcis
          in if \<not> room then
               let rx3 = rx2\<lparr>stat_nack_drop_exceed := stat_nack_drop_exceed rx2 + of_nat num_fci\<rparr>
               in (Inl EINVAL, None, if \<not> end_state then rx_unset e rx3 else rx3)
             else
               let rx3 = (if \<not> end_state then rx_unset e rx2 else rx2) in
               if num_fci = 0 then (Inr (), None, rx3)
               else
                 let bytes = rtcp_bytes_of 0x80 MT_RTCP_PTYPE_NACK
                       (of_nat (rtcp_hdr_size div 4 - 1 + num_fci)) (rx_ssrc rx3) fcis
                 in if \<not> send_ok then (Inl EIO, None, rx3)
                    else (Inr (), Some bytes, rx3\<lparr>stat_nack_sent := stat_nack_sent rx3 + 1\<rparr>))"

section \<open>Life cycle\<close>

definition rtcp_rx_stat :: "mt_rtcp_rx \<Rightarrow> mt_rtcp_rx" where
  "rtcp_rx_stat rx =
     (let rx = rx\<lparr>stat_rtp_received := 0, stat_rtp_lost_detected := 0, stat_nack_sent := 0\<rparr>
      in if stat_nack_drop_exceed rx \<noteq> 0 then rx\<lparr>stat_nack_drop_exceed := 0\<rparr> else rx)"

record mt_rtcp_rx_ops =
  rops_nacks_send_interval :: u64
  rops_seq_bitmap_size :: u16
  rops_seq_skip_window :: u16

definition mt_rtcp_rx_create :: "bool \<Rightarrow> bool \<Rightarrow> u64 \<Rightarrow> mt_rtcp_rx_ops \<Rightarrow> mt_rtcp_rx option" where
  "mt_rtcp_rx_create struct_ok bitmap_ok tsc ops =
     (if \<not> struct_ok then None
      else if \<not> bitmap_ok then None
      else Some
        \<lparr>nacks_send_interval = rops_nacks_send_interval ops, rx_ssrc = 0, rx_active = True,
         nacks_send_time = tsc, last_seq = 0, last_cont = 0,
         seq_bitmap = Some (replicate (unat (rops_seq_bitmap_size ops)) 0),
         seq_bitmap_size = rops_seq_bitmap_size ops, seq_window_size = rops_seq_bitmap_size ops * 8,
         seq_skip_window = 0, stat_rtp_received = 0, stat_rtp_lost_detected = 0, stat_nack_sent = 0,
         stat_nack_drop_exceed = 0\<rparr>)"

section \<open>The window of arrived packets\<close>

text \<open>The sizes the receiver is meant for: the window is the bitmap, it divides \<open>2^16\<close> so that
  the index of a number does not change where the numbers wrap, and it is less than half of \<open>2^16\<close>.\<close>

definition win :: "mt_rtcp_rx \<Rightarrow> nat" where
  "win rx = unat (seq_window_size rx)"

definition rx_wf :: "mt_rtcp_rx \<Rightarrow> bool" where
  "rx_wf rx \<longleftrightarrow> bitmap_wf (seq_bitmap rx) (unat (seq_bitmap_size rx)) \<and>
     win rx = 8 * unat (seq_bitmap_size rx) \<and> 0 < win rx \<and> win rx dvd 65536 \<and> win rx < 32768"

text \<open>The numbers of the window that arrived.\<close>

definition rx_arrived :: "mt_rtcp_rx \<Rightarrow> u16 set" where
  "rx_arrived rx = {s. seq_dist s (last_seq rx) < win rx \<and> rx_test rx s}"

lemma rx_idx_range: "rx_wf rx \<Longrightarrow> 0 \<le> rx_idx rx s \<and> rx_idx rx s < 8 * int (unat (seq_bitmap_size rx))"
proof -
  assume wf: "rx_wf rx"
  then have "unat s mod win rx < 8 * unat (seq_bitmap_size rx)" by (simp add: rx_wf_def)
  then have "int (unat s mod win rx) < int (8 * unat (seq_bitmap_size rx))" by (simp only: of_nat_less_iff)
  then show ?thesis by (simp only: rx_idx_def win_def of_nat_mult of_nat_numeral of_nat_0_le_iff simp_thms)
qed

lemma rx_set_fields [simp]:
  "last_seq (rx_set s rx) = last_seq rx" "last_cont (rx_set s rx) = last_cont rx" "win (rx_set s rx) = win rx"
  "seq_bitmap_size (rx_set s rx) = seq_bitmap_size rx" "seq_window_size (rx_set s rx) = seq_window_size rx"
  "rx_ssrc (rx_set s rx) = rx_ssrc rx" "rx_active (rx_set s rx) = rx_active rx"
  "seq_skip_window (rx_set s rx) = seq_skip_window rx" "rx_idx (rx_set s rx) = rx_idx rx"
  by (simp_all add: rx_set_def win_def rx_idx_def fun_eq_iff)

lemma rx_unset_fields [simp]:
  "last_seq (rx_unset s rx) = last_seq rx" "last_cont (rx_unset s rx) = last_cont rx" "win (rx_unset s rx) = win rx"
  "seq_bitmap_size (rx_unset s rx) = seq_bitmap_size rx" "seq_window_size (rx_unset s rx) = seq_window_size rx"
  "rx_ssrc (rx_unset s rx) = rx_ssrc rx" "rx_active (rx_unset s rx) = rx_active rx"
  "seq_skip_window (rx_unset s rx) = seq_skip_window rx" "rx_idx (rx_unset s rx) = rx_idx rx"
  by (simp_all add: rx_unset_def win_def rx_idx_def fun_eq_iff)

lemma rx_test_members:
  "rx_wf rx \<Longrightarrow> rx_test rx s \<longleftrightarrow> rx_idx rx s \<in> bitmap_members (seq_bitmap rx) (unat (seq_bitmap_size rx))"
  by (simp add: rx_test_def rx_wf_def bitmap_test_iff)

lemma rx_set_wf: "rx_wf rx \<Longrightarrow> rx_wf (rx_set s rx)"
  using bitmap.set_wf [of "seq_bitmap rx" "unat (seq_bitmap_size rx)" "rx_idx rx s"]
  by (auto simp: rx_wf_def rx_set_def win_def)

lemma rx_unset_wf: "rx_wf rx \<Longrightarrow> rx_wf (rx_unset s rx)"
  using bitmap.unset_wf [of "seq_bitmap rx" "unat (seq_bitmap_size rx)" "rx_idx rx s"]
  by (auto simp: rx_wf_def rx_unset_def win_def)

lemma rx_test_set: "rx_wf rx \<Longrightarrow> rx_test (rx_set s rx) t \<longleftrightarrow> rx_idx rx t = rx_idx rx s \<or> rx_test rx t"
  using bitmap.set_members [of "seq_bitmap rx" "unat (seq_bitmap_size rx)" "rx_idx rx s"] rx_idx_range [of rx s]
  by (simp add: rx_test_members rx_set_wf) (simp add: rx_set_def rx_wf_def)

lemma rx_test_unset: "rx_wf rx \<Longrightarrow> rx_test (rx_unset s rx) t \<longleftrightarrow> rx_idx rx t \<noteq> rx_idx rx s \<and> rx_test rx t"
  using bitmap.unset_members [of "seq_bitmap rx" "unat (seq_bitmap_size rx)" "rx_idx rx s"] rx_idx_range [of rx s]
  by (simp add: rx_test_members rx_unset_wf) (auto simp: rx_unset_def rx_wf_def)

lemma seq_dist_trans: "seq_dist a b + seq_dist b c < 65536 \<Longrightarrow> seq_dist a c = seq_dist a b + seq_dist b c"
  using unat_add_small [of "b - a" "c - b"] by (simp add: seq_dist_def)

lemma seq_dist_diff: "seq_dist s l \<le> seq_dist t l \<Longrightarrow> seq_dist t s = seq_dist t l - seq_dist s l"
  using unat_sub [of "l - s" "l - t"] by (simp add: seq_dist_def word_le_nat_alt)

lemma seq_dist_mod:
  assumes "W dvd 65536"
  shows "seq_dist s t mod W = 0 \<longleftrightarrow> unat s mod W = unat t mod W"
proof -
  have "int (seq_dist s t) = (uint t - uint s) mod 65536"
    by (simp add: seq_dist_def uint_word_ariths)
  moreover have "int W dvd 65536" using assms by (metis of_nat_dvd_iff of_nat_numeral)
  ultimately have "int (seq_dist s t) mod int W = (uint t - uint s) mod int W"
    by (simp add: mod_mod_cancel)
  then have "int (seq_dist s t) mod int W = 0 \<longleftrightarrow> uint t mod int W = uint s mod int W"
    unfolding mod_eq_dvd_iff [of "uint t"] dvd_eq_mod_eq_0 by (simp only:)
  moreover have "uint t mod int W = int (unat t mod W)" "uint s mod int W = int (unat s mod W)"
    "int (seq_dist s t) mod int W = int (seq_dist s t mod W)"
    by (simp_all add: zmod_int)
  ultimately show ?thesis by (simp only: of_nat_eq_0_iff of_nat_eq_iff) auto
qed

lemma rx_idx_eq_iff: "rx_wf rx \<Longrightarrow> rx_idx rx s = rx_idx rx t \<longleftrightarrow> seq_dist s t mod win rx = 0"
proof -
  assume "rx_wf rx"
  then have "win rx dvd 65536" unfolding rx_wf_def by blast
  from seq_dist_mod [OF this, of s t] show ?thesis by (simp only: rx_idx_def win_def of_nat_eq_iff)
qed

lemma rx_idx_inj:
  assumes wf: "rx_wf rx" and "seq_dist s l < win rx" "seq_dist t l < win rx" and "rx_idx rx s = rx_idx rx t"
  shows "s = t"
proof -
  have key: "t = s" if "seq_dist s l \<le> seq_dist t l" "seq_dist t l < win rx" "rx_idx rx t = rx_idx rx s" for s t
  proof -
    have "seq_dist t s < win rx" using seq_dist_diff [OF that(1)] that(2) by simp
    moreover have "seq_dist t s mod win rx = 0" using that(3) rx_idx_eq_iff [OF wf] by blast
    ultimately show ?thesis by simp
  qed
  show ?thesis using assms(2-4) key [of s t] key [of t s] by (metis nat_le_linear)
qed

text \<open>The clearing loop clears the bits of \<open>i\<close> up to the number before \<open>seq\<close> and nothing else.\<close>

lemma clear_missing_spec:
  assumes "rx_wf rx" and "seq_dist i seq < 32768"
  shows "rx_wf (clear_missing i seq rx) \<and> (\<exists>b. clear_missing i seq rx = rx\<lparr>seq_bitmap := b\<rparr>) \<and>
    (\<forall>t. rx_test (clear_missing i seq rx) t \<longleftrightarrow>
       rx_test rx t \<and> (\<forall>j. seq_dist i j < seq_dist i seq \<longrightarrow> rx_idx rx j \<noteq> rx_idx rx t))"
  using assms
proof (induction i seq rx rule: clear_missing.induct)
  case (1 i seq rx)
  show ?case
  proof (cases "i = seq")
    case True
    then have "clear_missing i seq rx = rx" by (subst clear_missing.simps) (simp add: seq_cmp_dist)
    then show ?thesis using "1.prems" True by (auto intro: exI [of _ "seq_bitmap rx"])
  next
    case False
    then have cmp: "rtp_seq_num_cmp i seq < 0" using "1.prems"(2) by (simp add: seq_cmp_dist)
    have pos: "0 < seq_dist i seq" using False by (metis seq_dist_0 neq0_conv)
    have suc: "seq_dist (i + 1) seq = seq_dist i seq - 1" using False by (rule seq_dist_Suc)
    have split: "seq_dist i j < seq_dist i seq \<longleftrightarrow> j = i \<or> seq_dist (i + 1) j < seq_dist (i + 1) seq" for j
    proof (cases "j = i")
      case True
      then show ?thesis using pos by simp
    next
      case False
      then have "0 < seq_dist i j" by (metis seq_dist_0 neq0_conv)
      then show ?thesis using False seq_dist_Suc [of i j] suc pos by auto
    qed
    have eq: "clear_missing i seq rx = clear_missing (i + 1) seq (rx_unset i rx)"
      using cmp by (subst clear_missing.simps) simp
    have wf': "rx_wf (rx_unset i rx)" using "1.prems"(1) by (rule rx_unset_wf)
    have small: "seq_dist (i + 1) seq < 32768" using suc "1.prems"(2) by simp
    note IH = "1.IH" [OF cmp wf' small]
    have "\<exists>b. clear_missing i seq rx = rx\<lparr>seq_bitmap := b\<rparr>"
      using IH unfolding eq rx_unset_def by auto
    moreover have "\<forall>t. rx_test (clear_missing i seq rx) t \<longleftrightarrow>
        rx_test rx t \<and> (\<forall>j. seq_dist i j < seq_dist i seq \<longrightarrow> rx_idx rx j \<noteq> rx_idx rx t)"
      unfolding split using IH rx_test_unset [OF "1.prems"(1)] unfolding eq by auto
    ultimately show ?thesis using IH unfolding eq by blast
  qed
qed

section \<open>Receiving refines the window\<close>

lemma cont_scan_dist:
  "seq_dist acc l < 32768 \<Longrightarrow> i = acc + 1 \<Longrightarrow> seq_dist (cont_scan tst l i acc) l \<le> seq_dist acc l"
proof (induction tst l i acc rule: cont_scan.induct)
  case (1 tst l i acc)
  show ?case
  proof (cases "rtp_seq_num_cmp i l \<le> 0 \<and> tst i")
    case True
    have "acc \<noteq> l"
    proof
      assume "acc = l"
      then have "seq_dist i l = 65535"
        using seq_dist_swap [of l "l + 1"] seq_dist_add [of 1 l] "1.prems"(2) by simp
      then show False using True by (simp add: seq_cmp_iffs)
    qed
    then have d: "seq_dist i l = seq_dist acc l - 1" using "1.prems"(2) seq_dist_Suc by simp
    then have "seq_dist (cont_scan tst l (i + 1) i) l \<le> seq_dist i l"
      using "1.IH" True "1.prems"(1) by (metis diff_le_self le_less_trans)
    then show ?thesis using True d by (subst cont_scan.simps) simp
  next
    case False
    then show ?thesis by (subst cont_scan.simps) auto
  qed
qed

lemma seq_newer_dist: "rtp_seq_num_cmp seq l > 0 \<Longrightarrow> 0 < seq_dist l seq \<and> seq_dist l seq \<le> 32768"
  using seq_dist_swap [of seq l] seq_dist_0 [of l seq] seq_dist_0 [of seq l]
  by (cases "seq = l") (auto simp: seq_cmp_iffs simp del: seq_dist_0)

text \<open>The bits after a newer packet: its own, and those of the old window that are still inside.\<close>

lemma newer_bits:
  assumes wf: "rx_wf rx" and new: "rtp_seq_num_cmp seq (last_seq rx) > 0" and t: "seq_dist t seq < win rx"
  defines "rx1 \<equiv> clear_missing (last_seq rx + 1) seq rx"
  shows "rx_test (rx_set seq rx1) t \<longleftrightarrow> t = seq \<or> seq_dist t (last_seq rx) < win rx \<and> rx_test rx t"
proof -
  let ?l = "last_seq rx" and ?W = "win rx"
  have d: "0 < seq_dist ?l seq" "seq_dist ?l seq \<le> 32768" using seq_newer_dist [OF new] by auto
  then have ne: "?l \<noteq> seq" by auto
  have d1: "seq_dist (?l + 1) seq = seq_dist ?l seq - 1" by (rule seq_dist_Suc [OF ne])
  have "seq_dist (?l + 1) seq < 32768" using d d1 by simp
  note C = clear_missing_spec [OF wf this, folded rx1_def]
  have wf1: "rx_wf rx1" using C by blast
  obtain b where b: "rx1 = rx\<lparr>seq_bitmap := b\<rparr>" using C by blast
  have idx: "rx_idx rx1 = rx_idx rx" by (simp add: b rx_idx_def fun_eq_iff)
  have W: "0 < ?W" "?W < 32768" using wf by (auto simp: rx_wf_def)
  have tst: "rx_test (rx_set seq rx1) t \<longleftrightarrow> rx_idx rx t = rx_idx rx seq \<or>
      rx_test rx t \<and> (\<forall>j. seq_dist (?l + 1) j < seq_dist (?l + 1) seq \<longrightarrow> rx_idx rx j \<noteq> rx_idx rx t)"
    using rx_test_set [OF wf1] C by (simp add: idx)
  have own: "rx_idx rx t = rx_idx rx seq \<longleftrightarrow> t = seq"
    using rx_idx_inj [OF wf t, of seq] W by auto
  have cleared: "seq_dist (?l + 1) j < seq_dist (?l + 1) seq \<longleftrightarrow> 0 < seq_dist j seq \<and> seq_dist j seq < seq_dist ?l seq"
    for j
  proof
    assume h: "seq_dist (?l + 1) j < seq_dist (?l + 1) seq"
    then have "seq_dist j seq = seq_dist (?l + 1) seq - seq_dist (?l + 1) j"
      using unat_sub [of "j - (?l + 1)" "seq - (?l + 1)"] by (simp add: seq_dist_def word_le_nat_alt)
    then show "0 < seq_dist j seq \<and> seq_dist j seq < seq_dist ?l seq" using h d1 d by linarith
  next
    assume h: "0 < seq_dist j seq \<and> seq_dist j seq < seq_dist ?l seq"
    then have "seq_dist (?l + 1) j = seq_dist (?l + 1) seq - seq_dist j seq"
      using d1 by (intro seq_dist_diff) linarith
    then show "seq_dist (?l + 1) j < seq_dist (?l + 1) seq" using h d1 by linarith
  qed
  show ?thesis
  proof (cases "t = seq")
    case True
    then show ?thesis using tst own by simp
  next
    case False
    then have pos: "0 < seq_dist t seq" by (metis seq_dist_0 neq0_conv)
    show ?thesis
    proof (cases "seq_dist t seq < seq_dist ?l seq")
      case True
      have "seq_dist ?l t = seq_dist ?l seq - seq_dist t seq" using True by (intro seq_dist_diff) simp
      then have "0 < seq_dist ?l t" "seq_dist ?l t \<le> 32768" using True pos d by linarith+
      moreover from this have "?l \<noteq> t" by auto
      ultimately have "\<not> seq_dist t ?l < ?W" using seq_dist_swap [of ?l t] W by simp
      then show ?thesis using tst own False cleared [of t] True pos by auto
    next
      case old: False
      have "seq_dist t ?l = seq_dist t seq - seq_dist ?l seq" using old by (intro seq_dist_diff) simp
      then have inw: "seq_dist t ?l < ?W" using t by linarith
      have "rx_idx rx j \<noteq> rx_idx rx t" if "0 < seq_dist j seq \<and> seq_dist j seq < seq_dist ?l seq" for j
      proof -
        have "seq_dist j seq < ?W" using that old t by linarith
        moreover have "j \<noteq> t" using that old by auto
        ultimately show ?thesis using rx_idx_inj [OF wf _ t, of j] by blast
      qed
      then show ?thesis using tst own False cleared inw by auto
    qed
  qed
qed

text \<open>The receiver's invariant: well-formed, and the last continuous number is not older than the
  window.\<close>

definition rx_inv :: "mt_rtcp_rx \<Rightarrow> bool" where
  "rx_inv rx \<longleftrightarrow> rx_wf rx \<and> rx_ssrc rx \<noteq> 0 \<and> rx_active rx \<and> seq_dist (last_cont rx) (last_seq rx) \<le> win rx"

text \<open>The fields the bits and the window depend on.\<close>

definition rx_same :: "mt_rtcp_rx \<Rightarrow> mt_rtcp_rx \<Rightarrow> bool" where
  "rx_same rx rx' \<longleftrightarrow> seq_bitmap rx' = seq_bitmap rx \<and> seq_bitmap_size rx' = seq_bitmap_size rx \<and>
     seq_window_size rx' = seq_window_size rx"

lemma rx_same_test: "rx_same rx rx' \<Longrightarrow> rx_test rx' = rx_test rx"
  by (simp add: rx_same_def rx_test_def rx_idx_def fun_eq_iff)

lemma rx_same_wf: "rx_same rx rx' \<Longrightarrow> rx_wf rx' = rx_wf rx" "rx_same rx rx' \<Longrightarrow> win rx' = win rx"
  by (simp_all add: rx_same_def rx_wf_def win_def)

lemma rx_same_set: "rx_same rx rx' \<Longrightarrow> rx_same (rx_set s rx) (rx_set s rx')"
  by (simp add: rx_same_def rx_set_def rx_idx_def)

lemma update_last_cont_same:
  "rx_same rx (rtcp_rx_update_last_cont rx)" "last_seq (rtcp_rx_update_last_cont rx) = last_seq rx"
  "rx_ssrc (rtcp_rx_update_last_cont rx) = rx_ssrc rx" "rx_active (rtcp_rx_update_last_cont rx) = rx_active rx"
  by (simp_all add: rx_same_def rtcp_rx_update_last_cont_def)

lemma update_last_cont_dist:
  "seq_dist (last_cont rx) (last_seq rx) < 32768 \<Longrightarrow>
     seq_dist (last_cont (rtcp_rx_update_last_cont rx)) (last_seq rx) \<le> seq_dist (last_cont rx) (last_seq rx)"
  by (simp add: rtcp_rx_update_last_cont_def cont_scan_dist)

lemma follows_last_contD: "follows_last_cont seq rx \<Longrightarrow> seq = last_cont rx + 1"
proof -
  assume "follows_last_cont seq rx"
  then have "(word_of_int (uint seq) :: u16) = word_of_int (uint (last_cont rx) + 1)"
    by (simp only: follows_last_cont_def)
  then show ?thesis by (simp only: wi_hom_syms word_of_int_uint word_1_wi [symmetric])
qed

text \<open>One packet, newer than all before.\<close>

lemma parse_newer:
  fixes rx seq ssrc
  assumes inv: "rx_inv rx" and new: "rtp_seq_num_cmp seq (last_seq rx) > 0"
  defines "rx' \<equiv> mt_rtcp_rx_parse_rtp_packet rx seq ssrc"
  shows "rx_inv rx' \<and> last_seq rx' = seq \<and> win rx' = win rx \<and>
    (\<forall>t. seq_dist t seq < win rx \<longrightarrow>
       rx_test rx' t = (t = seq \<or> seq_dist t (last_seq rx) < win rx \<and> rx_test rx t))"
proof -
  have wf: "rx_wf rx" and act: "rx_active rx" "rx_ssrc rx \<noteq> 0" using inv by (auto simp: rx_inv_def)
  have W: "win rx < 32768" using wf by (simp add: rx_wf_def)
  define rx1 where "rx1 = clear_missing (last_seq rx + 1) seq rx"
  have ne: "last_seq rx \<noteq> seq" using seq_newer_dist [OF new] by auto
  have "seq_dist (last_seq rx + 1) seq < 32768"
    using seq_newer_dist [OF new] seq_dist_Suc [OF ne] by linarith
  note C = clear_missing_spec [OF wf this, folded rx1_def]
  obtain b where b: "rx1 = rx\<lparr>seq_bitmap := b\<rparr>" using C by blast
  let ?rx2 = "rx1\<lparr>last_seq := seq\<rparr>"
  let ?diff = "seq - last_cont rx"
  define rx3 where "rx3 = (if ?diff > seq_window_size rx
      then rtcp_rx_update_last_cont (?rx2\<lparr>last_cont := seq - seq_window_size rx\<rparr>)
      else if ?diff = 1 then ?rx2\<lparr>last_cont := seq\<rparr> else ?rx2)"
  have same3: "rx_same rx1 rx3" "last_seq rx3 = seq" "rx_ssrc rx3 = rx_ssrc rx" "rx_active rx3"
    using act update_last_cont_same [of "?rx2\<lparr>last_cont := seq - seq_window_size rx\<rparr>"]
    by (auto simp: rx3_def b rx_same_def)
  have "seq_dist (last_cont rx3) seq \<le> win rx"
  proof -
    have "seq_dist (seq - seq_window_size rx) seq = win rx" by (simp add: seq_dist_def win_def)
    then show ?thesis
      using update_last_cont_dist [of "?rx2\<lparr>last_cont := seq - seq_window_size rx\<rparr>"] W
      by (auto simp: rx3_def b seq_dist_def win_def word_less_nat_alt)
  qed
  moreover have "rx' = (rx_set seq rx3)\<lparr>stat_rtp_received := stat_rtp_received (rx_set seq rx3) + 1\<rparr>"
    using act new by (simp add: rx'_def mt_rtcp_rx_parse_rtp_packet_def Let_def rx1_def [symmetric] rx3_def b)
  moreover have "rx_same (rx_set seq rx3) ((rx_set seq rx3)\<lparr>stat_rtp_received := stat_rtp_received (rx_set seq rx3) + 1\<rparr>)"
    by (simp add: rx_same_def)
  moreover have "win rx1 = win rx" by (simp add: b win_def)
  ultimately show ?thesis
    using C same3 rx_same_set [OF same3(1), of seq] newer_bits [OF wf new, folded rx1_def] act
    by (simp add: rx_inv_def rx_same_wf rx_same_test rx_set_wf)
qed

text \<open>One packet of the window, or a duplicate.\<close>

lemma parse_older:
  fixes rx seq ssrc
  assumes inv: "rx_inv rx" and old: "seq_dist seq (last_seq rx) < win rx"
  defines "rx' \<equiv> mt_rtcp_rx_parse_rtp_packet rx seq ssrc"
  shows "rx_inv rx' \<and> last_seq rx' = last_seq rx \<and> win rx' = win rx \<and>
    (\<forall>t. seq_dist t (last_seq rx) < win rx \<longrightarrow> rx_test rx' t = (t = seq \<or> rx_test rx t))"
proof -
  have wf: "rx_wf rx" and act: "rx_active rx" "rx_ssrc rx \<noteq> 0" using inv by (auto simp: rx_inv_def)
  have W: "win rx < 32768" using wf by (simp add: rx_wf_def)
  have cmp: "\<not> rtp_seq_num_cmp seq (last_seq rx) > 0" using old W by (simp add: seq_cmp_iffs)
  define rx3 where "rx3 = (if rtp_seq_num_cmp seq (last_seq rx) < 0 \<and> follows_last_cont seq rx
      then rtcp_rx_update_last_cont (rx\<lparr>last_cont := seq\<rparr>) else rx)"
  have same3: "rx_same rx rx3" "last_seq rx3 = last_seq rx" "rx_ssrc rx3 = rx_ssrc rx" "rx_active rx3"
    using act update_last_cont_same [of "rx\<lparr>last_cont := seq\<rparr>"] by (auto simp: rx3_def rx_same_def)
  have "seq_dist (last_cont rx3) (last_seq rx) \<le> win rx"
    using inv old update_last_cont_dist [of "rx\<lparr>last_cont := seq\<rparr>"] W by (auto simp: rx3_def rx_inv_def)
  moreover have "rx' = (rx_set seq rx3)\<lparr>stat_rtp_received := stat_rtp_received (rx_set seq rx3) + 1\<rparr>"
    using act cmp by (simp add: rx'_def mt_rtcp_rx_parse_rtp_packet_def Let_def rx3_def)
  moreover have "rx_same (rx_set seq rx3) ((rx_set seq rx3)\<lparr>stat_rtp_received := stat_rtp_received (rx_set seq rx3) + 1\<rparr>)"
    by (simp add: rx_same_def)
  moreover have "rx_idx rx t = rx_idx rx seq \<longleftrightarrow> t = seq" if "seq_dist t (last_seq rx) < win rx" for t
    using rx_idx_inj [OF wf that old] by blast
  ultimately show ?thesis
    using wf same3 rx_same_set [OF same3(1), of seq] rx_test_set [OF wf, of seq] act
    by (simp add: rx_inv_def rx_same_wf rx_same_test rx_set_wf)
qed


definition demo_rx :: mt_rtcp_rx where
  "demo_rx = \<lparr>nacks_send_interval = 10, rx_ssrc = 7, rx_active = True, nacks_send_time = 0,
     last_seq = 65534, last_cont = 65534, seq_bitmap = Some [0, 0x40], seq_bitmap_size = 2,
     seq_window_size = 16, seq_skip_window = 0, stat_rtp_received = 1, stat_rtp_lost_detected = 0,
     stat_nack_sent = 0, stat_nack_drop_exceed = 0\<rparr>"

lemma demo_rx_inv: "rx_inv demo_rx"
  by (simp add: rx_inv_def rx_wf_def bitmap_wf_def demo_rx_def win_def)


text \<open>A packet older than the window marks the number of the window that shares its bit.\<close>

lemma late_packet_aliases:
  assumes "rx_inv rx" and "win rx \<le> seq_dist seq (last_seq rx)" "seq_dist seq (last_seq rx) < 32768"
  shows "\<exists>s. seq_dist s (last_seq rx) < win rx \<and> s \<noteq> seq \<and>
    s \<in> rx_arrived (rx_set seq rx)"
proof -
  have wf: "rx_wf rx" and W: "0 < win rx" using assms(1) by (auto simp: rx_inv_def rx_wf_def)
  define d where "d = seq_dist seq (last_seq rx) mod win rx"
  define s where "s = last_seq rx - of_nat d"
  have d: "d < win rx" "d \<le> seq_dist seq (last_seq rx)" using W by (simp_all add: d_def)
  then have d2: "d < 65536" using assms(3) by linarith
  have ds: "seq_dist s (last_seq rx) = d"
    unfolding s_def seq_dist_def using unat_of_nat_small [of d, where ?'a = 16] d2 by simp
  then have "seq_dist seq s = seq_dist seq (last_seq rx) - d" using seq_dist_diff [of s "last_seq rx" seq] d(2) by simp
  then have "seq_dist seq s mod win rx = 0" by (simp add: d_def minus_mod_eq_mult_div)
  then have "rx_idx rx s = rx_idx rx seq" using rx_idx_eq_iff [OF wf, of seq s] by simp
  then have "rx_test (rx_set seq rx) s" using rx_test_set [OF wf] by simp
  moreover have "s \<noteq> seq" using ds d(1) assms(2) by auto
  ultimately show ?thesis using ds d(1) by (auto simp: rx_arrived_def)
qed

section \<open>What a NACK asks for\<close>

text \<open>The numbers from \<open>a\<close> to \<open>b\<close>, and those an FCI names.\<close>

definition seq_upto :: "u16 \<Rightarrow> u16 \<Rightarrow> u16 list" where
  "seq_upto a b = map (\<lambda>i. a + of_nat i) [0..<seq_dist a b + 1]"

definition fci_seqs :: "mt_rtcp_fci \<Rightarrow> u16 list" where
  "fci_seqs f = map (\<lambda>i. fci_start f + of_nat i) [0..<unat (fci_follow f) + 1]"

definition nack_seqs :: "mt_rtcp_fci list \<Rightarrow> u16 list" where
  "nack_seqs fcis = concat (map fci_seqs fcis)"

lemma seq_upto_self: "seq_upto a a = [a]"
  by (simp add: seq_upto_def)

lemma seq_upto_Cons: "a \<noteq> b \<Longrightarrow> seq_upto a b = a # seq_upto (a + 1) b"
proof -
  assume ne: "a \<noteq> b"
  then have "seq_dist a b + 1 = Suc (seq_dist (a + 1) b + 1)"
    using seq_dist_Suc [OF ne] by (metis Suc_eq_plus1 Suc_pred neq0_conv seq_dist_0 diff_Suc_1)
  then show ?thesis
    unfolding seq_upto_def by (simp only: map_upt_Suc) (simp add: add.assoc add.commute)
qed

lemma run_snoc: "map (\<lambda>i. a + of_nat i) [0..<n] @ [a + of_nat n] = map (\<lambda>i. a + of_nat i :: u16) [0..<Suc n]"
  by simp

lemma seq_past_end: "seq_dist (e + 1) e = 65535"
  using seq_dist_swap [of e "e + 1"] seq_dist_add [of 1 e] by simp

text \<open>The scan reports the run it is in and every missing number up to the end, in order.\<close>

lemma nack_scan_past: "nack_scan tst e (e + 1) start miss fcis lost = (True, fcis, lost)"
  by (subst nack_scan.simps) (simp add: seq_cmp_iffs seq_past_end)

lemma nack_scan_spec:
  assumes "nack_scan tst e seq start miss fcis lost = (True, fcis', lost')" and "tst e"
    and "seq_dist seq e < 32768" and "seq = start + miss" and "unat miss + seq_dist seq e < 32768"
  shows "nack_seqs fcis' = nack_seqs fcis @ map (\<lambda>i. start + of_nat i) [0..<unat miss] @
      filter (\<lambda>s. \<not> tst s) (seq_upto seq e)"
  using assms
proof (induction tst e seq start miss fcis lost rule: nack_scan.induct)
  case (1 tst e seq start miss fcis lost)
  have cmp: "rtp_seq_num_cmp seq e \<le> 0" using "1.prems"(3) by (simp add: seq_cmp_iffs)
  have run: "nack_seqs (fcis @ [\<lparr>fci_start = start, fci_follow = miss - 1\<rparr>]) =
      nack_seqs fcis @ map (\<lambda>i. start + of_nat i) [0..<unat miss]" if "miss \<noteq> 0"
  proof -
    have "0 < unat miss" using that by (simp add: unat_gt_0)
    then have "unat (miss - 1) + 1 = unat miss" using unat_minus_one [OF that] by linarith
    then show ?thesis by (simp add: nack_seqs_def fci_seqs_def)
  qed
  show ?case
  proof (cases "seq = e")
    case True
    show ?thesis
    proof (cases "miss = 0")
      case True
      then show ?thesis using "1.prems"(1,2) \<open>seq = e\<close> cmp
        by (subst (asm) nack_scan.simps) (simp add: seq_upto_self nack_scan_past)
    next
      case False
      then show ?thesis using "1.prems"(1,2) \<open>seq = e\<close> cmp run
        by (subst (asm) nack_scan.simps)
          (simp add: seq_upto_self nack_scan_past Let_def split: if_splits)
    qed
  next
    case False
    have d: "seq_dist (seq + 1) e = seq_dist seq e - 1" using False by (rule seq_dist_Suc)
    have pos: "0 < seq_dist seq e" using False by (metis seq_dist_0 neq0_conv)
    have small: "seq_dist (seq + 1) e < 32768" using d "1.prems"(3) by simp
    note up = seq_upto_Cons [OF False]
    show ?thesis
    proof (cases "tst seq")
      case miss_seq: False
      have um: "unat (miss + 1) = unat miss + 1" using "1.prems"(5) unat_add_small [of miss 1] by simp
      have step: "nack_scan tst e (seq + 1) start (miss + 1) fcis lost = (True, fcis', lost')"
        using "1.prems"(1) miss_seq cmp by (subst (asm) nack_scan.simps) simp
      have "unat (miss + 1) + seq_dist (seq + 1) e < 32768" using um d pos "1.prems"(5) by linarith
      moreover have "seq + 1 = start + (miss + 1)" using "1.prems"(4) by (simp add: add.assoc)
      ultimately have "nack_seqs fcis' = nack_seqs fcis @ map (\<lambda>i. start + of_nat i) [0..<unat (miss + 1)] @
          filter (\<lambda>s. \<not> tst s) (seq_upto (seq + 1) e)"
        using "1.IH"(1) [OF cmp miss_seq step "1.prems"(2) small] by blast
      moreover have "seq = start + of_nat (unat miss)" using "1.prems"(4) by simp
      moreover have "filter (\<lambda>s. \<not> tst s) (seq_upto seq e) = seq # filter (\<lambda>s. \<not> tst s) (seq_upto (seq + 1) e)"
        using miss_seq by (simp add: up)
      ultimately show ?thesis by (simp add: um)
    next
      case hit: True
      have z: "unat (0 :: u16) + seq_dist (seq + 1) e < 32768" using small by simp
      show ?thesis
      proof (cases "miss = 0")
        case True
        then have step: "nack_scan tst e (seq + 1) (seq + 1) miss fcis lost = (True, fcis', lost')"
          using "1.prems"(1) hit cmp by (subst (asm) nack_scan.simps) simp
        show ?thesis
          using "1.IH"(3) [OF cmp _ _ step "1.prems"(2) small] hit True z by (simp add: up)
      next
        case m: False
        let ?fcis = "fcis @ [\<lparr>fci_start = start, fci_follow = miss - 1\<rparr>]"
        have room: "\<not> MT_RTCP_MAX_FCIS \<le> length ?fcis"
          and step: "nack_scan tst e (seq + 1) (seq + 1) 0 ?fcis (lost + ucast miss) = (True, fcis', lost')"
          using "1.prems"(1) hit cmp m
          by (subst (asm) nack_scan.simps, simp add: Let_def split: if_splits)+
        show ?thesis
          using "1.IH"(2) [OF cmp _ m refl room step "1.prems"(2) small _ z] hit run [OF m] by (simp add: up)
      qed
    qed
  qed
qed

lemma nack_scan_length:
  "nack_scan tst e seq start miss fcis lost = (True, fcis', lost') \<Longrightarrow> length fcis < 256 \<Longrightarrow> length fcis' < 256"
proof (induction tst e seq start miss fcis lost rule: nack_scan.induct)
  case (1 tst e seq start miss fcis lost)
  from "1.prems" show ?case
    by (subst (asm) nack_scan.simps) (auto simp: Let_def split: if_splits intro: "1.IH")
qed

text \<open>The missing numbers after the last continuous one.\<close>

definition rx_missing :: "mt_rtcp_rx \<Rightarrow> u16 list" where
  "rx_missing rx = (if last_cont rx = last_seq rx then []
     else filter (\<lambda>s. s \<notin> rx_arrived rx) (seq_upto (last_cont rx + 1) (last_seq rx)))"

lemma set_seq_upto: "s \<in> set (seq_upto a b) \<longleftrightarrow> seq_dist a s \<le> seq_dist a b"
proof
  assume "s \<in> set (seq_upto a b)"
  then obtain i where "i \<in> set [0..<seq_dist a b + 1]" and i: "s = a + of_nat i"
    unfolding seq_upto_def set_map by (elim imageE)
  then have le: "i \<le> seq_dist a b" by auto
  then have "i < 65536" using seq_dist_lt [of a b] by linarith
  then show "seq_dist a s \<le> seq_dist a b" using le unfolding i by (simp add: seq_dist_add)
next
  assume "seq_dist a s \<le> seq_dist a b"
  then have "seq_dist a s \<in> set [0..<seq_dist a b + 1]" by auto
  then show "s \<in> set (seq_upto a b)" unfolding seq_upto_def using seq_dist_of [of a s] by (metis image_eqI image_set)
qed

lemma upto_in_window: "seq_dist a s \<le> seq_dist a b \<Longrightarrow> seq_dist s b \<le> seq_dist a b"
  using unat_sub [of "s - a" "b - a"] by (simp add: seq_dist_def word_le_nat_alt)

text \<open>With no skip window and the newest packet recorded, the scan runs over the window as it is.\<close>

lemma nack_scan_missing:
  assumes inv: "rx_inv rx" and arr: "last_seq rx \<in> rx_arrived rx"
    and scan: "nack_scan (rx_test rx) (last_seq rx) (last_cont rx + 1) (last_cont rx + 1) 0 [] lost = (True, fcis, lost')"
  shows "nack_seqs fcis = rx_missing rx"
proof (cases "last_cont rx = last_seq rx")
  case True
  then show ?thesis using scan by (simp add: nack_scan_past rx_missing_def nack_seqs_def)
next
  case False
  let ?a = "last_cont rx + 1" and ?l = "last_seq rx"
  have W: "win rx < 32768" "seq_dist (last_cont rx) ?l \<le> win rx" using inv by (auto simp: rx_inv_def rx_wf_def)
  have "0 < seq_dist (last_cont rx) ?l" using False by (metis seq_dist_0 neq0_conv)
  then have d: "seq_dist ?a ?l < win rx" using seq_dist_Suc [OF False] W by linarith
  have "nack_seqs fcis = filter (\<lambda>s. \<not> rx_test rx s) (seq_upto ?a ?l)"
    using nack_scan_spec [OF scan, simplified] arr d W by (simp add: rx_arrived_def nack_seqs_def)
  also have "\<dots> = filter (\<lambda>s. s \<notin> rx_arrived rx) (seq_upto ?a ?l)"
  proof (rule filter_cong [OF refl])
    fix s assume "s \<in> set (seq_upto ?a ?l)"
    then have "seq_dist s ?l < win rx" using upto_in_window [of ?a s ?l] d by (simp add: set_seq_upto)
    then show "(\<not> rx_test rx s) = (s \<notin> rx_arrived rx)" by (simp add: rx_arrived_def)
  qed
  finally show ?thesis using False by (simp add: rx_missing_def)
qed

lemma rx_set_arrived:
  assumes "rx_wf rx" and "rx_test rx s"
  shows "fst (mt_bitmap_test_and_set (seq_bitmap rx) (unat (seq_bitmap_size rx)) (rx_idx rx s)) \<and> rx_set s rx = rx"
proof -
  have v: "bitmap_idx_valid (seq_bitmap rx) (unat (seq_bitmap_size rx)) (rx_idx rx s)"
    using rx_idx_range [OF assms(1), of s] assms(1) by (auto simp: bitmap_idx_valid_iff rx_wf_def bitmap_wf_def)
  then have "mt_bitmap_test_and_set (seq_bitmap rx) (unat (seq_bitmap_size rx)) (rx_idx rx s) = (True, seq_bitmap rx)"
    using assms(2) by (simp add: rx_test_def mt_bitmap_test_def mt_bitmap_test_and_set_def Let_def)
  then show ?thesis by (simp add: rx_set_def)
qed


lemmas rx_eval = demo_rx_def rx_test_def rx_set_def rx_unset_def rx_idx_def mt_bitmap_test_def mt_bitmap_test_and_set_def
  mt_bitmap_test_and_unset_def bitmap_idx_valid_def Let_def rtp_seq_num_cmp_def

text \<open>After 65534 packet 1 arrives, and 65535 and 0 are asked for again.\<close>

lemma demo_rx_parse:
  "mt_rtcp_rx_parse_rtp_packet demo_rx 1 7 =
     demo_rx\<lparr>last_seq := 1, seq_bitmap := Some [2, 0x40], stat_rtp_received := 2\<rparr>"
  by (simp add: rx_eval clear_missing.simps mt_rtcp_rx_parse_rtp_packet_def)

lemma demo_rx_nack:
  "fst (snd (mt_rtcp_rx_send_nack_packet 5 True True (mt_rtcp_rx_parse_rtp_packet demo_rx 1 7))) =
     Some (rtcp_bytes_of 0x80 204 3 7 [\<lparr>fci_start = 65535, fci_follow = 1\<rparr>])"
  unfolding demo_rx_parse by (simp add: rx_eval nack_scan.simps mt_rtcp_rx_send_nack_packet_def)


text \<open>The skip window of the options is never used: a created receiver scans up to its newest packet.\<close>

lemma rtcp_skip_window_ignored:
  "mt_rtcp_rx_create struct_ok bitmap_ok tsc ops = Some rx \<Longrightarrow> seq_skip_window rx = 0"
  by (auto simp: mt_rtcp_rx_create_def split: if_splits)

text \<open>At 65535 the test for the next number fails where the numbers wrap.\<close>

lemma follows_last_cont_wrap: "last_cont rx = 65535 \<Longrightarrow> \<not> follows_last_cont seq rx"
  using uint_lt2p [of seq] by (simp add: follows_last_cont_def)

end
