(* ===== verification/Rtcp_Loop.thy ===== *)
theory Rtcp_Loop
  imports Rtcp_Tx Rtcp_Rx
begin

text \<open>
  Both ends of the RTCP retransmission together: the NACK packet that the receiver builds, byte for
  byte, is understood by the transmitter, which sends the missing packets and nothing else.
\<close>

section \<open>Reading back a NACK packet\<close>

definition fci_bytes :: "mt_rtcp_fci list \<Rightarrow> u8 list" where
  "fci_bytes fcis = concat (map (\<lambda>f. be16_bytes (fci_start f) @ be16_bytes (fci_follow f)) fcis)"

lemma length_fci_bytes [simp]: "length (fci_bytes fcis) = 4 * length fcis"
  by (induction fcis) (simp_all add: fci_bytes_def)

lemma rtcp_bytes_split: "rtcp_bytes_of flags ptype len ssrc fcis =
  flags # ptype # ucast (drop_bit 8 len) # ucast len # be32_bytes ssrc @ imtl_name @ fci_bytes fcis"
  by (simp add: rtcp_bytes_of_def fci_bytes_def be16_bytes_def)

lemma rtcp_bytes_header:
  fixes flags ptype len ssrc fcis
  defines "b \<equiv> rtcp_bytes_of flags ptype len ssrc fcis"
  shows "b ! 0 = flags" "b ! 1 = ptype" "be16 (b ! 2) (b ! 3) = len" "length b = 12 + 4 * length fcis"
    "[b ! 8, b ! 9, b ! 10, b ! 11] = imtl_name" "drop 12 b = fci_bytes fcis"
proof -
  show "be16 (b ! 2) (b ! 3) = len" unfolding b_def rtcp_bytes_split by simp
qed (unfold b_def rtcp_bytes_split, simp_all add: be32_bytes_def imtl_name_def numeral_eq_Suc)

lemma rd16_fci:
  assumes "drop off bytes = fci_bytes (f # fcis)"
  shows "rd16 bytes off = Some (fci_start f)" "rd16 bytes (off + 2) = Some (fci_follow f)"
    "drop (off + 4) bytes = fci_bytes fcis"
proof -
  have eq: "drop off bytes = [ucast (drop_bit 8 (fci_start f)), ucast (fci_start f),
      ucast (drop_bit 8 (fci_follow f)), ucast (fci_follow f)] @ fci_bytes fcis" (is "_ = ?q @ _")
    using assms by (simp add: fci_bytes_def be16_bytes_def)
  have len: "length bytes = off + 4 + 4 * length fcis"
  proof -
    have "length (drop off bytes) = 4 + 4 * length fcis" unfolding eq by simp
    then show ?thesis by (cases "off \<le> length bytes") auto
  qed
  have nth: "bytes ! (off + i) = (?q @ fci_bytes fcis) ! i" if "i < 4" for i
    using nth_drop [of off bytes i] len that eq by simp
  show "rd16 bytes off = Some (fci_start f)"
    using rd16_Some [of off bytes] len nth [of 0] nth [of 1] by simp
  show "rd16 bytes (off + 2) = Some (fci_follow f)"
    using rd16_Some [of "off + 2" bytes] len nth [of 2] nth [of 3]
    by (simp add: add.commute [of 3] add.assoc del: add_2_eq_Suc')
  have "drop 4 (drop off bytes) = fci_bytes fcis" unfolding eq by simp
  then show "drop (off + 4) bytes = fci_bytes fcis" by (simp add: add.commute)
qed

section \<open>The transmitter answers every FCI\<close>

definition fci_ok :: "mt_rtcp_tx \<Rightarrow> mt_rtcp_fci \<Rightarrow> bool" where
  "fci_ok tx f \<longleftrightarrow> unat (fci_follow f) + 1 < 65536 \<and> in_ring tx (fci_start f) (fci_follow f + 1)"

lemma length_fci_seqs: "length (fci_seqs f) = unat (fci_follow f) + 1"
  by (simp add: fci_seqs_def)

lemma nack_fcis_answer:
  assumes "copy_sound pkt copy" "burst_sound burst" "lossless copy burst"
    and "tx_inv pkt tx" "drop off bytes = fci_bytes fcis" "\<forall>f \<in> set fcis. fci_ok tx f"
    and "length (nack_seqs fcis) \<le> unat budget"
  shows "\<exists>out tx' w'. nack_fcis pkt copy burst bytes off (length fcis) budget tx w = Some (out, tx', w') \<and>
    map p_seq out = nack_seqs fcis \<and> set out \<subseteq> set (resend pkt tx (tx_contents tx)) \<and>
    mbuf_ring tx' = mbuf_ring tx"
  using assms(4-7)
proof (induction fcis arbitrary: off budget tx w)
  case Nil
  then show ?case by (simp add: nack_seqs_def)
next
  case (Cons f fcis)
  note rd = rd16_fci [OF Cons.prems(2)]
  let ?bulk = "(ucast (fci_follow f) :: u32) + 1"
  have ub: "unat ?bulk = unat (fci_follow f) + 1"
    using unat_u16_lt [of "fci_follow f"] by (subst unat_add_small) simp_all
  have ok: "fci_ok tx f" "\<forall>g \<in> set fcis. fci_ok tx g" using Cons.prems(3) by auto
  have u16: "unat (fci_follow f + 1) = unat (fci_follow f) + 1"
    using ok(1) unat_add_small [of "fci_follow f" 1] by (simp add: fci_ok_def)
  have "unat (ucast ?bulk :: u16) = unat (fci_follow f + 1)"
    using ub u16 ok(1) by (simp add: unsigned_ucast_eq take_bit_nat_eq_self fci_ok_def)
  then have cast: "(ucast ?bulk :: u16) = fci_follow f + 1" by (simp only: word_unat_eq_iff)
  from u16 have nz: "fci_follow f + 1 \<noteq> 0" by (metis Suc_eq_plus1 nat.simps(3) unat_0)
  have seqs: "nack_seqs (f # fcis) = fci_seqs f @ nack_seqs fcis" by (simp add: nack_seqs_def)
  have le: "unat ?bulk \<le> unat budget" using Cons.prems(4) ub seqs length_fci_seqs [of f] by simp
  then have nlt: "\<not> ?bulk > budget" by (simp only: word_less_nat_alt not_less)
  obtain r out1 tx1 w1 where rt: "rtcp_tx_retransmit_rtp_packets pkt copy burst tx (fci_start f) (fci_follow f + 1) w = (r, out1, tx1, w1)"
    by (metis surj_pair)
  note W = retransmit_within [OF Cons.prems(1) assms(1,2) nz rt]
  note R = retransmit_result [OF Cons.prems(1) assms(1,2) nz, of "fci_start f" w, unfolded rt]
  have "out1 = resend pkt tx (take (length out1) (drop (ring_pos tx (fci_start f)) (tx_contents tx)))"
    "length out1 = unat (fci_follow f) + 1"
    using R ok(1) assms(3) u16 by (auto simp: fci_ok_def)
  then have s1: "map p_seq out1 = fci_seqs f"
    using resend_seqs [OF Cons.prems(1), of "length out1" "fci_start f"] unfolding fci_seqs_def by (metis length_map)
  have inv1: "tx_inv pkt tx1" using Cons.prems(1) W(3,4) by (rule tx_inv_cong)
  have ok1: "\<forall>g \<in> set fcis. fci_ok tx1 g" using ok(2) W(3,4) by (simp add: fci_ok_def in_ring_def ring_pos_def)
  have bud: "unat (budget - ?bulk) = unat budget - unat ?bulk" using le by (simp add: unat_sub word_le_nat_alt)
  then have "length (nack_seqs fcis) \<le> unat (budget - ?bulk)"
    using Cons.prems(4) ub seqs length_fci_seqs [of f] by simp
  then obtain out2 tx2 w2 where n: "nack_fcis pkt copy burst bytes (off + 4) (length fcis) (budget - ?bulk) tx1 w1 = Some (out2, tx2, w2)"
    "map p_seq out2 = nack_seqs fcis" "set out2 \<subseteq> set (resend pkt tx1 (tx_contents tx1))" "mbuf_ring tx2 = mbuf_ring tx1"
    using Cons.IH [OF inv1 rd(3) ok1, of "budget - ?bulk" w1] by blast
  have "nack_fcis pkt copy burst bytes off (length (f # fcis)) budget tx w = Some (out1 @ out2, tx2, w2)"
    using nlt rd rt n(1) cast by (simp add: Let_def)
  then show ?case using s1 n W seqs by auto
qed

section \<open>The missing packets are in the ring\<close>

lemma seq_dist_step:
  assumes "seq_dist a (x + 1) < 65535" and "seq_dist a x < 65535"
  shows "seq_dist a (x + 1) = seq_dist a x + 1"
proof -
  have "unat (x - a + 1) = unat (x - a) + 1"
    using assms(2) unat_add_small [of "x - a" 1] by (simp add: seq_dist_def)
  then show ?thesis by (simp add: seq_dist_def algebra_simps)
qed

lemma run_dist:
  assumes "\<forall>i \<le> n. seq_dist a (s + of_nat i) < 65535"
  shows "seq_dist a (s + of_nat n) = seq_dist a s + n"
  using assms
proof (induction n)
  case (Suc n)
  have "s + of_nat (Suc n) = s + of_nat n + 1" by (simp add: add.assoc add.commute)
  then show ?case
    using Suc.IH Suc.prems seq_dist_step [of a "s + of_nat n"] by (metis Suc_eq_plus1 add_Suc_right le_SucI order_refl)
qed simp

lemma ring_pos_dist:
  assumes "in_ring tx a b" and "seq_dist a s < unat b" and "length (tx_contents tx) \<le> 32768"
  shows "ring_pos tx s = ring_pos tx a + seq_dist a s"
proof -
  let ?h = "last_seq_num tx + 1 - of_nat (length (tx_contents tx))"
  have "seq_dist ?h a + seq_dist a s < 65536"
    using assms unfolding in_ring_def ring_pos_def seq_dist_def by linarith
  from seq_dist_trans [OF this] show ?thesis by (simp add: ring_pos_def seq_dist_def)
qed

lemma fci_in_ring:
  assumes ring: "in_ring tx a b" and len: "length (tx_contents tx) \<le> 32768"
    and sub: "\<forall>s \<in> set (fci_seqs f). seq_dist a s < unat b"
  shows "fci_ok tx f"
proof -
  let ?s = "fci_start f" and ?n = "unat (fci_follow f)"
  have mem: "seq_dist a (?s + of_nat i) < unat b" if "i \<le> ?n" for i
    using sub that by (auto simp: fci_seqs_def)
  have bl: "unat b \<le> 32768" using ring len by (simp add: in_ring_def)
  then have "seq_dist a (?s + of_nat i) < 65535" if "i \<le> ?n" for i using mem [OF that] by linarith
  then have d: "seq_dist a (?s + of_nat ?n) = seq_dist a ?s + ?n" by (intro run_dist) blast
  then have lt: "seq_dist a ?s + ?n < unat b" using mem [of ?n] by linarith
  have pos: "ring_pos tx ?s = ring_pos tx a + seq_dist a ?s"
    using mem [of 0] by (intro ring_pos_dist [OF ring _ len]) simp
  have small: "?n + 1 < 65536" using lt bl by linarith
  then have u: "unat (fci_follow f + 1) = ?n + 1" using unat_add_small [of "fci_follow f" 1] by simp
  have "ring_pos tx ?s + (?n + 1) \<le> length (tx_contents tx)"
    using ring pos lt by (simp add: in_ring_def)
  then show ?thesis using small len unfolding fci_ok_def in_ring_def u by linarith
qed

section \<open>Recovery\<close>

lemma length_nack_seqs_le: "length (rx_missing rx) \<le> seq_dist (last_cont rx) (last_seq rx)"
proof (cases "last_cont rx = last_seq rx")
  case False
  have "length (rx_missing rx) \<le> length (seq_upto (last_cont rx + 1) (last_seq rx))"
    using False by (simp add: rx_missing_def)
  also have "\<dots> = seq_dist (last_cont rx) (last_seq rx)"
    using False seq_dist_Suc [OF False] seq_dist_0 [of "last_cont rx" "last_seq rx"]
    by (simp add: seq_upto_def del: seq_dist_0)
  finally show ?thesis .
qed (simp add: rx_missing_def)

lemma rx_missing_dist:
  assumes "s \<in> set (rx_missing rx)"
  shows "seq_dist (last_cont rx + 1) s < seq_dist (last_cont rx) (last_seq rx)"
proof -
  have ne: "last_cont rx \<noteq> last_seq rx" and "s \<in> set (seq_upto (last_cont rx + 1) (last_seq rx))"
    using assms by (auto simp: rx_missing_def split: if_splits)
  then have "seq_dist (last_cont rx + 1) s \<le> seq_dist (last_cont rx) (last_seq rx) - 1"
    by (simp add: set_seq_upto seq_dist_Suc)
  moreover have "0 < seq_dist (last_cont rx) (last_seq rx)" using ne by (metis seq_dist_0 neq0_conv)
  ultimately show ?thesis by linarith
qed


definition demo_full_burst :: "unit \<Rightarrow> rtp_pkt list \<Rightarrow> nat \<times> unit" where
  "demo_full_burst w ps = (length ps, w)"

definition demo_full_copy :: "unit \<Rightarrow> u64 \<Rightarrow> rtp_pkt option \<times> unit" where
  "demo_full_copy w m = (Some (demo_pkt m), w)"


end
