(* ===== verification/Handle_Guard.thy ===== *)
theory Handle_Guard
  imports MTL_Prelude
begin

text \<open>
  The life-cycle gate of public session handles (\<^verbatim>\<open>lib/src/mt_handle_guard.h\<close>). The sequential
  meaning of \<open>mt_handle_acquire\<close>, \<open>mt_handle_release\<close> and \<open>mt_handle_begin_destroy\<close> is a function
  on the three fields of a handle. Their concurrent meaning is a step relation: the program counter
  of every thread and one step per atomic operation, in the order of the code. All four operations
  of the gate are sequentially consistent in the code, so their interleavings are the executions.
  The 32-bit reference count is a number here: it counts threads.
\<close>

section \<open>The operations of one thread\<close>

record 't handle =
  h_type :: 't
  lc_destroying :: bool
  lc_refcnt :: nat

definition mt_handle_acquire :: "'t \<Rightarrow> 't handle \<Rightarrow> unit res \<times> 't handle" where
  "mt_handle_acquire want h =
     (if h_type h \<noteq> want then (Inl EIO, h)
      else if lc_destroying h then (Inl EIO, h)
      else
        let h1 = h\<lparr>lc_refcnt := lc_refcnt h + 1\<rparr> in
        if lc_destroying h1 then (Inl EIO, h1\<lparr>lc_refcnt := lc_refcnt h1 - 1\<rparr>)
        else (Inr (), h1))"

definition mt_handle_release :: "'t handle \<Rightarrow> 't handle" where
  "mt_handle_release h = h\<lparr>lc_refcnt := lc_refcnt h - 1\<rparr>"

definition mt_handle_begin_destroy :: "'t \<Rightarrow> 't handle \<Rightarrow> unit res \<times> 't handle" where
  "mt_handle_begin_destroy want h =
     (if h_type h \<noteq> want then (Inl EIO, h)
      else if lc_destroying h then (Inl EBUSY, h)
      else (Inr (), h\<lparr>lc_destroying := True\<rparr>))"

section \<open>Interleavings\<close>

text \<open>
  Where a thread is: outside; inside \<open>mt_handle_acquire\<close> before the increment, before the second
  load, before the decrement that undoes it; in the body of the guarded call; past the claim of
  \<open>mt_handle_begin_destroy\<close>, spinning in \<open>mt_handle_drain\<close>; tearing down and freeing.
\<close>

datatype pc = Outside | Before_Inc | Before_Load | Before_Undo | In_Body | Draining | Freed

record 't system =
  hdl :: "'t handle"
  pcs :: "nat \<Rightarrow> pc"

definition goto :: "nat \<Rightarrow> pc \<Rightarrow> 't system \<Rightarrow> 't system" where
  "goto t p s = s\<lparr>pcs := (pcs s)(t := p)\<rparr>"

definition inc_ref :: "'t system \<Rightarrow> 't system" where
  "inc_ref s = s\<lparr>hdl := (hdl s)\<lparr>lc_refcnt := lc_refcnt (hdl s) + 1\<rparr>\<rparr>"

definition dec_ref :: "'t system \<Rightarrow> 't system" where
  "dec_ref s = s\<lparr>hdl := (hdl s)\<lparr>lc_refcnt := lc_refcnt (hdl s) - 1\<rparr>\<rparr>"

inductive guard_step :: "'t \<Rightarrow> 't system \<Rightarrow> 't system \<Rightarrow> bool" for want where
  acq_reject: "pcs s t = Outside \<Longrightarrow> h_type (hdl s) \<noteq> want \<or> lc_destroying (hdl s) \<Longrightarrow> guard_step want s s"
| acq_check: "pcs s t = Outside \<Longrightarrow> h_type (hdl s) = want \<Longrightarrow> \<not> lc_destroying (hdl s) \<Longrightarrow>
    guard_step want s (goto t Before_Inc s)"
| acq_inc: "pcs s t = Before_Inc \<Longrightarrow> guard_step want s (goto t Before_Load (inc_ref s))"
| acq_dying: "pcs s t = Before_Load \<Longrightarrow> lc_destroying (hdl s) \<Longrightarrow> guard_step want s (goto t Before_Undo s)"
| acq_alive: "pcs s t = Before_Load \<Longrightarrow> \<not> lc_destroying (hdl s) \<Longrightarrow> guard_step want s (goto t In_Body s)"
| acq_undo: "pcs s t = Before_Undo \<Longrightarrow> guard_step want s (goto t Outside (dec_ref s))"
| release: "pcs s t = In_Body \<Longrightarrow> guard_step want s (goto t Outside (dec_ref s))"
| destroy_lost: "pcs s t = Outside \<Longrightarrow> h_type (hdl s) \<noteq> want \<or> lc_destroying (hdl s) \<Longrightarrow> guard_step want s s"
| destroy_won: "pcs s t = Outside \<Longrightarrow> h_type (hdl s) = want \<Longrightarrow> \<not> lc_destroying (hdl s) \<Longrightarrow>
    guard_step want s (goto t Draining (s\<lparr>hdl := (hdl s)\<lparr>lc_destroying := True\<rparr>\<rparr>))"
| drain_spin: "pcs s t = Draining \<Longrightarrow> lc_refcnt (hdl s) > 0 \<Longrightarrow> guard_step want s s"
| drain_done: "pcs s t = Draining \<Longrightarrow> lc_refcnt (hdl s) = 0 \<Longrightarrow> guard_step want s (goto t Freed s)"

definition created :: "'t \<Rightarrow> 't system" where
  "created ty = \<lparr>hdl = \<lparr>h_type = ty, lc_destroying = False, lc_refcnt = 0\<rparr>, pcs = (\<lambda>_. Outside)\<rparr>"

inductive guard_reach :: "'t \<Rightarrow> 't system \<Rightarrow> bool" for want where
  init: "guard_reach want (created ty)"
| step: "guard_reach want s \<Longrightarrow> guard_step want s s' \<Longrightarrow> guard_reach want s'"

section \<open>Reference counts\<close>

definition holders :: "'t system \<Rightarrow> nat set" where
  "holders s = {t. pcs s t \<in> {Before_Load, Before_Undo, In_Body}}"

definition destroyers :: "'t system \<Rightarrow> nat set" where
  "destroyers s = {t. pcs s t \<in> {Draining, Freed}}"

text \<open>The count is the number of threads between their increment and decrement, at most one thread
  destroys, and it does only after the flag is set; once freed, nobody is in a body.\<close>

definition guard_inv :: "'t system \<Rightarrow> bool" where
  "guard_inv s \<longleftrightarrow> finite (holders s) \<and> lc_refcnt (hdl s) = card (holders s) \<and>
     finite (destroyers s) \<and> card (destroyers s) = (if lc_destroying (hdl s) then 1 else 0) \<and>
     ((\<exists>t. pcs s t = Freed) \<longrightarrow> (\<forall>u. pcs s u \<noteq> In_Body))"

lemma holders_goto: "holders (goto t p s) = (if p \<in> {Before_Load, Before_Undo, In_Body} then insert t (holders s) else holders s - {t})"
  by (auto simp: holders_def goto_def)

lemma destroyers_goto: "destroyers (goto t p s) = (if p \<in> {Draining, Freed} then insert t (destroyers s) else destroyers s - {t})"
  by (auto simp: destroyers_def goto_def)

lemma goto_simps [simp]: "hdl (goto t p s) = hdl s" "pcs (goto t p s) = (pcs s)(t := p)"
  by (simp_all add: goto_def)

lemma ref_simps [simp]:
  "pcs (inc_ref s) = pcs s" "pcs (dec_ref s) = pcs s"
  "hdl (inc_ref s) = (hdl s)\<lparr>lc_refcnt := lc_refcnt (hdl s) + 1\<rparr>"
  "hdl (dec_ref s) = (hdl s)\<lparr>lc_refcnt := lc_refcnt (hdl s) - 1\<rparr>"
  "holders (inc_ref s) = holders s" "holders (dec_ref s) = holders s"
  "destroyers (inc_ref s) = destroyers s" "destroyers (dec_ref s) = destroyers s"
  "holders (s\<lparr>hdl := h\<rparr>) = holders s" "destroyers (s\<lparr>hdl := h\<rparr>) = destroyers s"
  by (simp_all add: inc_ref_def dec_ref_def holders_def destroyers_def)

lemmas goto_sets = holders_goto destroyers_goto

lemma member_holders: "t \<in> holders s \<longleftrightarrow> pcs s t \<in> {Before_Load, Before_Undo, In_Body}"
  by (simp add: holders_def)

lemma member_destroyers: "t \<in> destroyers s \<longleftrightarrow> pcs s t \<in> {Draining, Freed}"
  by (simp add: destroyers_def)

lemma guard_inv_alive: "guard_inv s \<Longrightarrow> \<not> lc_destroying (hdl s) \<Longrightarrow> pcs s u \<noteq> Freed \<and> destroyers s = {}"
  using member_destroyers [of u s] by (auto simp: guard_inv_def)

lemma guard_step_inv: "guard_step want s s' \<Longrightarrow> guard_inv s \<Longrightarrow> guard_inv s'"
proof (induction rule: guard_step.induct)
  case (acq_inc s t)
  then show ?case by (auto simp: guard_inv_def goto_sets member_holders member_destroyers card_insert_if)
next
  case (acq_alive s t)
  then show ?case
    using guard_inv_alive [OF acq_alive.prems acq_alive.hyps(2)]
    by (auto simp: guard_inv_def goto_sets member_holders member_destroyers insert_absorb)
next
  case (destroy_won s t)
  then show ?case
    using guard_inv_alive [OF destroy_won.prems destroy_won.hyps(3)]
    by (auto simp: guard_inv_def goto_sets member_holders member_destroyers)
next
  case (drain_done s t)
  then have "holders s = {}" by (auto simp: guard_inv_def)
  then have "pcs s u \<noteq> In_Body" for u using member_holders [of u s] by auto
  then show ?case using drain_done
    by (auto simp: guard_inv_def goto_sets member_holders member_destroyers insert_absorb)
qed (auto simp: guard_inv_def goto_sets member_holders member_destroyers insert_absorb split: if_splits)

lemma guard_reach_inv: "guard_reach want s \<Longrightarrow> guard_inv s"
proof (induction rule: guard_reach.induct)
  case (init ty)
  then show ?case by (simp add: guard_inv_def created_def holders_def destroyers_def)
next
  case (step s s')
  then show ?case by (blast intro: guard_step_inv)
qed

section \<open>Properties\<close>


text \<open>A run in which thread 0 calls, thread 1 destroys meanwhile, and thread 0 leaves.\<close>

definition demo_sys :: "nat system" where
  "demo_sys = \<lparr>hdl = \<lparr>h_type = 30, lc_destroying = True, lc_refcnt = 0\<rparr>, pcs = (\<lambda>_. Outside)(1 := Freed)\<rparr>"

lemma demo_sys_reach: "guard_reach 30 demo_sys"
proof -
  let ?h = "\<lambda>d n. \<lparr>h_type = 30 :: nat, lc_destroying = d, lc_refcnt = n\<rparr>"
  let ?O = "\<lambda>_::nat. Outside"
  have 0: "guard_reach 30 \<lparr>hdl = ?h False 0, pcs = ?O\<rparr>"
    using guard_reach.init [of "30 :: nat" 30] by (simp add: created_def)
  have 1: "guard_reach 30 \<lparr>hdl = ?h False 0, pcs = ?O(0 := Before_Inc)\<rparr>"
    using guard_reach.step [OF 0 guard_step.acq_check [of _ 0]] by (simp add: goto_def)
  have 2: "guard_reach 30 \<lparr>hdl = ?h False 1, pcs = ?O(0 := Before_Load)\<rparr>"
    using guard_reach.step [OF 1 guard_step.acq_inc [of _ 0]] by (simp add: goto_def inc_ref_def)
  have 3: "guard_reach 30 \<lparr>hdl = ?h False 1, pcs = ?O(0 := In_Body)\<rparr>"
    using guard_reach.step [OF 2 guard_step.acq_alive [of _ 0]] by (simp add: goto_def)
  have 4: "guard_reach 30 \<lparr>hdl = ?h True 1, pcs = ?O(0 := In_Body, 1 := Draining)\<rparr>"
    using guard_reach.step [OF 3 guard_step.destroy_won [of _ 1]] by (simp add: goto_def)
  have 5: "guard_reach 30 \<lparr>hdl = ?h True 0, pcs = ?O(1 := Draining)\<rparr>"
    using guard_reach.step [OF 4 guard_step.release [of _ 0]]
    by (simp add: goto_def dec_ref_def fun_upd_twist fun_upd_idem)
  show ?thesis
    using guard_reach.step [OF 5 guard_step.drain_done [of _ 1]] by (simp add: goto_def demo_sys_def)
qed


text \<open>
  The gate itself is not covered: a thread that passed the first check can be stopped before its
  increment while another destroys and frees the handle, and then increments a counter of freed
  memory.
\<close>

lemma handle_guard_inc_after_free:
  "\<exists>s. guard_reach (30 :: nat) s \<and> pcs s 1 = Freed \<and> pcs s 0 = Before_Inc"
proof -
  let ?h = "\<lambda>d n. \<lparr>h_type = 30 :: nat, lc_destroying = d, lc_refcnt = n\<rparr>"
  let ?O = "\<lambda>_::nat. Outside"
  have 0: "guard_reach 30 \<lparr>hdl = ?h False 0, pcs = ?O\<rparr>"
    using guard_reach.init [of 30 "30 :: nat"] by (simp add: created_def)
  have 1: "guard_reach 30 \<lparr>hdl = ?h False 0, pcs = ?O(0 := Before_Inc)\<rparr>"
    using guard_reach.step [OF 0 guard_step.acq_check [of _ 0]] by (simp add: goto_def)
  have 2: "guard_reach 30 \<lparr>hdl = ?h True 0, pcs = ?O(0 := Before_Inc, 1 := Draining)\<rparr>"
    using guard_reach.step [OF 1 guard_step.destroy_won [of _ 1]] by (simp add: goto_def)
  have "guard_reach 30 \<lparr>hdl = ?h True 0, pcs = ?O(0 := Before_Inc, 1 := Freed)\<rparr>"
    using guard_reach.step [OF 2 guard_step.drain_done [of _ 1]] by (simp add: goto_def)
  then show ?thesis by (intro exI) (auto)
qed

text \<open>A call that runs alone: it is admitted exactly when the type matches and nobody destroys, and
  acquire then release leaves the handle as it was.\<close>

lemma acquire_alone:
  "mt_handle_acquire want h =
     (if h_type h = want \<and> \<not> lc_destroying h then (Inr (), h\<lparr>lc_refcnt := lc_refcnt h + 1\<rparr>) else (Inl EIO, h))"
  by (auto simp: mt_handle_acquire_def Let_def)

lemma acquire_release: "mt_handle_acquire want h = (Inr (), h') \<Longrightarrow> mt_handle_release h' = h"
  by (auto simp: acquire_alone mt_handle_release_def split: if_splits)

section \<open>Guarded calls\<close>

text \<open>
  \<open>MT_HANDLE_GUARD\<close> and \<open>MT_HANDLE_RELEASE\<close> around the body of a public call, for a session whose
  handle fields are read by \<open>get_h\<close> and written by \<open>set_h\<close>: the error value when the gate refuses,
  else the body between acquire and release.
\<close>

definition guarded ::
    "('c \<Rightarrow> 't handle) \<Rightarrow> ('t handle \<Rightarrow> 'c \<Rightarrow> 'c) \<Rightarrow> 't \<Rightarrow> 'r \<Rightarrow> ('c \<Rightarrow> 'r \<times> 'c) \<Rightarrow> 'c \<Rightarrow> 'r \<times> 'c" where
  "guarded get_h set_h want errret body c =
     (case mt_handle_acquire want (get_h c) of
        (Inl _, h) \<Rightarrow> (errret, set_h h c)
      | (Inr _, h) \<Rightarrow>
          let (r, c1) = body (set_h h c)
          in (r, set_h (mt_handle_release (get_h c1)) c1))"

locale session_guard =
  fixes get_h :: "'c \<Rightarrow> 't handle" and set_h :: "'t handle \<Rightarrow> 'c \<Rightarrow> 'c" and want :: 't
  assumes get_set: "get_h (set_h h c) = h" and set_get: "set_h (get_h c) c = c"
    and set_set: "set_h h (set_h h' c) = set_h h c"
begin

text \<open>A call on a session that is not alive, or not of the right type, changes nothing.\<close>

lemma refused:
  assumes "h_type (get_h c) \<noteq> want \<or> lc_destroying (get_h c)"
  shows "guarded get_h set_h want e body c = (e, c)"
  using assms by (auto simp: guarded_def acquire_alone set_get)

text \<open>A body that does not look at the handle runs as if there were no guard.\<close>

lemma admitted:
  assumes "h_type (get_h c) = want" "\<not> lc_destroying (get_h c)"
    and "\<And>h. body (set_h h c) = (fst (body c), set_h h (snd (body c)))" and "get_h (snd (body c)) = get_h c"
  shows "guarded get_h set_h want e body c = body c"
proof -
  have "guarded get_h set_h want e body c = (fst (body c), set_h (get_h c) (snd (body c)))"
    using assms(1,2) by (simp add: guarded_def acquire_alone Let_def assms(3) get_set set_set mt_handle_release_def)
  then show ?thesis by (simp add: assms(4) [symmetric] set_get)
qed

end

end
