(* ===== verification/Frame_Pool.thy ===== *)
theory Frame_Pool
  imports Handle_Guard Formats
begin

text \<open>
  What the pipeline sessions (\<^verbatim>\<open>lib/src/st2110/pipeline\<close>) share: a session owns an array of frames, each
  in one state of a small state machine, and every operation scans the array for a frame in one state
  and moves it to another. The scan, the count of frames in a state, and the interface locale
  \<open>frame_pool\<close> (a state that can be read and replaced) with what a move does to the counts.
\<close>

section \<open>Shared types\<close>

datatype st10_timestamp_fmt = ST10_TIMESTAMP_FMT_TAI | ST10_TIMESTAMP_FMT_MEDIA_CLK

datatype st_frame_status =
  ST_FRAME_STATUS_COMPLETE | ST_FRAME_STATUS_RECONSTRUCTED | ST_FRAME_STATUS_CORRUPTED | ST_FRAME_STATUS_DROPPED

text \<open>An audio frame as the user sees it.\<close>

record st30_frame =
  af_addr :: nat
  af_fmt :: st30_fmt
  af_channel :: u16
  af_sampling :: st30_sampling
  af_ptime :: st30_ptime
  af_buffer_size :: u32
  af_data_size :: u32
  af_tfmt :: st10_timestamp_fmt
  af_timestamp :: u64
  af_epoch :: u64
  af_rtp_timestamp :: u32
  af_receive_timestamp :: u64
  af_status :: st_frame_status

text \<open>What a receive session tells about a frame.\<close>

record st30_rx_frame_meta =
  rm_fmt :: st30_fmt
  rm_sampling :: st30_sampling
  rm_channel :: u16
  rm_tfmt :: st10_timestamp_fmt
  rm_timestamp :: u64
  rm_timestamp_first_pkt :: u64
  rm_rtp_timestamp :: u32
  rm_frame_recv_size :: nat
  rm_status :: st_frame_status

definition has_flag :: "u32 \<Rightarrow> u32 \<Rightarrow> bool" where
  "has_flag flags bits \<longleftrightarrow> flags AND bits \<noteq> 0"

text \<open>The callbacks into the application, in the order they are made.\<close>

datatype app_event = Notify_Available | Notify_Done nat st_frame_status | Notify_Late u64 | Cond_Signal

definition mt_seq32_greater :: "u32 \<Rightarrow> u32 \<Rightarrow> bool" where
  "mt_seq32_greater a b = (let diff = a - b in diff AND 0x80000000 = 0 \<and> diff \<noteq> 0)"

section \<open>Scanning and counting\<close>

definition first_idx :: "('f \<Rightarrow> bool) \<Rightarrow> 'f list \<Rightarrow> nat option" where
  "first_idx P fs = (case filter (\<lambda>i. P (fs ! i)) [0..<length fs] of [] \<Rightarrow> None | i # _ \<Rightarrow> Some i)"

definition count_in :: "('f \<Rightarrow> 's) \<Rightarrow> 's \<Rightarrow> 'f list \<Rightarrow> nat" where
  "count_in stat_of s fs = length (filter (\<lambda>f. stat_of f = s) fs)"

lemma bit31_clear: "(w :: u32) AND 0x80000000 = 0 \<longleftrightarrow> unat w < 2147483648"
proof -
  have "(0x80000000 :: u32) = push_bit 31 1" by simp
  then have "w AND 0x80000000 = 0 \<longleftrightarrow> \<not> bit w 31"
    using and_exp_eq_0_iff_not_bit [of w 31] by (simp add: and.commute)
  also have "bit w 31 \<longleftrightarrow> bit (unat w) 31" by (simp add: bit_unsigned_iff)
  also have "\<dots> \<longleftrightarrow> odd (unat w div 2147483648)" by (simp add: bit_iff_odd)
  also have "(\<not> \<dots>) \<longleftrightarrow> unat w < 2147483648"
  proof -
    have "unat w div 2147483648 < 2" using unat_u32_lt [of w] by (simp add: less_mult_imp_div_less)
    then show ?thesis by (auto simp: div_less_iff_less_mult less_2_cases_iff)
  qed
  finally show ?thesis .
qed

lemma first_idx_Some:
  assumes "first_idx P fs = Some i"
  shows "i < length fs" "P (fs ! i)" "\<forall>j < i. \<not> P (fs ! j)"
proof -
  obtain js where f: "filter (\<lambda>i. P (fs ! i)) [0..<length fs] = i # js"
    using assms by (auto simp: first_idx_def split: list.splits)
  have "i \<in> set (filter (\<lambda>i. P (fs ! i)) [0..<length fs])" unfolding f by simp
  then show "i < length fs" "P (fs ! i)" by auto
  show "\<forall>j < i. \<not> P (fs ! j)"
  proof (intro allI impI notI)
    fix j assume "j < i" "P (fs ! j)"
    then have "j \<in> set (i # js)" using \<open>i < length fs\<close> unfolding f [symmetric] by simp
    moreover have "sorted (i # js)" unfolding f [symmetric] by (rule sorted_wrt_filter) simp
    ultimately show False using \<open>j < i\<close> by auto
  qed
qed

lemma first_idx_None: "first_idx P fs = None \<longleftrightarrow> (\<forall>f \<in> set fs. \<not> P f)"
proof -
  have "first_idx P fs = None \<longleftrightarrow> filter (\<lambda>i. P (fs ! i)) [0..<length fs] = []"
    by (simp add: first_idx_def split: list.splits)
  then show ?thesis by (auto simp: filter_empty_conv all_set_conv_all_nth)
qed

lemma length_filter_update:
  assumes "i < length xs"
  shows "length (filter P (xs[i := y])) + (if P (xs ! i) then 1 else 0) =
    length (filter P xs) + (if P y then 1 else 0)"
  using assms
proof (induction xs arbitrary: i)
  case (Cons x xs)
  then show ?case by (cases i) auto
qed simp

section \<open>The interface of a pool of frames\<close>

locale frame_pool =
  fixes stat_of :: "'f \<Rightarrow> 's" and set_stat :: "'s \<Rightarrow> 'f \<Rightarrow> 'f"
  assumes stat_set: "stat_of (set_stat s f) = s"
begin

text \<open>Moving a frame from one state to another.\<close>

lemma move_counts:
  assumes "i < length fs" and "stat_of (fs ! i) = a" and "a \<noteq> b" and "stat_of g = b"
  shows "count_in stat_of a (fs[i := g]) + 1 = count_in stat_of a fs"
    and "count_in stat_of b (fs[i := g]) = count_in stat_of b fs + 1"
    and "c \<noteq> a \<Longrightarrow> c \<noteq> b \<Longrightarrow> count_in stat_of c (fs[i := g]) = count_in stat_of c fs"
  using length_filter_update [OF assms(1), of "\<lambda>f. stat_of f = a" g]
    length_filter_update [OF assms(1), of "\<lambda>f. stat_of f = b" g]
    length_filter_update [OF assms(1), of "\<lambda>f. stat_of f = c" g] assms(2-4)
  by (auto simp: count_in_def)

text \<open>Changing a frame but not its state.\<close>

lemma keep_counts: "i < length fs \<Longrightarrow> stat_of g = stat_of (fs ! i) \<Longrightarrow> count_in stat_of c (fs[i := g]) = count_in stat_of c fs"
  using length_filter_update [of i fs "\<lambda>f. stat_of f = c" g] by (auto simp: count_in_def split: if_splits)

lemma claim_first:
  assumes "first_idx (\<lambda>f. stat_of f = a) fs = Some i" and "a \<noteq> b"
  shows "count_in stat_of a (fs[i := set_stat b (fs ! i)]) + 1 = count_in stat_of a fs"
    and "count_in stat_of b (fs[i := set_stat b (fs ! i)]) = count_in stat_of b fs + 1"
  using move_counts [OF first_idx_Some(1,2) [OF assms(1)] assms(2)] by (simp_all add: stat_set)

text \<open>A claim fails only when no frame is in the state.\<close>

lemma claim_complete: "first_idx (\<lambda>f. stat_of f = a) fs = None \<longleftrightarrow> count_in stat_of a fs = 0"
  by (simp add: first_idx_None count_in_def filter_empty_conv)

end

end
