(* ===== verification/St30p_Tx.thy ===== *)
theory St30p_Tx
  imports Frame_Pool
begin

text \<open>
  The transmit pipeline for audio (\<^verbatim>\<open>lib/src/st2110/pipeline/st30_pipeline_tx.c\<close>): the user gets a free
  frame, fills it and puts it back; the transport takes the ready frames one by one and reports them
  done; with the drop-when-late flag, ready frames whose time has passed are dropped. A frame is
  addressed by its index, which the code keeps in \<open>framebuff->idx\<close> and reaches from
  \<open>frame->priv\<close>. The guard of the public calls is that of \<open>Handle_Guard\<close>. Clock readings, the
  transport, the allocator and the behaviour of other threads during a blocking wait are arguments;
  callbacks are returned as events.
\<close>

section \<open>State\<close>

datatype st30p_tx_frame_status =
  ST30P_TX_FRAME_FREE | ST30P_TX_FRAME_IN_USER | ST30P_TX_FRAME_READY | ST30P_TX_FRAME_DROPPED |
  ST30P_TX_FRAME_IN_TRANSMITTING

record st30_tx_frame_meta =
  am_tfmt :: st10_timestamp_fmt
  am_timestamp :: u64
  am_epoch :: u64
  am_rtp_timestamp :: u32

record st30p_tx_frame =
  t_stat :: st30p_tx_frame_status
  t_frame :: st30_frame
  t_seq_number :: u32
  t_done_cb_called :: bool

abbreviation ST30P_TX_FLAG_USER_P_MAC :: u32 where "ST30P_TX_FLAG_USER_P_MAC \<equiv> 0x1"
abbreviation ST30P_TX_FLAG_USER_R_MAC :: u32 where "ST30P_TX_FLAG_USER_R_MAC \<equiv> 0x2"
abbreviation ST30P_TX_FLAG_USER_PACING :: u32 where "ST30P_TX_FLAG_USER_PACING \<equiv> 0x8"
abbreviation ST30P_TX_FLAG_DEDICATE_QUEUE :: u32 where "ST30P_TX_FLAG_DEDICATE_QUEUE \<equiv> 0x80"
abbreviation ST30P_TX_FLAG_FORCE_NUMA :: u32 where "ST30P_TX_FLAG_FORCE_NUMA \<equiv> 0x100"
abbreviation ST30P_TX_FLAG_BLOCK_GET :: u32 where "ST30P_TX_FLAG_BLOCK_GET \<equiv> 0x8000"
abbreviation ST30P_TX_FLAG_DROP_WHEN_LATE :: u32 where "ST30P_TX_FLAG_DROP_WHEN_LATE \<equiv> 0x10000"

abbreviation ST_TX_ST30P_DROP_MAX_BATCH :: nat where "ST_TX_ST30P_DROP_MAX_BATCH \<equiv> 80"

text \<open>The options the pipeline reads; the callbacks are present or not.\<close>

record st30p_tx_ops =
  to_flags :: u32
  to_fmt :: st30_fmt
  to_channel :: u16
  to_sampling :: st30_sampling
  to_ptime :: st30_ptime
  to_framebuff_cnt :: u16
  to_framebuff_size :: u32
  to_has_available :: bool
  to_has_done :: bool
  to_has_late :: bool

record st30p_tx_ctx =
  t_handle :: "nat handle"
  t_ops :: st30p_tx_ops
  t_framebuffs :: "st30p_tx_frame list"
  t_framebuff_seq_number :: u32
  t_ready :: bool
  t_frames_per_sec :: int
  t_block_get :: bool
  t_block_timeout_ns :: u64
  t_wake_block_cnt :: u32
  t_stat_get_frame_try :: u32
  t_stat_get_frame_succ :: u32
  t_stat_put_frame :: u32
  t_stat_drop_frame :: u32
  t_stat_frames_sent :: u64
  t_stat_frames_dropped :: u64

abbreviation MT_ST30_HANDLE_PIPELINE_TX :: nat where "MT_ST30_HANDLE_PIPELINE_TX \<equiv> 30"

definition upd_frame :: "nat \<Rightarrow> (st30p_tx_frame \<Rightarrow> st30p_tx_frame) \<Rightarrow> st30p_tx_ctx \<Rightarrow> st30p_tx_ctx" where
  "upd_frame i f ctx = ctx\<lparr>t_framebuffs := (t_framebuffs ctx)[i := f (t_framebuffs ctx ! i)]\<rparr>"

definition tx_set_stat :: "st30p_tx_frame_status \<Rightarrow> st30p_tx_frame \<Rightarrow> st30p_tx_frame" where
  "tx_set_stat s f = f\<lparr>t_stat := s\<rparr>"

section \<open>The frames\<close>

definition tx_st30p_notify_frame_available :: "st30p_tx_ctx \<Rightarrow> app_event list" where
  "tx_st30p_notify_frame_available ctx =
     (if to_has_available (t_ops ctx) then [Notify_Available] else []) @
     (if t_block_get ctx then [Cond_Signal] else [])"

definition tx_st30p_next_available :: "st30p_tx_ctx \<Rightarrow> st30p_tx_frame_status \<Rightarrow> nat option" where
  "tx_st30p_next_available ctx desired = first_idx (\<lambda>f. t_stat f = desired) (t_framebuffs ctx)"

definition tx_st30p_newest_available :: "st30p_tx_ctx \<Rightarrow> st30p_tx_frame_status \<Rightarrow> nat option" where
  "tx_st30p_newest_available ctx desired =
     fold (\<lambda>idx newest.
         let framebuff = t_framebuffs ctx ! idx in
         if t_stat framebuff = desired \<and>
            (case newest of None \<Rightarrow> True
             | Some j \<Rightarrow> \<not> mt_seq32_greater (t_seq_number framebuff) (t_seq_number (t_framebuffs ctx ! j)))
         then Some idx else newest)
       [0..<length (t_framebuffs ctx)] None"

text \<open>Without a concurrent thread the exchange of the claim succeeds on the frame just found.\<close>

definition tx_st30p_claim_available ::
    "st30p_tx_ctx \<Rightarrow> st30p_tx_frame_status \<Rightarrow> st30p_tx_frame_status \<Rightarrow> nat option \<times> st30p_tx_ctx" where
  "tx_st30p_claim_available ctx desired claimed =
     (case tx_st30p_next_available ctx desired of
        None \<Rightarrow> (None, ctx)
      | Some i \<Rightarrow> (Some i, upd_frame i (tx_set_stat claimed) ctx))"

text \<open>\<open>cur_tai\<close> is the PTP time read by the call. The result tells whether the frame was dropped.\<close>

definition tx_st30p_if_frame_late ::
    "u64 \<Rightarrow> nat \<Rightarrow> st30p_tx_ctx \<Rightarrow> bool \<times> st30p_tx_ctx \<times> app_event list" where
  "tx_st30p_if_frame_late cur_tai i ctx =
     (let flags = to_flags (t_ops ctx); framebuff = t_framebuffs ctx ! i; frame = t_frame framebuff in
      if \<not> has_flag flags ST30P_TX_FLAG_DROP_WHEN_LATE \<or> \<not> has_flag flags ST30P_TX_FLAG_USER_PACING
      then (False, ctx, [])
      else if af_tfmt frame \<noteq> ST10_TIMESTAMP_FMT_TAI then (False, ctx, [])
      else
        let frame_tai = af_timestamp frame;
            frame_period_ns = (of_nat NS_PER_S :: u64) div word_of_int (t_frames_per_sec ctx)
        in if cur_tai < frame_tai + frame_period_ns then (False, ctx, [])
           else
             let ctx = ctx\<lparr>t_stat_drop_frame := t_stat_drop_frame ctx + 1,
                           t_stat_frames_dropped := t_stat_frames_dropped ctx + 1\<rparr>;
                 ctx = upd_frame i (tx_set_stat ST30P_TX_FRAME_DROPPED) ctx;
                 notify = to_has_done (t_ops ctx) \<and> \<not> t_done_cb_called framebuff;
                 ctx = (if notify then upd_frame i (\<lambda>f. f\<lparr>t_frame := (t_frame f)\<lparr>af_status := ST_FRAME_STATUS_DROPPED\<rparr>,
                          t_done_cb_called := True\<rparr>) ctx else ctx);
                 done_ev = (if notify then [Notify_Done i ST_FRAME_STATUS_DROPPED] else []);
                 late_ev = (if to_has_late (t_ops ctx) then [Notify_Late 0] else []);
                 ctx = upd_frame i (tx_set_stat ST30P_TX_FRAME_FREE) ctx
             in (True, ctx, done_ev @ late_ev @ tx_st30p_notify_frame_available ctx))"

text \<open>The loop of \<open>tx_st30p_next_frame\<close>; \<open>tai n\<close> is the time read in its \<open>n\<close>-th round.\<close>

function next_loop ::
    "(nat \<Rightarrow> u64) \<Rightarrow> nat \<Rightarrow> st30p_tx_ctx \<Rightarrow> app_event list \<Rightarrow> nat option \<times> st30p_tx_ctx \<times> app_event list" where
  "next_loop tai drop_cnt ctx ev =
     (case tx_st30p_newest_available ctx ST30P_TX_FRAME_READY of
        None \<Rightarrow> (None, ctx, ev)
      | Some i \<Rightarrow>
          if drop_cnt \<ge> ST_TX_ST30P_DROP_MAX_BATCH then (None, ctx, ev)
          else
            let (late, ctx1, ev1) = tx_st30p_if_frame_late (tai drop_cnt) i ctx in
            if late then next_loop tai (drop_cnt + 1) ctx1 (ev @ ev1) else (Some i, ctx1, ev @ ev1))"
  by pat_completeness auto
termination by (relation "measure (\<lambda>(tai, drop_cnt, ctx, ev). 80 - drop_cnt)") auto

declare next_loop.simps [simp del]

text \<open>The result holds the index and, for user pacing, the time stamp passed to the transport.\<close>

definition tx_st30p_next_frame ::
    "(nat \<Rightarrow> u64) \<Rightarrow> st30p_tx_ctx \<Rightarrow>
      (nat \<times> (st10_timestamp_fmt \<times> u64) option) res \<times> st30p_tx_ctx \<times> app_event list" where
  "tx_st30p_next_frame tai ctx =
     (if \<not> t_ready ctx then (Inl EBUSY, ctx, [])
      else
        case next_loop tai 0 ctx [] of
          (None, ctx, ev) \<Rightarrow>
            (Inl EBUSY, ctx, ev @
               (if has_flag (to_flags (t_ops ctx)) ST30P_TX_FLAG_DROP_WHEN_LATE \<and>
                   tx_st30p_next_available ctx ST30P_TX_FRAME_FREE \<noteq> None
                then tx_st30p_notify_frame_available ctx else []))
        | (Some i, ctx, ev) \<Rightarrow>
            let ctx = upd_frame i (tx_set_stat ST30P_TX_FRAME_IN_TRANSMITTING) ctx;
                frame = t_frame (t_framebuffs ctx ! i)
            in (Inr (i, if has_flag (to_flags (t_ops ctx)) ST30P_TX_FLAG_USER_PACING
                        then Some (af_tfmt frame, af_timestamp frame) else None), ctx, ev))"

definition tx_st30p_frame_done ::
    "nat \<Rightarrow> st30_tx_frame_meta \<Rightarrow> st30p_tx_ctx \<Rightarrow> unit res \<times> st30p_tx_ctx \<times> app_event list" where
  "tx_st30p_frame_done i meta ctx =
     (let ctx = upd_frame i (\<lambda>f. f\<lparr>t_frame := (t_frame f)\<lparr>af_tfmt := am_tfmt meta, af_timestamp := am_timestamp meta,
            af_epoch := am_epoch meta, af_rtp_timestamp := am_rtp_timestamp meta\<rparr>\<rparr>) ctx;
          notify = to_has_done (t_ops ctx) \<and> \<not> t_done_cb_called (t_framebuffs ctx ! i);
          ctx = (if notify then upd_frame i (\<lambda>f. f\<lparr>t_done_cb_called := True,
                   t_frame := (t_frame f)\<lparr>af_status := ST_FRAME_STATUS_COMPLETE\<rparr>\<rparr>) ctx else ctx);
          ok = (t_stat (t_framebuffs ctx ! i) = ST30P_TX_FRAME_IN_TRANSMITTING);
          ctx = (if ok then upd_frame i (tx_set_stat ST30P_TX_FRAME_FREE) ctx else ctx);
          ev = (if notify then [Notify_Done i (af_status (t_frame (t_framebuffs ctx ! i)))] else []);
          ctx = (if ok then ctx\<lparr>t_stat_frames_sent := t_stat_frames_sent ctx + 1\<rparr> else ctx)
      in (if ok then Inr () else Inl EIO, ctx, ev @ tx_st30p_notify_frame_available ctx))"

definition tx_st30p_notify_frame_late :: "u64 \<Rightarrow> st30p_tx_ctx \<Rightarrow> app_event list" where
  "tx_st30p_notify_frame_late epoch_skipped ctx = [Notify_Late epoch_skipped]"

section \<open>Public calls\<close>

definition tx_guarded :: "'r \<Rightarrow> (st30p_tx_ctx \<Rightarrow> 'r \<times> st30p_tx_ctx) \<Rightarrow> st30p_tx_ctx \<Rightarrow> 'r \<times> st30p_tx_ctx" where
  "tx_guarded = guarded t_handle (\<lambda>h ctx. ctx\<lparr>t_handle := h\<rparr>) MT_ST30_HANDLE_PIPELINE_TX"

text \<open>
  The blocking wait. Each element of the list is one return of the timed wait: whether it returned
  an error or a timeout, and what other threads did to the session meanwhile; when the list ends the
  wait times out.
\<close>

fun block_wait :: "(bool \<times> (st30p_tx_ctx \<Rightarrow> st30p_tx_ctx)) list \<Rightarrow> u32 \<Rightarrow> st30p_tx_ctx \<Rightarrow>
    nat option \<times> st30p_tx_ctx" where
  "block_wait waits wake_block_cnt ctx =
     (if lc_destroying (t_handle ctx) then (None, ctx)
      else
        case tx_st30p_claim_available ctx ST30P_TX_FRAME_FREE ST30P_TX_FRAME_IN_USER of
          (Some i, ctx) \<Rightarrow> (Some i, ctx)
        | (None, ctx) \<Rightarrow>
            if t_wake_block_cnt ctx \<noteq> wake_block_cnt then (None, ctx)
            else case waits of
                   [] \<Rightarrow> (None, ctx)
                 | (timed_out, others) # rest \<Rightarrow>
                     if timed_out then (None, others ctx) else block_wait rest wake_block_cnt (others ctx))"

declare block_wait.simps [simp del]

definition st30p_tx_get_frame ::
    "(bool \<times> (st30p_tx_ctx \<Rightarrow> st30p_tx_ctx)) list \<Rightarrow> st30p_tx_ctx \<Rightarrow> nat option \<times> st30p_tx_ctx" where
  "st30p_tx_get_frame waits = tx_guarded None (\<lambda>ctx.
     if \<not> t_ready ctx then (None, ctx)
     else
       let ctx = ctx\<lparr>t_stat_get_frame_try := t_stat_get_frame_try ctx + 1\<rparr>;
           (framebuff, ctx) = tx_st30p_claim_available ctx ST30P_TX_FRAME_FREE ST30P_TX_FRAME_IN_USER;
           (framebuff, ctx) =
             (if framebuff = None \<and> t_block_get ctx then
                let (framebuff, ctx) = block_wait waits (t_wake_block_cnt ctx) ctx
                in if lc_destroying (t_handle ctx)
                   then (None, case framebuff of None \<Rightarrow> ctx
                               | Some i \<Rightarrow> upd_frame i (tx_set_stat ST30P_TX_FRAME_FREE) ctx)
                   else (framebuff, ctx)
              else (framebuff, ctx))
       in case framebuff of
            None \<Rightarrow> (None, ctx)
          | Some i \<Rightarrow>
              let ctx = upd_frame i (\<lambda>f. f\<lparr>t_done_cb_called := False,
                          t_seq_number := t_framebuff_seq_number ctx\<rparr>) ctx
              in (Some i, ctx\<lparr>t_framebuff_seq_number := t_framebuff_seq_number ctx + 1,
                              t_stat_get_frame_succ := t_stat_get_frame_succ ctx + 1\<rparr>))"

definition st30p_tx_put_frame :: "nat \<Rightarrow> st30p_tx_ctx \<Rightarrow> unit res \<times> st30p_tx_ctx" where
  "st30p_tx_put_frame i = tx_guarded (Inl EIO) (\<lambda>ctx.
     if t_stat (t_framebuffs ctx ! i) \<noteq> ST30P_TX_FRAME_IN_USER then (Inl EIO, ctx)
     else
       let ctx = upd_frame i (tx_set_stat ST30P_TX_FRAME_READY) ctx
       in (Inr (), ctx\<lparr>t_stat_put_frame := t_stat_put_frame ctx + 1\<rparr>))"

definition st30p_tx_put_frame_abort :: "nat \<Rightarrow> st30p_tx_ctx \<Rightarrow> unit res \<times> st30p_tx_ctx" where
  "st30p_tx_put_frame_abort i = tx_guarded (Inl EIO) (\<lambda>ctx.
     if t_stat (t_framebuffs ctx ! i) \<noteq> ST30P_TX_FRAME_IN_USER then (Inl EIO, ctx)
     else
       let ctx = upd_frame i (tx_set_stat ST30P_TX_FRAME_FREE) ctx
       in (Inr (), ctx\<lparr>t_stat_drop_frame := t_stat_drop_frame ctx + 1,
                       t_stat_frames_dropped := t_stat_frames_dropped ctx + 1\<rparr>))"

definition st30p_tx_wake_block :: "st30p_tx_ctx \<Rightarrow> unit res \<times> st30p_tx_ctx" where
  "st30p_tx_wake_block = tx_guarded (Inl EIO) (\<lambda>ctx.
     (Inr (), if t_block_get ctx then ctx\<lparr>t_wake_block_cnt := t_wake_block_cnt ctx + 1\<rparr> else ctx))"

definition st30p_tx_set_block_timeout :: "u64 \<Rightarrow> st30p_tx_ctx \<Rightarrow> unit res \<times> st30p_tx_ctx" where
  "st30p_tx_set_block_timeout timedwait_ns = tx_guarded (Inl EIO) (\<lambda>ctx.
     (Inr (), ctx\<lparr>t_block_timeout_ns := timedwait_ns\<rparr>))"

definition st30p_tx_frame_size :: "st30p_tx_ctx \<Rightarrow> u32 \<times> st30p_tx_ctx" where
  "st30p_tx_frame_size = tx_guarded 0 (\<lambda>ctx. (to_framebuff_size (t_ops ctx), ctx))"

definition st30p_tx_get_fb_addr :: "u16 \<Rightarrow> st30p_tx_ctx \<Rightarrow> nat option \<times> st30p_tx_ctx" where
  "st30p_tx_get_fb_addr idx = tx_guarded None (\<lambda>ctx.
     if unat idx \<ge> length (t_framebuffs ctx) then (None, ctx)
     else (Some (af_addr (t_frame (t_framebuffs ctx ! unat idx))), ctx))"

text \<open>\<open>transport_ret\<close> is what the transport returns for its own counters.\<close>

definition st30p_tx_get_session_stats :: "unit res \<Rightarrow> st30p_tx_ctx \<Rightarrow> (u64 \<times> u64) res \<times> st30p_tx_ctx" where
  "st30p_tx_get_session_stats transport_ret = tx_guarded (Inl EINVAL) (\<lambda>ctx.
     case transport_ret of
       Inl e \<Rightarrow> (Inl e, ctx)
     | Inr _ \<Rightarrow> (Inr (t_stat_frames_sent ctx, t_stat_frames_dropped ctx), ctx))"

definition st30p_tx_reset_session_stats :: "unit res \<Rightarrow> st30p_tx_ctx \<Rightarrow> unit res \<times> st30p_tx_ctx" where
  "st30p_tx_reset_session_stats transport_ret = tx_guarded (Inl EIO) (\<lambda>ctx.
     (transport_ret, ctx\<lparr>t_stat_frames_sent := 0, t_stat_frames_dropped := 0\<rparr>))"

definition tx_st30p_stat :: "st30p_tx_ctx \<Rightarrow> unit res \<times> st30p_tx_ctx" where
  "tx_st30p_stat ctx =
     (if \<not> t_ready ctx then (Inl EBUSY, ctx)
      else (Inr (), ctx\<lparr>t_stat_get_frame_try := 0, t_stat_get_frame_succ := 0, t_stat_put_frame := 0,
                        t_stat_drop_frame := 0\<rparr>))"

section \<open>Creation\<close>

definition tx_st30p_init_fbs :: "st30p_tx_ops \<Rightarrow> st30p_tx_frame list" where
  "tx_st30p_init_fbs ops = replicate (unat (to_framebuff_cnt ops))
     \<lparr>t_stat = ST30P_TX_FRAME_FREE,
      t_frame = \<lparr>af_addr = 0, af_fmt = to_fmt ops, af_channel = to_channel ops, af_sampling = to_sampling ops,
        af_ptime = to_ptime ops, af_buffer_size = to_framebuff_size ops, af_data_size = to_framebuff_size ops,
        af_tfmt = ST10_TIMESTAMP_FMT_TAI, af_timestamp = 0, af_epoch = 0, af_rtp_timestamp = 0,
        af_receive_timestamp = 0, af_status = ST_FRAME_STATUS_COMPLETE\<rparr>,
      t_seq_number = 0, t_done_cb_called = False\<rparr>"

text \<open>The flags of the transport session.\<close>

definition st30_tx_flags :: "u32 \<Rightarrow> u32" where
  "st30_tx_flags flags =
     (if has_flag flags ST30P_TX_FLAG_USER_P_MAC then 0x1 else 0) OR
     (if has_flag flags ST30P_TX_FLAG_USER_R_MAC then 0x2 else 0) OR
     (if has_flag flags ST30P_TX_FLAG_DEDICATE_QUEUE then 0x80 else 0) OR
     (if has_flag flags ST30P_TX_FLAG_FORCE_NUMA then 0x100 else 0) OR
     (if has_flag flags ST30P_TX_FLAG_USER_PACING then 0x8 else 0)"

text \<open>\<open>transport\<close> is the transport session: its frame rate and buffer addresses, from the flags; \<open>None\<close>
  when it cannot be created.\<close>

definition tx_st30p_create_transport ::
    "(u32 \<Rightarrow> (int \<times> (nat \<Rightarrow> nat)) option) \<Rightarrow> st30p_tx_ctx \<Rightarrow> st30p_tx_ctx res" where
  "tx_st30p_create_transport transport ctx =
     (case transport (st30_tx_flags (to_flags (t_ops ctx))) of
        None \<Rightarrow> Inl EIO
      | Some (frames_per_sec, fb_addr) \<Rightarrow>
          Inr (ctx\<lparr>t_frames_per_sec := frames_per_sec,
                   t_framebuffs := map (\<lambda>i. let f = t_framebuffs ctx ! i in f\<lparr>t_frame := (t_frame f)\<lparr>af_addr := fb_addr i\<rparr>\<rparr>)
                     [0..<length (t_framebuffs ctx)]\<rparr>))"

definition st30p_tx_create ::
    "bool \<Rightarrow> bool \<Rightarrow> (u32 \<Rightarrow> (int \<times> (nat \<Rightarrow> nat)) option) \<Rightarrow> st30p_tx_ops \<Rightarrow> (st30p_tx_ctx \<times> app_event list) option" where
  "st30p_tx_create port_ok alloc_ok transport ops =
     (if \<not> port_ok \<or> \<not> alloc_ok then None
      else
        let ctx = \<lparr>t_handle = \<lparr>h_type = MT_ST30_HANDLE_PIPELINE_TX, lc_destroying = False, lc_refcnt = 0\<rparr>,
              t_ops = ops, t_framebuffs = tx_st30p_init_fbs ops, t_framebuff_seq_number = 0, t_ready = False,
              t_frames_per_sec = 0, t_block_get = has_flag (to_flags ops) ST30P_TX_FLAG_BLOCK_GET,
              t_block_timeout_ns = of_nat NS_PER_S, t_wake_block_cnt = 0, t_stat_get_frame_try = 0,
              t_stat_get_frame_succ = 0, t_stat_put_frame = 0, t_stat_drop_frame = 0, t_stat_frames_sent = 0,
              t_stat_frames_dropped = 0\<rparr>
        in case tx_st30p_create_transport transport ctx of
             Inl _ \<Rightarrow> None
           | Inr ctx \<Rightarrow>
               let ctx = ctx\<lparr>t_ready := True\<rparr>
               in Some (ctx, if \<not> t_block_get ctx then tx_st30p_notify_frame_available ctx else []))"

section \<open>Destruction\<close>

text \<open>\<open>drained\<close> is what the calls in flight, woken by the broadcast, do to the session while
  \<open>mt_handle_drain\<close> spins; \<open>None\<close> when some of them never end. On success the session is gone.
  \<open>tx_st30p_framebuffs_flush\<close> only sleeps until the frames are back or its retries are used up.\<close>

definition st30p_tx_free ::
    "(st30p_tx_ctx \<Rightarrow> st30p_tx_ctx) \<Rightarrow> st30p_tx_ctx \<Rightarrow> (unit res \<times> st30p_tx_ctx option) option" where
  "st30p_tx_free drained ctx =
     (case mt_handle_begin_destroy MT_ST30_HANDLE_PIPELINE_TX (t_handle ctx) of
        (Inl e, h) \<Rightarrow> Some (Inl e, Some (ctx\<lparr>t_handle := h\<rparr>))
      | (Inr _, h) \<Rightarrow>
          if lc_refcnt (t_handle (drained (ctx\<lparr>t_handle := h\<rparr>))) = 0 then Some (Inr (), None) else None)"

end
