(* ===== verification/St30p_Tx_Laws.thy ===== *)
theory St30p_Tx_Laws
  imports St30p_Tx
begin

text \<open>
  What the audio transmit pipeline promises: the transport takes the frames in the order in which
  they were handed out, every frame is accounted for, and a blocking get does not miss a frame.
\<close>

section \<open>Effects on the frames\<close>

interpretation tx_pool: frame_pool t_stat tx_set_stat
  by unfold_locales (simp add: tx_set_stat_def)

lemma upd_frame_simps [simp]:
  "t_framebuffs (upd_frame i f ctx) = (t_framebuffs ctx)[i := f (t_framebuffs ctx ! i)]"
  "t_handle (upd_frame i f ctx) = t_handle ctx" "t_ops (upd_frame i f ctx) = t_ops ctx"
  "t_framebuff_seq_number (upd_frame i f ctx) = t_framebuff_seq_number ctx" "t_ready (upd_frame i f ctx) = t_ready ctx"
  "t_frames_per_sec (upd_frame i f ctx) = t_frames_per_sec ctx" "t_block_get (upd_frame i f ctx) = t_block_get ctx"
  "t_wake_block_cnt (upd_frame i f ctx) = t_wake_block_cnt ctx"
  "t_stat_frames_sent (upd_frame i f ctx) = t_stat_frames_sent ctx"
  "t_stat_frames_dropped (upd_frame i f ctx) = t_stat_frames_dropped ctx"
  "t_stat_put_frame (upd_frame i f ctx) = t_stat_put_frame ctx"
  "t_stat_drop_frame (upd_frame i f ctx) = t_stat_drop_frame ctx"
  "t_stat_get_frame_succ (upd_frame i f ctx) = t_stat_get_frame_succ ctx"
  by (simp_all add: upd_frame_def)

text \<open>Frames that are not free, and the notifications of done frames in a list of events.\<close>

definition busy :: "st30p_tx_frame list \<Rightarrow> nat" where
  "busy fs = length (filter (\<lambda>f. t_stat f \<noteq> ST30P_TX_FRAME_FREE) fs)"

definition done_events :: "app_event list \<Rightarrow> nat" where
  "done_events ev = length (filter (\<lambda>e. case e of Notify_Done _ _ \<Rightarrow> True | _ \<Rightarrow> False) ev)"

lemma busy_update:
  assumes "i < length fs"
  shows "busy (fs[i := g]) + (if t_stat (fs ! i) \<noteq> ST30P_TX_FRAME_FREE then 1 else 0) =
    busy fs + (if t_stat g \<noteq> ST30P_TX_FRAME_FREE then 1 else 0)"
  using length_filter_update [OF assms, of "\<lambda>f. t_stat f \<noteq> ST30P_TX_FRAME_FREE" g] by (simp add: busy_def)

lemma done_events_append [simp]: "done_events (a @ b) = done_events a + done_events b"
  by (simp add: done_events_def)

lemma done_events_available [simp]: "done_events (tx_st30p_notify_frame_available ctx) = 0"
  by (simp add: tx_st30p_notify_frame_available_def done_events_def)

lemma done_events_simps [simp]: "done_events [] = 0" "done_events (Notify_Done i s # ev) = Suc (done_events ev)"
  "done_events (Notify_Late n # ev) = done_events ev"
  by (simp_all add: done_events_def)

section \<open>The oldest ready frame\<close>

text \<open>How many gets ago a frame was handed out.\<close>

definition age :: "st30p_tx_ctx \<Rightarrow> nat \<Rightarrow> nat" where
  "age ctx i = unat (t_framebuff_seq_number ctx - t_seq_number (t_framebuffs ctx ! i))"

text \<open>The ready frames were handed out within the last \<open>2^31\<close> gets, so that their sequence numbers
  can be compared.\<close>

definition ages_ok :: "st30p_tx_ctx \<Rightarrow> bool" where
  "ages_ok ctx \<longleftrightarrow> (\<forall>i < length (t_framebuffs ctx).
     t_stat (t_framebuffs ctx ! i) = ST30P_TX_FRAME_READY \<longrightarrow> age ctx i < 2147483648)"

lemma seq32_greater_age:
  assumes "unat (c - a) < 2147483648" "unat (c - b) < 2147483648"
  shows "mt_seq32_greater a b \<longleftrightarrow> unat (c - a) < unat (c - b)"
proof -
  have eq: "a - b = (c - b) - (c - a)" by simp
  show ?thesis
  proof (cases "unat (c - a) \<le> unat (c - b)")
    case True
    then have "unat (a - b) = unat (c - b) - unat (c - a)"
      unfolding eq by (intro unat_sub) (simp add: word_le_nat_alt)
    moreover have "a - b = 0 \<longleftrightarrow> unat (a - b) = 0" by (simp only: unsigned_eq_0_iff)
    ultimately show ?thesis using assms True unfolding mt_seq32_greater_def Let_def bit31_clear by linarith
  next
    case False
    have "unat (x - y) = 4294967296 + unat x - unat y" if "\<not> unat y \<le> unat x" for x y :: u32
      using that by (simp add: unat_sub_if' unsigned_less)
    from this [OF False] have "unat (a - b) = 4294967296 + unat (c - b) - unat (c - a)" unfolding eq [symmetric] .
    then show ?thesis using assms False unfolding mt_seq32_greater_def Let_def bit31_clear by linarith
  qed
qed


text \<open>The scan of \<open>tx_st30p_newest_available\<close> keeps the candidate that was handed out first.\<close>

definition older :: "st30p_tx_ctx \<Rightarrow> nat \<Rightarrow> nat option \<Rightarrow> nat option" where
  "older ctx idx newest =
     (let framebuff = t_framebuffs ctx ! idx in
         if t_stat framebuff = ST30P_TX_FRAME_READY \<and>
            (case newest of None \<Rightarrow> True
             | Some j \<Rightarrow> \<not> mt_seq32_greater (t_seq_number framebuff) (t_seq_number (t_framebuffs ctx ! j)))
         then Some idx else newest)"

lemma older_simps:
  "older ctx n None = (if t_stat (t_framebuffs ctx ! n) = ST30P_TX_FRAME_READY then Some n else None)"
  "older ctx n (Some j) = (if t_stat (t_framebuffs ctx ! n) = ST30P_TX_FRAME_READY \<and>
     \<not> mt_seq32_greater (t_seq_number (t_framebuffs ctx ! n)) (t_seq_number (t_framebuffs ctx ! j)) then Some n else Some j)"
  by (simp_all add: older_def Let_def)

lemma older_scan:
  assumes "ages_ok ctx" and "n \<le> length (t_framebuffs ctx)"
  defines "ready \<equiv> \<lambda>k. t_stat (t_framebuffs ctx ! k) = ST30P_TX_FRAME_READY"
  shows "case fold (older ctx) [0..<n] None of
      None \<Rightarrow> \<forall>k < n. \<not> ready k
    | Some i \<Rightarrow> i < n \<and> ready i \<and> (\<forall>k < n. ready k \<longrightarrow> age ctx k \<le> age ctx i)"
  using assms(2)
proof (induction n)
  case (Suc n)
  have ok: "ready k \<Longrightarrow> k \<le> n \<Longrightarrow> age ctx k < 2147483648" for k
    using assms(1) Suc.prems by (simp add: ages_ok_def ready_def)
  show ?case
  proof (cases "fold (older ctx) [0..<n] None")
    case None
    then have "\<forall>k < n. \<not> ready k" using Suc by simp
    then show ?thesis using None by (auto simp: older_simps ready_def less_Suc_eq)
  next
    case (Some j)
    then have j: "j < n" "ready j" "\<forall>k < n. ready k \<longrightarrow> age ctx k \<le> age ctx j" using Suc by simp_all
    show ?thesis
    proof (cases "ready n")
      case True
      have "mt_seq32_greater (t_seq_number (t_framebuffs ctx ! n)) (t_seq_number (t_framebuffs ctx ! j))
          \<longleftrightarrow> age ctx n < age ctx j"
        using ok [OF True] ok [OF j(2)] j(1) unfolding age_def by (intro seq32_greater_age) simp_all
      then show ?thesis using True Some j
        by (auto simp: older_simps ready_def less_Suc_eq dest: le_trans)
    next
      case False
      then show ?thesis using Some j by (auto simp: older_simps ready_def less_Suc_eq)
    qed
  qed
qed simp

lemma newest_is_oldest:
  assumes "ages_ok ctx"
  shows "case tx_st30p_newest_available ctx ST30P_TX_FRAME_READY of
      None \<Rightarrow> \<forall>f \<in> set (t_framebuffs ctx). t_stat f \<noteq> ST30P_TX_FRAME_READY
    | Some i \<Rightarrow> i < length (t_framebuffs ctx) \<and> t_stat (t_framebuffs ctx ! i) = ST30P_TX_FRAME_READY \<and>
        (\<forall>k < length (t_framebuffs ctx). t_stat (t_framebuffs ctx ! k) = ST30P_TX_FRAME_READY \<longrightarrow> age ctx k \<le> age ctx i)"
proof -
  have "tx_st30p_newest_available ctx ST30P_TX_FRAME_READY = fold (older ctx) [0..<length (t_framebuffs ctx)] None"
    unfolding tx_st30p_newest_available_def by (rule fold_cong) (simp_all add: older_def fun_eq_iff)
  then show ?thesis using older_scan [OF assms le_refl]
    by (simp add: all_set_conv_all_nth split: option.splits)
qed

section \<open>The calls on a live session\<close>

definition live :: "st30p_tx_ctx \<Rightarrow> bool" where
  "live ctx \<longleftrightarrow> h_type (t_handle ctx) = MT_ST30_HANDLE_PIPELINE_TX \<and> \<not> lc_destroying (t_handle ctx) \<and> t_ready ctx"

interpretation tx_guard: session_guard t_handle "\<lambda>h ctx. ctx\<lparr>t_handle := h\<rparr>" MT_ST30_HANDLE_PIPELINE_TX
  by unfold_locales simp_all

text \<open>A guarded body that does not look at the handle runs as if there were no guard.\<close>

lemma tx_guarded_live:
  assumes "live ctx"
    and "\<And>h. body (ctx\<lparr>t_handle := h\<rparr>) = (fst (body ctx), (snd (body ctx))\<lparr>t_handle := h\<rparr>)"
    and "t_handle (snd (body ctx)) = t_handle ctx"
  shows "tx_guarded e body ctx = body ctx"
  unfolding tx_guarded_def using assms by (intro tx_guard.admitted) (simp_all add: live_def)

lemma put_frame_live:
  assumes "live ctx"
  shows "st30p_tx_put_frame i ctx =
    (if t_stat (t_framebuffs ctx ! i) \<noteq> ST30P_TX_FRAME_IN_USER then (Inl EIO, ctx)
     else (Inr (), (upd_frame i (tx_set_stat ST30P_TX_FRAME_READY) ctx)\<lparr>t_stat_put_frame := t_stat_put_frame ctx + 1\<rparr>))"
  unfolding st30p_tx_put_frame_def
  by (subst tx_guarded_live [OF assms]) (simp_all add: upd_frame_def Let_def)

lemma put_frame_abort_live:
  assumes "live ctx"
  shows "st30p_tx_put_frame_abort i ctx =
    (if t_stat (t_framebuffs ctx ! i) \<noteq> ST30P_TX_FRAME_IN_USER then (Inl EIO, ctx)
     else (Inr (), (upd_frame i (tx_set_stat ST30P_TX_FRAME_FREE) ctx)
       \<lparr>t_stat_drop_frame := t_stat_drop_frame ctx + 1, t_stat_frames_dropped := t_stat_frames_dropped ctx + 1\<rparr>))"
  unfolding st30p_tx_put_frame_abort_def
  by (subst tx_guarded_live [OF assms]) (simp_all add: upd_frame_def Let_def)

lemma wake_block_live:
  assumes "live ctx"
  shows "st30p_tx_wake_block ctx =
    (Inr (), if t_block_get ctx then ctx\<lparr>t_wake_block_cnt := t_wake_block_cnt ctx + 1\<rparr> else ctx)"
  unfolding st30p_tx_wake_block_def by (subst tx_guarded_live [OF assms]) simp_all

text \<open>A get that finds a free frame, and one that does not and does not wait.\<close>

definition handed_out :: "nat \<Rightarrow> st30p_tx_ctx \<Rightarrow> st30p_tx_ctx" where
  "handed_out i ctx = (upd_frame i (\<lambda>f. f\<lparr>t_stat := ST30P_TX_FRAME_IN_USER, t_done_cb_called := False,
       t_seq_number := t_framebuff_seq_number ctx\<rparr>) ctx)
     \<lparr>t_stat_get_frame_try := t_stat_get_frame_try ctx + 1,
      t_framebuff_seq_number := t_framebuff_seq_number ctx + 1, t_stat_get_frame_succ := t_stat_get_frame_succ ctx + 1\<rparr>"

lemma get_frame_live_some:
  assumes "live ctx" and "first_idx (\<lambda>f. t_stat f = ST30P_TX_FRAME_FREE) (t_framebuffs ctx) = Some i"
  shows "st30p_tx_get_frame waits ctx = (Some i, handed_out i ctx)"
  unfolding st30p_tx_get_frame_def using assms first_idx_Some(1) [OF assms(2)]
  by (subst tx_guarded_live [OF assms(1)])
    (simp_all add: upd_frame_def handed_out_def Let_def tx_st30p_claim_available_def tx_st30p_next_available_def
      live_def tx_set_stat_def)

lemma get_frame_live_none:
  assumes "live ctx" and "first_idx (\<lambda>f. t_stat f = ST30P_TX_FRAME_FREE) (t_framebuffs ctx) = None"
    and "\<not> t_block_get ctx \<or> waits = []"
  shows "st30p_tx_get_frame waits ctx = (None, ctx\<lparr>t_stat_get_frame_try := t_stat_get_frame_try ctx + 1\<rparr>)"
proof (cases "t_block_get ctx")
  case False
  show ?thesis unfolding st30p_tx_get_frame_def using assms False
    by (subst tx_guarded_live [OF assms(1)])
      (simp_all add: Let_def tx_st30p_claim_available_def tx_st30p_next_available_def live_def)
next
  case True
  then show ?thesis unfolding st30p_tx_get_frame_def using assms
    by (simp add: tx_guarded_def guarded_def mt_handle_acquire_def mt_handle_release_def block_wait.simps
      Let_def tx_st30p_claim_available_def tx_st30p_next_available_def live_def)
qed

text \<open>The two outcomes of the check for late frames.\<close>

definition late_dropped :: "nat \<Rightarrow> st30p_tx_ctx \<Rightarrow> st30p_tx_ctx" where
  "late_dropped i ctx =
     (let notify = to_has_done (t_ops ctx) \<and> \<not> t_done_cb_called (t_framebuffs ctx ! i) in
      (upd_frame i (\<lambda>f. (if notify then f\<lparr>t_frame := (t_frame f)\<lparr>af_status := ST_FRAME_STATUS_DROPPED\<rparr>,
          t_done_cb_called := True\<rparr> else f)\<lparr>t_stat := ST30P_TX_FRAME_FREE\<rparr>) ctx)
      \<lparr>t_stat_drop_frame := t_stat_drop_frame ctx + 1, t_stat_frames_dropped := t_stat_frames_dropped ctx + 1\<rparr>)"

lemma if_frame_late_cases:
  assumes "i < length (t_framebuffs ctx)"
  obtains (kept) "tx_st30p_if_frame_late now i ctx = (False, ctx, [])"
  | (dropped) ev where "tx_st30p_if_frame_late now i ctx = (True, late_dropped i ctx, ev)"
      and "done_events ev = (if to_has_done (t_ops ctx) \<and> \<not> t_done_cb_called (t_framebuffs ctx ! i) then 1 else 0)"
      and "has_flag (to_flags (t_ops ctx)) ST30P_TX_FLAG_DROP_WHEN_LATE"
proof (cases "fst (tx_st30p_if_frame_late now i ctx)")
  case False
  then have "tx_st30p_if_frame_late now i ctx = (False, ctx, [])"
    by (simp add: tx_st30p_if_frame_late_def Let_def split: if_splits)
  then show ?thesis by (rule kept)
next
  case True
  have "fst (snd (tx_st30p_if_frame_late now i ctx)) = late_dropped i ctx"
    using True assms
    by (auto simp: tx_st30p_if_frame_late_def late_dropped_def Let_def upd_frame_def tx_set_stat_def split: if_splits)
  moreover have "has_flag (to_flags (t_ops ctx)) ST30P_TX_FLAG_DROP_WHEN_LATE"
    using True by (auto simp: tx_st30p_if_frame_late_def Let_def split: if_splits)
  moreover have "done_events (snd (snd (tx_st30p_if_frame_late now i ctx))) =
      (if to_has_done (t_ops ctx) \<and> \<not> t_done_cb_called (t_framebuffs ctx ! i) then 1 else 0)"
    using True by (auto simp: tx_st30p_if_frame_late_def Let_def upd_frame_def tx_set_stat_def split: if_splits)
  ultimately show ?thesis using dropped True by (metis prod.collapse)
qed

section \<open>First in, first out\<close>

lemma newest_ready:
  assumes "tx_st30p_newest_available ctx ST30P_TX_FRAME_READY = Some i"
  shows "i < length (t_framebuffs ctx)" "t_stat (t_framebuffs ctx ! i) = ST30P_TX_FRAME_READY"
proof -
  have "fold (older ctx) [0..<n] None = Some i \<Longrightarrow> i < n \<and> t_stat (t_framebuffs ctx ! i) = ST30P_TX_FRAME_READY" for n
  proof (induction n)
    case (Suc n)
    then show ?case
      by (cases "fold (older ctx) [0..<n] None") (auto simp: older_simps split: if_splits)
  qed simp
  moreover have "tx_st30p_newest_available ctx ST30P_TX_FRAME_READY = fold (older ctx) [0..<length (t_framebuffs ctx)] None"
    unfolding tx_st30p_newest_available_def by (rule fold_cong) (simp_all add: older_def fun_eq_iff)
  ultimately show "i < length (t_framebuffs ctx)" "t_stat (t_framebuffs ctx ! i) = ST30P_TX_FRAME_READY"
    using assms by simp_all
qed

text \<open>What holds before the loop and is kept by every drop holds after it.\<close>

lemma next_loop_keeps:
  assumes "next_loop tai n ctx ev = (r, ctx', ev')" and "P ctx ev"
    and step: "\<And>i ctx ev ev1. P ctx ev \<Longrightarrow> tx_st30p_newest_available ctx ST30P_TX_FRAME_READY = Some i \<Longrightarrow>
      has_flag (to_flags (t_ops ctx)) ST30P_TX_FLAG_DROP_WHEN_LATE \<Longrightarrow>
      done_events ev1 = (if to_has_done (t_ops ctx) \<and> \<not> t_done_cb_called (t_framebuffs ctx ! i) then 1 else 0) \<Longrightarrow>
      P (late_dropped i ctx) (ev @ ev1)"
  shows "P ctx' ev' \<and> (\<forall>i. r = Some i \<longrightarrow> tx_st30p_newest_available ctx' ST30P_TX_FRAME_READY = Some i)"
  using assms(1,2)
proof (induction tai n ctx ev rule: next_loop.induct)
  case (1 tai n ctx ev)
  show ?case
  proof (cases "tx_st30p_newest_available ctx ST30P_TX_FRAME_READY")
    case None
    then show ?thesis using 1 by (simp add: next_loop.simps [of tai n])
  next
    case (Some i)
    show ?thesis
    proof (cases "n \<ge> ST_TX_ST30P_DROP_MAX_BATCH")
      case True
      then show ?thesis using 1 Some by (simp add: next_loop.simps [of tai n])
    next
      case False
      show ?thesis
      proof (rule if_frame_late_cases [OF newest_ready(1) [OF Some], of "tai n"])
        assume "tx_st30p_if_frame_late (tai n) i ctx = (False, ctx, [])"
        then show ?thesis using 1 Some False by (simp add: next_loop.simps [of tai n])
      next
        fix ev1
        assume late: "tx_st30p_if_frame_late (tai n) i ctx = (True, late_dropped i ctx, ev1)"
          and ev1: "done_events ev1 = (if to_has_done (t_ops ctx) \<and> \<not> t_done_cb_called (t_framebuffs ctx ! i) then 1 else 0)"
          and flag: "has_flag (to_flags (t_ops ctx)) ST30P_TX_FLAG_DROP_WHEN_LATE"
        have "P (late_dropped i ctx) (ev @ ev1)" by (rule step [OF 1(3) Some flag ev1])
        moreover have "next_loop tai (n + 1) (late_dropped i ctx) (ev @ ev1) = (r, ctx', ev')"
          using 1(2) Some False late by (simp add: next_loop.simps [of tai n])
        ultimately show ?thesis using 1(1) [OF Some False late [symmetric]] by simp
      qed
    qed
  qed
qed

lemma late_dropped_frames:
  assumes "i < length (t_framebuffs ctx)"
  shows "length (t_framebuffs (late_dropped i ctx)) = length (t_framebuffs ctx)"
    and "k \<noteq> i \<Longrightarrow> t_framebuffs (late_dropped i ctx) ! k = t_framebuffs ctx ! k"
    and "t_stat (t_framebuffs (late_dropped i ctx) ! i) = ST30P_TX_FRAME_FREE"
    and "age (late_dropped i ctx) k = age ctx k"
  using assms by (cases "k = i"; simp add: late_dropped_def Let_def upd_frame_def age_def)+

text \<open>The state of the loop relative to the state before it: frames are unchanged or dropped, and
  what was dropped is at least as old as every frame still ready.\<close>

definition drops_oldest :: "st30p_tx_ctx \<Rightarrow> st30p_tx_ctx \<Rightarrow> bool" where
  "drops_oldest ctx0 ctx \<longleftrightarrow> t_ops ctx = t_ops ctx0 \<and> length (t_framebuffs ctx) = length (t_framebuffs ctx0) \<and>
     (\<forall>k. age ctx k = age ctx0 k) \<and>
     (\<forall>k < length (t_framebuffs ctx0). t_framebuffs ctx ! k = t_framebuffs ctx0 ! k \<or>
        t_stat (t_framebuffs ctx0 ! k) = ST30P_TX_FRAME_READY \<and> t_stat (t_framebuffs ctx ! k) = ST30P_TX_FRAME_FREE \<and>
        has_flag (to_flags (t_ops ctx0)) ST30P_TX_FLAG_DROP_WHEN_LATE \<and>
        (\<forall>j < length (t_framebuffs ctx0). t_stat (t_framebuffs ctx ! j) = ST30P_TX_FRAME_READY \<longrightarrow> age ctx0 j \<le> age ctx0 k))"

lemma drops_oldest_ages:
  assumes "drops_oldest ctx0 ctx" and "ages_ok ctx0"
  shows "ages_ok ctx"
  unfolding ages_ok_def
proof (intro allI impI)
  fix k assume k: "k < length (t_framebuffs ctx)" and r: "t_stat (t_framebuffs ctx ! k) = ST30P_TX_FRAME_READY"
  have "t_stat (t_framebuffs ctx0 ! k) = ST30P_TX_FRAME_READY"
    using assms(1) k r unfolding drops_oldest_def by (metis st30p_tx_frame_status.distinct(3))
  then show "age ctx k < 2147483648" using assms k by (simp add: drops_oldest_def ages_ok_def)
qed

lemma newest_max:
  assumes "ages_ok ctx" and "tx_st30p_newest_available ctx ST30P_TX_FRAME_READY = Some i"
    and "k < length (t_framebuffs ctx)" and "t_stat (t_framebuffs ctx ! k) = ST30P_TX_FRAME_READY"
  shows "age ctx k \<le> age ctx i"
  using newest_is_oldest [OF assms(1)] assms(2-4) by simp

lemma drops_oldest_step:
  assumes d: "drops_oldest ctx0 ctx" and "ages_ok ctx0"
    and new: "tx_st30p_newest_available ctx ST30P_TX_FRAME_READY = Some i"
    and flag: "has_flag (to_flags (t_ops ctx)) ST30P_TX_FLAG_DROP_WHEN_LATE"
  shows "drops_oldest ctx0 (late_dropped i ctx)"
proof -
  note i = newest_ready [OF new]
  have le: "age ctx0 k \<le> age ctx0 i"
    if "k < length (t_framebuffs ctx0)" "t_stat (t_framebuffs (late_dropped i ctx) ! k) = ST30P_TX_FRAME_READY" for k
  proof -
    have "k \<noteq> i" using that late_dropped_frames(3) [OF i(1)] by auto
    then have "t_stat (t_framebuffs ctx ! k) = ST30P_TX_FRAME_READY" using that late_dropped_frames(2) [OF i(1)] by simp
    then show ?thesis using newest_max [OF drops_oldest_ages [OF d assms(2)] new, of k] that d
      by (simp add: drops_oldest_def)
  qed
  have still: "t_stat (t_framebuffs ctx ! k) = ST30P_TX_FRAME_READY"
    if "t_stat (t_framebuffs (late_dropped i ctx) ! k) = ST30P_TX_FRAME_READY" for k
    using that late_dropped_frames(2,3) [OF i(1)] by (cases "k = i") auto
  have i0: "t_framebuffs ctx ! i = t_framebuffs ctx0 ! i" using d i unfolding drops_oldest_def
    by (metis st30p_tx_frame_status.distinct(3))
  show ?thesis
    unfolding drops_oldest_def
  proof (intro conjI allI impI)
    show "t_ops (late_dropped i ctx) = t_ops ctx0" using d by (simp add: drops_oldest_def late_dropped_def Let_def)
    show "length (t_framebuffs (late_dropped i ctx)) = length (t_framebuffs ctx0)"
      using d late_dropped_frames(1) [OF i(1)] by (simp add: drops_oldest_def)
    show "age (late_dropped i ctx) k = age ctx0 k" for k
      using d late_dropped_frames(4) [OF i(1)] by (simp add: drops_oldest_def)
    show "t_framebuffs (late_dropped i ctx) ! k = t_framebuffs ctx0 ! k \<or>
        t_stat (t_framebuffs ctx0 ! k) = ST30P_TX_FRAME_READY \<and>
        t_stat (t_framebuffs (late_dropped i ctx) ! k) = ST30P_TX_FRAME_FREE \<and>
        has_flag (to_flags (t_ops ctx0)) ST30P_TX_FLAG_DROP_WHEN_LATE \<and>
        (\<forall>j < length (t_framebuffs ctx0). t_stat (t_framebuffs (late_dropped i ctx) ! j) = ST30P_TX_FRAME_READY \<longrightarrow>
           age ctx0 j \<le> age ctx0 k)" if "k < length (t_framebuffs ctx0)" for k
    proof (cases "k = i")
      case True
      then show ?thesis using le i i0 late_dropped_frames(3) [OF i(1)] flag d by (simp add: drops_oldest_def)
    next
      case False
      then show ?thesis using d that still late_dropped_frames(2) [OF i(1) False] by (simp add: drops_oldest_def) blast
    qed
  qed
qed

lemma next_loop_drops_oldest:
  assumes "ages_ok ctx" and "next_loop tai 0 ctx [] = (r, ctx', ev)"
  shows "drops_oldest ctx ctx'" and "r = Some i \<Longrightarrow> tx_st30p_newest_available ctx' ST30P_TX_FRAME_READY = Some i"
proof -
  have "drops_oldest ctx ctx" by (simp add: drops_oldest_def)
  from next_loop_keeps [OF assms(2), of "\<lambda>c _. drops_oldest ctx c", OF this drops_oldest_step [OF _ assms(1)]]
  show "drops_oldest ctx ctx'" "r = Some i \<Longrightarrow> tx_st30p_newest_available ctx' ST30P_TX_FRAME_READY = Some i"
    by blast+
qed


definition tx_demo_ops :: st30p_tx_ops where
  "tx_demo_ops = \<lparr>to_flags = 0, to_fmt = ST30_FMT_PCM16, to_channel = 2, to_sampling = ST30_SAMPLING_48K,
     to_ptime = ST30_PTIME_1MS, to_framebuff_cnt = 2, to_framebuff_size = 192, to_has_available = False,
     to_has_done = True, to_has_late = False\<rparr>"

text \<open>A session of two frames, both ready; frame 1 was handed out first.\<close>

definition tx_demo :: st30p_tx_ctx where
  "tx_demo =
     \<lparr>t_handle = \<lparr>h_type = MT_ST30_HANDLE_PIPELINE_TX, lc_destroying = False, lc_refcnt = 0\<rparr>, t_ops = tx_demo_ops,
      t_framebuffs = map (\<lambda>sn. (hd (tx_st30p_init_fbs tx_demo_ops))\<lparr>t_stat := ST30P_TX_FRAME_READY, t_seq_number := sn\<rparr>) [1, 0],
      t_framebuff_seq_number = 2, t_ready = True, t_frames_per_sec = 1000, t_block_get = False,
      t_block_timeout_ns = 0, t_wake_block_cnt = 0, t_stat_get_frame_try = 2, t_stat_get_frame_succ = 2,
      t_stat_put_frame = 2, t_stat_drop_frame = 0, t_stat_frames_sent = 0, t_stat_frames_dropped = 0\<rparr>"

lemma tx_demo_newest: "tx_st30p_newest_available tx_demo ST30P_TX_FRAME_READY = Some 1"
  by (simp add: tx_st30p_newest_available_def tx_demo_def mt_seq32_greater_def upt_rec [of _ "Suc _"] Let_def upt_conv_Cons)

lemma tx_demo_next:
  "tx_st30p_next_frame (\<lambda>_. 0) tx_demo = (Inr (1, None), upd_frame 1 (tx_set_stat ST30P_TX_FRAME_IN_TRANSMITTING) tx_demo, [])"
proof -
  have "tx_st30p_if_frame_late 0 1 tx_demo = (False, tx_demo, [])"
    by (simp add: tx_st30p_if_frame_late_def tx_demo_def tx_demo_ops_def has_flag_def)
  then have "next_loop (\<lambda>_. 0) 0 tx_demo [] = (Some 1, tx_demo, [])"
    by (simp add: next_loop.simps tx_demo_newest)
  moreover have "t_ready tx_demo" "to_flags (t_ops tx_demo) = 0" by (simp_all add: tx_demo_def tx_demo_ops_def)
  ultimately show ?thesis by (simp add: tx_st30p_next_frame_def has_flag_def)
qed

lemma tx_demo_ages: "ages_ok tx_demo"
  by (simp add: ages_ok_def age_def tx_demo_def less_Suc_eq)


section \<open>Every frame is accounted for\<close>

text \<open>
  The histories of a session that is used one call at a time: the numbers count the frames handed
  out, the aborted frames and the done notifications so far. The transport reports only frames it
  has taken.
\<close>

inductive tx_history :: "st30p_tx_ctx \<Rightarrow> nat \<Rightarrow> nat \<Rightarrow> nat \<Rightarrow> bool" where
  created: "st30p_tx_create True True transport ops = Some (ctx, ev) \<Longrightarrow> tx_history ctx 0 0 0"
| get: "tx_history ctx gets aborts dones \<Longrightarrow> st30p_tx_get_frame [] ctx = (r, ctx') \<Longrightarrow>
    tx_history ctx' (if r = None then gets else gets + 1) aborts dones"
| put: "tx_history ctx gets aborts dones \<Longrightarrow> i < length (t_framebuffs ctx) \<Longrightarrow>
    st30p_tx_put_frame i ctx = (r, ctx') \<Longrightarrow> tx_history ctx' gets aborts dones"
| abort: "tx_history ctx gets aborts dones \<Longrightarrow> i < length (t_framebuffs ctx) \<Longrightarrow>
    st30p_tx_put_frame_abort i ctx = (r, ctx') \<Longrightarrow>
    tx_history ctx' gets (if r = Inr () then aborts + 1 else aborts) dones"
| next_frame: "tx_history ctx gets aborts dones \<Longrightarrow> tx_st30p_next_frame tai ctx = (r, ctx', ev) \<Longrightarrow>
    tx_history ctx' gets aborts (dones + done_events ev)"
| frame_done: "tx_history ctx gets aborts dones \<Longrightarrow> i < length (t_framebuffs ctx) \<Longrightarrow>
    t_stat (t_framebuffs ctx ! i) = ST30P_TX_FRAME_IN_TRANSMITTING \<Longrightarrow>
    tx_st30p_frame_done i meta ctx = (r, ctx', ev) \<Longrightarrow> tx_history ctx' gets aborts (dones + done_events ev)"
| wake: "tx_history ctx gets aborts dones \<Longrightarrow> st30p_tx_wake_block ctx = (r, ctx') \<Longrightarrow> tx_history ctx' gets aborts dones"
| stat: "tx_history ctx gets aborts dones \<Longrightarrow> tx_st30p_stat ctx = (r, ctx') \<Longrightarrow> tx_history ctx' gets aborts dones"

definition frame_ok :: "st30p_tx_frame \<Rightarrow> bool" where
  "frame_ok f \<longleftrightarrow> t_stat f \<noteq> ST30P_TX_FRAME_DROPPED \<and> (t_stat f \<noteq> ST30P_TX_FRAME_FREE \<longrightarrow> \<not> t_done_cb_called f)"

definition tx_inv :: "st30p_tx_ctx \<Rightarrow> nat \<Rightarrow> nat \<Rightarrow> nat \<Rightarrow> bool" where
  "tx_inv ctx gets aborts dones \<longleftrightarrow>
     live ctx \<and> (\<forall>f \<in> set (t_framebuffs ctx). frame_ok f) \<and> length (t_framebuffs ctx) = unat (to_framebuff_cnt (t_ops ctx)) \<and>
     t_framebuff_seq_number ctx = of_nat gets \<and>
     t_stat_frames_sent ctx + t_stat_frames_dropped ctx + of_nat (busy (t_framebuffs ctx)) = of_nat gets \<and>
     (to_has_done (t_ops ctx) \<longrightarrow> of_nat (dones + aborts) = t_stat_frames_sent ctx + t_stat_frames_dropped ctx)"

lemma frames_ok_update: "\<forall>f \<in> set fs. frame_ok f \<Longrightarrow> frame_ok g \<Longrightarrow> \<forall>f \<in> set (fs[i := g]). frame_ok f"
  using set_update_subset_insert [of fs i g] by blast

lemma busy_to_free:
  assumes "i < length fs" "t_stat (fs ! i) \<noteq> ST30P_TX_FRAME_FREE" "t_stat g = ST30P_TX_FRAME_FREE"
  shows "busy fs = Suc (busy (fs[i := g]))"
  using busy_update [OF assms(1), of g] assms by simp

lemma busy_from_free:
  assumes "i < length fs" "t_stat (fs ! i) = ST30P_TX_FRAME_FREE" "t_stat g \<noteq> ST30P_TX_FRAME_FREE"
  shows "busy (fs[i := g]) = Suc (busy fs)"
  using busy_update [OF assms(1), of g] assms by simp

lemma busy_same:
  assumes "i < length fs" "t_stat (fs ! i) \<noteq> ST30P_TX_FRAME_FREE" "t_stat g \<noteq> ST30P_TX_FRAME_FREE"
  shows "busy (fs[i := g]) = busy fs"
  using busy_update [OF assms(1), of g] assms by simp

lemma tx_inv_created:
  assumes "st30p_tx_create True True transport ops = Some (ctx, ev)"
  shows "tx_inv ctx 0 0 0"
proof -
  obtain fps addr where t: "transport (st30_tx_flags (to_flags ops)) = Some (fps, addr)"
    using assms by (auto simp: st30p_tx_create_def tx_st30p_create_transport_def Let_def split: option.splits)
  have free: "\<forall>f \<in> set (t_framebuffs ctx). t_stat f = ST30P_TX_FRAME_FREE"
    using assms t by (auto simp: st30p_tx_create_def tx_st30p_create_transport_def tx_st30p_init_fbs_def Let_def)
  then have "busy (t_framebuffs ctx) = 0" "\<forall>f \<in> set (t_framebuffs ctx). frame_ok f"
    by (simp_all add: busy_def filter_empty_conv frame_ok_def)
  then show ?thesis using assms t
    by (auto simp: tx_inv_def live_def st30p_tx_create_def tx_st30p_create_transport_def tx_st30p_init_fbs_def Let_def)
qed

lemma tx_inv_get:
  assumes inv: "tx_inv ctx gets aborts dones" and get: "st30p_tx_get_frame [] ctx = (r, ctx')"
  shows "tx_inv ctx' (if r = None then gets else gets + 1) aborts dones"
proof (cases "first_idx (\<lambda>f. t_stat f = ST30P_TX_FRAME_FREE) (t_framebuffs ctx)")
  case None
  have "live ctx" using inv by (simp add: tx_inv_def)
  from get_frame_live_none [OF this None, of "[]"] get
  show ?thesis using inv by (auto simp: tx_inv_def live_def)
next
  case (Some i)
  have "live ctx" using inv by (simp add: tx_inv_def)
  from get_frame_live_some [OF this Some, of "[]"] get
  have r: "r = Some i" "ctx' = handed_out i ctx" by simp_all
  note i = first_idx_Some(1,2) [OF Some]
  define g where "g = (t_framebuffs ctx ! i)\<lparr>t_stat := ST30P_TX_FRAME_IN_USER, t_done_cb_called := False,
       t_seq_number := t_framebuff_seq_number ctx\<rparr>"
  have fbs: "t_framebuffs ctx' = (t_framebuffs ctx)[i := g]" by (simp add: r(2) handed_out_def g_def)
  have "busy (t_framebuffs ctx') = Suc (busy (t_framebuffs ctx))"
    unfolding fbs using i by (intro busy_from_free) (simp_all add: g_def)
  moreover have "\<forall>f \<in> set (t_framebuffs ctx'). frame_ok f"
    unfolding fbs using inv by (intro frames_ok_update) (simp_all add: tx_inv_def g_def frame_ok_def)
  ultimately show ?thesis using inv r(1)
    by (simp add: tx_inv_def live_def handed_out_def r(2) algebra_simps)
qed

lemma tx_inv_put:
  assumes inv: "tx_inv ctx gets aborts dones" and i: "i < length (t_framebuffs ctx)"
    and put: "st30p_tx_put_frame i ctx = (r, ctx')"
  shows "tx_inv ctx' gets aborts dones"
proof (cases "t_stat (t_framebuffs ctx ! i) = ST30P_TX_FRAME_IN_USER")
  case True
  have l: "live ctx" using inv by (simp add: tx_inv_def)
  define g where "g = tx_set_stat ST30P_TX_FRAME_READY (t_framebuffs ctx ! i)"
  have fbs: "t_framebuffs ctx' = (t_framebuffs ctx)[i := g]"
    using put_frame_live [OF l, of i] put True by (auto simp: g_def)
  have "frame_ok (t_framebuffs ctx ! i)" using inv i by (simp add: tx_inv_def)
  then have "\<forall>f \<in> set (t_framebuffs ctx'). frame_ok f"
    unfolding fbs using inv True by (intro frames_ok_update) (simp_all add: tx_inv_def g_def frame_ok_def tx_set_stat_def)
  moreover have "busy (t_framebuffs ctx') = busy (t_framebuffs ctx)"
    unfolding fbs using i True by (intro busy_same) (simp_all add: g_def tx_set_stat_def)
  ultimately show ?thesis using inv put_frame_live [OF l, of i] put True by (auto simp: tx_inv_def live_def)
next
  case False
  have l: "live ctx" using inv by (simp add: tx_inv_def)
  show ?thesis using put_frame_live [OF l, of i] put False inv by simp
qed

text \<open>A frame that goes back to free, counted as sent or dropped, with or without a notification.\<close>

lemma tx_inv_freed:
  assumes inv: "tx_inv ctx gets aborts dones" and i: "i < length (t_framebuffs ctx)"
    and busy: "t_stat (t_framebuffs ctx ! i) \<noteq> ST30P_TX_FRAME_FREE" and g: "t_stat g = ST30P_TX_FRAME_FREE"
    and fbs: "t_framebuffs ctx' = (t_framebuffs ctx)[i := g]"
    and same: "t_handle ctx' = t_handle ctx" "t_ops ctx' = t_ops ctx" "t_ready ctx' = t_ready ctx"
      "t_framebuff_seq_number ctx' = t_framebuff_seq_number ctx"
    and stats: "t_stat_frames_sent ctx' + t_stat_frames_dropped ctx' = t_stat_frames_sent ctx + t_stat_frames_dropped ctx + 1"
    and cnt: "to_has_done (t_ops ctx) \<Longrightarrow> dones' + aborts' = Suc (dones + aborts)"
  shows "tx_inv ctx' gets aborts' dones'"
proof -
  have b: "busy (t_framebuffs ctx) = Suc (busy (t_framebuffs ctx'))" unfolding fbs by (rule busy_to_free [OF i busy g])
  have "\<forall>f \<in> set (t_framebuffs ctx'). frame_ok f"
    unfolding fbs using inv g by (intro frames_ok_update) (simp_all add: tx_inv_def frame_ok_def)
  moreover have "of_nat (dones' + aborts') = t_stat_frames_sent ctx' + t_stat_frames_dropped ctx'"
    if "to_has_done (t_ops ctx)"
    using inv cnt [OF that] that unfolding stats by (simp add: tx_inv_def del: of_nat_add)
  moreover have "t_stat_frames_sent ctx' + t_stat_frames_dropped ctx' + of_nat (busy (t_framebuffs ctx')) = of_nat gets"
    using inv unfolding stats tx_inv_def b by (simp add: algebra_simps)
  ultimately show ?thesis using inv by (simp add: tx_inv_def live_def same fbs)
qed

lemma tx_inv_abort:
  assumes inv: "tx_inv ctx gets aborts dones" and i: "i < length (t_framebuffs ctx)"
    and ab: "st30p_tx_put_frame_abort i ctx = (r, ctx')"
  shows "tx_inv ctx' gets (if r = Inr () then aborts + 1 else aborts) dones"
proof -
  have l: "live ctx" using inv by (simp add: tx_inv_def)
  show ?thesis
  proof (cases "t_stat (t_framebuffs ctx ! i) = ST30P_TX_FRAME_IN_USER")
    case True
    then have "r = Inr ()" "t_framebuffs ctx' = (t_framebuffs ctx)[i := tx_set_stat ST30P_TX_FRAME_FREE (t_framebuffs ctx ! i)]"
      using put_frame_abort_live [OF l, of i] ab by auto
    then show ?thesis using put_frame_abort_live [OF l, of i] ab True
      by (auto intro!: tx_inv_freed [OF inv i] simp: tx_set_stat_def)
  next
    case False
    then show ?thesis using put_frame_abort_live [OF l, of i] ab inv by simp
  qed
qed

lemma tx_inv_late_dropped:
  assumes inv: "tx_inv ctx gets aborts dones"
    and new: "tx_st30p_newest_available ctx ST30P_TX_FRAME_READY = Some i"
    and ev: "n = (if to_has_done (t_ops ctx) \<and> \<not> t_done_cb_called (t_framebuffs ctx ! i) then 1 else 0)"
  shows "tx_inv (late_dropped i ctx) gets aborts (dones + n)"
proof -
  note i = newest_ready [OF new]
  have "frame_ok (t_framebuffs ctx ! i)" using inv i(1) by (simp add: tx_inv_def)
  then have "\<not> t_done_cb_called (t_framebuffs ctx ! i)" using i(2) by (simp add: frame_ok_def)
  then show ?thesis using i ev
    by (intro tx_inv_freed [OF inv i(1)]) (simp_all add: late_dropped_def Let_def)
qed

lemma tx_inv_next_loop:
  assumes inv: "tx_inv ctx gets aborts dones" and loop: "next_loop tai 0 ctx [] = (r, ctx', ev)"
  shows "tx_inv ctx' gets aborts (dones + done_events ev)"
    and "r = Some i \<Longrightarrow> tx_st30p_newest_available ctx' ST30P_TX_FRAME_READY = Some i"
proof -
  have "tx_inv ctx gets aborts (dones + done_events [])" using inv by simp
  from next_loop_keeps [OF loop, of "\<lambda>c e. tx_inv c gets aborts (dones + done_events e)", OF this]
  have "tx_inv ctx' gets aborts (dones + done_events ev) \<and>
      (\<forall>i. r = Some i \<longrightarrow> tx_st30p_newest_available ctx' ST30P_TX_FRAME_READY = Some i)"
    using tx_inv_late_dropped by (simp add: add.assoc [symmetric])
  then show "tx_inv ctx' gets aborts (dones + done_events ev)"
    "r = Some i \<Longrightarrow> tx_st30p_newest_available ctx' ST30P_TX_FRAME_READY = Some i" by blast+
qed

lemma tx_inv_next_frame:
  assumes inv: "tx_inv ctx gets aborts dones" and taken: "tx_st30p_next_frame tai ctx = (r, ctx', ev)"
  shows "tx_inv ctx' gets aborts (dones + done_events ev)"
proof -
  obtain r1 c1 ev1 where loop: "next_loop tai 0 ctx [] = (r1, c1, ev1)" by (metis prod_cases3)
  note inv1 = tx_inv_next_loop(1) [OF inv loop]
  have ready: "t_ready ctx" using inv by (simp add: tx_inv_def live_def)
  show ?thesis
  proof (cases r1)
    case None
    then have "ctx' = c1" "done_events ev = done_events ev1"
      using taken loop ready by (auto simp: tx_st30p_next_frame_def Let_def)
    then show ?thesis using inv1 by simp
  next
    case (Some i)
    note i = newest_ready [OF tx_inv_next_loop(2) [OF inv loop Some]]
    define g where "g = tx_set_stat ST30P_TX_FRAME_IN_TRANSMITTING (t_framebuffs c1 ! i)"
    have c: "ctx' = upd_frame i (tx_set_stat ST30P_TX_FRAME_IN_TRANSMITTING) c1" "ev = ev1"
      using Some taken loop ready by (auto simp: tx_st30p_next_frame_def Let_def)
    then have fbs: "t_framebuffs ctx' = (t_framebuffs c1)[i := g]" by (simp add: g_def)
    have "frame_ok (t_framebuffs c1 ! i)" using inv1 i(1) by (simp add: tx_inv_def)
    then have "\<forall>f \<in> set (t_framebuffs ctx'). frame_ok f"
      unfolding fbs using inv1 i(2) by (intro frames_ok_update) (simp_all add: tx_inv_def g_def frame_ok_def tx_set_stat_def)
    moreover have "busy (t_framebuffs ctx') = busy (t_framebuffs c1)"
      unfolding fbs using i by (intro busy_same) (simp_all add: g_def tx_set_stat_def)
    ultimately show ?thesis using inv1 fbs by (simp add: c tx_inv_def live_def)
  qed
qed

lemma tx_inv_frame_done:
  assumes inv: "tx_inv ctx gets aborts dones" and i: "i < length (t_framebuffs ctx)"
    and stat: "t_stat (t_framebuffs ctx ! i) = ST30P_TX_FRAME_IN_TRANSMITTING"
    and fin: "tx_st30p_frame_done i meta ctx = (r, ctx', ev)"
  shows "tx_inv ctx' gets aborts (dones + done_events ev)"
proof -
  have "frame_ok (t_framebuffs ctx ! i)" using inv i by (simp add: tx_inv_def)
  then have cb: "\<not> t_done_cb_called (t_framebuffs ctx ! i)" using stat by (simp add: frame_ok_def)
  have c: "ctx' = fst (snd (tx_st30p_frame_done i meta ctx))" "ev = snd (snd (tx_st30p_frame_done i meta ctx))"
    unfolding fin by simp_all
  have "t_stat (t_framebuffs ctx' ! i) = ST30P_TX_FRAME_FREE"
    "t_framebuffs ctx' = (t_framebuffs ctx)[i := t_framebuffs ctx' ! i]"
    unfolding c using i stat cb by (simp_all add: tx_st30p_frame_done_def Let_def tx_set_stat_def)
  moreover have "done_events ev = (if to_has_done (t_ops ctx) then 1 else 0)"
    unfolding c using i stat cb by (simp add: tx_st30p_frame_done_def Let_def)
  ultimately show ?thesis using stat
    by (intro tx_inv_freed [OF inv i]) (simp_all add: c tx_st30p_frame_done_def Let_def i tx_set_stat_def)
qed

lemma tx_inv_history: "tx_history ctx gets aborts dones \<Longrightarrow> tx_inv ctx gets aborts dones"
proof (induction rule: tx_history.induct)
  case (wake ctx gets aborts dones r ctx')
  then have "live ctx" by (simp add: tx_inv_def)
  then show ?case using wake_block_live [of ctx] wake by (auto simp: tx_inv_def live_def)
next
  case (stat ctx gets aborts dones r ctx')
  then show ?case by (auto simp: tx_st30p_stat_def tx_inv_def live_def)
qed (simp_all add: tx_inv_created tx_inv_get tx_inv_put tx_inv_abort tx_inv_next_frame tx_inv_frame_done)

lemma busy_all: "busy fs = length fs \<longleftrightarrow> count_in t_stat ST30P_TX_FRAME_FREE fs = 0"
proof -
  have "busy fs + count_in t_stat ST30P_TX_FRAME_FREE fs = length fs"
    using sum_length_filter_compl [of "\<lambda>f. t_stat f \<noteq> ST30P_TX_FRAME_FREE" fs] by (simp add: busy_def count_in_def)
  then show ?thesis by linarith
qed



section \<open>Blocking\<close>

text \<open>The session as a waiting thread sees it: live, not woken, without a free frame or with one.\<close>

definition waiting :: "u32 \<Rightarrow> bool \<Rightarrow> st30p_tx_ctx \<Rightarrow> bool" where
  "waiting w free ctx \<longleftrightarrow> live ctx \<and> t_block_get ctx \<and> t_wake_block_cnt ctx = w \<and>
     (free \<longleftrightarrow> count_in t_stat ST30P_TX_FRAME_FREE (t_framebuffs ctx) \<noteq> 0)"

text \<open>The waits end with a frame freed, before a timeout.\<close>

fun freed_in_time :: "u32 \<Rightarrow> (bool \<times> (st30p_tx_ctx \<Rightarrow> st30p_tx_ctx)) list \<Rightarrow> st30p_tx_ctx \<Rightarrow> bool" where
  "freed_in_time w [] ctx = False"
| "freed_in_time w ((timed_out, others) # rest) ctx \<longleftrightarrow> waiting w False ctx \<and> \<not> timed_out \<and>
     (waiting w True (others ctx) \<or> freed_in_time w rest (others ctx))"

text \<open>The session as the wait finds it, after the call passed the guard and counted its try.\<close>

definition entered :: "st30p_tx_ctx \<Rightarrow> st30p_tx_ctx" where
  "entered ctx = ctx\<lparr>t_handle := (t_handle ctx)\<lparr>lc_refcnt := lc_refcnt (t_handle ctx) + 1\<rparr>,
     t_stat_get_frame_try := t_stat_get_frame_try ctx + 1\<rparr>"

lemma claim_waiting:
  "waiting w False ctx \<Longrightarrow> tx_st30p_claim_available ctx ST30P_TX_FRAME_FREE ST30P_TX_FRAME_IN_USER = (None, ctx)"
  "waiting w True ctx \<Longrightarrow> \<exists>i. tx_st30p_claim_available ctx ST30P_TX_FRAME_FREE ST30P_TX_FRAME_IN_USER =
     (Some i, upd_frame i (tx_set_stat ST30P_TX_FRAME_IN_USER) ctx) \<and> i < length (t_framebuffs ctx)"
  using first_idx_Some(1) [of "\<lambda>f. t_stat f = ST30P_TX_FRAME_FREE" "t_framebuffs ctx"]
    tx_pool.claim_complete [of ST30P_TX_FRAME_FREE "t_framebuffs ctx"]
  by (auto simp: waiting_def tx_st30p_claim_available_def tx_st30p_next_available_def split: option.splits)

lemma block_wait_free:
  assumes "waiting w True ctx"
  shows "\<exists>i c. block_wait waits w ctx = (Some i, upd_frame i (tx_set_stat ST30P_TX_FRAME_IN_USER) c) \<and>
    waiting w True c \<and> i < length (t_framebuffs c)"
  using claim_waiting(2) [OF assms] assms by (auto simp: block_wait.simps [of _ w ctx] waiting_def live_def)

lemma block_wait_returns:
  "freed_in_time w waits ctx \<Longrightarrow> \<exists>i c. block_wait waits w ctx = (Some i, upd_frame i (tx_set_stat ST30P_TX_FRAME_IN_USER) c) \<and>
    waiting w True c \<and> i < length (t_framebuffs c)"
proof (induction waits arbitrary: ctx)
  case (Cons e rest)
  obtain others where e: "e = (False, others)" and w: "waiting w False ctx"
    and after: "waiting w True (others ctx) \<or> freed_in_time w rest (others ctx)" using Cons.prems by (cases e) auto
  have "block_wait (e # rest) w ctx = block_wait rest w (others ctx)"
    using w claim_waiting(1) [OF w] by (simp add: block_wait.simps [of _ w ctx] waiting_def live_def e)
  then show ?case using after block_wait_free Cons.IH by metis
qed simp

lemma get_frame_blocking:
  assumes "live ctx" "t_block_get ctx"
    and "tx_st30p_claim_available (entered ctx) ST30P_TX_FRAME_FREE ST30P_TX_FRAME_IN_USER = (None, entered ctx)"
    and "block_wait waits (t_wake_block_cnt ctx) (entered ctx) = (Some i, c)" and "\<not> lc_destroying (t_handle c)"
  shows "fst (st30p_tx_get_frame waits ctx) = Some i"
    and "t_framebuffs (snd (st30p_tx_get_frame waits ctx)) =
      (t_framebuffs c)[i := (t_framebuffs c ! i)\<lparr>t_done_cb_called := False, t_seq_number := t_framebuff_seq_number c\<rparr>]"
  using assms
  by (simp_all add: st30p_tx_get_frame_def tx_guarded_def guarded_def Let_def mt_handle_acquire_def live_def entered_def)

text \<open>C22. A blocking get does not miss a frame: however many times the wait returns before, when another
  thread frees a frame during a wait that does not time out, on a session that is neither being
  destroyed nor woken, the call returns a frame, in the state of a frame held by the user.\<close>

theorem st30p_tx_blocking_get:
  assumes "freed_in_time (t_wake_block_cnt ctx) waits (entered ctx)"
  shows "\<exists>i ctx'. st30p_tx_get_frame waits ctx = (Some i, ctx') \<and>
    i < length (t_framebuffs ctx') \<and> t_stat (t_framebuffs ctx' ! i) = ST30P_TX_FRAME_IN_USER"
proof -
  have w: "waiting (t_wake_block_cnt ctx) False (entered ctx)" using assms by (cases waits) auto
  then have l: "live ctx" "t_block_get ctx" by (simp_all add: waiting_def live_def entered_def)
  obtain i c where blk: "block_wait waits (t_wake_block_cnt ctx) (entered ctx) =
      (Some i, upd_frame i (tx_set_stat ST30P_TX_FRAME_IN_USER) c)"
      "waiting (t_wake_block_cnt ctx) True c" "i < length (t_framebuffs c)"
    using block_wait_returns [OF assms] by blast
  have "\<not> lc_destroying (t_handle (upd_frame i (tx_set_stat ST30P_TX_FRAME_IN_USER) c))"
    using blk(2) by (simp add: waiting_def live_def)
  note get = get_frame_blocking [OF l claim_waiting(1) [OF w] blk(1) this]
  show ?thesis using get blk(3) by (intro exI [of _ i] exI [of _ "snd (st30p_tx_get_frame waits ctx)"])
    (simp add: prod_eq_iff tx_set_stat_def)
qed

text \<open>A session whose only frame is being transmitted; the transport reports it done during the second wait.\<close>

definition tx_full :: st30p_tx_ctx where
  "tx_full = tx_demo\<lparr>t_block_get := True,
     t_framebuffs := [(hd (t_framebuffs tx_demo))\<lparr>t_stat := ST30P_TX_FRAME_IN_TRANSMITTING\<rparr>]\<rparr>"

definition tx_demo_meta :: st30_tx_frame_meta where
  "tx_demo_meta = \<lparr>am_tfmt = ST10_TIMESTAMP_FMT_TAI, am_timestamp = 0, am_epoch = 0, am_rtp_timestamp = 0\<rparr>"

definition tx_full_waits :: "(bool \<times> (st30p_tx_ctx \<Rightarrow> st30p_tx_ctx)) list" where
  "tx_full_waits = [(False, \<lambda>c. c), (False, \<lambda>c. fst (snd (tx_st30p_frame_done 0 tx_demo_meta c)))]"

theorem st30p_tx_blocking_get_witness:
  "freed_in_time 0 tx_full_waits (entered tx_full) \<and> fst (st30p_tx_get_frame tx_full_waits tx_full) \<noteq> None"
proof -
  have f: "freed_in_time (t_wake_block_cnt tx_full) tx_full_waits (entered tx_full)"
    by (simp add: tx_full_waits_def waiting_def live_def tx_full_def tx_demo_def tx_demo_ops_def count_in_def entered_def
      tx_st30p_frame_done_def Let_def tx_set_stat_def)
  moreover have "t_wake_block_cnt tx_full = 0" by (simp add: tx_full_def tx_demo_def)
  ultimately show ?thesis using st30p_tx_blocking_get [OF f] by auto
qed

end
