(* ===== verification/St30p_Rx.thy ===== *)
theory St30p_Rx
  imports Frame_Pool
begin

text \<open>
  The receive pipeline for audio (\<^verbatim>\<open>lib/src/st2110/pipeline/st30_pipeline_rx.c\<close>): the transport delivers
  frames into free slots of a ring, the user takes ready frames out and puts them back. A slot is
  addressed by its index. Transport, allocator and the behaviour of other threads during a blocking
  wait are arguments; callbacks are returned as events. Indices are numbers below the 16-bit count
  of slots.
\<close>

section \<open>State\<close>

datatype st30p_rx_frame_status = ST30P_RX_FRAME_FREE | ST30P_RX_FRAME_READY | ST30P_RX_FRAME_IN_USER

record st30p_rx_frame =
  r_stat :: st30p_rx_frame_status
  r_frame :: st30_frame

abbreviation ST30P_RX_FLAG_DATA_PATH_ONLY :: u32 where "ST30P_RX_FLAG_DATA_PATH_ONLY \<equiv> 0x1"
abbreviation ST30P_RX_FLAG_FORCE_NUMA :: u32 where "ST30P_RX_FLAG_FORCE_NUMA \<equiv> 0x4"
abbreviation ST30P_RX_FLAG_SIMULATE_PKT_LOSS :: u32 where "ST30P_RX_FLAG_SIMULATE_PKT_LOSS \<equiv> 0x8"
abbreviation ST30P_RX_FLAG_RECEIVE_INCOMPLETE_FRAME :: u32 where "ST30P_RX_FLAG_RECEIVE_INCOMPLETE_FRAME \<equiv> 0x10"
abbreviation ST30P_RX_FLAG_BLOCK_GET :: u32 where "ST30P_RX_FLAG_BLOCK_GET \<equiv> 0x8000"

record st30p_rx_ops =
  ro_flags :: u32
  ro_fmt :: st30_fmt
  ro_channel :: u16
  ro_sampling :: st30_sampling
  ro_ptime :: st30_ptime
  ro_framebuff_cnt :: u16
  ro_framebuff_size :: u32
  ro_has_available :: bool

record st30p_rx_ctx =
  r_handle :: "nat handle"
  r_ops :: st30p_rx_ops
  r_framebuffs :: "st30p_rx_frame list"
  r_producer_idx :: nat
  r_consumer_idx :: nat
  r_ready :: bool
  r_frames_per_sec :: int
  r_block_get :: bool
  r_block_timeout_ns :: u64
  r_block_wake_pending :: bool
  r_stat_get_frame_try :: u32
  r_stat_get_frame_succ :: u32
  r_stat_put_frame :: u32
  r_stat_busy :: u32
  r_stat_frames_received :: u64
  r_stat_frames_dropped :: u64
  r_stat_frames_corrupted :: u64

abbreviation MT_ST30_HANDLE_PIPELINE_RX :: nat where "MT_ST30_HANDLE_PIPELINE_RX \<equiv> 31"

definition rx_upd_frame :: "nat \<Rightarrow> (st30p_rx_frame \<Rightarrow> st30p_rx_frame) \<Rightarrow> st30p_rx_ctx \<Rightarrow> st30p_rx_ctx" where
  "rx_upd_frame i f ctx = ctx\<lparr>r_framebuffs := (r_framebuffs ctx)[i := f (r_framebuffs ctx ! i)]\<rparr>"

definition rx_set_stat :: "st30p_rx_frame_status \<Rightarrow> st30p_rx_frame \<Rightarrow> st30p_rx_frame" where
  "rx_set_stat s f = f\<lparr>r_stat := s\<rparr>"

section \<open>The ring\<close>

definition rx_st30p_next_idx :: "st30p_rx_ctx \<Rightarrow> nat \<Rightarrow> nat" where
  "rx_st30p_next_idx ctx idx = (if idx + 1 \<ge> length (r_framebuffs ctx) then 0 else idx + 1)"

definition rx_st30p_notify_frame_available :: "st30p_rx_ctx \<Rightarrow> app_event list" where
  "rx_st30p_notify_frame_available ctx =
     (if ro_has_available (r_ops ctx) then [Notify_Available] else []) @
     (if r_block_get ctx then [Cond_Signal] else [])"

text \<open>The scan; it is back at its start after as many steps as there are slots, its fuel.\<close>

fun rx_scan :: "nat \<Rightarrow> st30p_rx_ctx \<Rightarrow> nat \<Rightarrow> st30p_rx_frame_status \<Rightarrow> nat \<Rightarrow> nat option" where
  "rx_scan 0 ctx idx_start desired idx = None"
| "rx_scan (Suc n) ctx idx_start desired idx =
     (if r_stat (r_framebuffs ctx ! idx) = desired then Some idx
      else
        let idx = rx_st30p_next_idx ctx idx in
        if idx = idx_start then None else rx_scan n ctx idx_start desired idx)"

definition rx_st30p_next_available :: "st30p_rx_ctx \<Rightarrow> nat \<Rightarrow> st30p_rx_frame_status \<Rightarrow> nat option" where
  "rx_st30p_next_available ctx idx_start desired =
     rx_scan (length (r_framebuffs ctx)) ctx idx_start desired idx_start"

text \<open>Without a concurrent thread the exchange of the claim succeeds on the frame just found.\<close>

definition rx_st30p_claim_available ::
    "st30p_rx_ctx \<Rightarrow> nat \<Rightarrow> st30p_rx_frame_status \<Rightarrow> st30p_rx_frame_status \<Rightarrow> nat option \<times> st30p_rx_ctx" where
  "rx_st30p_claim_available ctx idx_start desired claimed =
     (case rx_st30p_next_available ctx idx_start desired of
        None \<Rightarrow> (None, ctx)
      | Some i \<Rightarrow> (Some i, rx_upd_frame i (rx_set_stat claimed) ctx))"

definition rx_st30p_frame_ready ::
    "nat \<Rightarrow> st30_rx_frame_meta \<Rightarrow> st30p_rx_ctx \<Rightarrow> unit res \<times> st30p_rx_ctx \<times> app_event list" where
  "rx_st30p_frame_ready addr meta ctx =
     (if \<not> r_ready ctx then (Inl EBUSY, ctx, [])
      else
        case rx_st30p_next_available ctx (r_producer_idx ctx) ST30P_RX_FRAME_FREE of
          None \<Rightarrow> (Inl EBUSY, ctx\<lparr>r_stat_busy := r_stat_busy ctx + 1,
                     r_stat_frames_dropped := r_stat_frames_dropped ctx + 1\<rparr>, [])
        | Some i \<Rightarrow>
            let ctx = rx_upd_frame i (\<lambda>f. f\<lparr>r_frame := (r_frame f)\<lparr>af_addr := addr,
                  af_data_size := ro_framebuff_size (r_ops ctx), af_tfmt := rm_tfmt meta, af_timestamp := rm_timestamp meta,
                  af_receive_timestamp := rm_timestamp_first_pkt meta, af_rtp_timestamp := rm_rtp_timestamp meta,
                  af_status := rm_status meta\<rparr>\<rparr>) ctx;
                ctx = rx_upd_frame i (rx_set_stat ST30P_RX_FRAME_READY) ctx;
                ctx = ctx\<lparr>r_producer_idx := rx_st30p_next_idx ctx i\<rparr>
            in (Inr (), ctx, rx_st30p_notify_frame_available ctx))"

section \<open>Public calls\<close>

definition rx_guarded :: "'r \<Rightarrow> (st30p_rx_ctx \<Rightarrow> 'r \<times> st30p_rx_ctx) \<Rightarrow> st30p_rx_ctx \<Rightarrow> 'r \<times> st30p_rx_ctx" where
  "rx_guarded = guarded r_handle (\<lambda>h ctx. ctx\<lparr>r_handle := h\<rparr>) MT_ST30_HANDLE_PIPELINE_RX"

abbreviation rx_claim_ready :: "st30p_rx_ctx \<Rightarrow> nat option \<times> st30p_rx_ctx" where
  "rx_claim_ready ctx \<equiv>
     rx_st30p_claim_available ctx (r_consumer_idx ctx) ST30P_RX_FRAME_READY ST30P_RX_FRAME_IN_USER"

text \<open>The blocking wait, as in the transmit pipeline: one element for each return of the timed wait.\<close>

fun rx_block_wait :: "(bool \<times> (st30p_rx_ctx \<Rightarrow> st30p_rx_ctx)) list \<Rightarrow> st30p_rx_ctx \<Rightarrow> nat option \<times> st30p_rx_ctx" where
  "rx_block_wait waits ctx =
     (if r_block_wake_pending ctx \<or> lc_destroying (r_handle ctx) then (None, ctx)
      else
        case rx_claim_ready ctx of
          (Some i, ctx) \<Rightarrow> (Some i, ctx)
        | (None, ctx) \<Rightarrow>
            (case waits of
               [] \<Rightarrow> (None, ctx)
             | (timed_out, others) # rest \<Rightarrow>
                 if timed_out then (None, others ctx) else rx_block_wait rest (others ctx)))"

declare rx_block_wait.simps [simp del]

definition st30p_rx_get_frame ::
    "(bool \<times> (st30p_rx_ctx \<Rightarrow> st30p_rx_ctx)) list \<Rightarrow> st30p_rx_ctx \<Rightarrow> nat option \<times> st30p_rx_ctx" where
  "st30p_rx_get_frame waits = rx_guarded None (\<lambda>ctx.
     if \<not> r_ready ctx then (None, ctx)
     else
       let ctx = ctx\<lparr>r_stat_get_frame_try := r_stat_get_frame_try ctx + 1\<rparr>;
           (framebuff, ctx) = rx_claim_ready ctx;
           (framebuff, ctx) =
             (if framebuff = None \<and> r_block_get ctx then
                let (framebuff, ctx) = rx_block_wait waits ctx;
                    ctx = ctx\<lparr>r_block_wake_pending := False\<rparr>
                in if framebuff = None \<and> \<not> lc_destroying (r_handle ctx) then rx_claim_ready ctx
                   else (framebuff, ctx)
              else (framebuff, ctx))
       in case framebuff of
            None \<Rightarrow> (None, ctx)
          | Some i \<Rightarrow>
              let ctx = ctx\<lparr>r_consumer_idx := rx_st30p_next_idx ctx i\<rparr>;
                  ctx = ctx\<lparr>r_stat_get_frame_succ := r_stat_get_frame_succ ctx + 1,
                            r_stat_frames_received := r_stat_frames_received ctx + 1\<rparr>
              in (Some i, if af_status (r_frame (r_framebuffs ctx ! i)) = ST_FRAME_STATUS_CORRUPTED
                          then ctx\<lparr>r_stat_frames_corrupted := r_stat_frames_corrupted ctx + 1\<rparr> else ctx))"

text \<open>The address that goes back to the transport is returned with the result.\<close>

definition st30p_rx_put_frame :: "nat \<Rightarrow> st30p_rx_ctx \<Rightarrow> (nat res) \<times> st30p_rx_ctx" where
  "st30p_rx_put_frame i = rx_guarded (Inl EIO) (\<lambda>ctx.
     if r_stat (r_framebuffs ctx ! i) \<noteq> ST30P_RX_FRAME_IN_USER then (Inl EIO, ctx)
     else
       let addr = af_addr (r_frame (r_framebuffs ctx ! i));
           ctx = rx_upd_frame i (rx_set_stat ST30P_RX_FRAME_FREE) ctx
       in (Inr addr, ctx\<lparr>r_stat_put_frame := r_stat_put_frame ctx + 1\<rparr>))"

definition st30p_rx_put_frame_abort :: "nat \<Rightarrow> st30p_rx_ctx \<Rightarrow> (nat res) \<times> st30p_rx_ctx" where
  "st30p_rx_put_frame_abort i = rx_guarded (Inl EIO) (\<lambda>ctx.
     if r_stat (r_framebuffs ctx ! i) \<noteq> ST30P_RX_FRAME_IN_USER then (Inl EIO, ctx)
     else
       let addr = af_addr (r_frame (r_framebuffs ctx ! i))
       in (Inr addr, rx_upd_frame i (rx_set_stat ST30P_RX_FRAME_FREE) ctx))"

definition rx_st30p_block_wake :: "st30p_rx_ctx \<Rightarrow> st30p_rx_ctx" where
  "rx_st30p_block_wake ctx = ctx\<lparr>r_block_wake_pending := True\<rparr>"

definition st30p_rx_wake_block :: "st30p_rx_ctx \<Rightarrow> unit res \<times> st30p_rx_ctx" where
  "st30p_rx_wake_block = rx_guarded (Inl EIO) (\<lambda>ctx. (Inr (), if r_block_get ctx then rx_st30p_block_wake ctx else ctx))"

definition st30p_rx_set_block_timeout :: "u64 \<Rightarrow> st30p_rx_ctx \<Rightarrow> unit res \<times> st30p_rx_ctx" where
  "st30p_rx_set_block_timeout timedwait_ns = rx_guarded (Inl EIO) (\<lambda>ctx.
     (Inr (), ctx\<lparr>r_block_timeout_ns := timedwait_ns\<rparr>))"

definition st30p_rx_frame_size :: "st30p_rx_ctx \<Rightarrow> u32 \<times> st30p_rx_ctx" where
  "st30p_rx_frame_size = rx_guarded 0 (\<lambda>ctx. (ro_framebuff_size (r_ops ctx), ctx))"

text \<open>\<open>transport_ret\<close> is what the transport returns for its own counters.\<close>

definition st30p_rx_get_session_stats :: "unit res \<Rightarrow> st30p_rx_ctx \<Rightarrow> (u64 \<times> u64 \<times> u64) res \<times> st30p_rx_ctx" where
  "st30p_rx_get_session_stats transport_ret = rx_guarded (Inl EIO) (\<lambda>ctx.
     case transport_ret of
       Inl e \<Rightarrow> (Inl e, ctx)
     | Inr _ \<Rightarrow> (Inr (r_stat_frames_received ctx, r_stat_frames_dropped ctx, r_stat_frames_corrupted ctx), ctx))"

definition st30p_rx_reset_session_stats :: "unit res \<Rightarrow> st30p_rx_ctx \<Rightarrow> unit res \<times> st30p_rx_ctx" where
  "st30p_rx_reset_session_stats transport_ret = rx_guarded (Inl EIO) (\<lambda>ctx.
     (transport_ret, ctx\<lparr>r_stat_frames_received := 0, r_stat_frames_dropped := 0, r_stat_frames_corrupted := 0\<rparr>))"

definition rx_st30p_stat :: "st30p_rx_ctx \<Rightarrow> unit res \<times> st30p_rx_ctx" where
  "rx_st30p_stat ctx =
     (if \<not> r_ready ctx then (Inl EBUSY, ctx)
      else (Inr (), ctx\<lparr>r_stat_get_frame_try := 0, r_stat_get_frame_succ := 0, r_stat_put_frame := 0, r_stat_busy := 0\<rparr>))"

section \<open>Creation and destruction\<close>

definition rx_st30p_init_fbs :: "st30p_rx_ops \<Rightarrow> st30p_rx_frame list" where
  "rx_st30p_init_fbs ops = replicate (unat (ro_framebuff_cnt ops))
     \<lparr>r_stat = ST30P_RX_FRAME_FREE,
      r_frame = \<lparr>af_addr = 0, af_fmt = ro_fmt ops, af_channel = ro_channel ops, af_sampling = ro_sampling ops,
        af_ptime = ro_ptime ops, af_buffer_size = ro_framebuff_size ops, af_data_size = ro_framebuff_size ops,
        af_tfmt = ST10_TIMESTAMP_FMT_TAI, af_timestamp = 0, af_epoch = 0, af_rtp_timestamp = 0,
        af_receive_timestamp = 0, af_status = ST_FRAME_STATUS_COMPLETE\<rparr>\<rparr>"

text \<open>The flags of the transport session.\<close>

definition st30_rx_flags :: "u32 \<Rightarrow> u32" where
  "st30_rx_flags flags =
     (if has_flag flags ST30P_RX_FLAG_DATA_PATH_ONLY then 0x1 else 0) OR
     (if has_flag flags ST30P_RX_FLAG_FORCE_NUMA then 0x4 else 0) OR
     (if has_flag flags ST30P_RX_FLAG_SIMULATE_PKT_LOSS then 0x8 else 0) OR
     (if has_flag flags ST30P_RX_FLAG_RECEIVE_INCOMPLETE_FRAME then 0x10 else 0)"

text \<open>\<open>transport\<close> gives the frame rate of the transport session, \<open>None\<close> when it cannot be created.\<close>

definition rx_st30p_create_transport :: "(u32 \<Rightarrow> int option) \<Rightarrow> st30p_rx_ctx \<Rightarrow> st30p_rx_ctx res" where
  "rx_st30p_create_transport transport ctx =
     (case transport (st30_rx_flags (ro_flags (r_ops ctx))) of
        None \<Rightarrow> Inl EIO
      | Some frames_per_sec \<Rightarrow> Inr (ctx\<lparr>r_frames_per_sec := frames_per_sec\<rparr>))"

definition st30p_rx_create ::
    "bool \<Rightarrow> bool \<Rightarrow> (u32 \<Rightarrow> int option) \<Rightarrow> st30p_rx_ops \<Rightarrow> (st30p_rx_ctx \<times> app_event list) option" where
  "st30p_rx_create port_ok alloc_ok transport ops =
     (if \<not> port_ok \<or> \<not> alloc_ok then None
      else
        let ctx = \<lparr>r_handle = \<lparr>h_type = MT_ST30_HANDLE_PIPELINE_RX, lc_destroying = False, lc_refcnt = 0\<rparr>,
              r_ops = ops, r_framebuffs = rx_st30p_init_fbs ops, r_producer_idx = 0, r_consumer_idx = 0,
              r_ready = False, r_frames_per_sec = 0, r_block_get = has_flag (ro_flags ops) ST30P_RX_FLAG_BLOCK_GET,
              r_block_timeout_ns = of_nat NS_PER_S, r_block_wake_pending = False, r_stat_get_frame_try = 0,
              r_stat_get_frame_succ = 0, r_stat_put_frame = 0, r_stat_busy = 0, r_stat_frames_received = 0,
              r_stat_frames_dropped = 0, r_stat_frames_corrupted = 0\<rparr>
        in case rx_st30p_create_transport transport ctx of
             Inl _ \<Rightarrow> None
           | Inr ctx \<Rightarrow>
               let ctx = ctx\<lparr>r_ready := True\<rparr>
               in Some (ctx, if \<not> r_block_get ctx then rx_st30p_notify_frame_available ctx else []))"

text \<open>As \<open>st30p_tx_free\<close>: \<open>drained\<close> is what the calls in flight do until the reference count is zero.\<close>

definition st30p_rx_free ::
    "(st30p_rx_ctx \<Rightarrow> st30p_rx_ctx) \<Rightarrow> st30p_rx_ctx \<Rightarrow> (unit res \<times> st30p_rx_ctx option) option" where
  "st30p_rx_free drained ctx =
     (case mt_handle_begin_destroy MT_ST30_HANDLE_PIPELINE_RX (r_handle ctx) of
        (Inl e, h) \<Rightarrow> Some (Inl e, Some (ctx\<lparr>r_handle := h\<rparr>))
      | (Inr _, h) \<Rightarrow>
          if lc_refcnt (r_handle (drained (rx_st30p_block_wake (ctx\<lparr>r_handle := h\<rparr>)))) = 0 then Some (Inr (), None) else None)"

end
