(* ===== verification/St30p_Rx_Laws.thy ===== *)
theory St30p_Rx_Laws
  imports St30p_Rx "HOL-Library.Multiset"
begin

text \<open>
  What the audio receive pipeline promises: a slot is refused only when none is free, every buffer of
  the transport goes back to it exactly once, and as long as the user returns the frames in the order
  in which they were taken, they are delivered in the order of their arrival.
\<close>

section \<open>The scan of the ring\<close>

interpretation rx_pool: frame_pool r_stat rx_set_stat
  by unfold_locales (simp add: rx_set_stat_def)

lemma rx_upd_frame_simps [simp]:
  "r_framebuffs (rx_upd_frame i f ctx) = (r_framebuffs ctx)[i := f (r_framebuffs ctx ! i)]"
  "r_handle (rx_upd_frame i f ctx) = r_handle ctx" "r_ops (rx_upd_frame i f ctx) = r_ops ctx"
  "r_ready (rx_upd_frame i f ctx) = r_ready ctx" "r_block_get (rx_upd_frame i f ctx) = r_block_get ctx"
  "r_producer_idx (rx_upd_frame i f ctx) = r_producer_idx ctx" "r_consumer_idx (rx_upd_frame i f ctx) = r_consumer_idx ctx"
  "r_stat_frames_received (rx_upd_frame i f ctx) = r_stat_frames_received ctx"
  "r_stat_frames_dropped (rx_upd_frame i f ctx) = r_stat_frames_dropped ctx"
  "r_stat_frames_corrupted (rx_upd_frame i f ctx) = r_stat_frames_corrupted ctx"
  by (simp_all add: rx_upd_frame_def)

lemma next_idx_mod:
  assumes "idx < length (r_framebuffs ctx)"
  shows "rx_st30p_next_idx ctx idx = (idx + 1) mod length (r_framebuffs ctx)"
  using assms by (auto simp: rx_st30p_next_idx_def mod_Suc_le_divisor less_Suc_eq_le le_Suc_eq not_le intro!: le_antisym)

lemma next_idx_ring: 
  assumes "0 < length (r_framebuffs ctx)"
  shows "rx_st30p_next_idx ctx (k mod length (r_framebuffs ctx)) = Suc k mod length (r_framebuffs ctx)"
  using assms by (simp add: next_idx_mod mod_Suc_eq)

text \<open>Where a scan that is \<open>k\<close> slots past its start ends.\<close>

lemma rx_scan_spec:
  assumes "s < length (r_framebuffs ctx)" and "k < length (r_framebuffs ctx)"
  defines "n \<equiv> length (r_framebuffs ctx)"
  shows "case rx_scan (n - k) ctx s d ((s + k) mod n) of
      None \<Rightarrow> \<forall>j. k \<le> j \<and> j < n \<longrightarrow> r_stat (r_framebuffs ctx ! ((s + j) mod n)) \<noteq> d
    | Some i \<Rightarrow> i < n \<and> r_stat (r_framebuffs ctx ! i) = d"
  using assms(2)
proof (induction "n - k" arbitrary: k)
  case (Suc m)
  have n: "0 < n" "n - k = Suc m" using Suc.prems Suc.hyps(2) by (auto simp: n_def)
  show ?case
  proof (cases "r_stat (r_framebuffs ctx ! ((s + k) mod n)) = d")
    case True
    then show ?thesis using n by simp
  next
    case False
    have nx: "rx_st30p_next_idx ctx ((s + k) mod n) = (s + Suc k) mod n"
      using next_idx_ring [of ctx "s + k"] n unfolding n_def by simp
    show ?thesis
    proof (cases "Suc k < n")
      case True
      have "(s + Suc k) mod n \<noteq> s"
        using assms(1) True unfolding n_def [symmetric] by (cases "s + Suc k < n") (simp_all add: le_mod_geq not_less)
      moreover have "n - Suc k = m" using n by simp
      ultimately have eq: "rx_scan (n - k) ctx s d ((s + k) mod n) = rx_scan (n - Suc k) ctx s d ((s + Suc k) mod n)"
        using False nx n by simp
      have "case rx_scan (n - Suc k) ctx s d ((s + Suc k) mod n) of
          None \<Rightarrow> \<forall>j. Suc k \<le> j \<and> j < n \<longrightarrow> r_stat (r_framebuffs ctx ! ((s + j) mod n)) \<noteq> d
        | Some i \<Rightarrow> i < n \<and> r_stat (r_framebuffs ctx ! i) = d"
        using True n by (intro Suc.hyps(1)) (simp_all add: n_def)
      moreover have "j = k \<or> Suc k \<le> j" if "k \<le> j" for j using that by auto
      ultimately show ?thesis unfolding eq using False by (simp split: option.splits) blast
    next
      case wrapped: False
      then have "Suc k = n" using Suc.prems by (simp add: n_def)
      then have "(s + Suc k) mod n = s" using assms(1) by (simp add: n_def)
      then have "rx_scan (n - k) ctx s d ((s + k) mod n) = None" using False nx n by simp
      moreover have "j = k" if "k \<le> j" "j < n" for j using that \<open>Suc k = n\<close> by simp
      ultimately show ?thesis using False by auto
    qed
  qed
qed (simp add: n_def)


lemma next_available_some:
  assumes "s < length (r_framebuffs ctx)" "rx_st30p_next_available ctx s d = Some i"
  shows "i < length (r_framebuffs ctx)" "r_stat (r_framebuffs ctx ! i) = d"
  using rx_scan_spec [OF assms(1) le_less_trans [OF le0 assms(1)], of d] assms by (auto simp: rx_st30p_next_available_def)

lemma next_available_none:
  assumes s: "s < length (r_framebuffs ctx)"
  shows "rx_st30p_next_available ctx s d = None \<longleftrightarrow> count_in r_stat d (r_framebuffs ctx) = 0"
proof
  let ?n = "length (r_framebuffs ctx)"
  assume "rx_st30p_next_available ctx s d = None"
  then have none: "j < ?n \<Longrightarrow> r_stat (r_framebuffs ctx ! ((s + j) mod ?n)) \<noteq> d" for j
    using rx_scan_spec [OF s le_less_trans [OF le0 s], of d] s by (auto simp: rx_st30p_next_available_def)
  have "r_stat (r_framebuffs ctx ! i) \<noteq> d" if "i < ?n" for i
  proof (cases "s \<le> i")
    case True
    then show ?thesis using none [of "i - s"] that by simp
  next
    case False
    then show ?thesis using none [of "?n + i - s"] s that by simp
  qed
  then show "count_in r_stat d (r_framebuffs ctx) = 0" by (simp add: count_in_def filter_empty_conv all_set_conv_all_nth)
next
  assume "count_in r_stat d (r_framebuffs ctx) = 0"
  then have "\<forall>f \<in> set (r_framebuffs ctx). r_stat f \<noteq> d" by (simp add: count_in_def filter_empty_conv)
  then show "rx_st30p_next_available ctx s d = None" using next_available_some [OF s, of d]
    by (cases "rx_st30p_next_available ctx s d") auto
qed

lemma next_available_here:
  "0 < length (r_framebuffs ctx) \<Longrightarrow> r_stat (r_framebuffs ctx ! s) = d \<Longrightarrow> rx_st30p_next_available ctx s d = Some s"
  by (cases "length (r_framebuffs ctx)") (simp_all add: rx_st30p_next_available_def)

section \<open>The calls on a live session\<close>

definition rx_live :: "st30p_rx_ctx \<Rightarrow> bool" where
  "rx_live ctx \<longleftrightarrow> h_type (r_handle ctx) = MT_ST30_HANDLE_PIPELINE_RX \<and> \<not> lc_destroying (r_handle ctx) \<and> r_ready ctx"

interpretation rx_guard: session_guard r_handle "\<lambda>h ctx. ctx\<lparr>r_handle := h\<rparr>" MT_ST30_HANDLE_PIPELINE_RX
  by unfold_locales simp_all

lemma rx_guarded_live:
  assumes "rx_live ctx"
    and "\<And>h. body (ctx\<lparr>r_handle := h\<rparr>) = (fst (body ctx), (snd (body ctx))\<lparr>r_handle := h\<rparr>)"
    and "r_handle (snd (body ctx)) = r_handle ctx"
  shows "rx_guarded e body ctx = body ctx"
  unfolding rx_guarded_def using assms by (intro rx_guard.admitted) (simp_all add: rx_live_def)

lemma rx_put_live:
  assumes "rx_live ctx"
  shows "st30p_rx_put_frame i ctx =
    (if r_stat (r_framebuffs ctx ! i) \<noteq> ST30P_RX_FRAME_IN_USER then (Inl EIO, ctx)
     else (Inr (af_addr (r_frame (r_framebuffs ctx ! i))),
       (rx_upd_frame i (rx_set_stat ST30P_RX_FRAME_FREE) ctx)\<lparr>r_stat_put_frame := r_stat_put_frame ctx + 1\<rparr>))"
  unfolding st30p_rx_put_frame_def
  by (subst rx_guarded_live [OF assms]) (simp_all add: rx_upd_frame_def Let_def)

lemma rx_abort_live:
  assumes "rx_live ctx"
  shows "st30p_rx_put_frame_abort i ctx =
    (if r_stat (r_framebuffs ctx ! i) \<noteq> ST30P_RX_FRAME_IN_USER then (Inl EIO, ctx)
     else (Inr (af_addr (r_frame (r_framebuffs ctx ! i))), rx_upd_frame i (rx_set_stat ST30P_RX_FRAME_FREE) ctx))"
  unfolding st30p_rx_put_frame_abort_def
  by (subst rx_guarded_live [OF assms]) (simp_all add: rx_upd_frame_def Let_def)

text \<open>The scan looks at nothing but the slots.\<close>

lemma next_idx_cong: "r_framebuffs c = r_framebuffs c' \<Longrightarrow> rx_st30p_next_idx c = rx_st30p_next_idx c'"
  by (simp add: rx_st30p_next_idx_def fun_eq_iff)

lemma next_available_cong:
  assumes "r_framebuffs c = r_framebuffs c'"
  shows "rx_st30p_next_available c = rx_st30p_next_available c'"
proof -
  have "rx_scan n c s d i = rx_scan n c' s d i" for n s d i
    using assms by (induction n arbitrary: i) (simp_all add: next_idx_cong [OF assms] Let_def)
  then show ?thesis by (simp add: rx_st30p_next_available_def assms fun_eq_iff)
qed

lemma scan_simps [simp]:
  "rx_st30p_next_idx (ctx\<lparr>r_handle := h\<rparr>) = rx_st30p_next_idx ctx"
  "rx_st30p_next_idx (ctx\<lparr>r_stat_get_frame_try := t\<rparr>) = rx_st30p_next_idx ctx"
  "rx_st30p_next_idx (ctx\<lparr>r_handle := h, r_stat_get_frame_try := t\<rparr>) = rx_st30p_next_idx ctx"
  "rx_st30p_next_available (ctx\<lparr>r_handle := h\<rparr>) = rx_st30p_next_available ctx"
  "rx_st30p_next_available (ctx\<lparr>r_stat_get_frame_try := t\<rparr>) = rx_st30p_next_available ctx"
  "rx_st30p_next_available (ctx\<lparr>r_handle := h, r_stat_get_frame_try := t\<rparr>) = rx_st30p_next_available ctx"
  by (rule next_idx_cong next_available_cong; simp)+

text \<open>A get that finds a ready frame, and one that does not and does not wait.\<close>

definition taken :: "nat \<Rightarrow> st30p_rx_ctx \<Rightarrow> st30p_rx_ctx" where
  "taken i ctx =
     (let ctx1 = (rx_upd_frame i (rx_set_stat ST30P_RX_FRAME_IN_USER) ctx)
          \<lparr>r_stat_get_frame_try := r_stat_get_frame_try ctx + 1, r_consumer_idx := rx_st30p_next_idx ctx i,
           r_stat_get_frame_succ := r_stat_get_frame_succ ctx + 1, r_stat_frames_received := r_stat_frames_received ctx + 1\<rparr>
      in if af_status (r_frame (r_framebuffs ctx ! i)) = ST_FRAME_STATUS_CORRUPTED
         then ctx1\<lparr>r_stat_frames_corrupted := r_stat_frames_corrupted ctx + 1\<rparr> else ctx1)"

lemma rx_get_live_some:
  assumes "rx_live ctx" and "r_consumer_idx ctx < length (r_framebuffs ctx)"
    and "rx_st30p_next_available ctx (r_consumer_idx ctx) ST30P_RX_FRAME_READY = Some i"
  shows "st30p_rx_get_frame waits ctx = (Some i, taken i ctx)"
  unfolding st30p_rx_get_frame_def using assms next_available_some(1) [OF assms(2,3)]
  by (subst rx_guarded_live [OF assms(1)])
    (simp_all add: rx_upd_frame_def taken_def Let_def rx_st30p_claim_available_def rx_live_def rx_set_stat_def
      rx_st30p_next_idx_def)

lemma rx_get_live_none:
  assumes "rx_live ctx" and "rx_st30p_next_available ctx (r_consumer_idx ctx) ST30P_RX_FRAME_READY = None"
  shows "st30p_rx_get_frame [] ctx = (None, ctx\<lparr>r_stat_get_frame_try := r_stat_get_frame_try ctx + 1,
    r_block_wake_pending := (if r_block_get ctx then False else r_block_wake_pending ctx)\<rparr>)"
proof -
  have avail: "rx_st30p_next_available c (r_consumer_idx ctx) ST30P_RX_FRAME_READY = None"
    if "r_framebuffs c = r_framebuffs ctx" for c using next_available_cong [OF that] assms(2) by simp
  show ?thesis using assms(1)
    by (simp add: st30p_rx_get_frame_def rx_guarded_def guarded_def mt_handle_acquire_def mt_handle_release_def
      rx_live_def Let_def rx_st30p_claim_available_def rx_block_wait.simps avail)
qed

section \<open>Histories\<close>

text \<open>
  What the transport delivered with a frame, and the histories of a session used one call at a time.
  \<open>acc\<close> and \<open>got\<close> are what was accepted from the transport and what was handed to the user, \<open>held\<close> the
  slots the user holds in the order they were taken, \<open>back\<close> the buffers given back to the transport,
  \<open>rej\<close> the number of refused frames; \<open>ordered\<close> says that the user returned the frames in the order in
  which they were taken.
\<close>

type_synonym delivery = "nat \<times> st10_timestamp_fmt \<times> u64 \<times> u64 \<times> u32 \<times> st_frame_status"

definition delivery_of :: "nat \<Rightarrow> st30_rx_frame_meta \<Rightarrow> delivery" where
  "delivery_of addr m = (addr, rm_tfmt m, rm_timestamp m, rm_timestamp_first_pkt m, rm_rtp_timestamp m, rm_status m)"

definition content :: "st30p_rx_frame \<Rightarrow> delivery" where
  "content f = (let a = r_frame f in
     (af_addr a, af_tfmt a, af_timestamp a, af_receive_timestamp a, af_rtp_timestamp a, af_status a))"

definition corrupted :: "delivery \<Rightarrow> bool" where
  "corrupted d = (case d of (_, _, _, _, _, s) \<Rightarrow> s = ST_FRAME_STATUS_CORRUPTED)"

inductive rx_history ::
    "st30p_rx_ctx \<Rightarrow> delivery list \<Rightarrow> delivery list \<Rightarrow> nat list \<Rightarrow> nat list \<Rightarrow> nat \<Rightarrow> bool \<Rightarrow> bool" where
  created: "st30p_rx_create True True transport ops = Some (ctx, ev) \<Longrightarrow> 0 < ro_framebuff_cnt ops \<Longrightarrow>
    rx_history ctx [] [] [] [] 0 True"
| accepted: "rx_history ctx acc got held back rej ordered \<Longrightarrow> rx_st30p_frame_ready addr meta ctx = (Inr (), ctx', ev) \<Longrightarrow>
    rx_history ctx' (acc @ [delivery_of addr meta]) got held back rej ordered"
| rejected: "rx_history ctx acc got held back rej ordered \<Longrightarrow> rx_st30p_frame_ready addr meta ctx = (Inl e, ctx', ev) \<Longrightarrow>
    rx_history ctx' acc got held back (rej + 1) ordered"
| got: "rx_history ctx acc got held back rej ordered \<Longrightarrow> st30p_rx_get_frame [] ctx = (Some i, ctx') \<Longrightarrow>
    rx_history ctx' acc (got @ [content (r_framebuffs ctx' ! i)]) (held @ [i]) back rej ordered"
| no_frame: "rx_history ctx acc got held back rej ordered \<Longrightarrow> st30p_rx_get_frame [] ctx = (None, ctx') \<Longrightarrow>
    rx_history ctx' acc got held back rej ordered"
| put: "rx_history ctx acc got held back rej ordered \<Longrightarrow> i < length (r_framebuffs ctx) \<Longrightarrow>
    put = st30p_rx_put_frame \<or> put = st30p_rx_put_frame_abort \<Longrightarrow> put i ctx = (Inr addr, ctx') \<Longrightarrow>
    rx_history ctx' acc got (remove1 i held) (back @ [addr]) rej (ordered \<and> i = hd held)"
| put_error: "rx_history ctx acc got held back rej ordered \<Longrightarrow> i < length (r_framebuffs ctx) \<Longrightarrow>
    put = st30p_rx_put_frame \<or> put = st30p_rx_put_frame_abort \<Longrightarrow> put i ctx = (Inl e, ctx') \<Longrightarrow>
    rx_history ctx' acc got held back rej ordered"
| wake: "rx_history ctx acc got held back rej ordered \<Longrightarrow> st30p_rx_wake_block ctx = (r, ctx') \<Longrightarrow>
    rx_history ctx' acc got held back rej ordered"
| stat: "rx_history ctx acc got held back rej ordered \<Longrightarrow> rx_st30p_stat ctx = (r, ctx') \<Longrightarrow>
    rx_history ctx' acc got held back rej ordered"

section \<open>The ring\<close>

definition slot :: "'a list \<Rightarrow> nat \<Rightarrow> 'a" where
  "slot fs j = fs ! (j mod length fs)"

lemma mod_near: "(i::nat) mod n = j mod n \<Longrightarrow> i < j + n \<Longrightarrow> j < i + n \<Longrightarrow> i = j"
proof (induction i j rule: linorder_wlog)
  case (le i j)
  then have "n dvd j - i" using mod_eq_dvd_iff_nat [of i j n] by metis
  then show ?case using le by (auto dest: dvd_imp_le)
qed simp

lemma slot_update:
  assumes "fs \<noteq> []"
  shows "slot (fs[i mod length fs := g]) j = (if j mod length fs = i mod length fs then g else slot fs j)"
  using assms by (simp add: slot_def nth_list_update)

lemma slot_update_near:
  assumes "fs \<noteq> []" "i < j + length fs" "j < i + length fs"
  shows "slot (fs[i mod length fs := g]) j = (if j = i then g else slot fs j)"
proof -
  have "j mod length fs = i mod length fs \<longleftrightarrow> j = i" using mod_near [of i "length fs" j] assms(2,3) by auto
  then show ?thesis by (simp add: slot_update [OF assms(1)])
qed

lemma slot_wrap: "slot fs (j + length fs) = slot fs j"
  by (simp add: slot_def)

lemma length_slot [simp]: "length (fs[i := g]) = length fs" by simp

text \<open>The slots from \<open>b\<close> on: \<open>u\<close> held by the user, \<open>r\<close> ready, the rest free.\<close>

definition ring :: "st30p_rx_frame list \<Rightarrow> nat \<Rightarrow> nat \<Rightarrow> nat \<Rightarrow> bool" where
  "ring fs b u r \<longleftrightarrow> fs \<noteq> [] \<and> u + r \<le> length fs \<and>
     (\<forall>k < length fs. r_stat (slot fs (b + k)) =
        (if k < u then ST30P_RX_FRAME_IN_USER else if k < u + r then ST30P_RX_FRAME_READY else ST30P_RX_FRAME_FREE))"

lemma ring_ready:
  assumes "ring fs b u r" "u + r < length fs" "r_stat g = ST30P_RX_FRAME_READY"
  shows "ring (fs[(b + u + r) mod length fs := g]) b u (Suc r)"
  using assms by (auto simp: ring_def slot_update_near)

lemma ring_taken:
  assumes "ring fs b u (Suc r)" "r_stat g = ST30P_RX_FRAME_IN_USER"
  shows "ring (fs[(b + u) mod length fs := g]) b (Suc u) r"
  using assms by (auto simp: ring_def slot_update_near)

lemma ring_put:
  assumes "ring fs b (Suc u) r" "r_stat g = ST30P_RX_FRAME_FREE"
  shows "ring (fs[b mod length fs := g]) (Suc b) u r"
proof -
  have fs: "fs \<noteq> []" "Suc u + r \<le> length fs" using assms(1) by (simp_all add: ring_def)
  have "r_stat (slot (fs[b mod length fs := g]) (Suc b + k)) =
      (if k < u then ST30P_RX_FRAME_IN_USER else if k < u + r then ST30P_RX_FRAME_READY else ST30P_RX_FRAME_FREE)"
    if "k < length fs" for k
  proof (cases "Suc k < length fs")
    case True
    then show ?thesis using slot_update_near [OF fs(1), of b "Suc b + k" g] assms(1) by (auto simp: ring_def)
  next
    case False
    then have wrap: "Suc b + k = b + length fs" using that by simp
    have "slot (fs[b mod length fs := g]) (Suc b + k) = g"
      unfolding wrap using slot_update [OF fs(1), of b g "b + length fs"] by simp
    then show ?thesis using fs(2) assms(2) False by simp
  qed
  then show ?thesis using fs by (simp add: ring_def)
qed

lemma ring_here:
  assumes "ring fs b u r"
  shows "u + r < length fs \<Longrightarrow> r_stat (fs ! ((b + u + r) mod length fs)) = ST30P_RX_FRAME_FREE"
    and "0 < r \<Longrightarrow> r_stat (fs ! ((b + u) mod length fs)) = ST30P_RX_FRAME_READY"
  using assms by (auto simp: ring_def slot_def add.assoc)

lemma ring_none:
  assumes "ring fs b u r" "f \<in> set fs"
  shows "u + r = length fs \<Longrightarrow> r_stat f \<noteq> ST30P_RX_FRAME_FREE" and "r = 0 \<Longrightarrow> r_stat f \<noteq> ST30P_RX_FRAME_READY"
proof -
  obtain i where i: "i < length fs" "f = fs ! i" using assms(2) by (auto simp: in_set_conv_nth)
  define k where "k = (i + (length fs - b mod length fs)) mod length fs"
  have k: "k < length fs" using i by (auto simp: k_def intro!: mod_less_divisor)
  have "(b + k) mod length fs = i"
  proof -
    have "(b + k) mod length fs = (b mod length fs + (i + (length fs - b mod length fs))) mod length fs"
      unfolding k_def by (metis mod_add_left_eq mod_add_right_eq)
    also have "b mod length fs + (i + (length fs - b mod length fs)) = i + length fs"
      using mod_less_divisor [OF le_less_trans [OF le0 i(1)], of b] by linarith
    finally show ?thesis using i(1) by simp
  qed
  then have "r_stat f = (if k < u then ST30P_RX_FRAME_IN_USER else if k < u + r then ST30P_RX_FRAME_READY else ST30P_RX_FRAME_FREE)"
    using assms(1) k i by (auto simp: ring_def slot_def)
  then show "u + r = length fs \<Longrightarrow> r_stat f \<noteq> ST30P_RX_FRAME_FREE" "r = 0 \<Longrightarrow> r_stat f \<noteq> ST30P_RX_FRAME_READY"
    using k by auto
qed


section \<open>The invariant\<close>

definition in_order :: "st30p_rx_ctx \<Rightarrow> delivery list \<Rightarrow> delivery list \<Rightarrow> nat list \<Rightarrow> bool" where
  "in_order ctx acc got held \<longleftrightarrow> (\<exists>b u r. let fs = r_framebuffs ctx in
     ring fs b u r \<and> held = map (\<lambda>k. (b + k) mod length fs) [0..<u] \<and>
     r_consumer_idx ctx = (b + u) mod length fs \<and> r_producer_idx ctx = (b + u + r) mod length fs \<and>
     acc = got @ map (\<lambda>k. content (slot fs (b + u + k))) [0..<r])"

text \<open>The buffers in the slots that are not free.\<close>

definition addrs_out :: "st30p_rx_frame list \<Rightarrow> nat multiset" where
  "addrs_out fs = image_mset (\<lambda>f. af_addr (r_frame f)) (filter_mset (\<lambda>f. r_stat f \<noteq> ST30P_RX_FRAME_FREE) (mset fs))"

definition rx_inv :: "st30p_rx_ctx \<Rightarrow> delivery list \<Rightarrow> delivery list \<Rightarrow> nat list \<Rightarrow> nat list \<Rightarrow> nat \<Rightarrow> bool" where
  "rx_inv ctx acc got held back rej \<longleftrightarrow> rx_live ctx \<and>
     r_producer_idx ctx < length (r_framebuffs ctx) \<and> r_consumer_idx ctx < length (r_framebuffs ctx) \<and>
     distinct held \<and> set held = {i. i < length (r_framebuffs ctx) \<and> r_stat (r_framebuffs ctx ! i) = ST30P_RX_FRAME_IN_USER} \<and>
     mset (map fst acc) = mset back + addrs_out (r_framebuffs ctx) \<and>
     length acc = length got + count_in r_stat ST30P_RX_FRAME_READY (r_framebuffs ctx) \<and>
     r_stat_frames_received ctx = of_nat (length got) \<and> r_stat_frames_dropped ctx = of_nat rej \<and>
     r_stat_frames_corrupted ctx = of_nat (length (filter corrupted got))"

lemma next_idx_less: "i < length (r_framebuffs ctx) \<Longrightarrow> rx_st30p_next_idx ctx i < length (r_framebuffs ctx)"
  by (auto simp: rx_st30p_next_idx_def)

lemma addrs_out_update:
  assumes "i < length fs"
  shows "addrs_out (fs[i := g]) + (if r_stat (fs ! i) \<noteq> ST30P_RX_FRAME_FREE then {#af_addr (r_frame (fs ! i))#} else {#}) =
    addrs_out fs + (if r_stat g \<noteq> ST30P_RX_FRAME_FREE then {#af_addr (r_frame g)#} else {#})"
proof -
  obtain rest where m: "mset fs = add_mset (fs ! i) rest" using nth_mem_mset [OF assms] by (metis mset_add)
  have "mset (fs[i := g]) = add_mset g rest" using mset_update [OF assms, of g] m by simp
  then show ?thesis using m by (simp add: addrs_out_def)
qed

section \<open>Each call keeps the invariant\<close>

lemma frame_ready_cases:
  assumes "r_ready ctx" and p: "r_producer_idx ctx < length (r_framebuffs ctx)"
  obtains (full) ctx' where "rx_st30p_frame_ready addr meta ctx = (Inl EBUSY, ctx', [])"
      "ctx' = ctx\<lparr>r_stat_busy := r_stat_busy ctx + 1, r_stat_frames_dropped := r_stat_frames_dropped ctx + 1\<rparr>"
      "count_in r_stat ST30P_RX_FRAME_FREE (r_framebuffs ctx) = 0"
  | (stored) i g ev where
      "rx_st30p_frame_ready addr meta ctx = (Inr (), (rx_upd_frame i (\<lambda>_. g) ctx)\<lparr>r_producer_idx := rx_st30p_next_idx ctx i\<rparr>, ev)"
      "rx_st30p_next_available ctx (r_producer_idx ctx) ST30P_RX_FRAME_FREE = Some i"
      "i < length (r_framebuffs ctx)" "r_stat (r_framebuffs ctx ! i) = ST30P_RX_FRAME_FREE"
      "r_stat g = ST30P_RX_FRAME_READY" "content g = delivery_of addr meta" "af_addr (r_frame g) = addr"
proof (cases "rx_st30p_next_available ctx (r_producer_idx ctx) ST30P_RX_FRAME_FREE")
  case None
  show ?thesis
  proof (rule full [OF _ refl])
    show "rx_st30p_frame_ready addr meta ctx = (Inl EBUSY, ctx\<lparr>r_stat_busy := r_stat_busy ctx + 1,
        r_stat_frames_dropped := r_stat_frames_dropped ctx + 1\<rparr>, [])"
      using None assms by (simp add: rx_st30p_frame_ready_def)
    show "count_in r_stat ST30P_RX_FRAME_FREE (r_framebuffs ctx) = 0" using None next_available_none [OF p] by simp
  qed
next
  case (Some i)
  note i = next_available_some [OF p Some]
  define g where "g = (let f = r_framebuffs ctx ! i in rx_set_stat ST30P_RX_FRAME_READY (f\<lparr>r_frame := (r_frame f)\<lparr>af_addr := addr,
                  af_data_size := ro_framebuff_size (r_ops ctx), af_tfmt := rm_tfmt meta, af_timestamp := rm_timestamp meta,
                  af_receive_timestamp := rm_timestamp_first_pkt meta, af_rtp_timestamp := rm_rtp_timestamp meta,
                  af_status := rm_status meta\<rparr>\<rparr>))"
  have "\<exists>ev. rx_st30p_frame_ready addr meta ctx = (Inr (), (rx_upd_frame i (\<lambda>_. g) ctx)\<lparr>r_producer_idx := rx_st30p_next_idx ctx i\<rparr>, ev)"
    using assms Some i by (simp add: rx_st30p_frame_ready_def rx_upd_frame_def Let_def g_def rx_set_stat_def rx_st30p_next_idx_def)
  moreover have "r_stat g = ST30P_RX_FRAME_READY" "content g = delivery_of addr meta" "af_addr (r_frame g) = addr"
    by (simp_all add: g_def Let_def content_def delivery_of_def rx_set_stat_def)
  ultimately show ?thesis using stored Some i by metis
qed

lemma rx_inv_accepted:
  assumes inv: "rx_inv ctx acc got held back rej" and ok: "rx_st30p_frame_ready addr meta ctx = (Inr (), ctx', ev)"
  shows "rx_inv ctx' (acc @ [delivery_of addr meta]) got held back rej"
proof -
  have live: "rx_live ctx" and p: "r_producer_idx ctx < length (r_framebuffs ctx)" using inv by (simp_all add: rx_inv_def)
  then have "r_ready ctx" by (simp add: rx_live_def)
  from this p show ?thesis
  proof (cases rule: frame_ready_cases [of ctx addr meta])
    case full
    then show ?thesis using ok by simp
  next
    case (stored i g ev')
    then have c: "ctx' = (rx_upd_frame i (\<lambda>_. g) ctx)\<lparr>r_producer_idx := rx_st30p_next_idx ctx i\<rparr>" using ok by simp
    have fs: "r_framebuffs ctx' = (r_framebuffs ctx)[i := g]" by (simp add: c)
    have "addrs_out (r_framebuffs ctx') = addrs_out (r_framebuffs ctx) + {#addr#}"
      using addrs_out_update [OF stored(3), of g] stored by (simp add: fs)
    moreover have "count_in r_stat ST30P_RX_FRAME_READY (r_framebuffs ctx') = count_in r_stat ST30P_RX_FRAME_READY (r_framebuffs ctx) + 1"
      unfolding fs using rx_pool.move_counts(2) [OF stored(3,4) _ stored(5)] by simp
    moreover have "{j. j < length (r_framebuffs ctx') \<and> r_stat (r_framebuffs ctx' ! j) = ST30P_RX_FRAME_IN_USER} =
        {j. j < length (r_framebuffs ctx) \<and> r_stat (r_framebuffs ctx ! j) = ST30P_RX_FRAME_IN_USER}"
      unfolding fs using stored by (auto simp: nth_list_update)
    moreover have "r_producer_idx ctx' < length (r_framebuffs ctx')"
      using next_idx_less [OF stored(3)] by (simp add: c)
    moreover have "fst (delivery_of addr meta) = addr" by (simp add: delivery_of_def)
    ultimately show ?thesis using inv by (simp add: rx_inv_def rx_live_def c)
  qed
qed

lemma rx_inv_rejected:
  assumes inv: "rx_inv ctx acc got held back rej" and no: "rx_st30p_frame_ready addr meta ctx = (Inl e, ctx', ev)"
  shows "rx_inv ctx' acc got held back (rej + 1)" and "r_framebuffs ctx' = r_framebuffs ctx"
    and "r_producer_idx ctx' = r_producer_idx ctx" and "r_consumer_idx ctx' = r_consumer_idx ctx"
proof -
  have live: "rx_live ctx" and p: "r_producer_idx ctx < length (r_framebuffs ctx)" using inv by (simp_all add: rx_inv_def)
  then have "r_ready ctx" by (simp add: rx_live_def)
  from this p have c: "ctx' = ctx\<lparr>r_stat_busy := r_stat_busy ctx + 1, r_stat_frames_dropped := r_stat_frames_dropped ctx + 1\<rparr>"
  proof (cases rule: frame_ready_cases [of ctx addr meta])
    case full
    then show ?thesis using no by simp
  next
    case (stored i g ev')
    then show ?thesis using no by simp
  qed
  show "rx_inv ctx' acc got held back (rej + 1)" "r_framebuffs ctx' = r_framebuffs ctx"
    "r_producer_idx ctx' = r_producer_idx ctx" "r_consumer_idx ctx' = r_consumer_idx ctx"
    using inv by (simp_all add: rx_inv_def rx_live_def c)
qed

lemma taken_simps:
  "r_framebuffs (taken i ctx) = (r_framebuffs ctx)[i := rx_set_stat ST30P_RX_FRAME_IN_USER (r_framebuffs ctx ! i)]"
  "r_handle (taken i ctx) = r_handle ctx" "r_ready (taken i ctx) = r_ready ctx"
  "r_producer_idx (taken i ctx) = r_producer_idx ctx" "r_consumer_idx (taken i ctx) = rx_st30p_next_idx ctx i"
  "r_stat_frames_received (taken i ctx) = r_stat_frames_received ctx + 1"
  "r_stat_frames_dropped (taken i ctx) = r_stat_frames_dropped ctx"
  "r_stat_frames_corrupted (taken i ctx) = r_stat_frames_corrupted ctx +
     (if af_status (r_frame (r_framebuffs ctx ! i)) = ST_FRAME_STATUS_CORRUPTED then 1 else 0)"
  by (simp_all add: taken_def Let_def)

lemma set_stat_simps [simp]:
  "r_stat (rx_set_stat s f) = s" "r_frame (rx_set_stat s f) = r_frame f" "content (rx_set_stat s f) = content f"
  by (simp_all add: rx_set_stat_def content_def)

lemma rx_get_effect:
  assumes inv: "rx_inv ctx acc got held back rej" and get: "st30p_rx_get_frame [] ctx = (Some i, ctx')"
  shows "ctx' = taken i ctx" "i < length (r_framebuffs ctx)" "r_stat (r_framebuffs ctx ! i) = ST30P_RX_FRAME_READY"
    "rx_st30p_next_available ctx (r_consumer_idx ctx) ST30P_RX_FRAME_READY = Some i"
proof -
  have live: "rx_live ctx" and p: "r_consumer_idx ctx < length (r_framebuffs ctx)" using inv by (simp_all add: rx_inv_def)
  obtain j where j: "rx_st30p_next_available ctx (r_consumer_idx ctx) ST30P_RX_FRAME_READY = Some j"
    using get rx_get_live_none [OF live] by (cases "rx_st30p_next_available ctx (r_consumer_idx ctx) ST30P_RX_FRAME_READY") auto
  then have "j = i" "ctx' = taken i ctx" using get rx_get_live_some [OF live p j, of "[]"] by auto
  then show "ctx' = taken i ctx" "i < length (r_framebuffs ctx)" "r_stat (r_framebuffs ctx ! i) = ST30P_RX_FRAME_READY"
    "rx_st30p_next_available ctx (r_consumer_idx ctx) ST30P_RX_FRAME_READY = Some i"
    using next_available_some [OF p j] j by simp_all
qed

lemma rx_inv_got:
  assumes inv: "rx_inv ctx acc got held back rej" and get: "st30p_rx_get_frame [] ctx = (Some i, ctx')"
  shows "rx_inv ctx' acc (got @ [content (r_framebuffs ctx' ! i)]) (held @ [i]) back rej"
proof -
  note e = rx_get_effect [OF inv get]
  let ?g = "rx_set_stat ST30P_RX_FRAME_IN_USER (r_framebuffs ctx ! i)"
  have fs: "r_framebuffs ctx' = (r_framebuffs ctx)[i := ?g]" by (simp add: e(1) taken_simps)
  have "addrs_out (r_framebuffs ctx') = addrs_out (r_framebuffs ctx)"
    using addrs_out_update [OF e(2), of ?g] e(3) by (simp add: fs)
  moreover have "count_in r_stat ST30P_RX_FRAME_READY (r_framebuffs ctx') + 1 = count_in r_stat ST30P_RX_FRAME_READY (r_framebuffs ctx)"
    unfolding fs using rx_pool.move_counts(1) [OF e(2,3), of ST30P_RX_FRAME_IN_USER ?g] by simp
  moreover have "insert i {j. j < length (r_framebuffs ctx) \<and> r_stat (r_framebuffs ctx ! j) = ST30P_RX_FRAME_IN_USER} =
        {j. j < length (r_framebuffs ctx') \<and> r_stat (r_framebuffs ctx' ! j) = ST30P_RX_FRAME_IN_USER}"
    unfolding fs using e(2) by (auto simp: nth_list_update)
  moreover have "i \<notin> set held" using inv e(3) by (simp add: rx_inv_def)
  moreover have "r_consumer_idx ctx' < length (r_framebuffs ctx')"
    using next_idx_less [OF e(2)] by (simp add: e(1) taken_simps)
  moreover have "corrupted (content (r_framebuffs ctx' ! i)) \<longleftrightarrow> af_status (r_frame (r_framebuffs ctx ! i)) = ST_FRAME_STATUS_CORRUPTED"
    unfolding fs using e(2) by (simp add: corrupted_def content_def Let_def)
  ultimately show ?thesis using inv by (simp add: rx_inv_def rx_live_def e(1) taken_simps)
qed


lemma rx_inv_put:
  assumes inv: "rx_inv ctx acc got held back rej" and i: "i < length (r_framebuffs ctx)"
    and which: "put = st30p_rx_put_frame \<or> put = st30p_rx_put_frame_abort" and put: "put i ctx = (Inr addr, ctx')"
  shows "rx_inv ctx' acc got (remove1 i held) (back @ [addr]) rej"
    and "r_framebuffs ctx' = (r_framebuffs ctx)[i := rx_set_stat ST30P_RX_FRAME_FREE (r_framebuffs ctx ! i)]"
    and "r_stat (r_framebuffs ctx ! i) = ST30P_RX_FRAME_IN_USER"
    and "r_producer_idx ctx' = r_producer_idx ctx" and "r_consumer_idx ctx' = r_consumer_idx ctx"
proof -
  let ?g = "rx_set_stat ST30P_RX_FRAME_FREE (r_framebuffs ctx ! i)"
  have live: "rx_live ctx" using inv by (simp add: rx_inv_def)
  have e: "r_stat (r_framebuffs ctx ! i) = ST30P_RX_FRAME_IN_USER" "addr = af_addr (r_frame (r_framebuffs ctx ! i))"
      "r_framebuffs ctx' = (r_framebuffs ctx)[i := ?g]" "r_handle ctx' = r_handle ctx" "r_ready ctx' = r_ready ctx"
      "r_producer_idx ctx' = r_producer_idx ctx" "r_consumer_idx ctx' = r_consumer_idx ctx"
      "r_stat_frames_received ctx' = r_stat_frames_received ctx" "r_stat_frames_dropped ctx' = r_stat_frames_dropped ctx"
      "r_stat_frames_corrupted ctx' = r_stat_frames_corrupted ctx"
    using which put rx_put_live [OF live, of i] rx_abort_live [OF live, of i] by (auto simp: rx_upd_frame_def split: if_splits)
  show fs: "r_framebuffs ctx' = (r_framebuffs ctx)[i := ?g]" by (rule e(3))
  show "r_stat (r_framebuffs ctx ! i) = ST30P_RX_FRAME_IN_USER" by (rule e(1))
  show "r_producer_idx ctx' = r_producer_idx ctx" "r_consumer_idx ctx' = r_consumer_idx ctx" by (rule e)+
  have "addrs_out (r_framebuffs ctx) = addrs_out (r_framebuffs ctx') + {#addr#}"
    using addrs_out_update [OF i, of ?g] e by (simp add: fs)
  moreover have "count_in r_stat ST30P_RX_FRAME_READY (r_framebuffs ctx') = count_in r_stat ST30P_RX_FRAME_READY (r_framebuffs ctx)"
    unfolding fs using rx_pool.move_counts(3) [OF i e(1), of ST30P_RX_FRAME_FREE ?g] by simp
  moreover have "{j. j < length (r_framebuffs ctx) \<and> r_stat (r_framebuffs ctx ! j) = ST30P_RX_FRAME_IN_USER} - {i} =
        {j. j < length (r_framebuffs ctx') \<and> r_stat (r_framebuffs ctx' ! j) = ST30P_RX_FRAME_IN_USER}"
    unfolding fs using i by (auto simp: nth_list_update)
  moreover have "length (r_framebuffs ctx') = length (r_framebuffs ctx)" by (simp add: fs)
  ultimately show "rx_inv ctx' acc got (remove1 i held) (back @ [addr]) rej"
    using inv by (simp add: rx_inv_def rx_live_def e(4-10))
qed

lemma rx_put_error:
  assumes "rx_live ctx" and "put = st30p_rx_put_frame \<or> put = st30p_rx_put_frame_abort" and "put i ctx = (Inl e, ctx')"
  shows "ctx' = ctx"
  using assms(2,3) rx_put_live [OF assms(1), of i] rx_abort_live [OF assms(1), of i] by (auto split: if_splits)

lemma rx_inv_created:
  assumes "st30p_rx_create True True transport ops = Some (ctx, ev)" and "0 < ro_framebuff_cnt ops"
  shows "rx_inv ctx [] [] [] [] 0" and "in_order ctx [] [] []"
proof -
  obtain fps where t: "transport (st30_rx_flags (ro_flags ops)) = Some fps"
    using assms(1) by (auto simp: st30p_rx_create_def rx_st30p_create_transport_def Let_def split: option.splits)
  have c: "r_framebuffs ctx = rx_st30p_init_fbs ops" "r_producer_idx ctx = 0" "r_consumer_idx ctx = 0" "rx_live ctx"
    "r_stat_frames_received ctx = 0" "r_stat_frames_dropped ctx = 0" "r_stat_frames_corrupted ctx = 0"
    using assms(1) t by (auto simp: st30p_rx_create_def rx_st30p_create_transport_def Let_def rx_live_def)
  have n: "0 < unat (ro_framebuff_cnt ops)" using assms(2) by (simp add: word_less_nat_alt)
  have free: "\<forall>f \<in> set (r_framebuffs ctx). r_stat f = ST30P_RX_FRAME_FREE" "length (r_framebuffs ctx) = unat (ro_framebuff_cnt ops)"
    by (auto simp: c rx_st30p_init_fbs_def)
  have "addrs_out (r_framebuffs ctx) = {#}" using free(1) by (simp add: addrs_out_def filter_empty_conv flip: mset_filter)
  moreover have "count_in r_stat ST30P_RX_FRAME_READY (r_framebuffs ctx) = 0"
    using free(1) by (auto simp: count_in_def filter_empty_conv)
  ultimately show "rx_inv ctx [] [] [] [] 0"
    using n free by (auto simp: rx_inv_def c(2-7))
  have "ring (r_framebuffs ctx) 0 0 0" using n free by (auto simp: ring_def slot_def)
  then show "in_order ctx [] [] []" by (auto simp: in_order_def Let_def c(2,3) intro!: exI [of _ 0])
qed


section \<open>Order\<close>

lemma in_orderE:
  assumes "in_order ctx acc got held"
  obtains b u r where "ring (r_framebuffs ctx) b u r" "held = map (\<lambda>k. (b + k) mod length (r_framebuffs ctx)) [0..<u]"
    "r_consumer_idx ctx = (b + u) mod length (r_framebuffs ctx)"
    "r_producer_idx ctx = (b + u + r) mod length (r_framebuffs ctx)"
    "acc = got @ map (\<lambda>k. content (slot (r_framebuffs ctx) (b + u + k))) [0..<r]"
  using assms unfolding in_order_def Let_def by blast

lemma in_orderI:
  assumes "ring (r_framebuffs ctx) b u r" "held = map (\<lambda>k. (b + k) mod length (r_framebuffs ctx)) [0..<u]"
    "r_consumer_idx ctx = (b + u) mod length (r_framebuffs ctx)"
    "r_producer_idx ctx = (b + u + r) mod length (r_framebuffs ctx)"
    "acc = got @ map (\<lambda>k. content (slot (r_framebuffs ctx) (b + u + k))) [0..<r]"
  shows "in_order ctx acc got held"
  using assms unfolding in_order_def Let_def by blast

lemma in_order_accepted:
  assumes inv: "rx_inv ctx acc got held back rej" and ord: "in_order ctx acc got held"
    and ok: "rx_st30p_frame_ready addr meta ctx = (Inr (), ctx', ev)"
  shows "in_order ctx' (acc @ [delivery_of addr meta]) got held"
  using ord
proof (rule in_orderE)
  fix b u r
  let ?fs = "r_framebuffs ctx" let ?n = "length (r_framebuffs ctx)"
  assume o: "ring ?fs b u r" "held = map (\<lambda>k. (b + k) mod ?n) [0..<u]" "r_consumer_idx ctx = (b + u) mod ?n"
    "r_producer_idx ctx = (b + u + r) mod ?n" "acc = got @ map (\<lambda>k. content (slot ?fs (b + u + k))) [0..<r]"
  have live: "r_ready ctx" and p: "r_producer_idx ctx < ?n" using inv by (simp_all add: rx_inv_def rx_live_def)
  have n: "?fs \<noteq> []" "0 < ?n" "u + r \<le> ?n" using o(1) by (auto simp: ring_def)
  from live p show ?thesis
  proof (cases rule: frame_ready_cases [of ctx addr meta])
    case full
    then show ?thesis using ok by simp
  next
    case (stored i g ev')
    have less: "u + r < ?n" using ring_none(1) [OF o(1) nth_mem [OF stored(3)]] stored(4) n(3) by fastforce
    have i: "i = (b + u + r) mod ?n"
      using next_available_here [OF n(2) ring_here(1) [OF o(1) less]] stored(2) by (simp add: o(4))
    have fs: "r_framebuffs ctx' = ?fs[(b + u + r) mod ?n := g]" and c: "r_consumer_idx ctx' = r_consumer_idx ctx"
      "r_producer_idx ctx' = rx_st30p_next_idx ctx i" using stored(1) ok i by auto
    have keep: "slot (r_framebuffs ctx') (b + u + k) = (if k = r then g else slot ?fs (b + u + k))" if "k \<le> r" for k
      unfolding fs using that less slot_update_near [OF n(1), of "b + u + r" "b + u + k" g] by simp
    show ?thesis
    proof (rule in_orderI)
      show "ring (r_framebuffs ctx') b u (Suc r)" unfolding fs by (rule ring_ready [OF o(1) less stored(5)])
      show "r_producer_idx ctx' = (b + u + Suc r) mod length (r_framebuffs ctx')"
        using next_idx_ring [OF n(2), of "b + u + r"] by (simp add: c i fs)
      show "acc @ [delivery_of addr meta] = got @ map (\<lambda>k. content (slot (r_framebuffs ctx') (b + u + k))) [0..<Suc r]"
        using keep stored(6) by (simp add: o(5))
    qed (simp_all add: fs c o)
  qed
qed

lemma in_order_got:
  assumes inv: "rx_inv ctx acc got held back rej" and ord: "in_order ctx acc got held"
    and get: "st30p_rx_get_frame [] ctx = (Some i, ctx')"
  shows "in_order ctx' acc (got @ [content (r_framebuffs ctx' ! i)]) (held @ [i])"
  using ord
proof (rule in_orderE)
  fix b u r
  let ?fs = "r_framebuffs ctx" let ?n = "length (r_framebuffs ctx)"
  assume o: "ring ?fs b u r" "held = map (\<lambda>k. (b + k) mod ?n) [0..<u]" "r_consumer_idx ctx = (b + u) mod ?n"
    "r_producer_idx ctx = (b + u + r) mod ?n" "acc = got @ map (\<lambda>k. content (slot ?fs (b + u + k))) [0..<r]"
  have n: "?fs \<noteq> []" "0 < ?n" "u + r \<le> ?n" using o(1) by (auto simp: ring_def)
  note e = rx_get_effect [OF inv get]
  obtain r' where r: "r = Suc r'" using ring_none(2) [OF o(1) nth_mem [OF e(2)]] e(3) by (cases r) auto
  have i: "i = (b + u) mod ?n"
    using next_available_here [OF n(2) ring_here(2) [OF o(1)]] e(4) r by (simp add: o(3))
  let ?g = "rx_set_stat ST30P_RX_FRAME_IN_USER (slot ?fs (b + u))"
  have fs: "r_framebuffs ctx' = ?fs[(b + u) mod ?n := ?g]" by (simp add: e(1) taken_simps i slot_def)
  have keep: "slot (r_framebuffs ctx') (b + Suc u + k) = slot ?fs (b + u + Suc k)" if "k < r'" for k
    unfolding fs using that n r slot_update_near [OF n(1), of "b + u" "b + Suc u + k" ?g] by simp
  have here: "content (r_framebuffs ctx' ! i) = content (slot ?fs (b + u))"
    using e(2) by (simp add: fs i)
  show ?thesis
  proof (rule in_orderI)
    show "ring (r_framebuffs ctx') b (Suc u) r'" unfolding fs by (rule ring_taken) (use o(1) r in simp_all)
    show "r_consumer_idx ctx' = (b + Suc u) mod length (r_framebuffs ctx')"
      using next_idx_ring [OF n(2), of "b + u"] by (simp add: e(1) taken_simps i)
    show "acc = (got @ [content (r_framebuffs ctx' ! i)]) @
        map (\<lambda>k. content (slot (r_framebuffs ctx') (b + Suc u + k))) [0..<r']"
      using keep by (simp add: o(5) r here map_upt_Suc del: upt_Suc)
  qed (simp_all add: fs e(1) taken_simps o i r)
qed

lemma in_order_put:
  assumes inv: "rx_inv ctx acc got held back rej" and ord: "in_order ctx acc got held"
    and i: "i < length (r_framebuffs ctx)" and which: "put = st30p_rx_put_frame \<or> put = st30p_rx_put_frame_abort"
    and put: "put i ctx = (Inr addr, ctx')" and hd: "i = hd held"
  shows "in_order ctx' acc got (remove1 i held)"
  using ord
proof (rule in_orderE)
  fix b u r
  let ?fs = "r_framebuffs ctx" let ?n = "length (r_framebuffs ctx)"
  assume o: "ring ?fs b u r" "held = map (\<lambda>k. (b + k) mod ?n) [0..<u]" "r_consumer_idx ctx = (b + u) mod ?n"
    "r_producer_idx ctx = (b + u + r) mod ?n" "acc = got @ map (\<lambda>k. content (slot ?fs (b + u + k))) [0..<r]"
  have n: "?fs \<noteq> []" "0 < ?n" "u + r \<le> ?n" using o(1) by (auto simp: ring_def)
  note e = rx_inv_put [OF inv i which put]
  have "i \<in> set held" using inv i e(3) by (simp add: rx_inv_def)
  then obtain u' where u: "u = Suc u'" using o(2) by (cases u) auto
  have held: "held = b mod ?n # map (\<lambda>k. (Suc b + k) mod ?n) [0..<u']"
    unfolding o(2) u by (simp add: map_upt_Suc del: upt_Suc)
  then have ib: "i = b mod ?n" using hd by simp
  let ?g = "rx_set_stat ST30P_RX_FRAME_FREE (slot ?fs b)"
  have fs: "r_framebuffs ctx' = ?fs[b mod ?n := ?g]" by (simp add: e(2) ib slot_def)
  have keep: "slot (r_framebuffs ctx') (Suc b + u' + k) = slot ?fs (b + u + k)" if "k < r" for k
    unfolding fs using that n u slot_update_near [OF n(1), of b "b + u + k" ?g] by simp
  show ?thesis
  proof (rule in_orderI)
    show "ring (r_framebuffs ctx') (Suc b) u' r" unfolding fs by (rule ring_put) (use o(1) u in simp_all)
    show "remove1 i held = map (\<lambda>k. (Suc b + k) mod length (r_framebuffs ctx')) [0..<u']"
      by (simp add: held ib fs)
    show "acc = got @ map (\<lambda>k. content (slot (r_framebuffs ctx') (Suc b + u' + k))) [0..<r]"
      using keep by (simp add: o(5))
  qed (simp_all add: fs e(4,5) o u)
qed

section \<open>Promises\<close>

lemma in_order_cong:
  "r_framebuffs c' = r_framebuffs c \<Longrightarrow> r_producer_idx c' = r_producer_idx c \<Longrightarrow> r_consumer_idx c' = r_consumer_idx c \<Longrightarrow>
    in_order c' acc got held = in_order c acc got held"
  by (simp add: in_order_def)

lemma rx_inv_cong:
  "r_framebuffs c' = r_framebuffs c \<Longrightarrow> r_producer_idx c' = r_producer_idx c \<Longrightarrow> r_consumer_idx c' = r_consumer_idx c \<Longrightarrow>
    rx_live c' = rx_live c \<Longrightarrow> r_stat_frames_received c' = r_stat_frames_received c \<Longrightarrow>
    r_stat_frames_dropped c' = r_stat_frames_dropped c \<Longrightarrow> r_stat_frames_corrupted c' = r_stat_frames_corrupted c \<Longrightarrow>
    rx_inv c' acc got held back rej = rx_inv c acc got held back rej"
  by (simp add: rx_inv_def)

lemma rx_wake_live:
  assumes "rx_live ctx"
  shows "st30p_rx_wake_block ctx = (Inr (), if r_block_get ctx then rx_st30p_block_wake ctx else ctx)"
  unfolding st30p_rx_wake_block_def by (subst rx_guarded_live [OF assms]) (simp_all add: rx_st30p_block_wake_def)

lemma rx_nothing:
  assumes inv: "rx_inv ctx acc got held back rej" and get: "st30p_rx_get_frame [] ctx = (None, ctx')"
  shows "rx_inv ctx' acc got held back rej" and "in_order ctx' acc got held = in_order ctx acc got held"
proof -
  have live: "rx_live ctx" and p: "r_consumer_idx ctx < length (r_framebuffs ctx)" using inv by (simp_all add: rx_inv_def)
  have none: "rx_st30p_next_available ctx (r_consumer_idx ctx) ST30P_RX_FRAME_READY = None"
    using get rx_get_live_some [OF live p, of _ "[]"]
    by (cases "rx_st30p_next_available ctx (r_consumer_idx ctx) ST30P_RX_FRAME_READY") auto
  from rx_get_live_none [OF live this] get
  have c: "ctx' = ctx\<lparr>r_stat_get_frame_try := r_stat_get_frame_try ctx + 1,
    r_block_wake_pending := (if r_block_get ctx then False else r_block_wake_pending ctx)\<rparr>" by simp
  show "rx_inv ctx' acc got held back rej" using inv by (subst rx_inv_cong [of _ ctx]) (simp_all add: c rx_live_def)
  show "in_order ctx' acc got held = in_order ctx acc got held" by (rule in_order_cong) (simp_all add: c)
qed

lemma rx_history_inv:
  "rx_history ctx acc got held back rej ordered \<Longrightarrow>
    rx_inv ctx acc got held back rej \<and> (ordered \<longrightarrow> in_order ctx acc got held)"
proof (induction rule: rx_history.induct)
  case created
  then show ?case using rx_inv_created by blast
next
  case accepted
  then show ?case using rx_inv_accepted in_order_accepted by blast
next
  case (rejected ctx acc got held bk rej ordered addr meta e ctx' ev)
  then have inv: "rx_inv ctx acc got held bk rej" by simp
  note r = rx_inv_rejected [OF inv rejected(2)]
  then show ?case using rejected.IH in_order_cong [OF r(2,3,4)] by simp
next
  case got
  then show ?case using rx_inv_got in_order_got by blast
next
  case (no_frame ctx acc got held bk rej ordered ctx')
  then have inv: "rx_inv ctx acc got held bk rej" by simp
  show ?case using no_frame.IH rx_nothing [OF inv no_frame(2)] by simp
next
  case (put ctx acc got held bk rej ordered i pt addr ctx')
  then have inv: "rx_inv ctx acc got held bk rej" by simp
  show ?case using put.IH rx_inv_put(1) [OF inv put(2-4)] in_order_put [OF inv _ put(2-4)] by simp
next
  case (put_error ctx acc got held bk rej ordered i put e ctx')
  then have "rx_live ctx" by (simp add: rx_inv_def)
  from rx_put_error [OF this put_error(3,4)] show ?case using put_error.IH by simp
next
  case (wake ctx acc got held bk rej ordered r ctx')
  then have "rx_live ctx" by (simp add: rx_inv_def)
  from rx_wake_live [OF this] wake(2)
  have c: "ctx' = (if r_block_get ctx then rx_st30p_block_wake ctx else ctx)" by simp
  have "rx_inv ctx' acc got held bk rej = rx_inv ctx acc got held bk rej"
    by (rule rx_inv_cong) (simp_all add: c rx_st30p_block_wake_def rx_live_def)
  moreover have "in_order ctx' acc got held = in_order ctx acc got held"
    by (rule in_order_cong) (simp_all add: c rx_st30p_block_wake_def)
  ultimately show ?case using wake.IH by simp
next
  case (stat ctx acc got held bk rej ordered r ctx')
  then have "r_ready ctx" by (simp add: rx_inv_def rx_live_def)
  then have c: "ctx' = ctx\<lparr>r_stat_get_frame_try := 0, r_stat_get_frame_succ := 0, r_stat_put_frame := 0, r_stat_busy := 0\<rparr>"
    using stat(2) by (simp add: rx_st30p_stat_def)
  have "rx_inv ctx' acc got held bk rej = rx_inv ctx acc got held bk rej"
    by (rule rx_inv_cong) (simp_all add: c rx_live_def)
  moreover have "in_order ctx' acc got held = in_order ctx acc got held" by (rule in_order_cong) (simp_all add: c)
  ultimately show ?case using stat.IH by simp
qed

text \<open>C21. Every buffer of the receive transport is accounted for, whatever the order in which the user
  returns the frames: the buffers accepted are those given back, each once, and those in slots that
  are not free; the frames accepted are those handed to the user and those still ready; the counters
  for received, dropped and corrupted frames count what they say, modulo their width; and a frame is
  refused exactly when no slot is free.\<close>

theorem st30p_rx_accounting:
  assumes "rx_history ctx acc got held back rej ordered"
  shows "mset (map fst acc) = mset back + addrs_out (r_framebuffs ctx) \<and>
    length acc = length got + count_in r_stat ST30P_RX_FRAME_READY (r_framebuffs ctx) \<and>
    r_stat_frames_received ctx = of_nat (length got) \<and> r_stat_frames_dropped ctx = of_nat rej \<and>
    r_stat_frames_corrupted ctx = of_nat (length (filter corrupted got)) \<and>
    (fst (rx_st30p_frame_ready addr meta ctx) = Inl EBUSY \<longleftrightarrow> count_in r_stat ST30P_RX_FRAME_FREE (r_framebuffs ctx) = 0)"
proof -
  have inv: "rx_inv ctx acc got held back rej" using rx_history_inv [OF assms] by simp
  then have "r_ready ctx" "r_producer_idx ctx < length (r_framebuffs ctx)" by (simp_all add: rx_inv_def rx_live_def)
  then have "fst (rx_st30p_frame_ready addr meta ctx) = Inl EBUSY \<longleftrightarrow> count_in r_stat ST30P_RX_FRAME_FREE (r_framebuffs ctx) = 0"
  proof (cases rule: frame_ready_cases [of ctx addr meta])
    case (stored i g ev)
    then have "r_framebuffs ctx ! i \<in> set (filter (\<lambda>f. r_stat f = ST30P_RX_FRAME_FREE) (r_framebuffs ctx))" by simp
    then have "count_in r_stat ST30P_RX_FRAME_FREE (r_framebuffs ctx) \<noteq> 0"
      unfolding count_in_def by (metis length_0_conv empty_iff list.set(1))
    then show ?thesis using stored(1) by simp
  qed simp
  then show ?thesis using inv unfolding rx_inv_def by blast
qed


definition rx_demo_ops :: st30p_rx_ops where
  "rx_demo_ops = \<lparr>ro_flags = 0, ro_fmt = ST30_FMT_PCM16, ro_channel = 2, ro_sampling = ST30_SAMPLING_48K,
     ro_ptime = ST30_PTIME_1MS, ro_framebuff_cnt = 2, ro_framebuff_size = 192, ro_has_available = False\<rparr>"

definition rx_demo_meta :: "u32 \<Rightarrow> st30_rx_frame_meta" where
  "rx_demo_meta t = \<lparr>rm_fmt = ST30_FMT_PCM16, rm_sampling = ST30_SAMPLING_48K, rm_channel = 2,
     rm_tfmt = ST10_TIMESTAMP_FMT_MEDIA_CLK, rm_timestamp = 0, rm_timestamp_first_pkt = 0,
     rm_rtp_timestamp = t, rm_frame_recv_size = 192, rm_status = ST_FRAME_STATUS_COMPLETE\<rparr>"

definition rx_demo_fresh :: st30p_rx_frame where
  "rx_demo_fresh = \<lparr>r_stat = ST30P_RX_FRAME_FREE,
     r_frame = \<lparr>af_addr = 0, af_fmt = ST30_FMT_PCM16, af_channel = 2, af_sampling = ST30_SAMPLING_48K,
        af_ptime = ST30_PTIME_1MS, af_buffer_size = 192, af_data_size = 192,
        af_tfmt = ST10_TIMESTAMP_FMT_TAI, af_timestamp = 0, af_epoch = 0, af_rtp_timestamp = 0,
        af_receive_timestamp = 0, af_status = ST_FRAME_STATUS_COMPLETE\<rparr>\<rparr>"

text \<open>A slot of a session with these options that holds a delivery, and a session of two slots.\<close>

definition rx_demo_slot :: "st30p_rx_frame_status \<Rightarrow> nat \<Rightarrow> u32 \<Rightarrow> st30p_rx_frame" where
  "rx_demo_slot s addr t = \<lparr>r_stat = s,
     r_frame = \<lparr>af_addr = addr, af_fmt = ST30_FMT_PCM16, af_channel = 2, af_sampling = ST30_SAMPLING_48K,
        af_ptime = ST30_PTIME_1MS, af_buffer_size = 192, af_data_size = 192,
        af_tfmt = ST10_TIMESTAMP_FMT_MEDIA_CLK, af_timestamp = 0, af_epoch = 0, af_rtp_timestamp = t,
        af_receive_timestamp = 0, af_status = ST_FRAME_STATUS_COMPLETE\<rparr>\<rparr>"

definition rx_demo :: "st30p_rx_frame list \<Rightarrow> nat \<Rightarrow> nat \<Rightarrow> u32 \<Rightarrow> u32 \<Rightarrow> st30p_rx_ctx" where
  "rx_demo fs p c gets puts = \<lparr>r_handle = \<lparr>h_type = MT_ST30_HANDLE_PIPELINE_RX, lc_destroying = False, lc_refcnt = 0\<rparr>,
              r_ops = rx_demo_ops, r_framebuffs = fs, r_producer_idx = p, r_consumer_idx = c,
              r_ready = True, r_frames_per_sec = 1000, r_block_get = False,
              r_block_timeout_ns = of_nat NS_PER_S, r_block_wake_pending = False, r_stat_get_frame_try = gets,
              r_stat_get_frame_succ = gets, r_stat_put_frame = puts, r_stat_busy = 0, r_stat_frames_received = ucast gets,
              r_stat_frames_dropped = 0, r_stat_frames_corrupted = 0\<rparr>"

lemmas rx_demo_eval = rx_demo_def rx_demo_fresh_def rx_demo_slot_def rx_demo_ops_def rx_demo_meta_def rx_live_def content_def delivery_of_def
  rx_st30p_next_available_def rx_st30p_next_idx_def rx_upd_frame_def rx_set_stat_def Let_def
  rx_st30p_notify_frame_available_def

lemma rx_demo_create:
  "st30p_rx_create True True (\<lambda>_. Some 1000) rx_demo_ops = Some (rx_demo [rx_demo_fresh, rx_demo_fresh] 0 0 0 0, [])"
  by (simp add: st30p_rx_create_def rx_st30p_create_transport_def has_flag_def rx_demo_def rx_demo_ops_def Let_def
    rx_st30p_init_fbs_def rx_demo_fresh_def rx_st30p_notify_frame_available_def)
    (simp add: numeral_2_eq_2)

lemma rx_demo_step0: "rx_st30p_frame_ready 10 (rx_demo_meta 1) (rx_demo [rx_demo_fresh, rx_demo_fresh] 0 0 0 0) = (Inr (), (rx_demo [rx_demo_slot ST30P_RX_FRAME_READY 10 1, rx_demo_fresh] 1 0 0 0), [])"
  by (simp add: rx_st30p_frame_ready_def rx_demo_eval)

lemma rx_demo_step1: "rx_st30p_frame_ready 20 (rx_demo_meta 2) (rx_demo [rx_demo_slot ST30P_RX_FRAME_READY 10 1, rx_demo_fresh] 1 0 0 0) = (Inr (), (rx_demo [rx_demo_slot ST30P_RX_FRAME_READY 10 1, rx_demo_slot ST30P_RX_FRAME_READY 20 2] 0 0 0 0), [])"
  by (simp add: rx_st30p_frame_ready_def rx_demo_eval)

lemma rx_demo_step2: "st30p_rx_get_frame [] (rx_demo [rx_demo_slot ST30P_RX_FRAME_READY 10 1, rx_demo_slot ST30P_RX_FRAME_READY 20 2] 0 0 0 0) = (Some 0, (rx_demo [rx_demo_slot ST30P_RX_FRAME_IN_USER 10 1, rx_demo_slot ST30P_RX_FRAME_READY 20 2] 0 1 1 0))"
  by (simp add: rx_guarded_def guarded_def acquire_alone mt_handle_release_def st30p_rx_get_frame_def rx_st30p_claim_available_def rx_demo_eval)

lemma rx_demo_step3: "st30p_rx_get_frame [] (rx_demo [rx_demo_slot ST30P_RX_FRAME_IN_USER 10 1, rx_demo_slot ST30P_RX_FRAME_READY 20 2] 0 1 1 0) = (Some 1, (rx_demo [rx_demo_slot ST30P_RX_FRAME_IN_USER 10 1, rx_demo_slot ST30P_RX_FRAME_IN_USER 20 2] 0 0 2 0))"
  by (simp add: rx_guarded_def guarded_def acquire_alone mt_handle_release_def st30p_rx_get_frame_def rx_st30p_claim_available_def rx_demo_eval)

lemma rx_demo_step4: "st30p_rx_put_frame 1 (rx_demo [rx_demo_slot ST30P_RX_FRAME_IN_USER 10 1, rx_demo_slot ST30P_RX_FRAME_IN_USER 20 2] 0 0 2 0) = (Inr 20, (rx_demo [rx_demo_slot ST30P_RX_FRAME_IN_USER 10 1, rx_demo_slot ST30P_RX_FRAME_FREE 20 2] 0 0 2 1))"
  by (simp add: rx_guarded_def guarded_def acquire_alone mt_handle_release_def st30p_rx_put_frame_def rx_demo_eval)

lemma rx_demo_step5: "rx_st30p_frame_ready 30 (rx_demo_meta 3) (rx_demo [rx_demo_slot ST30P_RX_FRAME_IN_USER 10 1, rx_demo_slot ST30P_RX_FRAME_FREE 20 2] 0 0 2 1) = (Inr (), (rx_demo [rx_demo_slot ST30P_RX_FRAME_IN_USER 10 1, rx_demo_slot ST30P_RX_FRAME_READY 30 3] 0 0 2 1), [])"
  by (simp add: rx_st30p_frame_ready_def rx_demo_eval)

lemma rx_demo_step6: "st30p_rx_put_frame 0 (rx_demo [rx_demo_slot ST30P_RX_FRAME_IN_USER 10 1, rx_demo_slot ST30P_RX_FRAME_READY 30 3] 0 0 2 1) = (Inr 10, (rx_demo [rx_demo_slot ST30P_RX_FRAME_FREE 10 1, rx_demo_slot ST30P_RX_FRAME_READY 30 3] 0 0 2 2))"
  by (simp add: rx_guarded_def guarded_def acquire_alone mt_handle_release_def st30p_rx_put_frame_def rx_demo_eval)

lemma rx_demo_step7: "rx_st30p_frame_ready 40 (rx_demo_meta 4) (rx_demo [rx_demo_slot ST30P_RX_FRAME_FREE 10 1, rx_demo_slot ST30P_RX_FRAME_READY 30 3] 0 0 2 2) = (Inr (), (rx_demo [rx_demo_slot ST30P_RX_FRAME_READY 40 4, rx_demo_slot ST30P_RX_FRAME_READY 30 3] 1 0 2 2), [])"
  by (simp add: rx_st30p_frame_ready_def rx_demo_eval)

lemma rx_demo_step8: "st30p_rx_get_frame [] (rx_demo [rx_demo_slot ST30P_RX_FRAME_READY 40 4, rx_demo_slot ST30P_RX_FRAME_READY 30 3] 1 0 2 2) = (Some 0, (rx_demo [rx_demo_slot ST30P_RX_FRAME_IN_USER 40 4, rx_demo_slot ST30P_RX_FRAME_READY 30 3] 1 1 3 2))"
  by (simp add: rx_guarded_def guarded_def acquire_alone mt_handle_release_def st30p_rx_get_frame_def rx_st30p_claim_available_def rx_demo_eval)

text \<open>Two frames delivered, taken and returned the other way round, then two more delivered and one taken.\<close>

lemma rx_demo_prefix:
  "rx_history (rx_demo [rx_demo_slot ST30P_RX_FRAME_IN_USER 10 1, rx_demo_slot ST30P_RX_FRAME_READY 20 2] 0 1 1 0)
     [delivery_of 10 (rx_demo_meta 1), delivery_of 20 (rx_demo_meta 2)] [delivery_of 10 (rx_demo_meta 1)] [0] [] 0 True"
proof -
  note h0 = rx_history.created [OF rx_demo_create, simplified rx_demo_ops_def, simplified, folded rx_demo_ops_def]
  note h2 = rx_history.accepted [OF rx_history.accepted [OF h0 rx_demo_step0] rx_demo_step1]
  from rx_history.got [OF h2 rx_demo_step2] show ?thesis by (simp add: rx_demo_eval)
qed

lemma rx_demo_reordered:
  "\<exists>ctx back. rx_history ctx (map (\<lambda>k. delivery_of (10 * k) (rx_demo_meta (of_nat k))) [1, 2, 3, 4])
     (map (\<lambda>k. delivery_of (10 * k) (rx_demo_meta (of_nat k))) [1, 2, 4]) [0] back 0 False"
proof -
  note h4 = rx_history.got [OF rx_demo_prefix rx_demo_step3]
  note h5 = rx_history.put [OF h4 _ disjI1 [OF refl] rx_demo_step4]
  note h6 = rx_history.accepted [OF h5 rx_demo_step5]
  note h7 = rx_history.put [OF h6 _ disjI1 [OF refl] rx_demo_step6]
  note h9 = rx_history.got [OF rx_history.accepted [OF h7 rx_demo_step7] rx_demo_step8]
  show ?thesis using h9 by (intro exI) (simp add: rx_demo_eval)
qed

theorem st30p_rx_accounting_witness:
  "addrs_out [rx_demo_slot ST30P_RX_FRAME_IN_USER 10 1, rx_demo_slot ST30P_RX_FRAME_READY 20 2] = {#10, 20#} \<and>
   fst (rx_st30p_frame_ready 30 (rx_demo_meta 3)
     (rx_demo [rx_demo_slot ST30P_RX_FRAME_IN_USER 10 1, rx_demo_slot ST30P_RX_FRAME_READY 20 2] 0 1 1 0)) = Inl EBUSY"
proof -
  have "count_in r_stat ST30P_RX_FRAME_FREE [rx_demo_slot ST30P_RX_FRAME_IN_USER 10 1, rx_demo_slot ST30P_RX_FRAME_READY 20 2] = 0"
    by (simp add: count_in_def rx_demo_slot_def)
  moreover have "r_framebuffs (rx_demo fs p c g q) = fs" "fst (delivery_of a m) = a" for fs p c g q a m
    by (simp_all add: rx_demo_def delivery_of_def)
  moreover note acc = st30p_rx_accounting [OF rx_demo_prefix, of 30 "rx_demo_meta 3"]
  ultimately show ?thesis
    using acc [THEN conjunct1] acc [THEN conjunct2, THEN conjunct2, THEN conjunct2, THEN conjunct2, THEN conjunct2] by simp
qed


end
