(* ===== verification/Rx_Redundancy.thy ===== *)
theory Rx_Redundancy
  imports Frame_Pool
begin

text \<open>
  What the receive sessions of RTP streams share (the common head of
  \<open>rx_audio_session_handle_frame_pkt\<close> and \<open>rx_audio_session_handle_rtp_pkt\<close> in
  \<^verbatim>\<open>lib/src/st2110/st_rx_audio_session.c\<close>): a session reads one or two ports that carry the same stream,
  counts the losses of each port by sequence number, drops what is older than its time stamp, and
  counts the losses that remain. The sequence numbers are C ints that start at -1; the time stamp is
  a 64-bit int that starts at -1 and later holds a 32-bit value. A session is an extension of the
  record \<open>rx_core\<close>.
\<close>

section \<open>State\<close>

record st_rx_port_stats =
  ps_packets :: u64
  ps_bytes :: u64
  ps_frames :: u64
  ps_err_packets :: u64
  ps_lost_packets :: u64
  ps_reordered_packets :: u64
  ps_duplicates_same_port :: u64

record rx_core =
  c_num_port :: nat
  c_payload_type :: u8
  c_ssrc :: u32
  c_latest_seq_id :: "int list"
  c_session_seq_id :: int
  c_tmstamp :: int
  c_redundant_error_cnt :: "int list"
  c_port :: "st_rx_port_stats list"
  c_pkts_received :: u64
  c_lost_packets :: u64
  c_pkts_unrecovered :: u64
  c_pkts_wrong_ssrc_dropped :: u64
  c_pkts_wrong_pt_dropped :: u64
  c_pkts_redundant :: u64

text \<open>A packet: the fields of the RTP header in host order, the payload, the lengths of the buffer and its
  time stamp.\<close>

record rtp_in =
  pk_seq :: u16
  pk_tmstamp :: u32
  pk_payload_type :: u8
  pk_ssrc :: u32
  pk_payload :: "u8 list"
  pk_data_len :: u16
  pk_pkt_len :: u32
  pk_rx_time :: u64

abbreviation ST_SESSION_REDUNDANT_ERROR_THRESHOLD :: int where "ST_SESSION_REDUNDANT_ERROR_THRESHOLD \<equiv> 20"

abbreviation no_port_stats :: st_rx_port_stats where
  "no_port_stats \<equiv> \<lparr>ps_packets = 0, ps_bytes = 0, ps_frames = 0, ps_err_packets = 0, ps_lost_packets = 0,
     ps_reordered_packets = 0, ps_duplicates_same_port = 0\<rparr>"

section \<open>Operations\<close>

definition mt_seq16_greater :: "u16 \<Rightarrow> u16 \<Rightarrow> bool" where
  "mt_seq16_greater a b = (let diff = a - b in diff AND 0x8000 = 0 \<and> diff \<noteq> 0)"

text \<open>A C int passed as \<open>uint16_t\<close>, a 64-bit int passed as \<open>uint32_t\<close>.\<close>

abbreviation seq16 :: "int \<Rightarrow> u16" where "seq16 \<equiv> word_of_int"
abbreviation ts32 :: "int \<Rightarrow> u32" where "ts32 \<equiv> word_of_int"

definition upd_port :: "nat \<Rightarrow> (st_rx_port_stats \<Rightarrow> st_rx_port_stats) \<Rightarrow> 'a rx_core_scheme \<Rightarrow> 'a rx_core_scheme" where
  "upd_port p f s = s\<lparr>c_port := (c_port s)[p := f (c_port s ! p)]\<rparr>"

definition rx_check_header :: "rtp_in \<Rightarrow> 'a rx_core_scheme \<Rightarrow> unit res \<times> 'a rx_core_scheme" where
  "rx_check_header pkt s =
     (if c_payload_type s \<noteq> 0 \<and> pk_payload_type pkt \<noteq> c_payload_type s
      then (Inl EINVAL, s\<lparr>c_pkts_wrong_pt_dropped := c_pkts_wrong_pt_dropped s + 1\<rparr>)
      else if c_ssrc s \<noteq> 0 \<and> pk_ssrc pkt \<noteq> c_ssrc s
      then (Inl EINVAL, s\<lparr>c_pkts_wrong_ssrc_dropped := c_pkts_wrong_ssrc_dropped s + 1\<rparr>)
      else (Inr (), s))"

definition rx_first_ids :: "nat \<Rightarrow> rtp_in \<Rightarrow> 'a rx_core_scheme \<Rightarrow> 'a rx_core_scheme" where
  "rx_first_ids p pkt s =
     (let s = (if c_latest_seq_id s ! p = -1
               then s\<lparr>c_latest_seq_id := (c_latest_seq_id s)[p := uint (pk_seq pkt) - 1]\<rparr> else s);
          s = (if c_session_seq_id s = -1 then s\<lparr>c_session_seq_id := uint (pk_seq pkt) - 1\<rparr> else s)
      in if c_tmstamp s = -1 then s\<lparr>c_tmstamp := uint (pk_tmstamp pkt - 1)\<rparr> else s)"

definition rx_port_seq :: "nat \<Rightarrow> rtp_in \<Rightarrow> 'a rx_core_scheme \<Rightarrow> 'a rx_core_scheme" where
  "rx_port_seq p pkt s =
     (let seq_id = pk_seq pkt; latest = seq16 (c_latest_seq_id s ! p);
          s = (if seq_id \<noteq> latest + 1 \<and> mt_seq16_greater seq_id latest then
                 let gap = seq_id - latest - 1;
                     s = upd_port p (\<lambda>st. st\<lparr>ps_lost_packets := ps_lost_packets st + ucast gap\<rparr>) s
                 in s\<lparr>c_lost_packets := c_lost_packets s + ucast gap\<rparr>
               else if seq_id = latest then
                 upd_port p (\<lambda>st. st\<lparr>ps_duplicates_same_port := ps_duplicates_same_port st + 1\<rparr>) s
               else if \<not> mt_seq16_greater seq_id latest then
                 upd_port p (\<lambda>st. st\<lparr>ps_reordered_packets := ps_reordered_packets st + 1\<rparr>) s
               else s);
          s = (if mt_seq16_greater seq_id latest
               then s\<lparr>c_latest_seq_id := (c_latest_seq_id s)[p := uint seq_id]\<rparr> else s)
      in upd_port p (\<lambda>st. st\<lparr>ps_packets := ps_packets st + 1, ps_bytes := ps_bytes st + ucast (pk_pkt_len pkt)\<rparr>) s)"

text \<open>The redundancy filter. The result tells whether the packet is dropped.\<close>

definition rx_filter :: "nat \<Rightarrow> rtp_in \<Rightarrow> 'a rx_core_scheme \<Rightarrow> bool \<times> 'a rx_core_scheme" where
  "rx_filter p pkt s =
     (if \<not> mt_seq32_greater (pk_tmstamp pkt) (ts32 (c_tmstamp s)) then
        let s = s\<lparr>c_redundant_error_cnt := (c_redundant_error_cnt s)[p := c_redundant_error_cnt s ! p + 1],
                  c_pkts_redundant := c_pkts_redundant s + 1\<rparr>
        in if \<exists>i \<in> set [0..<c_num_port s]. c_redundant_error_cnt s ! i < ST_SESSION_REDUNDANT_ERROR_THRESHOLD then (True, s)
           else (False, s\<lparr>c_pkts_redundant := c_pkts_redundant s - 1,
                          c_redundant_error_cnt := (c_redundant_error_cnt s)[p := 0]\<rparr>)
      else (False, s\<lparr>c_redundant_error_cnt := (c_redundant_error_cnt s)[p := 0]\<rparr>))"

definition rx_session_seq :: "rtp_in \<Rightarrow> 'a rx_core_scheme \<Rightarrow> 'a rx_core_scheme" where
  "rx_session_seq pkt s =
     (let seq_id = pk_seq pkt; last_id = seq16 (c_session_seq_id s);
          s = (if seq_id \<noteq> last_id + 1 \<and> mt_seq16_greater seq_id last_id
               then s\<lparr>c_pkts_unrecovered := c_pkts_unrecovered s + ucast (seq_id - last_id - 1)\<rparr> else s)
      in if mt_seq16_greater seq_id last_id then s\<lparr>c_session_seq_id := uint seq_id\<rparr> else s)"

end
