(* ===== verification/Rx_Audio.thy ===== *)
theory Rx_Audio
  imports Rx_Redundancy Bitmap "HOL-Library.Signed_Division"
begin

text \<open>
  The receive session for audio (\<^verbatim>\<open>lib/src/st2110/st_rx_audio_session.c\<close>): packets are placed into the
  open frame by their time stamp, a bitmap remembers the arrivals, a full frame or a packet of
  another frame closes it. A buffer is a byte list with its address and reference count; writing past
  its end, or using a frame that is not open, is \<open>None\<close>. The callback \<open>notify\<close> of the application works
  on a state of its own; the deliveries are returned with their bytes. The timing parser, the
  capture of packets and the measurement of run times are left out.
\<close>

section \<open>State\<close>

datatype st30_type = ST30_TYPE_FRAME_LEVEL | ST30_TYPE_RTP_LEVEL

record st_frame_trans =
  fr_addr :: nat
  fr_refcnt :: int
  fr_data :: "u8 list"

record rx_audio = rx_core +
  a_attached :: bool
  a_type :: st30_type
  a_flags :: u32
  a_fmt :: st30_fmt
  a_sampling :: st30_sampling
  a_channel :: u16
  a_frames :: "st_frame_trans list"
  a_frame_size :: nat
  a_cur_frame :: "nat option"
  a_pkt_len :: u32
  a_total_pkts :: nat
  a_first_pkt_rtp_ts :: u32
  a_first_pkt_ptp_ts :: u64
  a_frame_recv_size :: nat
  a_rtp_ticks_per_frame :: u32
  a_samples_per_pkt :: u32
  a_frame_bitmap :: "u8 list"
  a_frame_bitmap_size :: nat
  a_rtps_room :: nat
  a_burst_loss_max :: u16
  a_burst_loss_cnt :: u16
  a_stat_frames_received :: u32
  a_pkts_len_mismatch_dropped :: u64
  a_slot_get_frame_fail :: u64
  a_frames_incomplete :: u64

text \<open>What the application is given: the address, the meta data and the bytes of the buffer; and whether it
  took the frame.\<close>

record audio_delivery =
  d_addr :: nat
  d_meta :: st30_rx_frame_meta
  d_data :: "u8 list"
  d_taken :: bool

abbreviation ST30_RX_FLAG_SIMULATE_PKT_LOSS :: u32 where "ST30_RX_FLAG_SIMULATE_PKT_LOSS \<equiv> 0x8"
abbreviation ST30_RX_FLAG_RECEIVE_INCOMPLETE_FRAME :: u32 where "ST30_RX_FLAG_RECEIVE_INCOMPLETE_FRAME \<equiv> 0x10"

definition upd_trans :: "nat \<Rightarrow> (st_frame_trans \<Rightarrow> st_frame_trans) \<Rightarrow> rx_audio \<Rightarrow> rx_audio" where
  "upd_trans i f s = s\<lparr>a_frames := (a_frames s)[i := f (a_frames s ! i)]\<rparr>"

text \<open>\<open>memcpy\<close> or \<open>memset\<close> into a buffer.\<close>

definition buf_write :: "nat \<Rightarrow> u8 list \<Rightarrow> u8 list \<Rightarrow> u8 list option" where
  "buf_write off bs data =
     (if off + length bs \<le> length data then Some (take off data @ bs @ drop (off + length bs) data) else None)"

section \<open>Frames\<close>

definition rx_audio_session_get_frame :: "rx_audio \<Rightarrow> nat option \<times> rx_audio" where
  "rx_audio_session_get_frame s =
     (case first_idx (\<lambda>f. fr_refcnt f = 0) (a_frames s) of
        None \<Rightarrow> (None, s)
      | Some i \<Rightarrow> (Some i, upd_trans i (\<lambda>f. f\<lparr>fr_refcnt := fr_refcnt f + 1\<rparr>) s))"

text \<open>The function returns \<open>-EIO\<close> in every case.\<close>

definition rx_audio_session_put_frame :: "nat \<Rightarrow> rx_audio \<Rightarrow> unit res \<times> rx_audio" where
  "rx_audio_session_put_frame i s = (Inl EIO, upd_trans i (\<lambda>f. f\<lparr>fr_refcnt := fr_refcnt f - 1\<rparr>) s)"

definition rx_audio_session_open_frame :: "nat \<Rightarrow> u32 \<Rightarrow> u64 \<Rightarrow> rx_audio \<Rightarrow> unit res \<times> rx_audio" where
  "rx_audio_session_open_frame s_port tmstamp ptp_ts s =
     (let (frame, s) = rx_audio_session_get_frame s; s = s\<lparr>a_cur_frame := frame\<rparr> in
      if frame = None then (Inl EIO, s\<lparr>a_slot_get_frame_fail := a_slot_get_frame_fail s + 1\<rparr>)
      else
        let ticks = (if a_rtp_ticks_per_frame s \<noteq> 0 then uint (a_rtp_ticks_per_frame s) else 1);
            grid_base = ts32 (c_tmstamp s + 1);
            delta = sint (tmstamp - grid_base);
            frames = delta sdiv ticks - (if delta smod ticks < 0 then 1 else 0);
            base = grid_base + ts32 (frames * ticks)
        in (Inr (), upd_port s_port (\<lambda>st. st\<lparr>ps_frames := ps_frames st + 1\<rparr>)
              (s\<lparr>a_frame_bitmap := replicate (a_frame_bitmap_size s) 0, a_frame_recv_size := 0,
                 a_first_pkt_rtp_ts := base, a_first_pkt_ptp_ts := ptp_ts, c_tmstamp := uint (base - 1)\<rparr>)))"

text \<open>The slots that never arrived, from \<open>i\<close> on.\<close>

fun zero_gaps_from :: "nat \<Rightarrow> nat \<Rightarrow> rx_audio \<Rightarrow> u8 list \<Rightarrow> u8 list option" where
  "zero_gaps_from i 0 s data = Some data"
| "zero_gaps_from i (Suc n) s data =
     (if mt_bitmap_test (Some (a_frame_bitmap s)) (a_frame_bitmap_size s) (int i) then zero_gaps_from (Suc i) n s data
      else
        case buf_write (i * unat (a_pkt_len s)) (replicate (unat (a_pkt_len s)) 0) data of
          None \<Rightarrow> None
        | Some data \<Rightarrow> zero_gaps_from (Suc i) n s data)"

definition rx_audio_session_zero_frame_gaps :: "nat \<Rightarrow> rx_audio \<Rightarrow> rx_audio option" where
  "rx_audio_session_zero_frame_gaps i s =
     (case zero_gaps_from 0 (a_total_pkts s) s (fr_data (a_frames s ! i)) of
        None \<Rightarrow> None
      | Some data \<Rightarrow> Some (upd_trans i (\<lambda>f. f\<lparr>fr_data := data\<rparr>) s))"

definition rx_audio_session_frame_notify ::
    "('w \<Rightarrow> nat \<Rightarrow> st30_rx_frame_meta \<Rightarrow> bool \<times> 'w) \<Rightarrow> rx_audio \<Rightarrow> 'w \<Rightarrow>
      (rx_audio \<times> 'w \<times> audio_delivery list) option" where
  "rx_audio_session_frame_notify notify s w =
     (case a_cur_frame s of
        None \<Rightarrow> None
      | Some frame \<Rightarrow>
          let incomplete = a_frame_recv_size s < a_frame_size s;
              deliver = \<not> incomplete \<or> has_flag (a_flags s) ST30_RX_FLAG_RECEIVE_INCOMPLETE_FRAME;
              meta = \<lparr>rm_fmt = a_fmt s, rm_sampling = a_sampling s, rm_channel = a_channel s,
                rm_tfmt = ST10_TIMESTAMP_FMT_MEDIA_CLK, rm_timestamp = ucast (a_first_pkt_rtp_ts s),
                rm_timestamp_first_pkt = a_first_pkt_ptp_ts s, rm_rtp_timestamp = a_first_pkt_rtp_ts s,
                rm_frame_recv_size = a_frame_recv_size s,
                rm_status = (if incomplete then ST_FRAME_STATUS_CORRUPTED else ST_FRAME_STATUS_COMPLETE)\<rparr>
          in do {
            s \<leftarrow> (if incomplete
                 then rx_audio_session_zero_frame_gaps frame (s\<lparr>a_frames_incomplete := a_frames_incomplete s + 1\<rparr>)
                 else Some s);
            let (s, w, out) =
              (if \<not> deliver then (snd (rx_audio_session_put_frame frame s), w, [])
               else
                 let s = (if \<not> incomplete then s\<lparr>a_stat_frames_received := a_stat_frames_received s + 1\<rparr> else s);
                     addr = fr_addr (a_frames s ! frame);
                     (ok, w) = notify w addr meta
                 in (if ok then s else snd (rx_audio_session_put_frame frame s), w,
                     [\<lparr>d_addr = addr, d_meta = meta, d_data = fr_data (a_frames s ! frame), d_taken = ok\<rparr>]));
            Some (s\<lparr>c_tmstamp := uint (a_first_pkt_rtp_ts s + a_rtp_ticks_per_frame s - 1), a_cur_frame := None\<rparr>, w, out)
          })"

section \<open>Packets\<close>

abbreviation st_rfc3550_audio_hdr_size :: u32 where "st_rfc3550_audio_hdr_size \<equiv> 54"

text \<open>The checks and the accounting before a packet goes into a frame.\<close>

definition rx_audio_accept :: "nat \<Rightarrow> rtp_in \<Rightarrow> rx_audio \<Rightarrow> unit res \<times> rx_audio" where
  "rx_audio_accept s_port pkt s =
     (case rx_check_header pkt s of
        (Inl e, s) \<Rightarrow> (Inl e, s)
      | (Inr _, s) \<Rightarrow>
          if ucast (pk_data_len pkt) - st_rfc3550_audio_hdr_size \<noteq> a_pkt_len s
          then (Inl EINVAL, s\<lparr>a_pkts_len_mismatch_dropped := a_pkts_len_mismatch_dropped s + 1\<rparr>)
          else
            case rx_filter s_port pkt (rx_port_seq s_port pkt (rx_first_ids s_port pkt s)) of
              (True, s) \<Rightarrow> (Inl EAGAIN, s)
            | (False, s) \<Rightarrow> (Inr (), rx_session_seq pkt s))"

definition pkt_idx :: "rtp_in \<Rightarrow> rx_audio \<Rightarrow> u32" where
  "pkt_idx pkt s = (pk_tmstamp pkt - a_first_pkt_rtp_ts s) div (if a_samples_per_pkt s \<noteq> 0 then a_samples_per_pkt s else 1)"

text \<open>The payload of an accepted packet goes into slot \<open>idx\<close> of the open frame.\<close>

definition rx_audio_store ::
    "('w \<Rightarrow> nat \<Rightarrow> st30_rx_frame_meta \<Rightarrow> bool \<times> 'w) \<Rightarrow> u32 \<Rightarrow> rtp_in \<Rightarrow> rx_audio \<Rightarrow> 'w \<Rightarrow>
      (unit res \<times> rx_audio \<times> 'w \<times> audio_delivery list) option" where
  "rx_audio_store notify idx pkt s w =
     (case mt_bitmap_test_and_set (Some (a_frame_bitmap s)) (a_frame_bitmap_size s) (sint idx) of
        (True, _) \<Rightarrow> Some (Inr (), s\<lparr>c_pkts_redundant := c_pkts_redundant s + 1\<rparr>, w, [])
      | (False, bitmap) \<Rightarrow>
          case a_cur_frame s of
            None \<Rightarrow> None
          | Some frame \<Rightarrow> do {
              let n = unat (a_pkt_len s);
              data \<leftarrow> buf_write (unat idx * n) (take n (pk_payload pkt)) (fr_data (a_frames s ! frame));
              let s = (upd_trans frame (\<lambda>f. f\<lparr>fr_data := data\<rparr>) s)
                    \<lparr>a_frame_bitmap := the bitmap, a_frame_recv_size := a_frame_recv_size s + n,
                     c_pkts_received := c_pkts_received s + 1\<rparr>;
              if a_frame_recv_size s \<ge> a_frame_size s then do {
                (s, w, out) \<leftarrow> rx_audio_session_frame_notify notify s w;
                Some (Inr (), s, w, out)
              } else Some (Inr (), s, w, [])
            })"

definition rx_audio_session_handle_frame_pkt ::
    "('w \<Rightarrow> nat \<Rightarrow> st30_rx_frame_meta \<Rightarrow> bool \<times> 'w) \<Rightarrow> nat \<Rightarrow> rtp_in \<Rightarrow> rx_audio \<Rightarrow> 'w \<Rightarrow>
      (unit res \<times> rx_audio \<times> 'w \<times> audio_delivery list) option" where
  "rx_audio_session_handle_frame_pkt notify s_port pkt s w =
     (case rx_audio_accept s_port pkt s of
        (Inl e, s) \<Rightarrow> Some (Inl e, s, w, [])
      | (Inr _, s) \<Rightarrow>
          case (if a_cur_frame s = None then rx_audio_session_open_frame s_port (pk_tmstamp pkt) (pk_rx_time pkt) s
                else (Inr (), s)) of
            (Inl e, s) \<Rightarrow> Some (Inl e, s, w, [])
          | (Inr _, s) \<Rightarrow>
              if unat (pkt_idx pkt s) \<ge> a_total_pkts s then do {
                (s, w, out) \<leftarrow> rx_audio_session_frame_notify notify s w;
                case rx_audio_session_open_frame s_port (pk_tmstamp pkt) (pk_rx_time pkt) s of
                  (Inl e, s) \<Rightarrow> Some (Inl e, s, w, out)
                | (Inr _, s) \<Rightarrow> do {
                    (r, s, w, out2) \<leftarrow> rx_audio_store notify (pkt_idx pkt s) pkt s w;
                    Some (r, s, w, out @ out2)
                  }
              } else rx_audio_store notify (pkt_idx pkt s) pkt s w)"

text \<open>At RTP level the packet goes to a ring of the application; \<open>a_rtps_room\<close> is its free room. The result
  tells whether the packet was enqueued.\<close>

definition rx_audio_session_handle_rtp_pkt :: "nat \<Rightarrow> rtp_in \<Rightarrow> rx_audio \<Rightarrow> unit res \<times> rx_audio \<times> rtp_in list" where
  "rx_audio_session_handle_rtp_pkt s_port pkt s =
     (case rx_check_header pkt s of
        (Inl e, s) \<Rightarrow> (Inl e, s, [])
      | (Inr _, s) \<Rightarrow>
          case rx_filter s_port pkt (rx_port_seq s_port pkt (rx_first_ids s_port pkt s)) of
            (True, s) \<Rightarrow> (Inl EAGAIN, s, [])
          | (False, s) \<Rightarrow>
              let s = rx_session_seq pkt (s\<lparr>c_tmstamp := uint (pk_tmstamp pkt)\<rparr>) in
              if a_rtps_room s = 0 then (Inl EIO, s\<lparr>a_slot_get_frame_fail := a_slot_get_frame_fail s + 1\<rparr>, [])
              else (Inr (), s\<lparr>a_rtps_room := a_rtps_room s - 1, c_pkts_received := c_pkts_received s + 1\<rparr>, [pkt]))"

text \<open>Simulated loss: \<open>hit\<close> is the outcome of the draw against the loss rate, \<open>rnd\<close> the random number below
  the maximal burst.\<close>

definition ra_simulate_pkt_loss :: "bool \<Rightarrow> u64 \<Rightarrow> rx_audio \<Rightarrow> bool \<times> rx_audio" where
  "ra_simulate_pkt_loss hit rnd s =
     (if a_burst_loss_cnt s = 0 \<and> \<not> hit then (False, s)
      else
        let s = (if a_burst_loss_cnt s = 0 then s\<lparr>a_burst_loss_cnt := ucast rnd + 1\<rparr> else s)
        in (True, s\<lparr>a_burst_loss_cnt := a_burst_loss_cnt s - 1\<rparr>))"

definition count_err :: "nat \<Rightarrow> unit res \<Rightarrow> rx_audio \<Rightarrow> rx_audio" where
  "count_err s_port rc s =
     (if rc \<noteq> Inr () \<and> rc \<noteq> Inl EAGAIN
      then upd_port s_port (\<lambda>st. st\<lparr>ps_err_packets := ps_err_packets st + 1\<rparr>) s else s)"

text \<open>A burst of packets, each with its draws.\<close>

fun rx_audio_burst ::
    "('w \<Rightarrow> nat \<Rightarrow> st30_rx_frame_meta \<Rightarrow> bool \<times> 'w) \<Rightarrow> nat \<Rightarrow> (rtp_in \<times> bool \<times> u64) list \<Rightarrow> rx_audio \<Rightarrow> 'w \<Rightarrow>
      (rx_audio \<times> 'w \<times> audio_delivery list \<times> rtp_in list) option" where
  "rx_audio_burst notify s_port [] s w = Some (s, w, [], [])"
| "rx_audio_burst notify s_port ((pkt, hit, rnd) # pkts) s w =
     (let (lost, s) = (if has_flag (a_flags s) ST30_RX_FLAG_SIMULATE_PKT_LOSS then ra_simulate_pkt_loss hit rnd s else (False, s))
      in if lost then rx_audio_burst notify s_port pkts s w
         else
           case a_type s of
             ST30_TYPE_FRAME_LEVEL \<Rightarrow> do {
               (rc, s, w, out) \<leftarrow> rx_audio_session_handle_frame_pkt notify s_port pkt s w;
               (s, w, out2, rtps) \<leftarrow> rx_audio_burst notify s_port pkts (count_err s_port rc s) w;
               Some (s, w, out @ out2, rtps)
             }
           | ST30_TYPE_RTP_LEVEL \<Rightarrow> do {
               let (rc, s, rtp) = rx_audio_session_handle_rtp_pkt s_port pkt s;
               (s, w, out2, rtps) \<leftarrow> rx_audio_burst notify s_port pkts (count_err s_port rc s) w;
               Some (s, w, out2, rtp @ rtps)
             })"

definition rx_audio_session_handle_mbuf ::
    "('w \<Rightarrow> nat \<Rightarrow> st30_rx_frame_meta \<Rightarrow> bool \<times> 'w) \<Rightarrow> nat \<Rightarrow> (rtp_in \<times> bool \<times> u64) list \<Rightarrow> rx_audio \<Rightarrow> 'w \<Rightarrow>
      (unit res \<times> rx_audio \<times> 'w \<times> audio_delivery list \<times> rtp_in list) option" where
  "rx_audio_session_handle_mbuf notify s_port pkts s w =
     (if \<not> a_attached s then Some (Inl EIO, s, w, [], [])
      else do {
        (s, w, out, rtps) \<leftarrow> rx_audio_burst notify s_port pkts s w;
        Some (Inr (), s, w, out, rtps)
      })"

section \<open>Life of a session\<close>

definition st30_rx_put_framebuff :: "nat \<Rightarrow> rx_audio \<Rightarrow> unit res \<times> rx_audio" where
  "st30_rx_put_framebuff addr s =
     (case first_idx (\<lambda>f. fr_addr f = addr) (a_frames s) of
        None \<Rightarrow> (Inl EIO, s)
      | Some i \<Rightarrow> rx_audio_session_put_frame i s)"

definition rx_audio_session_reset :: "rx_audio \<Rightarrow> rx_audio" where
  "rx_audio_session_reset s = s\<lparr>c_session_seq_id := -1, c_latest_seq_id := [-1, -1], c_tmstamp := -1,
     a_frame_recv_size := 0, a_burst_loss_cnt := 0, a_cur_frame := None, a_first_pkt_rtp_ts := 0,
     a_stat_frames_received := 0, c_redundant_error_cnt := [0, 0], c_port := [no_port_stats, no_port_stats],
     c_pkts_received := 0, c_lost_packets := 0, c_pkts_unrecovered := 0, c_pkts_wrong_ssrc_dropped := 0,
     c_pkts_wrong_pt_dropped := 0, c_pkts_redundant := 0, a_pkts_len_mismatch_dropped := 0,
     a_slot_get_frame_fail := 0, a_frames_incomplete := 0\<rparr>"

text \<open>The buffers come from the allocator, zeroed; buffer \<open>i\<close> is at the address \<open>addr i\<close>.\<close>

definition rx_audio_session_alloc_frames :: "(nat \<Rightarrow> nat) \<Rightarrow> nat \<Rightarrow> rx_audio \<Rightarrow> rx_audio" where
  "rx_audio_session_alloc_frames addr cnt s =
     (let bitmap_size = (a_total_pkts s + 7) div 8
      in s\<lparr>a_frames := map (\<lambda>i. \<lparr>fr_addr = addr i, fr_refcnt = 0, fr_data = replicate (a_frame_size s) 0\<rparr>) [0..<cnt],
           a_frame_bitmap := replicate bitmap_size 0, a_frame_bitmap_size := bitmap_size\<rparr>)"

record st30_rx_ops =
  o_ip_addr :: "u8 list list"
  o_num_port :: nat
  o_fmt :: st30_fmt
  o_channel :: u16
  o_sampling :: st30_sampling
  o_ptime :: st30_ptime
  o_type :: st30_type
  o_payload_type :: u8
  o_ssrc :: u32
  o_flags :: u32
  o_framebuff_cnt :: u16
  o_framebuff_size :: u32
  o_has_frame_ready :: bool
  o_rtp_ring_size :: u32
  o_has_rtp_ready :: bool
  o_has_timing_result :: bool

abbreviation ST30_RX_FLAG_TIMING_PARSER_META :: u32 where "ST30_RX_FLAG_TIMING_PARSER_META \<equiv> 0x20000"

definition mt_ip_addr_check :: "u8 list \<Rightarrow> unit res" where
  "mt_ip_addr_check ip = (if \<exists>b \<in> set ip. b \<noteq> 0 then Inr () else Inl EINVAL)"

definition mt_is_multicast_ip :: "u8 list \<Rightarrow> bool" where
  "mt_is_multicast_ip ip \<longleftrightarrow> 224 \<le> ip ! 0 \<and> ip ! 0 \<le> 239"

definition st_is_valid_payload_type :: "u8 \<Rightarrow> bool" where
  "st_is_valid_payload_type payload_type \<longleftrightarrow> payload_type \<le> 0x7F"

definition rx_audio_ops_check :: "st30_rx_ops \<Rightarrow> unit res" where
  "rx_audio_ops_check ops =
     (let num_ports = o_num_port ops; ip = o_ip_addr ops in
      if num_ports > 2 \<or> num_ports = 0 then Inl EINVAL
      else if \<exists>i \<in> set [0..<num_ports]. mt_ip_addr_check (ip ! i) \<noteq> Inr () then Inl EINVAL
      else if num_ports > 1 \<and> \<not> mt_is_multicast_ip (ip ! 0) \<and> ip ! 0 = ip ! 1 then Inl EINVAL
      else
        case (case o_type ops of
                ST30_TYPE_FRAME_LEVEL \<Rightarrow>
                  if o_framebuff_cnt ops < 1 \<or> \<not> o_has_frame_ready ops \<or> o_framebuff_size ops = 0 then Inl EINVAL else Inr ()
              | ST30_TYPE_RTP_LEVEL \<Rightarrow>
                  if o_rtp_ring_size ops = 0 \<or> \<not> o_has_rtp_ready ops then Inl EINVAL else Inr ()) of
          Inl e \<Rightarrow> Inl e
        | Inr _ \<Rightarrow> if st_is_valid_payload_type (o_payload_type ops) then Inr () else Inl EINVAL)"

text \<open>\<open>port_map\<close>, \<open>hw\<close> and \<open>mcast\<close> are the results of the steps that talk to the device, \<open>addrs\<close> the buffers of
  the allocator, \<open>None\<close> when it fails.\<close>

abbreviation audio_bytes_in_pkt :: int where "audio_bytes_in_pkt \<equiv> 1440"

definition rx_audio_session_attach ::
    "unit res \<Rightarrow> unit res \<Rightarrow> (nat \<Rightarrow> nat) option \<Rightarrow> unit res \<Rightarrow> st30_rx_ops \<Rightarrow> rx_audio \<Rightarrow> rx_audio res" where
  "rx_audio_session_attach port_map hw addrs mcast ops s =
     (case port_map of Inl e \<Rightarrow> Inl e | Inr _ \<Rightarrow>
      case st30_get_packet_size (o_fmt ops) (o_ptime ops) (o_sampling ops) (o_channel ops) of Inl e \<Rightarrow> Inl e | Inr pkt_len \<Rightarrow>
      if pkt_len > audio_bytes_in_pkt then Inl EIO
      else if unat (o_framebuff_size ops) mod nat pkt_len \<noteq> 0 then Inl EIO
      else
        let per_frame_div = (case st30_get_sample_size (o_fmt ops) of Inl _ \<Rightarrow> 0 | Inr n \<Rightarrow> nat n) * unat (o_channel ops);
            s = s\<lparr>c_num_port := o_num_port ops, c_payload_type := o_payload_type ops, c_ssrc := o_ssrc ops,
              a_type := o_type ops, a_flags := o_flags ops, a_fmt := o_fmt ops, a_sampling := o_sampling ops,
              a_channel := o_channel ops, a_pkt_len := of_nat (nat pkt_len),
              a_total_pkts := unat (o_framebuff_size ops) div nat pkt_len, a_frame_size := unat (o_framebuff_size ops),
              a_rtp_ticks_per_frame := of_nat (unat (o_framebuff_size ops) div per_frame_div),
              a_samples_per_pkt := of_nat (nat pkt_len div per_frame_div)\<rparr>;
            s = rx_audio_session_reset s;
            s = (if has_flag (o_flags ops) ST30_RX_FLAG_SIMULATE_PKT_LOSS then s\<lparr>a_burst_loss_max := 1\<rparr> else s)
        in if has_flag (o_flags ops) ST30_RX_FLAG_TIMING_PARSER_META \<and> \<not> o_has_timing_result ops then Inl EIO
           else
             case hw of Inl e \<Rightarrow> Inl e | Inr _ \<Rightarrow>
             case (case o_type ops of
                     ST30_TYPE_FRAME_LEVEL \<Rightarrow>
                       (case addrs of None \<Rightarrow> Inl ENOMEM | Some addr \<Rightarrow> Inr (rx_audio_session_alloc_frames addr (unat (o_framebuff_cnt ops)) s))
                   | ST30_TYPE_RTP_LEVEL \<Rightarrow> Inr (s\<lparr>a_rtps_room := unat (o_rtp_ring_size ops) - 1\<rparr>)) of
               Inl e \<Rightarrow> Inl e
             | Inr s \<Rightarrow> (case mcast of Inl e \<Rightarrow> Inl e | Inr _ \<Rightarrow> Inr (s\<lparr>a_attached := True\<rparr>)))"

end
