(* ===== verification/Rx_Audio_Laws.thy ===== *)
theory Rx_Audio_Laws
  imports Rx_Audio
begin

text \<open>
  What the audio receive session promises: packets never touch memory outside the open frame, a
  delivered frame holds in every slot the payload of a packet of that slot or silence, and the grid of
  frames never moves.
\<close>

section \<open>The grid of frames\<close>

lemma floor_sdiv:
  assumes "0 < (t :: int)"
  shows "d sdiv t - (if d smod t < 0 then 1 else 0) = d div t"
proof (cases "0 \<le> d")
  case True
  then show ?thesis using assms by (simp add: signed_divide_int_def signed_modulo_int_def sgn_if not_less)
next
  case False
  define e where "e = - d"
  have e: "0 < e" "d = - e" using False by (simp_all add: e_def)
  have "d sdiv t = - (e div t)" "d smod t = - (e mod t)"
    using e assms by (simp_all add: signed_divide_int_def signed_modulo_int_def sgn_if minus_div_mult_eq_mod [symmetric])
  moreover have "e mod t = 0 \<or> 0 < e mod t" using pos_mod_sign [OF assms, of e] by linarith
  ultimately show ?thesis using assms by (auto simp: e(2) zdiv_zminus1_eq_if)
qed

text \<open>Where a packet lies in the frame that is opened for it.\<close>

definition grid_floor :: "u32 \<Rightarrow> u32 \<Rightarrow> u32 \<Rightarrow> u32" where
  "grid_floor ticks grid tm = grid + ts32 ((sint (tm - grid) div uint ticks) * uint ticks)"

lemma grid_floor_offset:
  assumes "0 < ticks"
  shows "unat (tm - grid_floor ticks grid tm) < unat ticks"
    and "unat (tm - grid_floor ticks grid tm) = nat (sint (tm - grid) mod uint ticks)"
proof -
  have t: "0 < uint ticks" using assms by (simp add: word_less_def)
  have "tm - grid_floor ticks grid tm = ts32 (sint (tm - grid)) - ts32 ((sint (tm - grid) div uint ticks) * uint ticks)"
    by (simp add: grid_floor_def)
  then have eq: "tm - grid_floor ticks grid tm = ts32 (sint (tm - grid) mod uint ticks)"
    by (simp only: wi_hom_sub minus_div_mult_eq_mod)
  define r where "r = sint (tm - grid) mod uint ticks"
  have r: "0 \<le> r" "r < uint ticks" using t by (simp_all add: r_def)
  moreover have "uint ticks < 4294967296" using uint_lt2p [of ticks] by simp
  ultimately have "uint (ts32 r) = r" by (simp add: uint_word_of_int)
  then have u: "unat (ts32 r) = nat r" by (simp only: unat_eq_nat_uint)
  show "unat (tm - grid_floor ticks grid tm) = nat (sint (tm - grid) mod uint ticks)"
    unfolding eq r_def [symmetric] by (rule u)
  show "unat (tm - grid_floor ticks grid tm) < unat ticks"
    unfolding eq r_def [symmetric] u unat_eq_nat_uint [of ticks] using r t by (subst nat_mono_iff) simp_all
qed

section \<open>What the accounting leaves alone\<close>

text \<open>The part of a session that describes its frames.\<close>

definition frame_view :: "rx_audio \<Rightarrow> _" where
  "frame_view s = (a_frames s, a_cur_frame s, a_frame_size s, a_pkt_len s, a_total_pkts s, a_first_pkt_rtp_ts s,
     a_first_pkt_ptp_ts s, a_frame_recv_size s, a_rtp_ticks_per_frame s, a_samples_per_pkt s, a_frame_bitmap s,
     a_frame_bitmap_size s, a_flags s, a_type s, a_attached s,
     c_payload_type s, c_ssrc s)"

lemmas accounting_defs = upd_port_def rx_check_header_def rx_first_ids_def rx_port_seq_def rx_filter_def rx_session_seq_def

lemma view_upd_port [simp]: "frame_view (upd_port p f s) = frame_view s" "c_tmstamp (upd_port p f s) = c_tmstamp s"
  "c_latest_seq_id (upd_port p f s) = c_latest_seq_id s"
  by (simp_all add: frame_view_def upd_port_def)

lemma view_check_header [simp]: "frame_view (snd (rx_check_header pkt s)) = frame_view s"
  "c_tmstamp (snd (rx_check_header pkt s)) = c_tmstamp s"
  by (simp_all add: frame_view_def rx_check_header_def)

lemma view_first_ids [simp]: "frame_view (rx_first_ids p pkt s) = frame_view s"
  "c_tmstamp (rx_first_ids p pkt s) = (if c_tmstamp s = -1 then uint (pk_tmstamp pkt - 1) else c_tmstamp s)"
  by (simp_all add: frame_view_def rx_first_ids_def Let_def)

lemma view_c_latest [simp]: "frame_view (s\<lparr>c_latest_seq_id := x\<rparr>) = frame_view s"
  "frame_view (s\<lparr>c_lost_packets := y\<rparr>) = frame_view s"
  by (simp_all add: frame_view_def)

lemma view_port_seq [simp]: "frame_view (rx_port_seq p pkt s) = frame_view s" "c_tmstamp (rx_port_seq p pkt s) = c_tmstamp s"
  by (simp_all add: rx_port_seq_def Let_def)

lemma view_filter [simp]: "frame_view (snd (rx_filter p pkt s)) = frame_view s" "c_tmstamp (snd (rx_filter p pkt s)) = c_tmstamp s"
  by (simp_all add: frame_view_def rx_filter_def Let_def)

lemma view_session_seq [simp]: "frame_view (rx_session_seq pkt s) = frame_view s" "c_tmstamp (rx_session_seq pkt s) = c_tmstamp s"
  by (simp_all add: frame_view_def rx_session_seq_def Let_def)

lemma view_accept:
  assumes "rx_audio_accept p pkt s = (r, s')"
  shows "frame_view s' = frame_view s"
    and "c_tmstamp s' = (if c_tmstamp s = -1 \<and> (r = Inr () \<or> r = Inl EAGAIN) then uint (pk_tmstamp pkt - 1) else c_tmstamp s)"
    and "r = Inr () \<Longrightarrow> ucast (pk_data_len pkt) - st_rfc3550_audio_hdr_size = a_pkt_len s"
proof -
  obtain r1 s1 where h: "rx_check_header pkt s = (r1, s1)" by fastforce
  obtain b s2 where f: "rx_filter p pkt (rx_port_seq p pkt (rx_first_ids p pkt s1)) = (b, s2)" by fastforce
  have v1: "frame_view s1 = frame_view s" "c_tmstamp s1 = c_tmstamp s" using view_check_header [of pkt s] h by simp_all
  have v2: "frame_view s2 = frame_view s1" "c_tmstamp s2 = (if c_tmstamp s1 = -1 then uint (pk_tmstamp pkt - 1) else c_tmstamp s1)"
    using view_filter [of p pkt "rx_port_seq p pkt (rx_first_ids p pkt s1)"] f by simp_all
  have r1: "r1 = Inl e \<Longrightarrow> e = EINVAL" for e using h by (auto simp: rx_check_header_def split: if_splits)
  have len: "a_pkt_len s1 = a_pkt_len s" using v1 by (simp add: frame_view_def)
  have mism: "frame_view (s1\<lparr>a_pkts_len_mismatch_dropped := x\<rparr>) = frame_view s1" for x by (simp add: frame_view_def)
  note split = assms [unfolded rx_audio_accept_def h]
  show "frame_view s' = frame_view s"
    using split f v1 v2 mism by (auto split: sum.splits if_splits bool.splits)
  show "c_tmstamp s' = (if c_tmstamp s = -1 \<and> (r = Inr () \<or> r = Inl EAGAIN) then uint (pk_tmstamp pkt - 1) else c_tmstamp s)"
    using split f v1 v2 r1 by (cases r1) (auto split: if_splits bool.splits)
  show "r = Inr () \<Longrightarrow> ucast (pk_data_len pkt) - st_rfc3550_audio_hdr_size = a_pkt_len s"
    using split len by (cases r1) (auto split: if_splits)
qed

section \<open>Buffers as rows of slots\<close>

definition slot_bytes :: "nat \<Rightarrow> nat \<Rightarrow> u8 list \<Rightarrow> u8 list" where
  "slot_bytes n k data = take n (drop (k * n) data)"

lemma slot_room: "(k :: nat) < m \<Longrightarrow> k * n + n \<le> m * n"
  by (metis Suc_leI add.commute mult_Suc mult_le_mono1)

lemma buf_write_slot:
  assumes "length data = m * n" and "length bs = n" and "k < m"
  shows "\<exists>data'. buf_write (k * n) bs data = Some data' \<and> length data' = m * n \<and>
    (\<forall>j < m. slot_bytes n j data' = (if j = k then bs else slot_bytes n j data))"
proof -
  define data' where "data' = take (k * n) data @ bs @ drop (k * n + n) data"
  have room: "k * n + n \<le> length data" using slot_room [OF assms(3)] assms(1) by simp
  have w: "buf_write (k * n) bs data = Some data'" using room assms(2) by (simp add: buf_write_def data'_def)
  have len: "length data' = m * n" using room assms(1,2) by (simp add: data'_def)
  have "slot_bytes n j data' = (if j = k then bs else slot_bytes n j data)" if j: "j < m" for j
  proof (cases j k rule: linorder_cases)
    case less
    then have "j * n + n \<le> k * n" by (rule slot_room)
    then have "min n (k * n - j * n) = n" by (simp add: min_def)
    then show ?thesis using less room \<open>j * n + n \<le> k * n\<close> by (simp add: slot_bytes_def data'_def drop_take)
  next
    case equal
    then show ?thesis using room assms(2) by (simp add: slot_bytes_def data'_def)
  next
    case greater
    then have "k * n + n \<le> j * n" by (rule slot_room)
    then show ?thesis using greater room assms(2)
      by (simp add: slot_bytes_def data'_def)
  qed
  then show ?thesis using w len by blast
qed

text \<open>Zeroing the slots from \<open>i\<close> on that are not marked.\<close>

lemma zero_gaps_slots:
  assumes "length data = m * unat (a_pkt_len s)" and "i + c \<le> m"
  defines "n \<equiv> unat (a_pkt_len s)"
    and "marked \<equiv> \<lambda>k. mt_bitmap_test (Some (a_frame_bitmap s)) (a_frame_bitmap_size s) (int k)"
  shows "\<exists>data'. zero_gaps_from i c s data = Some data' \<and> length data' = m * n \<and>
    (\<forall>k < m. slot_bytes n k data' =
       (if i \<le> k \<and> k < i + c \<and> \<not> marked k then replicate n 0 else slot_bytes n k data))"
  using assms(1,2)
proof (induction c arbitrary: i data)
  case 0
  then show ?case by (auto simp: n_def)
next
  case (Suc c)
  show ?case
  proof (cases "marked i")
    case True
    then have step: "zero_gaps_from i (Suc c) s data = zero_gaps_from (Suc i) c s data" by (simp add: marked_def)
    show ?thesis unfolding step using Suc.IH [of data "Suc i"] Suc.prems True by (auto simp: not_less_eq_eq Suc_le_eq le_less)
  next
    case False
    obtain d1 where d1: "buf_write (i * n) (replicate n 0) data = Some d1" "length d1 = m * n"
        "\<forall>j < m. slot_bytes n j d1 = (if j = i then replicate n 0 else slot_bytes n j data)"
      using buf_write_slot [of data m n "replicate n 0" i] Suc.prems by (auto simp: n_def)
    have step: "zero_gaps_from i (Suc c) s data = zero_gaps_from (Suc i) c s d1"
      using False d1(1) by (simp add: marked_def n_def)
    obtain d2 where d2: "zero_gaps_from (Suc i) c s d1 = Some d2" "length d2 = m * n"
        "\<forall>k < m. slot_bytes n k d2 =
           (if Suc i \<le> k \<and> k < Suc i + c \<and> \<not> marked k then replicate n 0 else slot_bytes n k d1)"
      using Suc.IH [of d1 "Suc i"] d1(2) Suc.prems by (auto simp: n_def)
    show ?thesis unfolding step using d2 d1(3) False by (auto simp: Suc_le_eq le_less)
  qed
qed

section \<open>The invariant\<close>

abbreviation arrived :: "rx_audio \<Rightarrow> int set" where
  "arrived s \<equiv> bitmap_members (Some (a_frame_bitmap s)) (a_frame_bitmap_size s)"

definition geometry :: "rx_audio \<Rightarrow> bool" where
  "geometry s \<longleftrightarrow> 0 < unat (a_pkt_len s) \<and> 0 < a_total_pkts s \<and> a_total_pkts s < 2 ^ 31 \<and> a_frame_size s = a_total_pkts s * unat (a_pkt_len s) \<and>
     0 < unat (a_samples_per_pkt s) \<and> unat (a_rtp_ticks_per_frame s) = a_total_pkts s * unat (a_samples_per_pkt s) \<and>
     a_frame_bitmap_size s = (a_total_pkts s + 7) div 8 \<and> length (a_frame_bitmap s) = a_frame_bitmap_size s \<and>
     (\<forall>f \<in> set (a_frames s). length (fr_data f) = a_frame_size s)"

text \<open>Slot \<open>k\<close> of a buffer holds the payload of one of the packets \<open>seen\<close> whose time stamp lies in that slot of
  the frame that starts at \<open>base\<close>.\<close>

definition from_packet :: "rtp_in set \<Rightarrow> u32 \<Rightarrow> nat \<Rightarrow> nat \<Rightarrow> nat \<Rightarrow> u8 list \<Rightarrow> bool" where
  "from_packet seen base spp n k data \<longleftrightarrow>
     (\<exists>pkt \<in> seen. unat (pk_tmstamp pkt - base) div spp = k \<and> slot_bytes n k data = pk_payload pkt)"

definition open_frame_ok :: "rtp_in set \<Rightarrow> rx_audio \<Rightarrow> bool" where
  "open_frame_ok seen s \<longleftrightarrow> (case a_cur_frame s of None \<Rightarrow> True | Some i \<Rightarrow>
     i < length (a_frames s) \<and> arrived s \<subseteq> {0..<int (a_total_pkts s)} \<and>
     a_frame_recv_size s = card (arrived s) * unat (a_pkt_len s) \<and>
     c_tmstamp s = uint (a_first_pkt_rtp_ts s - 1) \<and>
     (\<forall>k < a_total_pkts s. int k \<in> arrived s \<longrightarrow>
        from_packet seen (a_first_pkt_rtp_ts s) (unat (a_samples_per_pkt s)) (unat (a_pkt_len s)) k (fr_data (a_frames s ! i))))"

definition ra_inv :: "rtp_in set \<Rightarrow> rx_audio \<Rightarrow> bool" where
  "ra_inv seen s \<longleftrightarrow> geometry s \<and> open_frame_ok seen s"

text \<open>What a delivered frame looks like.\<close>

definition bytes_ok :: "rtp_in set \<Rightarrow> rx_audio \<Rightarrow> u32 \<Rightarrow> st_frame_status \<Rightarrow> u8 list \<Rightarrow> bool" where
  "bytes_ok seen s base status data \<longleftrightarrow>
     (let n = unat (a_pkt_len s); spp = unat (a_samples_per_pkt s) in
      length data = a_total_pkts s * n \<and>
      (\<forall>k < a_total_pkts s. from_packet seen base spp n k data \<or>
         status = ST_FRAME_STATUS_CORRUPTED \<and> slot_bytes n k data = replicate n 0) \<and>
      (status = ST_FRAME_STATUS_COMPLETE \<or>
       status = ST_FRAME_STATUS_CORRUPTED \<and> has_flag (a_flags s) ST30_RX_FLAG_RECEIVE_INCOMPLETE_FRAME))"

definition delivery_ok :: "rtp_in set \<Rightarrow> rx_audio \<Rightarrow> audio_delivery \<Rightarrow> bool" where
  "delivery_ok seen s d \<longleftrightarrow> bytes_ok seen s (rm_rtp_timestamp (d_meta d)) (rm_status (d_meta d)) (d_data d)"

lemma from_packet_mono: "seen \<subseteq> seen' \<Longrightarrow> from_packet seen base spp n k data \<Longrightarrow> from_packet seen' base spp n k data"
  unfolding from_packet_def by blast

lemma ra_inv_mono: "seen \<subseteq> seen' \<Longrightarrow> ra_inv seen s \<Longrightarrow> ra_inv seen' s"
  using from_packet_mono by (auto simp: ra_inv_def open_frame_ok_def split: option.splits)

lemma arrived_none: "bitmap_members (Some (replicate n 0)) n = {}"
  by (auto simp: bitmap_members_def nat_less_iff)

lemma view_geometry: "frame_view s' = frame_view s \<Longrightarrow> geometry s' = geometry s"
  by (simp add: frame_view_def geometry_def)

lemma view_open: "frame_view s' = frame_view s \<Longrightarrow> c_tmstamp s' = c_tmstamp s \<Longrightarrow> open_frame_ok seen s' = open_frame_ok seen s"
  by (cases "a_cur_frame s") (simp_all add: frame_view_def open_frame_ok_def)

section \<open>Effects of the steps\<close>

text \<open>What no packet changes.\<close>

definition audio_config :: "rx_audio \<Rightarrow> _" where
  "audio_config s = (a_pkt_len s, a_total_pkts s, a_frame_size s, a_rtp_ticks_per_frame s, a_samples_per_pkt s,
     a_frame_bitmap_size s, a_flags s, map fr_addr (a_frames s), a_type s, a_attached s,
     c_payload_type s, c_ssrc s)"

abbreviation datas :: "rx_audio \<Rightarrow> u8 list list" where "datas s \<equiv> map fr_data (a_frames s)"
abbreviation refs :: "rx_audio \<Rightarrow> int list" where "refs s \<equiv> map fr_refcnt (a_frames s)"

lemma config_eqs:
  assumes "audio_config s' = audio_config s"
  shows "a_pkt_len s' = a_pkt_len s" "a_total_pkts s' = a_total_pkts s" "a_frame_size s' = a_frame_size s"
    "a_rtp_ticks_per_frame s' = a_rtp_ticks_per_frame s" "a_samples_per_pkt s' = a_samples_per_pkt s"
    "a_frame_bitmap_size s' = a_frame_bitmap_size s" "a_flags s' = a_flags s"
    "length (a_frames s') = length (a_frames s)" "map fr_addr (a_frames s') = map fr_addr (a_frames s)"
    "a_type s' = a_type s" "a_attached s' = a_attached s" "c_payload_type s' = c_payload_type s" "c_ssrc s' = c_ssrc s"
  using assms map_eq_imp_length_eq by (auto simp: audio_config_def)

lemma view_config: "frame_view s' = frame_view s \<Longrightarrow> audio_config s' = audio_config s"
  by (simp add: frame_view_def audio_config_def)

lemma config_bytes:
  assumes "audio_config s' = audio_config s"
  shows "bytes_ok seen s' = bytes_ok seen s"
proof (intro ext)
  show "bytes_ok seen s' base status data = bytes_ok seen s base status data" for base status data
    unfolding bytes_ok_def config_eqs(1,2,5,7) [OF assms] ..
qed

lemma config_delivery:
  assumes "audio_config s' = audio_config s"
  shows "delivery_ok seen s' d = delivery_ok seen s d"
  unfolding delivery_ok_def config_bytes [OF assms] ..

lemma upd_trans_keeps:
  assumes "fr_addr (f (a_frames s ! i)) = fr_addr (a_frames s ! i)"
  shows "audio_config (upd_trans i f s) = audio_config s"
  using assms by (cases "i < length (a_frames s)") (simp_all add: audio_config_def upd_trans_def map_update list_update_same_conv list_update_beyond)

lemma upd_trans_geometry:
  assumes "geometry s" and "length (fr_data (f (a_frames s ! i))) = length (fr_data (a_frames s ! i))"
  shows "geometry (upd_trans i f s)"
proof (cases "i < length (a_frames s)")
  case True
  then have "length (fr_data (f (a_frames s ! i))) = a_frame_size s" using assms by (simp add: geometry_def)
  then show ?thesis using assms(1) set_update_subset_insert [of "a_frames s" i "f (a_frames s ! i)"]
    by (auto simp: geometry_def upd_trans_def)
next
  case False
  then show ?thesis using assms(1) by (simp add: geometry_def upd_trans_def list_update_beyond)
qed

lemma open_frame_effect:
  assumes g: "geometry s" and r: "rx_audio_session_open_frame p tm ptp s = (r, s')"
  obtains (fail) "r = Inl EIO" "\<forall>f \<in> set (a_frames s). fr_refcnt f \<noteq> 0" "a_frames s' = a_frames s"
      "a_cur_frame s' = None" "geometry s'" "audio_config s' = audio_config s" "c_tmstamp s' = c_tmstamp s"
  | (opened) i where "r = Inr ()" "i < length (a_frames s)" "fr_refcnt (a_frames s ! i) = 0"
      "a_frames s' = (a_frames s)[i := (a_frames s ! i)\<lparr>fr_refcnt := 1\<rparr>]"
      "a_cur_frame s' = Some i" "geometry s'" "audio_config s' = audio_config s" "arrived s' = {}" "a_frame_recv_size s' = 0"
      "a_first_pkt_rtp_ts s' = grid_floor (a_rtp_ticks_per_frame s) (ts32 (c_tmstamp s + 1)) tm"
      "c_tmstamp s' = uint (a_first_pkt_rtp_ts s' - 1)"
proof (cases "first_idx (\<lambda>f. fr_refcnt f = 0) (a_frames s)")
  case None
  have eq: "(r, s') = (Inl EIO, s\<lparr>a_cur_frame := None, a_slot_get_frame_fail := a_slot_get_frame_fail s + 1\<rparr>)"
    using r None by (simp add: rx_audio_session_open_frame_def rx_audio_session_get_frame_def Let_def)
  show ?thesis
    by (rule fail) (use eq None g in \<open>simp_all add: first_idx_None geometry_def audio_config_def\<close>)
next
  case (Some i)
  note i = first_idx_Some(1,2) [OF Some]
  define base where "base = grid_floor (a_rtp_ticks_per_frame s) (ts32 (c_tmstamp s + 1)) tm"
  have ticks: "a_rtp_ticks_per_frame s \<noteq> 0"
    using g by (auto simp: geometry_def)
  then have pos: "0 < uint (a_rtp_ticks_per_frame s)" by (simp add: word_neq_0_conv word_less_def)
  have floor: "ts32 (d sdiv t) - ts32 (if d smod t < 0 then 1 else 0) = ts32 (d div t)"
    if "t = uint (a_rtp_ticks_per_frame s)" for d t
    using floor_sdiv [of t d] pos that by (simp only: of_int_diff [symmetric])
  define s1 where "s1 = (upd_trans i (\<lambda>f. f\<lparr>fr_refcnt := fr_refcnt f + 1\<rparr>) s)\<lparr>a_cur_frame := Some i,
    a_frame_bitmap := replicate (a_frame_bitmap_size s) 0, a_frame_recv_size := 0,
    a_first_pkt_rtp_ts := base, a_first_pkt_ptp_ts := ptp, c_tmstamp := uint (base - 1)\<rparr>"
  have eq: "r = Inr ()" "s' = upd_port p (\<lambda>st. st\<lparr>ps_frames := ps_frames st + 1\<rparr>) s1"
    using r Some ticks
    by (simp_all add: rx_audio_session_open_frame_def rx_audio_session_get_frame_def Let_def upd_trans_def s1_def base_def
        grid_floor_def floor)
  have v: "frame_view s' = frame_view s1" "c_tmstamp s' = c_tmstamp s1" by (simp_all add: eq(2))
  have g1: "geometry s1"
    using upd_trans_geometry [OF g, of "\<lambda>f. f\<lparr>fr_refcnt := fr_refcnt f + 1\<rparr>" i] g
    by (simp add: s1_def geometry_def upd_trans_def)
  have c1: "audio_config s1 = audio_config s"
    using upd_trans_keeps [of "\<lambda>f. f\<lparr>fr_refcnt := fr_refcnt f + 1\<rparr>" s i] by (simp add: s1_def audio_config_def upd_trans_def)
  show ?thesis
    by (rule opened [of i]) (use eq(1) i v view_geometry [OF v(1)] g1 view_config [OF v(1)] c1
        in \<open>simp_all add: frame_view_def s1_def upd_trans_def base_def arrived_none\<close>)
qed

lemma arrived_card:
  assumes "arrived s \<subseteq> {0..<int (a_total_pkts s)}"
  shows "card (arrived s) \<le> a_total_pkts s" and "card (arrived s) = a_total_pkts s \<longleftrightarrow> arrived s = {0..<int (a_total_pkts s)}"
proof -
  define slots where "slots = {0..<int (a_total_pkts s)}"
  have c: "finite slots" "card slots = a_total_pkts s" by (simp_all add: slots_def)
  show "card (arrived s) \<le> a_total_pkts s"
    using card_mono [OF c(1)] c(2) assms by (simp add: slots_def)
  have "card (arrived s) = card slots \<longleftrightarrow> arrived s = slots"
    using card_subset_eq [OF c(1)] assms unfolding slots_def [symmetric] by blast
  then show "card (arrived s) = a_total_pkts s \<longleftrightarrow> arrived s = {0..<int (a_total_pkts s)}"
    unfolding c(2) by (simp only: slots_def)
qed

lemma marked_arrived:
  assumes "geometry s"
  shows "mt_bitmap_test (Some (a_frame_bitmap s)) (a_frame_bitmap_size s) i \<longleftrightarrow> i \<in> arrived s"
  using assms by (intro bitmap_test_iff) (simp add: bitmap_wf_def geometry_def)

text \<open>The buffer of a frame that is closed: what arrived stays, the rest is silence.\<close>

lemma zero_frame_gaps_effect:
  assumes g: "geometry s" and i: "i < length (a_frames s)"
  obtains data where "rx_audio_session_zero_frame_gaps i s = Some (upd_trans i (\<lambda>f. f\<lparr>fr_data := data\<rparr>) s)"
    "length data = a_total_pkts s * unat (a_pkt_len s)"
    "\<And>k. k < a_total_pkts s \<Longrightarrow> slot_bytes (unat (a_pkt_len s)) k data =
       (if int k \<in> arrived s then slot_bytes (unat (a_pkt_len s)) k (fr_data (a_frames s ! i))
        else replicate (unat (a_pkt_len s)) 0)"
proof -
  have len: "length (fr_data (a_frames s ! i)) = a_total_pkts s * unat (a_pkt_len s)" using g i by (simp add: geometry_def)
  obtain data where "zero_gaps_from 0 (a_total_pkts s) s (fr_data (a_frames s ! i)) = Some data"
      "length data = a_total_pkts s * unat (a_pkt_len s)"
      "\<forall>k < a_total_pkts s. slot_bytes (unat (a_pkt_len s)) k data =
         (if 0 \<le> k \<and> k < 0 + a_total_pkts s \<and> int k \<notin> arrived s then replicate (unat (a_pkt_len s)) 0
          else slot_bytes (unat (a_pkt_len s)) k (fr_data (a_frames s ! i)))"
    using zero_gaps_slots [OF len, of 0 "a_total_pkts s"] by (auto simp: marked_arrived [OF g])
  then show ?thesis by (intro that [of data]) (auto simp: rx_audio_session_zero_frame_gaps_def)
qed

definition frame_meta_of :: "rx_audio \<Rightarrow> st30_rx_frame_meta" where
  "frame_meta_of s = \<lparr>rm_fmt = a_fmt s, rm_sampling = a_sampling s, rm_channel = a_channel s,
     rm_tfmt = ST10_TIMESTAMP_FMT_MEDIA_CLK, rm_timestamp = ucast (a_first_pkt_rtp_ts s),
     rm_timestamp_first_pkt = a_first_pkt_ptp_ts s, rm_rtp_timestamp = a_first_pkt_rtp_ts s,
     rm_frame_recv_size = a_frame_recv_size s,
     rm_status = (if a_frame_recv_size s < a_frame_size s then ST_FRAME_STATUS_CORRUPTED else ST_FRAME_STATUS_COMPLETE)\<rparr>"

text \<open>Closing a frame, given the state \<open>s1\<close> with its buffer finished.\<close>

definition close_with :: "nat \<Rightarrow> rx_audio \<Rightarrow> bool \<Rightarrow> rx_audio" where
  "close_with i s1 taken = (let s2 = (if taken then s1 else snd (rx_audio_session_put_frame i s1)) in
     s2\<lparr>c_tmstamp := uint (a_first_pkt_rtp_ts s2 + a_rtp_ticks_per_frame s2 - 1), a_cur_frame := None\<rparr>)"

lemma close_with_keeps:
  assumes "geometry s1" and "i < length (a_frames s1)"
  shows "geometry (close_with i s1 taken)" "audio_config (close_with i s1 taken) = audio_config s1"
    "a_cur_frame (close_with i s1 taken) = None"
    "refs (close_with i s1 taken) = (if taken then refs s1 else (refs s1)[i := refs s1 ! i - 1])"
    "c_tmstamp (close_with i s1 taken) = uint (a_first_pkt_rtp_ts s1 + a_rtp_ticks_per_frame s1 - 1)"
    "datas (close_with i s1 taken) = datas s1"
proof -
  define f where "f = (\<lambda>f :: st_frame_trans. f\<lparr>fr_refcnt := fr_refcnt f - 1\<rparr>)"
  have g: "geometry (upd_trans i f s1)" using upd_trans_geometry [OF assms(1), of f i] by (simp add: f_def)
  have c: "audio_config (upd_trans i f s1) = audio_config s1" using upd_trans_keeps [of f s1 i] by (simp add: f_def)
  have put: "snd (rx_audio_session_put_frame i s1) = upd_trans i f s1" by (simp add: rx_audio_session_put_frame_def f_def)
  show "geometry (close_with i s1 taken)" using g assms(1) by (simp add: close_with_def put geometry_def Let_def)
  show "audio_config (close_with i s1 taken) = audio_config s1"
    using c by (cases taken) (simp_all add: close_with_def put audio_config_def Let_def)
  show "a_cur_frame (close_with i s1 taken) = None" by (simp add: close_with_def Let_def)
  show "refs (close_with i s1 taken) = (if taken then refs s1 else (refs s1)[i := refs s1 ! i - 1])"
    using assms(2) by (simp add: close_with_def put f_def upd_trans_def map_update Let_def)
  show "c_tmstamp (close_with i s1 taken) = uint (a_first_pkt_rtp_ts s1 + a_rtp_ticks_per_frame s1 - 1)"
    by (simp add: close_with_def put f_def upd_trans_def Let_def)
  show "datas (close_with i s1 taken) = datas s1"
    using assms(2) by (simp add: close_with_def put f_def upd_trans_def map_update list_update_same_conv Let_def)
qed

text \<open>The buffer as it is handed over, in the state \<open>s1\<close>.\<close>

definition finished :: "nat \<Rightarrow> rx_audio \<Rightarrow> rx_audio \<Rightarrow> bool" where
  "finished i s s1 \<longleftrightarrow> geometry s1 \<and> audio_config s1 = audio_config s \<and> refs s1 = refs s \<and>
     a_first_pkt_rtp_ts s1 = a_first_pkt_rtp_ts s \<and> datas s1 = (datas s)[i := fr_data (a_frames s1 ! i)] \<and>
     (\<not> a_frame_recv_size s < a_frame_size s \<longrightarrow> fr_data (a_frames s1 ! i) = fr_data (a_frames s ! i)) \<and>
     (\<forall>k < a_total_pkts s. slot_bytes (unat (a_pkt_len s)) k (fr_data (a_frames s1 ! i)) =
         (if int k \<in> arrived s then slot_bytes (unat (a_pkt_len s)) k (fr_data (a_frames s ! i))
          else replicate (unat (a_pkt_len s)) 0))"

lemma finish_incomplete:
  assumes g: "geometry s" and i: "i < length (a_frames s)" and inc: "a_frame_recv_size s < a_frame_size s"
  obtains s1 where "rx_audio_session_zero_frame_gaps i (s\<lparr>a_frames_incomplete := a_frames_incomplete s + 1\<rparr>) = Some s1"
    "finished i s s1"
proof -
  define s0 where "s0 = s\<lparr>a_frames_incomplete := a_frames_incomplete s + 1\<rparr>"
  have v0: "frame_view s0 = frame_view s" by (simp add: s0_def frame_view_def)
  have e0: "a_frames s0 = a_frames s" "a_total_pkts s0 = a_total_pkts s" "a_pkt_len s0 = a_pkt_len s" "arrived s0 = arrived s"
    "a_first_pkt_rtp_ts s0 = a_first_pkt_rtp_ts s" by (simp_all add: s0_def)
  have g0: "geometry s0" using view_geometry [OF v0] g by simp
  obtain data where d: "rx_audio_session_zero_frame_gaps i s0 = Some (upd_trans i (\<lambda>f. f\<lparr>fr_data := data\<rparr>) s0)"
      "length data = a_total_pkts s * unat (a_pkt_len s)"
      "\<And>k. k < a_total_pkts s \<Longrightarrow> slot_bytes (unat (a_pkt_len s)) k data =
         (if int k \<in> arrived s then slot_bytes (unat (a_pkt_len s)) k (fr_data (a_frames s ! i))
          else replicate (unat (a_pkt_len s)) 0)"
    using zero_frame_gaps_effect [OF g0, of i] i unfolding e0 by blast
  have len: "length (fr_data (a_frames s0 ! i)) = length data" using g0 i d(2) by (simp add: geometry_def e0)
  have g1: "geometry (upd_trans i (\<lambda>f. f\<lparr>fr_data := data\<rparr>) s0)"
    by (rule upd_trans_geometry [OF g0]) (simp add: len)
  have c1: "audio_config (upd_trans i (\<lambda>f. f\<lparr>fr_data := data\<rparr>) s0) = audio_config s"
    using upd_trans_keeps [of "\<lambda>f. f\<lparr>fr_data := data\<rparr>" s0 i] view_config [OF v0] by simp
  have r1: "refs (upd_trans i (\<lambda>f. f\<lparr>fr_data := data\<rparr>) s0) = refs s"
    using i by (simp add: upd_trans_def e0 map_update list_update_same_conv)
  have "finished i s (upd_trans i (\<lambda>f. f\<lparr>fr_data := data\<rparr>) s0)"
    unfolding finished_def using g1 c1 r1 i d inc by (simp add: upd_trans_def e0 map_update)
  then show ?thesis using d(1) by (intro that) (simp_all add: s0_def)
qed

text \<open>A finished buffer is a correct delivery.\<close>

lemma finished_delivery:
  assumes inv: "ra_inv seen s" and cur: "a_cur_frame s = Some i" and fin: "finished i s s1"
    and del: "\<not> a_frame_recv_size s < a_frame_size s \<or> has_flag (a_flags s) ST30_RX_FLAG_RECEIVE_INCOMPLETE_FRAME"
    and d: "d_meta d = frame_meta_of s" "d_data d = fr_data (a_frames s1 ! i)"
  shows "delivery_ok seen s d"
proof -
  have g: "geometry s" and i: "i < length (a_frames s)" and sub: "arrived s \<subseteq> {0..<int (a_total_pkts s)}"
    and size: "a_frame_recv_size s = card (arrived s) * unat (a_pkt_len s)"
    and slots: "\<And>k. k < a_total_pkts s \<Longrightarrow> int k \<in> arrived s \<Longrightarrow>
      from_packet seen (a_first_pkt_rtp_ts s) (unat (a_samples_per_pkt s)) (unat (a_pkt_len s)) k (fr_data (a_frames s ! i))"
    using inv cur by (simp_all add: ra_inv_def open_frame_ok_def)
  have g1: "geometry s1" and c: "audio_config s1 = audio_config s" using fin by (simp_all add: finished_def)
  note c = config_eqs [OF c]
  have len: "length (d_data d) = a_total_pkts s * unat (a_pkt_len s)"
    using g1 i by (simp add: d geometry_def c)
  have full: "int k \<in> arrived s \<or> a_frame_recv_size s < a_frame_size s" if "k < a_total_pkts s" for k
    using arrived_card [OF sub] size g that by (auto simp: geometry_def)
  have "from_packet seen (a_first_pkt_rtp_ts s) (unat (a_samples_per_pkt s)) (unat (a_pkt_len s)) k (d_data d) \<or>
      a_frame_recv_size s < a_frame_size s \<and> slot_bytes (unat (a_pkt_len s)) k (d_data d) = replicate (unat (a_pkt_len s)) 0"
    if k: "k < a_total_pkts s" for k
    using slots [OF k] full [OF k] fin k by (auto simp: d finished_def from_packet_def)
  then show ?thesis unfolding delivery_ok_def bytes_ok_def Let_def using len del
    by (auto simp: d(1) frame_meta_of_def)
qed

lemma finished_frame:
  assumes "ra_inv seen s" and "a_cur_frame s = Some i"
  obtains s1 where "(if a_frame_recv_size s < a_frame_size s
      then rx_audio_session_zero_frame_gaps i (s\<lparr>a_frames_incomplete := a_frames_incomplete s + 1\<rparr>) else Some s) = Some s1"
    "finished i s s1"
proof -
  have g: "geometry s" and i: "i < length (a_frames s)" and sub: "arrived s \<subseteq> {0..<int (a_total_pkts s)}"
    and size: "a_frame_recv_size s = card (arrived s) * unat (a_pkt_len s)"
    using assms by (simp_all add: ra_inv_def open_frame_ok_def)
  show ?thesis
  proof (cases "a_frame_recv_size s < a_frame_size s")
    case True
    then show ?thesis using finish_incomplete [OF g i] that by metis
  next
    case False
    then have "arrived s = {0..<int (a_total_pkts s)}" using arrived_card [OF sub] size g by (simp add: geometry_def)
    moreover have "(datas s)[i := fr_data (a_frames s ! i)] = datas s" using i by (simp add: list_update_same_conv)
    ultimately have "finished i s s" using g by (simp add: finished_def)
    then show ?thesis using False by (intro that [of s]) simp_all
  qed
qed

text \<open>The two ways a frame closes: discarded, or offered to the application.\<close>

lemma frame_notify_effect:
  fixes notify :: "'w \<Rightarrow> nat \<Rightarrow> st30_rx_frame_meta \<Rightarrow> bool \<times> 'w"
  assumes inv: "ra_inv seen s" and cur: "a_cur_frame s = Some i"
  obtains (discarded) s' where "rx_audio_session_frame_notify notify s w = Some (s', w, [])"
    "a_frame_recv_size s < a_frame_size s" "\<not> has_flag (a_flags s) ST30_RX_FLAG_RECEIVE_INCOMPLETE_FRAME"
    "geometry s'" "a_cur_frame s' = None" "audio_config s' = audio_config s"
    "c_tmstamp s' = uint (a_first_pkt_rtp_ts s + a_rtp_ticks_per_frame s - 1)"
    "refs s' = (refs s)[i := refs s ! i - 1]" "\<exists>data. datas s' = (datas s)[i := data]"
  | (offered) s' w' d where "rx_audio_session_frame_notify notify s w = Some (s', w', [d])"
    "geometry s'" "a_cur_frame s' = None" "audio_config s' = audio_config s"
    "c_tmstamp s' = uint (a_first_pkt_rtp_ts s + a_rtp_ticks_per_frame s - 1)"
    "refs s' = (if d_taken d then refs s else (refs s)[i := refs s ! i - 1])" "datas s' = (datas s)[i := d_data d]"
    "(d_taken d, w') = notify w (d_addr d) (d_meta d)" "d_addr d = fr_addr (a_frames s ! i)" "d_meta d = frame_meta_of s"
    "a_frame_recv_size s \<ge> a_frame_size s \<Longrightarrow> d_data d = fr_data (a_frames s ! i)" "delivery_ok seen s d"
proof -
  obtain s1 where s1: "(if a_frame_recv_size s < a_frame_size s
      then rx_audio_session_zero_frame_gaps i (s\<lparr>a_frames_incomplete := a_frames_incomplete s + 1\<rparr>) else Some s) = Some s1"
    and fin: "finished i s s1" using finished_frame [OF assms] by blast
  have g1: "geometry s1" and c1: "audio_config s1 = audio_config s" and r1: "refs s1 = refs s"
    and f1: "a_first_pkt_rtp_ts s1 = a_first_pkt_rtp_ts s" and d1: "datas s1 = (datas s)[i := fr_data (a_frames s1 ! i)]" using fin by (simp_all add: finished_def)
  note c = config_eqs [OF c1]
  have i: "i < length (a_frames s)" using inv cur by (simp add: ra_inv_def open_frame_ok_def)
  have addr: "fr_addr (a_frames s1 ! i) = fr_addr (a_frames s ! i)"
    using c(8,9) i by (metis nth_map)
  show ?thesis
  proof (cases "a_frame_recv_size s < a_frame_size s \<and> \<not> has_flag (a_flags s) ST30_RX_FLAG_RECEIVE_INCOMPLETE_FRAME")
    case True
    then have "rx_audio_session_frame_notify notify s w = Some (close_with i s1 False, w, [])"
      using s1 by (simp add: rx_audio_session_frame_notify_def cur Let_def close_with_def)
    then show ?thesis
      by (rule discarded) (use True close_with_keeps [OF g1, of i False] i d1 in \<open>simp_all add: c1 c r1 f1, blast?\<close>)
  next
    case False
    define s2 where "s2 = (if a_frame_recv_size s < a_frame_size s then s1
      else s1\<lparr>a_stat_frames_received := a_stat_frames_received s1 + 1\<rparr>)"
    have v2: "frame_view s2 = frame_view s1" by (simp add: s2_def frame_view_def)
    have e2: "a_frames s2 = a_frames s1" "a_first_pkt_rtp_ts s2 = a_first_pkt_rtp_ts s"
      "a_rtp_ticks_per_frame s2 = a_rtp_ticks_per_frame s" using v2 by (simp_all add: frame_view_def f1 c)
    have g2: "geometry s2" using view_geometry [OF v2] g1 by simp
    obtain ok w' where n: "notify w (fr_addr (a_frames s ! i)) (frame_meta_of s) = (ok, w')" by fastforce
    define d where "d = \<lparr>d_addr = fr_addr (a_frames s ! i), d_meta = frame_meta_of s, d_data = fr_data (a_frames s1 ! i), d_taken = ok\<rparr>"
    have eq: "rx_audio_session_frame_notify notify s w = Some (close_with i s2 ok, w', [d])"
      unfolding rx_audio_session_frame_notify_def Let_def frame_meta_of_def [symmetric] cur option.case s1
      using False n addr
      by (cases "a_frame_recv_size s < a_frame_size s") (simp_all add: close_with_def d_def s2_def Let_def)
    show ?thesis
      by (rule offered [OF eq])
        (use close_with_keeps [OF g2, of i ok] i n fin d1 finished_delivery [OF inv cur fin, of d] False
          in \<open>simp_all add: c1 c r1 e2 view_config [OF v2] d_def finished_def\<close>)
  qed
qed

lemma pkt_idx_nat:
  assumes "geometry s"
  shows "unat (pkt_idx pkt s) = unat (pk_tmstamp pkt - a_first_pkt_rtp_ts s) div unat (a_samples_per_pkt s)"
  using assms by (auto simp: pkt_idx_def unat_div geometry_def)

text \<open>The state after the payload went into slot \<open>idx\<close>.\<close>

definition with_payload :: "nat \<Rightarrow> u8 list \<Rightarrow> u8 list \<Rightarrow> rx_audio \<Rightarrow> rx_audio" where
  "with_payload i data bitmap s = (upd_trans i (\<lambda>f. f\<lparr>fr_data := data\<rparr>) s)\<lparr>a_frame_bitmap := bitmap,
     a_frame_recv_size := a_frame_recv_size s + unat (a_pkt_len s), c_pkts_received := c_pkts_received s + 1\<rparr>"

lemma with_payload_inv:
  assumes inv: "ra_inv seen s" and cur: "a_cur_frame s = Some i" and pkt: "pkt \<in> seen"
    and idx: "unat (pkt_idx pkt s) < a_total_pkts s" "int (unat (pkt_idx pkt s)) \<notin> arrived s"
    and data: "length data = a_total_pkts s * unat (a_pkt_len s)"
      "\<forall>j < a_total_pkts s. slot_bytes (unat (a_pkt_len s)) j data =
         (if j = unat (pkt_idx pkt s) then pk_payload pkt else slot_bytes (unat (a_pkt_len s)) j (fr_data (a_frames s ! i)))"
    and bm: "length bitmap = a_frame_bitmap_size s"
      "bitmap_members (Some bitmap) (a_frame_bitmap_size s) = insert (int (unat (pkt_idx pkt s))) (arrived s)"
  defines "s' \<equiv> with_payload i data bitmap s"
  shows "ra_inv seen s'" "audio_config s' = audio_config s" "refs s' = refs s" "arrived s' = insert (int (unat (pkt_idx pkt s))) (arrived s)"
    "datas s' = (datas s)[i := data]"
proof -
  have g: "geometry s" and i: "i < length (a_frames s)" and sub: "arrived s \<subseteq> {0..<int (a_total_pkts s)}"
    and size: "a_frame_recv_size s = card (arrived s) * unat (a_pkt_len s)" and tm: "c_tmstamp s = uint (a_first_pkt_rtp_ts s - 1)"
    and slots: "\<And>k. k < a_total_pkts s \<Longrightarrow> int k \<in> arrived s \<Longrightarrow>
      from_packet seen (a_first_pkt_rtp_ts s) (unat (a_samples_per_pkt s)) (unat (a_pkt_len s)) k (fr_data (a_frames s ! i))"
    using inv cur by (simp_all add: ra_inv_def open_frame_ok_def)
  have fin: "finite (arrived s)" using sub finite_subset by blast
  define s1 where "s1 = upd_trans i (\<lambda>f. f\<lparr>fr_data := data\<rparr>) s"
  have g1: "geometry s1" unfolding s1_def
    by (rule upd_trans_geometry [OF g]) (use g i data(1) in \<open>simp add: geometry_def\<close>)
  have c1: "audio_config s1 = audio_config s" unfolding s1_def by (rule upd_trans_keeps) simp
  have e1: "a_cur_frame s1 = Some i" "a_first_pkt_rtp_ts s1 = a_first_pkt_rtp_ts s" "c_tmstamp s1 = c_tmstamp s"
    "fr_data (a_frames s1 ! i) = data" using cur i by (simp_all add: s1_def upd_trans_def)
  have s': "s' = s1\<lparr>a_frame_bitmap := bitmap, a_frame_recv_size := a_frame_recv_size s + unat (a_pkt_len s),
     c_pkts_received := c_pkts_received s + 1\<rparr>" by (simp add: s'_def with_payload_def s1_def)
  note c = config_eqs [OF c1]
  show c': "audio_config s' = audio_config s" using c1 by (simp add: s' audio_config_def)
  show "refs s' = refs s" using i by (simp add: s' s1_def upd_trans_def map_update list_update_same_conv)
  show "datas s' = (datas s)[i := data]" using i by (simp add: s' s1_def upd_trans_def map_update)
  show arr: "arrived s' = insert (int (unat (pkt_idx pkt s))) (arrived s)" using bm(2) by (simp add: s' c)
  have g': "geometry s'" using g1 bm(1) by (simp add: s' geometry_def c)
  have new: "from_packet seen (a_first_pkt_rtp_ts s) (unat (a_samples_per_pkt s)) (unat (a_pkt_len s)) k data"
    if "k < a_total_pkts s" "int k \<in> arrived s'" for k
    using slots [of k] that data(2) pkt unfolding arr by (auto simp: from_packet_def pkt_idx_nat [OF g])
  have sub': "arrived s' \<subseteq> {0..<int (a_total_pkts s)}" 
    unfolding arr insert_subset atLeastLessThan_iff of_nat_less_iff using sub idx(1) by simp
  have card': "card (arrived s') = Suc (card (arrived s))" unfolding arr using fin idx(2) by simp
  have e': "a_cur_frame s' = Some i" "a_frames s' = a_frames s1" "a_first_pkt_rtp_ts s' = a_first_pkt_rtp_ts s"
    "c_tmstamp s' = uint (a_first_pkt_rtp_ts s - 1)" "a_frame_recv_size s' = a_frame_recv_size s + unat (a_pkt_len s)"
    using e1 tm by (simp_all add: s')
  note c' = config_eqs [OF c']
  have "open_frame_ok seen s'"
    unfolding open_frame_ok_def e' option.case c'(1,2,5) card' using i e1(4) new sub' size c(8) by simp
  then show "ra_inv seen s'" using g' by (simp add: ra_inv_def)
qed

lemma slot_sint:
  assumes "geometry s" and "unat (idx :: u32) < a_total_pkts s"
  shows "sint idx = int (unat idx)" "0 \<le> int (unat idx)" "int (unat idx) < 8 * int (a_frame_bitmap_size s)"
proof -
  have "unat idx < 2 ^ 31" using assms by (auto simp: geometry_def)
  then have "int (unat idx) < int (2 ^ 31)" by (simp only: of_nat_less_iff)
  then have "uint idx < 2 ^ 31" by simp
  then have "sint idx = uint idx" using sint_small [of "uint idx"] by simp
  then show "sint idx = int (unat idx)" by simp
  show "0 \<le> int (unat idx)" by simp
  have "a_total_pkts s \<le> 8 * ((a_total_pkts s + 7) div 8)" by linarith
  then show "int (unat idx) < 8 * int (a_frame_bitmap_size s)"
    using assms by (auto simp: geometry_def simp del: of_nat_unat)
qed

lemma store_effect:
  assumes inv: "ra_inv seen s" and cur: "a_cur_frame s = Some i" and pkt: "pkt \<in> seen"
    and len: "length (pk_payload pkt) = unat (a_pkt_len s)" and idx: "unat (pkt_idx pkt s) < a_total_pkts s"
  obtains (duplicate) "rx_audio_store notify (pkt_idx pkt s) pkt s w =
      Some (Inr (), s\<lparr>c_pkts_redundant := c_pkts_redundant s + 1\<rparr>, w, [])" "int (unat (pkt_idx pkt s)) \<in> arrived s"
  | (stored) s' where "rx_audio_store notify (pkt_idx pkt s) pkt s w =
      (if a_frame_recv_size s' \<ge> a_frame_size s' then
         map_option (\<lambda>(s, w, out). (Inr (), s, w, out)) (rx_audio_session_frame_notify notify s' w)
       else Some (Inr (), s', w, []))"
      "int (unat (pkt_idx pkt s)) \<notin> arrived s" "ra_inv seen s'" "a_cur_frame s' = Some i"
      "audio_config s' = audio_config s" "refs s' = refs s" "arrived s' = insert (int (unat (pkt_idx pkt s))) (arrived s)"
      "a_first_pkt_rtp_ts s' = a_first_pkt_rtp_ts s" "c_tmstamp s' = c_tmstamp s" "\<exists>data. datas s' = (datas s)[i := data]"
proof -
  define k where "k = unat (pkt_idx pkt s)"
  have g: "geometry s" and i: "i < length (a_frames s)" using inv cur by (simp_all add: ra_inv_def open_frame_ok_def)
  have wf: "bitmap_wf (Some (a_frame_bitmap s)) (a_frame_bitmap_size s)" using g by (simp add: bitmap_wf_def geometry_def)
  note k = slot_sint [OF g idx, folded k_def]
  note bm = bitmap_set_members [OF wf k(2,3)]
  obtain old b where t: "mt_bitmap_test_and_set (Some (a_frame_bitmap s)) (a_frame_bitmap_size s) (sint (pkt_idx pkt s)) = (old, b)"
    by fastforce
  show ?thesis
  proof (cases old)
    case True
    then have "int k \<in> arrived s" using bm(1) t k(1) by simp
    then show ?thesis using True t by (intro duplicate) (simp_all add: rx_audio_store_def k_def)
  next
    case False
    then have new: "int k \<notin> arrived s" using bm(1) t k(1) by simp
    obtain bitmap where b: "b = Some bitmap" "length bitmap = a_frame_bitmap_size s"
        "bitmap_members (Some bitmap) (a_frame_bitmap_size s) = insert (int k) (arrived s)"
      using bm(2,3) t k(1) by (auto simp: bitmap_wf_def)
    have flen: "length (fr_data (a_frames s ! i)) = a_total_pkts s * unat (a_pkt_len s)" using g i by (simp add: geometry_def)
    obtain data where d: "buf_write (k * unat (a_pkt_len s)) (pk_payload pkt) (fr_data (a_frames s ! i)) = Some data"
        "length data = a_total_pkts s * unat (a_pkt_len s)"
        "\<forall>j < a_total_pkts s. slot_bytes (unat (a_pkt_len s)) j data =
           (if j = k then pk_payload pkt else slot_bytes (unat (a_pkt_len s)) j (fr_data (a_frames s ! i)))"
      using buf_write_slot [OF flen len] idx unfolding k_def by blast
    note w = with_payload_inv [OF inv cur pkt idx new [unfolded k_def] d(2) d(3) [unfolded k_def] b(2) b(3) [unfolded k_def]]
    show ?thesis
    proof (rule stored [OF _ _ w(1) _ w(2,3,4)])
      show "rx_audio_store notify (pkt_idx pkt s) pkt s w =
        (if a_frame_recv_size (with_payload i data bitmap s) \<ge> a_frame_size (with_payload i data bitmap s) then
           map_option (\<lambda>(s, w, out). (Inr (), s, w, out)) (rx_audio_session_frame_notify notify (with_payload i data bitmap s) w)
         else Some (Inr (), with_payload i data bitmap s, w, []))"
        using t False cur d(1) len b(1)
        by (auto simp: rx_audio_store_def k_def [symmetric] Let_def with_payload_def upd_trans_def
            split: option.splits bind_splits)
      show "\<exists>data'. datas (with_payload i data bitmap s) = (datas s)[i := data']" using w(5) by blast
    qed (use new cur in \<open>simp_all add: with_payload_def upd_trans_def k_def\<close>)
  qed
qed

section \<open>The pool of buffers, abstractly\<close>

text \<open>What packets do to the open frame, the reference counts, the bytes of the buffers and the state of the
  application: a frame is opened on a buffer that nobody uses, written, and closed, either discarded or
  offered. \<open>ok\<close> is what is known of an offered frame.\<close>

type_synonym 'w pool = "nat option \<times> int list \<times> u8 list list \<times> 'w"

inductive pool_step ::
    "('w \<Rightarrow> nat \<Rightarrow> st30_rx_frame_meta \<Rightarrow> bool \<times> 'w) \<Rightarrow> nat list \<Rightarrow> (st30_rx_frame_meta \<Rightarrow> u8 list \<Rightarrow> bool) \<Rightarrow>
      'w pool \<Rightarrow> 'w pool \<Rightarrow> bool"
  for notify addrs ok where
  pool_open: "i < length rs \<Longrightarrow> rs ! i = 0 \<Longrightarrow> pool_step notify addrs ok (None, rs, ds, w) (Some i, rs[i := 1], ds, w)"
| pool_write: "pool_step notify addrs ok (Some i, rs, ds, w) (Some i, rs, ds[i := data], w)"
| pool_discard: "i < length rs \<Longrightarrow> pool_step notify addrs ok (Some i, rs, ds, w) (None, rs[i := rs ! i - 1], ds, w)"
| pool_offer: "i < length rs \<Longrightarrow> i < length ds \<Longrightarrow> ok meta (ds ! i) \<Longrightarrow> notify w (addrs ! i) meta = (taken, w') \<Longrightarrow>
    pool_step notify addrs ok (Some i, rs, ds, w) (None, if taken then rs else rs[i := rs ! i - 1], ds, w')"

inductive_cases pool_stepE: "pool_step notify addrs ok (cur, rs, ds, w) st'"

abbreviation pool_of :: "rx_audio \<Rightarrow> 'w \<Rightarrow> 'w pool" where
  "pool_of s w \<equiv> (a_cur_frame s, refs s, datas s, w)"

abbreviation offer_ok :: "rtp_in set \<Rightarrow> rx_audio \<Rightarrow> st30_rx_frame_meta \<Rightarrow> u8 list \<Rightarrow> bool" where
  "offer_ok seen s \<equiv> \<lambda>meta data. bytes_ok seen s (rm_rtp_timestamp meta) (rm_status meta) data"

abbreviation pool_run ::
    "('w \<Rightarrow> nat \<Rightarrow> st30_rx_frame_meta \<Rightarrow> bool \<times> 'w) \<Rightarrow> rtp_in set \<Rightarrow> rx_audio \<Rightarrow> 'w pool \<Rightarrow> 'w pool \<Rightarrow> bool" where
  "pool_run notify seen s \<equiv> (pool_step notify (map fr_addr (a_frames s)) (offer_ok seen s))\<^sup>*\<^sup>*"

lemma open_frame_pool:
  assumes g: "geometry s" and cur: "a_cur_frame s = None" and r: "rx_audio_session_open_frame p tm ptp s = (r, s')"
  shows "geometry s'" "audio_config s' = audio_config s" "(pool_step notify addrs ok)\<^sup>*\<^sup>* (pool_of s w) (pool_of s' w)"
    "r = Inr () \<Longrightarrow> pk_tmstamp pkt = tm \<Longrightarrow> ra_inv seen s' \<and> a_cur_frame s' \<noteq> None \<and> unat (pkt_idx pkt s') < a_total_pkts s'"
proof -
  consider (fail) "r = Inl EIO" "a_frames s' = a_frames s" "a_cur_frame s' = None" "geometry s'" "audio_config s' = audio_config s"
    | (opened) i where "r = Inr ()" "i < length (a_frames s)" "fr_refcnt (a_frames s ! i) = 0"
      "a_frames s' = (a_frames s)[i := (a_frames s ! i)\<lparr>fr_refcnt := 1\<rparr>]"
      "a_cur_frame s' = Some i" "geometry s'" "audio_config s' = audio_config s" "arrived s' = {}" "a_frame_recv_size s' = 0"
      "a_first_pkt_rtp_ts s' = grid_floor (a_rtp_ticks_per_frame s) (ts32 (c_tmstamp s + 1)) tm"
      "c_tmstamp s' = uint (a_first_pkt_rtp_ts s' - 1)"
    using open_frame_effect [OF g r] by metis
  note effect = this
  show g': "geometry s'" using effect by cases auto
  show c: "audio_config s' = audio_config s" using effect by cases auto
  show "(pool_step notify addrs ok)\<^sup>*\<^sup>* (pool_of s w) (pool_of s' w)"
    using effect
  proof cases
    case (opened i)
    then have "refs s' = (refs s)[i := 1]" "datas s' = datas s" by (simp_all add: map_update list_update_same_conv)
    then show ?thesis using opened cur pool_open [of i "refs s" notify addrs ok "datas s" w] by (simp add: r_into_rtranclp)
  qed (simp add: cur)
  assume ok: "r = Inr ()" and tm: "pk_tmstamp pkt = tm"
  show "ra_inv seen s' \<and> a_cur_frame s' \<noteq> None \<and> unat (pkt_idx pkt s') < a_total_pkts s'"
    using effect
  proof cases
    case (opened i)
    note c = config_eqs [OF c]
    have "a_rtp_ticks_per_frame s \<noteq> 0" using g by (auto simp: geometry_def)
    then have "unat (tm - a_first_pkt_rtp_ts s') < a_total_pkts s' * unat (a_samples_per_pkt s')"
      using grid_floor_offset(1) [of "a_rtp_ticks_per_frame s" tm "ts32 (c_tmstamp s + 1)"] opened g
      by (simp add: word_neq_0_conv geometry_def c)
    then have "unat (pkt_idx pkt s') < a_total_pkts s'"
      using g' by (simp add: pkt_idx_nat [OF g'] tm less_mult_imp_div_less)
    moreover have "ra_inv seen s'" using opened g' by (simp add: ra_inv_def open_frame_ok_def)
    ultimately show ?thesis using opened by simp
  qed (simp add: ok)
qed

lemma frame_notify_pool:
  assumes inv: "ra_inv seen s" and cur: "a_cur_frame s = Some i"
  obtains s' w' out where "rx_audio_session_frame_notify notify s w = Some (s', w', out)"
    "geometry s'" "a_cur_frame s' = None" "audio_config s' = audio_config s" "\<forall>d \<in> set out. delivery_ok seen s d"
    "pool_run notify seen s (pool_of s w) (pool_of s' w')"
proof -
  have i: "i < length (a_frames s)" using inv cur by (simp add: ra_inv_def open_frame_ok_def)
  show ?thesis
  proof (rule frame_notify_effect [OF inv cur, of notify w], goal_cases)
    case (1 s')
    then obtain data where data: "datas s' = (datas s)[i := data]" by blast
    have "pool_step notify addrs ok (Some i, refs s, ds, w) (None, (refs s)[i := refs s ! i - 1], ds, w)" for ds addrs ok
      by (rule pool_discard) (simp add: i)
    then have "pool_run notify seen s (Some i, refs s, datas s, w) (None, (refs s)[i := refs s ! i - 1], (datas s)[i := data], w)"
      by (meson converse_rtranclp_into_rtranclp r_into_rtranclp pool_write)
    then show ?case using 1 cur data by (intro that [of s' w "[]"]) simp_all
  next
    case (2 s' w' d)
    have "pool_step notify (map fr_addr (a_frames s)) (offer_ok seen s) (Some i, refs s, (datas s)[i := d_data d], w)
        (None, if d_taken d then refs s else (refs s)[i := refs s ! i - 1], (datas s)[i := d_data d], w')"
      by (rule pool_offer [of _ _ _ _ "d_meta d"]) (use i 2 in \<open>simp_all add: delivery_ok_def\<close>)
    then have "pool_run notify seen s (Some i, refs s, datas s, w)
        (None, if d_taken d then refs s else (refs s)[i := refs s ! i - 1], (datas s)[i := d_data d], w')"
      by (meson converse_rtranclp_into_rtranclp r_into_rtranclp pool_write)
    then show ?case using 2 cur by (intro that [of s' w' "[d]"]) simp_all
  qed
qed

lemma store_pool:
  assumes inv: "ra_inv seen s" and cur: "a_cur_frame s = Some i" and pkt: "pkt \<in> seen"
    and len: "length (pk_payload pkt) = unat (a_pkt_len s)" and idx: "unat (pkt_idx pkt s) < a_total_pkts s"
  obtains r s' w' out where "rx_audio_store notify (pkt_idx pkt s) pkt s w = Some (r, s', w', out)"
    "ra_inv seen s'" "audio_config s' = audio_config s" "\<forall>d \<in> set out. delivery_ok seen s d"
    "pool_run notify seen s (pool_of s w) (pool_of s' w')"
proof (rule store_effect [OF assms, of notify w], goal_cases)
  case 1
  define s' where "s' = s\<lparr>c_pkts_redundant := c_pkts_redundant s + 1\<rparr>"
  have v: "frame_view s' = frame_view s" "c_tmstamp s' = c_tmstamp s" by (simp_all add: s'_def frame_view_def)
  show ?case
    by (rule that [of "Inr ()" s' w "[]"]) (use 1 inv v view_geometry [OF v(1)] view_open [OF v] view_config [OF v(1)]
        in \<open>simp_all add: s'_def [symmetric] ra_inv_def, simp_all add: s'_def\<close>)
next
  case (2 s')
  note cs = config_eqs(9) [OF 2(6)] config_bytes [OF 2(6)]
  obtain data where "datas s' = (datas s)[i := data]" using 2(11) by blast
  then have wrote: "pool_run notify seen s (pool_of s w) (pool_of s' w)"
    using pool_write [of notify "map fr_addr (a_frames s)" "offer_ok seen s" i "refs s" "datas s" w data] 2(5,7) cur by (simp add: r_into_rtranclp)
  show ?case
  proof (cases "a_frame_recv_size s' \<ge> a_frame_size s'")
    case False
    then show ?thesis using 2 cur wrote by (intro that [of "Inr ()" s' w "[]"]) simp_all
  next
    case True
    obtain s2 w' out where n: "rx_audio_session_frame_notify notify s' w = Some (s2, w', out)"
      "geometry s2" "a_cur_frame s2 = None" "audio_config s2 = audio_config s'" "\<forall>d \<in> set out. delivery_ok seen s' d"
      "pool_run notify seen s' (pool_of s' w) (pool_of s2 w')"
      by (rule frame_notify_pool [OF 2(4,5), of notify w])
    show ?thesis
      by (rule that [of "Inr ()" s2 w' out])
        (use 2 n True rtranclp_trans [OF wrote n(6) [unfolded cs]] config_delivery [OF 2(6)] in \<open>simp_all add: ra_inv_def open_frame_ok_def\<close>)
  qed
qed

section \<open>Packets\<close>

text \<open>A packet whose length fields are those of its payload.\<close>

definition pkt_ok :: "rtp_in \<Rightarrow> bool" where
  "pkt_ok pkt \<longleftrightarrow> 54 \<le> unat (pk_data_len pkt) \<and> length (pk_payload pkt) = unat (pk_data_len pkt) - 54"

lemma pkt_ok_len:
  assumes "pkt_ok pkt" and "ucast (pk_data_len pkt) - st_rfc3550_audio_hdr_size = n"
  shows "length (pk_payload pkt) = unat n"
proof -
  have u: "unat (ucast (pk_data_len pkt) :: u32) = unat (pk_data_len pkt)" by (simp add: unat_ucast_up)
  have "54 \<le> (ucast (pk_data_len pkt) :: u32)" using assms(1) by (simp add: pkt_ok_def word_le_nat_alt u)
  then have "unat (ucast (pk_data_len pkt) - 54 :: u32) = unat (pk_data_len pkt) - 54"
    by (simp add: unat_sub u)
  then show ?thesis using assms by (simp add: pkt_ok_def)
qed

lemma accept_inv:
  assumes "ra_inv seen s" and "rx_audio_accept p pkt s = (r, s')"
  shows "ra_inv seen s'" "audio_config s' = audio_config s" "pool_of s' w = pool_of s w"
proof -
  note v = view_accept [OF assms(2)]
  have "open_frame_ok seen s'"
  proof (cases "a_cur_frame s")
    case None
    then show ?thesis using v(1) by (simp add: frame_view_def open_frame_ok_def)
  next
    case (Some i)
    then have "c_tmstamp s = uint (a_first_pkt_rtp_ts s - 1)" using assms(1) by (simp add: ra_inv_def open_frame_ok_def)
    then have "c_tmstamp s \<noteq> -1" using uint_ge_0 [of "a_first_pkt_rtp_ts s - 1"] by linarith
    then show ?thesis using view_open [OF v(1)] v(2) assms(1) by (simp add: ra_inv_def)
  qed
  then show "ra_inv seen s'" using view_geometry [OF v(1)] assms(1) by (simp add: ra_inv_def)
  show "audio_config s' = audio_config s" using view_config [OF v(1)] .
  show "pool_of s' w = pool_of s w" using v(1) by (simp add: frame_view_def)
qed

text \<open>What a step of the handler must give: a result, a good state, correct deliveries, and a run of the
  abstract pool.\<close>

definition good_result ::
    "('w \<Rightarrow> nat \<Rightarrow> st30_rx_frame_meta \<Rightarrow> bool \<times> 'w) \<Rightarrow> rtp_in set \<Rightarrow> rx_audio \<Rightarrow> 'w \<Rightarrow>
      (unit res \<times> rx_audio \<times> 'w \<times> audio_delivery list) option \<Rightarrow> bool" where
  "good_result notify seen s w res \<longleftrightarrow> (\<exists>r s' w' out. res = Some (r, s', w', out) \<and> ra_inv seen s' \<and>
     audio_config s' = audio_config s \<and> (\<forall>d \<in> set out. delivery_ok seen s d) \<and>
     pool_run notify seen s (pool_of s w) (pool_of s' w'))"

lemma config_run:
  assumes "audio_config s' = audio_config s"
  shows "pool_run notify seen s' = pool_run notify seen s"
  unfolding config_eqs(9) [OF assms] config_bytes [OF assms] ..

lemma good_result_after:
  assumes "good_result notify seen s1 w1 res" and c: "audio_config s1 = audio_config s"
    and "pool_run notify seen s (pool_of s w) (pool_of s1 w1)"
    and "\<forall>d \<in> set out0. delivery_ok seen s d"
  shows "good_result notify seen s w (map_option (\<lambda>(r, s', w', out). (r, s', w', out0 @ out)) res)"
proof -
  obtain r s' w' out where g: "res = Some (r, s', w', out)" "ra_inv seen s'" "audio_config s' = audio_config s"
      "\<forall>d \<in> set out. delivery_ok seen s d" "pool_run notify seen s (pool_of s1 w1) (pool_of s' w')"
    using assms(1) unfolding good_result_def c config_delivery [OF c] config_run [OF c] by blast
  show ?thesis unfolding good_result_def using g(1-4) assms(4) rtranclp_trans [OF assms(3) g(5)] by auto
qed

lemma good_store:
  assumes "ra_inv seen s" "a_cur_frame s \<noteq> None" "pkt \<in> seen" "length (pk_payload pkt) = unat (a_pkt_len s)"
    "unat (pkt_idx pkt s) < a_total_pkts s"
  shows "good_result notify seen s w (rx_audio_store notify (pkt_idx pkt s) pkt s w)"
proof -
  obtain i where i: "a_cur_frame s = Some i" using assms(2) by auto
  show ?thesis unfolding good_result_def
    by (rule store_pool [OF assms(1) i assms(3-5), of notify w]) blast
qed

text \<open>A frame is opened for the packet and takes it.\<close>

definition open_and_store ::
    "('w \<Rightarrow> nat \<Rightarrow> st30_rx_frame_meta \<Rightarrow> bool \<times> 'w) \<Rightarrow> nat \<Rightarrow> rtp_in \<Rightarrow> rx_audio \<Rightarrow> 'w \<Rightarrow>
      (unit res \<times> rx_audio \<times> 'w \<times> audio_delivery list) option" where
  "open_and_store notify p pkt s w = (case rx_audio_session_open_frame p (pk_tmstamp pkt) (pk_rx_time pkt) s of
     (Inl e, s) \<Rightarrow> Some (Inl e, s, w, [])
   | (Inr _, s) \<Rightarrow> rx_audio_store notify (pkt_idx pkt s) pkt s w)"

lemma good_open_and_store:
  assumes g: "geometry s" and cur: "a_cur_frame s = None" and pkt: "pkt \<in> seen"
    and len: "length (pk_payload pkt) = unat (a_pkt_len s)"
  shows "good_result notify seen s w (open_and_store notify p pkt s w)"
proof -
  obtain r s1 where op: "rx_audio_session_open_frame p (pk_tmstamp pkt) (pk_rx_time pkt) s = (r, s1)" by fastforce
  note o1 = open_frame_pool [OF g cur op]
  note c = config_eqs [OF o1(2)]
  show ?thesis
  proof (cases "r = Inr ()")
    case True
    note o2 = o1(4) [OF True refl, of seen]
    have "good_result notify seen s1 w (rx_audio_store notify (pkt_idx pkt s1) pkt s1 w)"
      by (rule good_store) (use o2 pkt len in \<open>simp_all add: c\<close>)
    from good_result_after [OF this o1(2,3), of "[]"] show ?thesis
      using True by (simp add: open_and_store_def op option.map_id)
  next
    case False
    then obtain e where e: "r = Inl e" by (cases r) auto
    have "a_cur_frame s1 = None" by (rule open_frame_effect [OF g op]) (simp_all add: e)
    then have "ra_inv seen s1" using o1(1) by (simp add: ra_inv_def open_frame_ok_def)
    then show ?thesis using o1(2,3) by (simp add: open_and_store_def op e good_result_def)
  qed
qed

text \<open>An accepted packet: it opens a frame, goes into the open one, or closes it and opens the next.\<close>

lemma handle_frame_pkt_cases:
  assumes acc: "rx_audio_accept p pkt s = (Inr (), s1)" and inv: "ra_inv seen s1"
  shows "rx_audio_session_handle_frame_pkt notify p pkt s w =
    (if a_cur_frame s1 = None then open_and_store notify p pkt s1 w
     else if unat (pkt_idx pkt s1) < a_total_pkts s1 then rx_audio_store notify (pkt_idx pkt s1) pkt s1 w
     else do {
       (s2, w2, out) \<leftarrow> rx_audio_session_frame_notify notify s1 w;
       map_option (\<lambda>(r, s', w', out'). (r, s', w', out @ out')) (open_and_store notify p pkt s2 w2)
     })"
proof (cases "a_cur_frame s1")
  case None
  obtain r s2 where op: "rx_audio_session_open_frame p (pk_tmstamp pkt) (pk_rx_time pkt) s1 = (r, s2)" by fastforce
  have g: "geometry s1" using inv by (simp add: ra_inv_def)
  have "r = Inr () \<Longrightarrow> unat (pkt_idx pkt s2) < a_total_pkts s2"
    using open_frame_pool(4) [OF g None op, of pkt seen] by blast
  then show ?thesis using None acc op
    by (auto simp: rx_audio_session_handle_frame_pkt_def open_and_store_def not_less split: sum.splits)
next
  case (Some i)
  then show ?thesis using acc
    by (cases "rx_audio_session_frame_notify notify s1 w")
      (auto simp: rx_audio_session_handle_frame_pkt_def open_and_store_def not_less map_conv_bind_option comp_def case_prod_unfold
        split: sum.splits)
qed

lemma good_handle_frame_pkt:
  assumes inv: "ra_inv seen s" and ok: "pkt_ok pkt" and pkt: "pkt \<in> seen"
  shows "good_result notify seen s w (rx_audio_session_handle_frame_pkt notify p pkt s w)"
proof -
  obtain r1 s1 where acc: "rx_audio_accept p pkt s = (r1, s1)" by fastforce
  note a = accept_inv [OF inv acc]
  note c = config_eqs [OF a(2)]
  have same: "pool_run notify seen s (pool_of s w) (pool_of s1 w)"
    unfolding a(3) [of w] ..
  show ?thesis
  proof (cases r1)
    case (Inl e)
    then have "rx_audio_session_handle_frame_pkt notify p pkt s w = Some (Inl e, s1, w, [])"
      using acc by (simp add: rx_audio_session_handle_frame_pkt_def)
    then show ?thesis unfolding good_result_def using a(1,2) same by simp
  next
    case (Inr u)
    then have acc: "rx_audio_accept p pkt s = (Inr (), s1)" using acc by simp
    have len: "length (pk_payload pkt) = unat (a_pkt_len s1)"
      using pkt_ok_len [OF ok] view_accept(3) [OF acc] by (simp add: c)
    have g: "geometry s1" using a(1) by (simp add: ra_inv_def)
    consider (fresh) "a_cur_frame s1 = None"
      | (inside) i where "a_cur_frame s1 = Some i" "unat (pkt_idx pkt s1) < a_total_pkts s1"
      | (outside) i where "a_cur_frame s1 = Some i" "\<not> unat (pkt_idx pkt s1) < a_total_pkts s1" by blast
    then have "good_result notify seen s1 w (rx_audio_session_handle_frame_pkt notify p pkt s w)"
    proof cases
      case fresh
      then show ?thesis using good_open_and_store [OF g fresh pkt len] by (simp add: handle_frame_pkt_cases [OF acc a(1)])
    next
      case inside
      then show ?thesis using good_store [OF a(1) _ pkt len] by (simp add: handle_frame_pkt_cases [OF acc a(1)])
    next
      case (outside i)
      obtain s2 w2 out where n: "rx_audio_session_frame_notify notify s1 w = Some (s2, w2, out)"
        "geometry s2" "a_cur_frame s2 = None" "audio_config s2 = audio_config s1" "\<forall>d \<in> set out. delivery_ok seen s1 d"
        "pool_run notify seen s1 (pool_of s1 w) (pool_of s2 w2)"
        by (rule frame_notify_pool [OF a(1) outside(1), of notify w])
      have len2: "length (pk_payload pkt) = unat (a_pkt_len s2)" using len config_eqs(1) [OF n(4)] by simp
      show ?thesis
        using good_result_after [OF good_open_and_store [OF n(2,3) pkt len2] n(4,6,5)] outside
        by (simp add: handle_frame_pkt_cases [OF acc a(1)] n(1))
    qed
    from good_result_after [OF this a(2) same, of "[]"] show ?thesis by (simp add: option.map_id)
  qed
qed

lemma good_resultE:
  assumes "good_result notify seen s w res"
  obtains r s' w' out where "res = Some (r, s', w', out)" "ra_inv seen s'" "audio_config s' = audio_config s"
    "\<forall>d \<in> set out. delivery_ok seen s d" "pool_run notify seen s (pool_of s w) (pool_of s' w')"
  using assms unfolding good_result_def by blast

text \<open>What only counts: errors and simulated losses.\<close>

lemma counting_keeps:
  assumes "frame_view s' = frame_view s" and "c_tmstamp s' = c_tmstamp s"
  shows "ra_inv seen s' = ra_inv seen s" "audio_config s' = audio_config s" "pool_of s' w = pool_of s w"
  using view_geometry [OF assms(1)] view_open [OF assms] view_config [OF assms(1)] assms(1)
  by (simp_all add: ra_inv_def frame_view_def)

lemma count_err_view: "frame_view (count_err p rc s) = frame_view s" "c_tmstamp (count_err p rc s) = c_tmstamp s"
  by (simp_all add: count_err_def)

lemma loss_view: "frame_view (snd (ra_simulate_pkt_loss hit rnd s)) = frame_view s"
  "c_tmstamp (snd (ra_simulate_pkt_loss hit rnd s)) = c_tmstamp s"
  by (simp_all add: ra_simulate_pkt_loss_def frame_view_def Let_def)

text \<open>A burst of packets.\<close>

lemma good_burst:
  fixes notify :: "'w \<Rightarrow> nat \<Rightarrow> st30_rx_frame_meta \<Rightarrow> bool \<times> 'w"
  assumes "ra_inv seen s" and "a_type s = ST30_TYPE_FRAME_LEVEL" and "\<forall>(pkt, _) \<in> set pkts. pkt_ok pkt \<and> pkt \<in> seen"
  shows "\<exists>s' w' out. rx_audio_burst notify p pkts s w = Some (s', w', out, []) \<and> ra_inv seen s' \<and>
    audio_config s' = audio_config s \<and> (\<forall>d \<in> set out. delivery_ok seen s d) \<and>
    pool_run notify seen s (pool_of s w) (pool_of s' w')"
  using assms
proof (induction pkts arbitrary: s w)
  case (Cons q pkts)
  obtain pkt hit rnd where q: "q = (pkt, hit, rnd)" by (cases q) auto
  obtain lost s1 where l: "(if has_flag (a_flags s) ST30_RX_FLAG_SIMULATE_PKT_LOSS then ra_simulate_pkt_loss hit rnd s
      else (False, s)) = (lost, s1)" by fastforce
  have v1: "frame_view s1 = frame_view s" "c_tmstamp s1 = c_tmstamp s"
    using l loss_view [of hit rnd s] by (auto split: if_splits)
  note k1 = counting_keeps [OF v1]
  note c1 = config_eqs [OF k1(2)]
  have inv1: "ra_inv seen s1" "a_type s1 = ST30_TYPE_FRAME_LEVEL" using Cons.prems k1 c1 by simp_all
  have rest: "\<forall>(pkt, _) \<in> set pkts. pkt_ok pkt \<and> pkt \<in> seen" using Cons.prems(3) by simp
  show ?case
  proof (cases lost)
    case True
    then have "rx_audio_burst notify p (q # pkts) s w = rx_audio_burst notify p pkts s1 w" using l by (simp add: q)
    then show ?thesis using Cons.IH [OF inv1 rest, of w] unfolding config_run [OF k1(2)] config_delivery [OF k1(2)] k1(2,3) by simp
  next
    case False
    have "good_result notify seen s1 w (rx_audio_session_handle_frame_pkt notify p pkt s1 w)"
      by (rule good_handle_frame_pkt [OF inv1(1)]) (use Cons.prems(3) q in auto)
    then obtain r s2 w2 out where h: "rx_audio_session_handle_frame_pkt notify p pkt s1 w = Some (r, s2, w2, out)"
      "ra_inv seen s2" "audio_config s2 = audio_config s1" "\<forall>d \<in> set out. delivery_ok seen s1 d"
      "pool_run notify seen s1 (pool_of s1 w) (pool_of s2 w2)" by (rule good_resultE)
    note k2 = counting_keeps [OF count_err_view [of p r s2]]
    have c2: "audio_config (count_err p r s2) = audio_config s" using k2(2) h(3) k1(2) by simp
    note c2' = config_eqs [OF c2]
    obtain s3 w3 out3 where b: "rx_audio_burst notify p pkts (count_err p r s2) w2 = Some (s3, w3, out3, [])" "ra_inv seen s3"
      "audio_config s3 = audio_config s" "\<forall>d \<in> set out3. delivery_ok seen s d"
      "pool_run notify seen s (pool_of s2 w2) (pool_of s3 w3)"
      using Cons.IH [of "count_err p r s2" w2] rest h(2) inv1(2) Cons.prems(2)
      unfolding config_run [OF c2] config_delivery [OF c2] k2(1,3) c2 c2'(10) by blast
    have "rx_audio_burst notify p (q # pkts) s w = Some (s3, w3, out @ out3, [])"
      using l False inv1(2) h(1) b(1) by (simp add: q)
    moreover have "pool_run notify seen s (pool_of s w) (pool_of s3 w3)"
      using h(5) b(5) unfolding k1(3) config_run [OF k1(2)] by (rule rtranclp_trans)
    moreover have "\<forall>d \<in> set (out @ out3). delivery_ok seen s d"
      using h(4) b(4) config_delivery [OF k1(2)] by auto
    ultimately show ?thesis using b(2,3) by blast
  qed
qed simp

section \<open>Attached sessions\<close>

lemma packet_size_parts:
  assumes "st30_get_packet_size fmt ptime sampling channel = Inr n"
  obtains sz num where "st30_get_sample_size fmt = Inr (int sz)" "n = int (sz * num * unat channel)" "0 < sz" "4 \<le> num" "0 < unat channel"
proof -
  have ch: "channel \<noteq> 0" using assms by (auto simp: st30_get_packet_size_def split: sum.splits if_splits)
  obtain x num where p: "st30_get_sample_size fmt = Inr x" "st30_get_sample_num ptime sampling = Inr num" "n = x * num * int (unat channel)"
    using assms by (auto simp: st30_get_packet_size_def split: sum.splits if_splits)
  have x: "0 < x" using p(1) by (auto simp: st30_get_sample_size_def split: st30_fmt.splits)
  have num: "4 \<le> num" using p(2) by (cases sampling; cases ptime) (auto simp: st30_get_sample_num_def)
  show ?thesis
    by (rule that [of "nat x" "nat num"]) (use p x num ch in \<open>simp_all add: unat_gt_0\<close>)
qed

lemma reset_geometry: "geometry (rx_audio_session_reset s) = geometry s"
  by (simp add: rx_audio_session_reset_def geometry_def)

text \<open>Attaching yields the geometry: the sizes of the frame, the packets and the grid fit together.\<close>

lemma attach_sizes:
  assumes p: "st30_get_packet_size fmt ptime sampling channel = Inr n" and d: "unat (fb :: u32) mod nat n = 0" and fb: "fb \<noteq> 0"
    and small: "n \<le> audio_bytes_in_pkt"
  defines "per \<equiv> (case st30_get_sample_size fmt of Inl _ \<Rightarrow> 0 | Inr n \<Rightarrow> nat n) * unat channel"
  shows "unat (of_nat (nat n) :: u32) = nat n" "0 < nat n" "0 < unat fb div nat n" "unat fb div nat n < 2 ^ 31"
    "unat fb = (unat fb div nat n) * nat n" "0 < unat (of_nat (nat n div per) :: u32)"
    "unat (of_nat (unat fb div per) :: u32) = unat fb div nat n * unat (of_nat (nat n div per) :: u32)"
proof -
  obtain sz num where s: "st30_get_sample_size fmt = Inr (int sz)" "n = int (sz * num * unat channel)" "0 < sz" "4 \<le> num" "0 < unat channel"
    using packet_size_parts [OF p] by blast
  define t where "t = unat fb div nat n"
  have n: "nat n = num * per" "0 < per" using s by (simp_all add: per_def nat_mult_distrib)
  have small: "nat n < 2 ^ 32" using small by simp
  show un: "unat (of_nat (nat n) :: u32) = nat n" using small by (simp add: unat_of_nat)
  have n4: "4 \<le> nat n" using n s(4) mult_le_mono [of 4 num 1 per] by simp
  then show "0 < nat n" by simp
  show "unat fb = (unat fb div nat n) * nat n" using d by (metis add.right_neutral div_mult_mod_eq)
  then have fbt: "unat fb = t * nat n" by (simp only: t_def)
  have "0 < unat fb" using fb by (simp add: unat_gt_0)
  then show "0 < unat fb div nat n" unfolding t_def [symmetric] fbt by simp
  have fb32: "unat fb < 2 ^ 32" using unsigned_less [of fb, where ?'a = nat] by simp
  have "unat fb div nat n \<le> unat fb div 4" using n4 by (rule div_le_mono2 [rotated]) simp
  then show "unat fb div nat n < 2 ^ 31" using fb32 by simp
  have spp: "nat n div per = num" using n by simp
  have "num \<le> nat n" using n by simp
  then have u: "unat (of_nat num :: u32) = num" using small by (simp add: unat_of_nat)
  show "0 < unat (of_nat (nat n div per) :: u32)" using u s(4) by (simp add: spp)
  have "unat fb div per = unat fb div nat n * num"
    unfolding t_def [symmetric] fbt n(1) using n(2) by (simp add: mult.assoc [symmetric])
  moreover have "unat fb div per < 2 ^ 32" using fb32 div_le_dividend [of "unat fb" per] by linarith
  then have "unat (of_nat (unat fb div per) :: u32) = unat fb div per" by (simp add: unat_of_nat)
  ultimately show "unat (of_nat (unat fb div per) :: u32) = unat fb div nat n * unat (of_nat (nat n div per) :: u32)"
    unfolding spp u by simp
qed

lemma attach_inv:
  assumes att: "rx_audio_session_attach pm hw addrs mc ops s = Inr s'"
    and ops: "o_type ops = ST30_TYPE_FRAME_LEVEL" "o_framebuff_size ops \<noteq> 0"
  shows "ra_inv {} s'" "a_cur_frame s' = None" "a_attached s'" "a_type s' = ST30_TYPE_FRAME_LEVEL"
    "refs s' = replicate (unat (o_framebuff_cnt ops)) 0" "a_flags s' = o_flags ops"
    "\<exists>addr. addrs = Some addr \<and> map fr_addr (a_frames s') = map addr [0..<unat (o_framebuff_cnt ops)]"
proof -
  obtain n where p: "st30_get_packet_size (o_fmt ops) (o_ptime ops) (o_sampling ops) (o_channel ops) = Inr n"
      and small: "n \<le> audio_bytes_in_pkt" and d: "unat (o_framebuff_size ops) mod nat n = 0"
    using att by (auto simp: rx_audio_session_attach_def split: sum.splits if_splits)
  note z = attach_sizes [OF p d ops(2) small]
  define per where "per = (case st30_get_sample_size (o_fmt ops) of Inl _ \<Rightarrow> 0 | Inr n \<Rightarrow> nat n) * unat (o_channel ops)"
  define s0 where "s0 = s\<lparr>c_num_port := o_num_port ops, c_payload_type := o_payload_type ops, c_ssrc := o_ssrc ops,
    a_type := o_type ops, a_flags := o_flags ops, a_fmt := o_fmt ops, a_sampling := o_sampling ops,
    a_channel := o_channel ops, a_pkt_len := of_nat (nat n),
    a_total_pkts := unat (o_framebuff_size ops) div nat n, a_frame_size := unat (o_framebuff_size ops),
    a_rtp_ticks_per_frame := of_nat (unat (o_framebuff_size ops) div per), a_samples_per_pkt := of_nat (nat n div per)\<rparr>"
  define s1 where "s1 = (if has_flag (o_flags ops) ST30_RX_FLAG_SIMULATE_PKT_LOSS
    then (rx_audio_session_reset s0)\<lparr>a_burst_loss_max := 1\<rparr> else rx_audio_session_reset s0)"
  obtain addr where a: "addrs = Some addr"
      "s' = (rx_audio_session_alloc_frames addr (unat (o_framebuff_cnt ops)) s1)\<lparr>a_attached := True\<rparr>"
    using att p small d ops(1)
    by (auto simp: rx_audio_session_attach_def Let_def per_def s0_def s1_def
        split: sum.splits if_splits option.splits)
  have e: "a_total_pkts s1 = a_total_pkts s0" "a_frame_size s1 = a_frame_size s0" "a_pkt_len s1 = a_pkt_len s0"
    "a_samples_per_pkt s1 = a_samples_per_pkt s0" "a_rtp_ticks_per_frame s1 = a_rtp_ticks_per_frame s0" "a_cur_frame s1 = None"
    "a_type s1 = a_type s0" "a_flags s1 = a_flags s0" by (simp_all add: s1_def rx_audio_session_reset_def)
  show "a_cur_frame s' = None" "a_attached s'" "a_type s' = ST30_TYPE_FRAME_LEVEL" "a_flags s' = o_flags ops"
    "refs s' = replicate (unat (o_framebuff_cnt ops)) 0"
    "\<exists>addr. addrs = Some addr \<and> map fr_addr (a_frames s') = map addr [0..<unat (o_framebuff_cnt ops)]"
    using ops(1) by (simp_all add: a rx_audio_session_alloc_frames_def Let_def e s0_def map_replicate_const comp_def)
  moreover have "geometry s'"
    using z(1-4,6,7) z(5) [symmetric] unfolding per_def [symmetric]
    by (simp add: a geometry_def rx_audio_session_alloc_frames_def Let_def e s0_def)
  ultimately show "ra_inv {} s'" by (simp add: ra_inv_def open_frame_ok_def)
qed

end
