(* ===== verification/Rx_Audio_Run.thy ===== *)
theory Rx_Audio_Run
  imports Rx_Audio_Laws
begin

text \<open>
  Runs of the audio receive session: bursts of packets on its ports, interleaved with the buffers the
  application gives back.
\<close>

section \<open>Runs\<close>

datatype audio_event = Burst nat "(rtp_in \<times> bool \<times> u64) list" | Put_framebuff nat

fun audio_run ::
    "('w \<Rightarrow> nat \<Rightarrow> st30_rx_frame_meta \<Rightarrow> bool \<times> 'w) \<Rightarrow> audio_event list \<Rightarrow> rx_audio \<Rightarrow> 'w \<Rightarrow>
      (rx_audio \<times> 'w \<times> audio_delivery list) option" where
  "audio_run notify [] s w = Some (s, w, [])"
| "audio_run notify (Burst p pkts # evs) s w = do {
     (_, s, w, out, _) \<leftarrow> rx_audio_session_handle_mbuf notify p pkts s w;
     (s, w, out2) \<leftarrow> audio_run notify evs s w;
     Some (s, w, out @ out2)
   }"
| "audio_run notify (Put_framebuff addr # evs) s w = audio_run notify evs (snd (st30_rx_put_framebuff addr s)) w"

fun packets_of :: "audio_event list \<Rightarrow> rtp_in set" where
  "packets_of [] = {}"
| "packets_of (Burst p pkts # evs) = fst ` set pkts \<union> packets_of evs"
| "packets_of (Put_framebuff addr # evs) = packets_of evs"

lemma put_frame_keeps:
  defines "s' i s \<equiv> snd (rx_audio_session_put_frame i s)"
  assumes "ra_inv seen s"
  shows "ra_inv seen (s' i s)" "audio_config (s' i s) = audio_config s"
proof -
  define f where "f = (\<lambda>f :: st_frame_trans. f\<lparr>fr_refcnt := fr_refcnt f - 1\<rparr>)"
  have s': "s' i s = upd_trans i f s" by (simp add: s'_def rx_audio_session_put_frame_def f_def)
  show "audio_config (s' i s) = audio_config s" unfolding s' by (rule upd_trans_keeps) (simp add: f_def)
  have g: "geometry (s' i s)" unfolding s' by (rule upd_trans_geometry) (use assms in \<open>simp_all add: f_def ra_inv_def\<close>)
  have "fr_data (a_frames (s' i s) ! j) = fr_data (a_frames s ! j)" if "j < length (a_frames s)" for j
    unfolding s' using that by (cases "i = j") (simp_all add: upd_trans_def f_def)
  then have "open_frame_ok seen (s' i s)"
    using assms(2) by (cases "a_cur_frame s") (simp_all add: s' upd_trans_def ra_inv_def open_frame_ok_def)
  then show "ra_inv seen (s' i s)" using g by (simp add: ra_inv_def)
qed

lemma put_framebuff_keeps:
  assumes "ra_inv seen s"
  shows "ra_inv seen (snd (st30_rx_put_framebuff addr s))" "audio_config (snd (st30_rx_put_framebuff addr s)) = audio_config s"
  using put_frame_keeps [OF assms] assms by (simp_all add: st30_rx_put_framebuff_def split: option.splits)

lemma good_run:
  assumes "ra_inv seen s" and "a_attached s" and "a_type s = ST30_TYPE_FRAME_LEVEL"
    and "packets_of evs \<subseteq> seen" and "\<forall>pkt \<in> packets_of evs. pkt_ok pkt"
  shows "\<exists>s' w' out. audio_run notify evs s w = Some (s', w', out) \<and> ra_inv seen s' \<and>
    audio_config s' = audio_config s \<and> (\<forall>d \<in> set out. delivery_ok seen s d)"
  using assms
proof (induction evs arbitrary: s w)
  case (Cons ev evs)
  show ?case
  proof (cases ev)
    case (Burst p pkts)
    have ok: "\<forall>(pkt, _) \<in> set pkts. pkt_ok pkt \<and> pkt \<in> seen" using Cons.prems(4,5) Burst by force
    obtain s1 w1 out where b: "rx_audio_burst notify p pkts s w = Some (s1, w1, out, [])" "ra_inv seen s1"
        "audio_config s1 = audio_config s" "\<forall>d \<in> set out. delivery_ok seen s d"
      using good_burst [OF Cons.prems(1,3) ok, where notify = notify and p = p and w = w] by blast
    note c = config_eqs [OF b(3)]
    obtain s2 w2 out2 where "audio_run notify evs s1 w1 = Some (s2, w2, out2)" "ra_inv seen s2"
        "audio_config s2 = audio_config s" "\<forall>d \<in> set out2. delivery_ok seen s d"
      using Cons.IH [OF b(2), of w1] Cons.prems Burst by (auto simp: c b(3) config_delivery [OF b(3)])
    then show ?thesis using b Cons.prems(2) Burst by (auto simp: rx_audio_session_handle_mbuf_def)
  next
    case (Put_framebuff addr)
    note k = put_framebuff_keeps [OF Cons.prems(1), of addr]
    note c = config_eqs [OF k(2)]
    show ?thesis
      using Cons.IH [OF k(1), of w] Cons.prems Put_framebuff by (auto simp: c k(2) config_delivery [OF k(2)])
  qed
qed simp

lemma ops_check_size:
  assumes "rx_audio_ops_check ops = Inr ()" and "o_type ops = ST30_TYPE_FRAME_LEVEL"
  shows "o_framebuff_size ops \<noteq> 0"
  using assms by (auto simp: rx_audio_ops_check_def Let_def split: if_splits)

section \<open>Properties\<close>

text \<open>
  C5. Reassembly. A frame level session whose operations passed the check and that attached takes every
  sequence of bursts and returned buffers without a memory fault, for every application callback, with losses,
  duplicates, reordering and packets of the past on either port. Every frame it delivers has the
  full size, and each of its slots holds the payload of a received packet whose time stamp lies in that slot of
  that frame, or silence, and the latter only in a frame that is marked corrupted and that the application
  asked for.
\<close>

theorem audio_reassembly:
  assumes "rx_audio_ops_check ops = Inr ()" and "o_type ops = ST30_TYPE_FRAME_LEVEL"
    and "rx_audio_session_attach pm hw addrs mc ops s0 = Inr s"
    and "\<forall>pkt \<in> packets_of evs. pkt_ok pkt"
  shows "\<exists>s' w' out. audio_run notify evs s w = Some (s', w', out) \<and> (\<forall>d \<in> set out. delivery_ok (packets_of evs) s d)"
proof -
  note a = attach_inv [OF assms(3,2) ops_check_size [OF assms(1,2)]]
  have "ra_inv (packets_of evs) s" by (rule ra_inv_mono [OF _ a(1)]) simp
  from good_run [OF this a(3,4) subset_refl assms(4), of notify w] show ?thesis by blast
qed

definition audio_blank :: rx_audio where
  "audio_blank = \<lparr>c_num_port = 0, c_payload_type = 0, c_ssrc = 0, c_latest_seq_id = [], c_session_seq_id = 0, c_tmstamp = 0,
     c_redundant_error_cnt = [], c_port = [], c_pkts_received = 0, c_lost_packets = 0, c_pkts_unrecovered = 0,
     c_pkts_wrong_ssrc_dropped = 0, c_pkts_wrong_pt_dropped = 0, c_pkts_redundant = 0, a_attached = False,
     a_type = ST30_TYPE_FRAME_LEVEL, a_flags = 0, a_fmt = ST30_FMT_PCM8, a_sampling = ST30_SAMPLING_48K, a_channel = 0,
     a_frames = [], a_frame_size = 0, a_cur_frame = None, a_pkt_len = 0, a_total_pkts = 0, a_first_pkt_rtp_ts = 0,
     a_first_pkt_ptp_ts = 0, a_frame_recv_size = 0, a_rtp_ticks_per_frame = 0, a_samples_per_pkt = 0, a_frame_bitmap = [],
     a_frame_bitmap_size = 0, a_rtps_room = 0, a_burst_loss_max = 0, a_burst_loss_cnt = 0, a_stat_frames_received = 0,
     a_pkts_len_mismatch_dropped = 0, a_slot_get_frame_fail = 0, a_frames_incomplete = 0\<rparr>"

text \<open>One port, one channel of 8-bit samples, four samples a packet, two packets a frame, two buffers.\<close>

definition small_ops :: st30_rx_ops where
  "small_ops = \<lparr>o_ip_addr = [[239, 0, 0, 1]], o_num_port = 1, o_fmt = ST30_FMT_PCM8, o_channel = 1, o_sampling = ST30_SAMPLING_48K,
     o_ptime = ST31_PTIME_80US, o_type = ST30_TYPE_FRAME_LEVEL, o_payload_type = 97, o_ssrc = 0, o_flags = 0,
     o_framebuff_cnt = 2, o_framebuff_size = 8, o_has_frame_ready = True, o_rtp_ring_size = 0, o_has_rtp_ready = False,
     o_has_timing_result = False\<rparr>"

definition small_session :: rx_audio where
  "small_session = (case rx_audio_session_attach (Inr ()) (Inr ()) (Some (\<lambda>i. 100 + i)) (Inr ()) small_ops audio_blank of
     Inr s \<Rightarrow> s | Inl _ \<Rightarrow> audio_blank)"

definition small_pkt :: "u16 \<Rightarrow> u32 \<Rightarrow> u8 \<Rightarrow> rtp_in" where
  "small_pkt seq tm b = \<lparr>pk_seq = seq, pk_tmstamp = tm, pk_payload_type = 97, pk_ssrc = 0, pk_payload = [b, b, b, b],
     pk_data_len = 58, pk_pkt_len = 58, pk_rx_time = 0\<rparr>"

lemma small_attach: "rx_audio_session_attach (Inr ()) (Inr ()) (Some (\<lambda>i. 100 + i)) (Inr ()) small_ops audio_blank = Inr small_session"
  by (simp add: small_session_def rx_audio_session_attach_def small_ops_def st30_get_packet_size_def st30_get_sample_size_def
      st30_get_sample_num_def Let_def has_flag_def)

lemma small_check: "rx_audio_ops_check small_ops = Inr ()"
  by (simp add: rx_audio_ops_check_def small_ops_def mt_ip_addr_check_def st_is_valid_payload_type_def Let_def)

lemma small_pkt_ok: "pkt_ok (small_pkt seq tm b)" by (simp add: pkt_ok_def small_pkt_def)

theorem audio_reassembly_witness:
  "let evs = [Burst 0 [(small_pkt 9 104 7, False, 0), (small_pkt 8 100 5, False, 0)], Put_framebuff 100] in
   (\<forall>pkt \<in> packets_of evs. pkt_ok pkt) \<and>
   (\<exists>s' w' out. audio_run (\<lambda>w addr meta. (True, w)) evs small_session () = Some (s', w', out) \<and>
      (\<forall>d \<in> set out. delivery_ok (packets_of evs) small_session d))"
  using audio_reassembly [OF small_check _ small_attach,
      of "[Burst 0 [(small_pkt 9 104 7, False, 0), (small_pkt 8 100 5, False, 0)], Put_framebuff 100]" "\<lambda>w addr meta. (True, w)" "()"]
  by (simp add: small_pkt_ok small_ops_def)

section \<open>Complete frames\<close>

text \<open>A packet the filters let through.\<close>

definition header_ok :: "rx_audio \<Rightarrow> rtp_in \<Rightarrow> bool" where
  "header_ok s pkt \<longleftrightarrow> (c_payload_type s = 0 \<or> pk_payload_type pkt = c_payload_type s) \<and> (c_ssrc s = 0 \<or> pk_ssrc pkt = c_ssrc s) \<and>
     ucast (pk_data_len pkt) - st_rfc3550_audio_hdr_size = a_pkt_len s"

lemma accept_fresh:
  assumes "header_ok s pkt" and "mt_seq32_greater (pk_tmstamp pkt) (ts32 (if c_tmstamp s = -1 then uint (pk_tmstamp pkt - 1) else c_tmstamp s))"
  obtains s1 where "rx_audio_accept p pkt s = (Inr (), s1)"
proof -
  obtain s1 where "rx_filter p pkt (rx_port_seq p pkt (rx_first_ids p pkt s)) = (False, s1)"
    using assms(2) by (simp add: rx_filter_def)
  then show ?thesis using assms(1) that [of "rx_session_seq pkt s1"]
    by (auto simp: rx_audio_accept_def rx_check_header_def header_ok_def)
qed

lemma seq_after_base:
  assumes "unat (tm - base) < 2 ^ 31 - 1"
  shows "mt_seq32_greater tm (base - 1)"
proof -
  define d where "d = tm - base"
  have eq: "tm - (base - 1) = d + 1" by (simp add: d_def)
  have u: "unat (d + 1) = Suc (unat d)" using assms by (simp add: d_def [symmetric] unat_word_ariths)
  then have "d + 1 \<noteq> 0" by (metis Zero_not_Suc unsigned_0)
  then show ?thesis unfolding mt_seq32_greater_def Let_def eq bit31_clear using u assms by (simp add: d_def [symmetric])
qed

text \<open>A session that is filling the frame at \<open>base\<close>.\<close>

definition filling :: "rtp_in set \<Rightarrow> u32 \<Rightarrow> rx_audio \<Rightarrow> bool" where
  "filling P base s \<longleftrightarrow> ra_inv P s \<and> a_cur_frame s \<noteq> None \<and> a_first_pkt_rtp_ts s = base"

abbreviation slot_of :: "u32 \<Rightarrow> rx_audio \<Rightarrow> rtp_in \<Rightarrow> nat" where
  "slot_of base s pkt \<equiv> unat (pk_tmstamp pkt - base) div unat (a_samples_per_pkt s)"

text \<open>The packets \<open>P\<close> belong to the frame at \<open>base\<close> and agree on their payloads \<open>pay\<close>.\<close>

definition frame_packets :: "u32 \<Rightarrow> (nat \<Rightarrow> u8 list) \<Rightarrow> rx_audio \<Rightarrow> rtp_in set \<Rightarrow> bool" where
  "frame_packets base pay s P \<longleftrightarrow> (\<forall>pkt \<in> P. header_ok s pkt \<and> pkt_ok pkt \<and>
     unat (pk_tmstamp pkt - base) < unat (a_rtp_ticks_per_frame s) \<and> pk_payload pkt = pay (slot_of base s pkt))"

lemma frame_packets_config:
  assumes "audio_config s' = audio_config s"
  shows "frame_packets base pay s' P = frame_packets base pay s P"
  using config_eqs [OF assms] by (simp add: frame_packets_def header_ok_def)

lemma slot_bytes_concat:
  assumes "length data = m * n" and "\<forall>k < m. slot_bytes n k data = f k"
  shows "data = concat (map f [0..<m])"
  using assms
proof (induction m arbitrary: data)
  case (Suc m)
  have "take (m * n) data = concat (map f [0..<m])"
  proof (rule Suc.IH)
    show "length (take (m * n) data) = m * n" using Suc.prems(1) by simp
    show "\<forall>k < m. slot_bytes n k (take (m * n) data) = f k"
    proof (intro allI impI)
      fix k assume k: "k < m"
      then have "k * n + n \<le> m * n" by (rule slot_room)
      then have "min n (m * n - k * n) = n" by (simp add: min_def)
      then show "slot_bytes n k (take (m * n) data) = f k"
        using Suc.prems(2) k by (simp add: slot_bytes_def drop_take)
    qed
  qed
  moreover have "drop (m * n) data = f m"
    using Suc.prems by (auto simp: slot_bytes_def)
  ultimately show ?case using append_take_drop_id [of "m * n" data] by simp
qed simp

text \<open>The delivery of a full frame.\<close>

definition whole_frame :: "u32 \<Rightarrow> (nat \<Rightarrow> u8 list) \<Rightarrow> rx_audio \<Rightarrow> audio_delivery \<Rightarrow> bool" where
  "whole_frame base pay s d \<longleftrightarrow> rm_status (d_meta d) = ST_FRAME_STATUS_COMPLETE \<and> rm_rtp_timestamp (d_meta d) = base \<and>
     d_data d = concat (map pay [0..<a_total_pkts s])"

lemma fill_store:
  assumes f: "filling P base s" and fp: "frame_packets base pay s P" and pkt: "pkt \<in> P"
  obtains (more) s' where "rx_audio_store notify (pkt_idx pkt s) pkt s w = Some (Inr (), s', w, [])" "filling P base s'"
      "audio_config s' = audio_config s" "arrived s' = insert (int (slot_of base s pkt)) (arrived s)"
      "insert (int (slot_of base s pkt)) (arrived s) = arrived s \<or> arrived s' \<noteq> {0..<int (a_total_pkts s)}"
  | (full) s' w' d where "rx_audio_store notify (pkt_idx pkt s) pkt s w = Some (Inr (), s', w', [d])" "whole_frame base pay s d"
      "insert (int (slot_of base s pkt)) (arrived s) = {0..<int (a_total_pkts s)}"
      "int (slot_of base s pkt) \<notin> arrived s"
proof -
  have inv: "ra_inv P s" and base: "a_first_pkt_rtp_ts s = base" using f by (simp_all add: filling_def)
  obtain i where cur: "a_cur_frame s = Some i" using f by (auto simp: filling_def)
  have g: "geometry s" using inv by (simp add: ra_inv_def)
  have pk: "header_ok s pkt" "pkt_ok pkt" "unat (pk_tmstamp pkt - base) < unat (a_rtp_ticks_per_frame s)"
    using fp pkt by (simp_all add: frame_packets_def)
  have len: "length (pk_payload pkt) = unat (a_pkt_len s)" using pkt_ok_len [OF pk(2)] pk(1) by (simp add: header_ok_def)
  have slot: "unat (pkt_idx pkt s) = slot_of base s pkt" by (simp add: pkt_idx_nat [OF g] base)
  have idx: "unat (pkt_idx pkt s) < a_total_pkts s"
    unfolding slot using pk(3) g by (simp add: geometry_def less_mult_imp_div_less)
  show ?thesis
  proof (rule store_effect [OF inv cur pkt len idx, of notify w], goal_cases)
    case 1
    define s' where "s' = s\<lparr>c_pkts_redundant := c_pkts_redundant s + 1\<rparr>"
    have v: "frame_view s' = frame_view s" "c_tmstamp s' = c_tmstamp s" by (simp_all add: s'_def frame_view_def)
    note k = counting_keeps [OF v]
    show ?thesis
      by (rule more [of s']) (use 1 k f slot in \<open>simp_all add: filling_def s'_def insert_absorb\<close>)
  next
    case (2 s')
    note c = config_eqs [OF 2(5)]
    have sub: "arrived s' \<subseteq> {0..<int (a_total_pkts s')}" and size: "a_frame_recv_size s' = card (arrived s') * unat (a_pkt_len s')"
      and g': "geometry s'" using 2(3,4) by (simp_all add: ra_inv_def open_frame_ok_def)
    have full_iff: "a_frame_recv_size s' \<ge> a_frame_size s' \<longleftrightarrow> arrived s' = {0..<int (a_total_pkts s')}"
      using arrived_card [OF sub] g' by (auto simp: size geometry_def)
    show ?thesis
    proof (cases "a_frame_recv_size s' \<ge> a_frame_size s'")
      case False
      show ?thesis
        by (rule more [of s']) (use 2 False full_iff base slot in \<open>simp_all add: filling_def c\<close>)
    next
      case True
      show ?thesis
      proof (rule frame_notify_effect [OF 2(3,4), of notify w], goal_cases)
        case (1 s2)
        then show ?case using True by simp
      next
        case n: (2 s2 w2 d)
        have st: "rm_status (d_meta d) = ST_FRAME_STATUS_COMPLETE" "rm_rtp_timestamp (d_meta d) = base"
          using n(10) True 2(8) base by (simp_all add: frame_meta_of_def)
        have "slot_bytes (unat (a_pkt_len s)) k (d_data d) = pay k" if "k < a_total_pkts s" for k
          using n(12) fp that st unfolding delivery_ok_def bytes_ok_def Let_def c frame_packets_def from_packet_def by force
        moreover have "length (d_data d) = a_total_pkts s * unat (a_pkt_len s)"
          using n(12) by (simp add: delivery_ok_def bytes_ok_def c Let_def)
        ultimately have "d_data d = concat (map pay [0..<a_total_pkts s])" by (intro slot_bytes_concat [of _ _ "unat (a_pkt_len s)"]) simp_all
        then have "whole_frame base pay s d" using st by (simp add: whole_frame_def)
        then show ?case
          by (intro full [of s2 w2 d]) (use 2 n(1) True full_iff slot in \<open>simp_all add: c\<close>)
      qed
    qed
  qed
qed

lemma uint_not_neg [simp]: "uint (x :: u32) \<noteq> -1" "-1 \<noteq> uint (x :: u32)" using uint_ge_0 [of x] by linarith+

lemma accept_at:
  assumes "header_ok s pkt" and "(if c_tmstamp s = -1 then uint (pk_tmstamp pkt - 1) else c_tmstamp s) = uint (base - 1)"
    and "unat (pk_tmstamp pkt - base) < 2 ^ 31 - 1"
  obtains s1 where "rx_audio_accept p pkt s = (Inr (), s1)" "c_tmstamp s1 = uint (base - 1)"
proof (rule accept_fresh [OF assms(1), of p])
  show "mt_seq32_greater (pk_tmstamp pkt) (ts32 (if c_tmstamp s = -1 then uint (pk_tmstamp pkt - 1) else c_tmstamp s))"
    unfolding assms(2) word_of_int_uint by (rule seq_after_base [OF assms(3)])
  fix s1 assume a: "rx_audio_accept p pkt s = (Inr (), s1)"
  then show thesis using view_accept(2) [OF a] assms(2) by (intro that [of s1]) simp_all
qed

lemma grid_floor_same:
  assumes "unat (tm - base) < unat ticks" and "unat ticks < 2 ^ 31"
  shows "grid_floor ticks base tm = base"
proof -
  have "int (unat (tm - base)) < int (unat ticks)" "int (unat ticks) < int (2 ^ 31)"
    using assms by (simp_all only: of_nat_less_iff)
  then have "uint (tm - base) < uint ticks" "uint ticks < 2 ^ 31" by simp_all
  then have "sint (tm - base) = uint (tm - base)" using sint_small [of "uint (tm - base)"] by simp
  then have "sint (tm - base) div uint ticks = 0" using \<open>uint (tm - base) < uint ticks\<close> by (simp add: div_pos_pos_trivial)
  then show ?thesis unfolding grid_floor_def by simp
qed

text \<open>The first packet opens the frame, the others find it open; either way the packet is stored.\<close>

lemma fill_next:
  assumes f: "filling P base s" and fp: "frame_packets base pay s P" and pkt: "pkt \<in> P"
    and ticks: "unat (a_rtp_ticks_per_frame s) < 2 ^ 31"
  obtains s1 where "rx_audio_session_handle_frame_pkt notify p pkt s w = rx_audio_store notify (pkt_idx pkt s1) pkt s1 w"
    "filling P base s1" "audio_config s1 = audio_config s" "arrived s1 = arrived s"
proof -
  have inv: "ra_inv P s" and base: "a_first_pkt_rtp_ts s = base" and cur: "a_cur_frame s \<noteq> None" using f by (simp_all add: filling_def)
  have tm: "c_tmstamp s = uint (base - 1)" using inv cur base by (auto simp: ra_inv_def open_frame_ok_def)
  have pk: "header_ok s pkt" "unat (pk_tmstamp pkt - base) < unat (a_rtp_ticks_per_frame s)"
    using fp pkt by (simp_all add: frame_packets_def)
  obtain s1 where acc: "rx_audio_accept p pkt s = (Inr (), s1)"
    by (rule accept_at [OF pk(1), of base p]) (use tm pk(2) ticks uint_not_neg in \<open>simp_all\<close>)
  note a = accept_inv [OF inv acc]
  note v = view_accept(1) [OF acc]
  note c = config_eqs [OF a(2)]
  have g: "geometry s1" using a(1) by (simp add: ra_inv_def)
  have f1: "filling P base s1" using a(1) v cur base by (simp add: filling_def frame_view_def)
  have "unat (pkt_idx pkt s1) < a_total_pkts s1"
    using pk(2) g f1 by (simp add: pkt_idx_nat [OF g] filling_def geometry_def c [symmetric] less_mult_imp_div_less)
  then have "rx_audio_session_handle_frame_pkt notify p pkt s w = rx_audio_store notify (pkt_idx pkt s1) pkt s1 w"
    using f1 by (auto simp: handle_frame_pkt_cases [OF acc a(1)] filling_def)
  then show ?thesis by (rule that [OF _ f1 a(2)]) (use v in \<open>simp add: frame_view_def\<close>)
qed

lemma fill_first:
  assumes inv: "ra_inv {} s" and cur: "a_cur_frame s = None" and fp: "frame_packets base pay s P" and pkt: "pkt \<in> P"
    and ticks: "unat (a_rtp_ticks_per_frame s) < 2 ^ 31" and free: "\<exists>f \<in> set (a_frames s). fr_refcnt f = 0"
    and grid: "c_tmstamp s = uint (base - 1) \<or> c_tmstamp s = -1 \<and> pk_tmstamp pkt = base"
  obtains s1 where "rx_audio_session_handle_frame_pkt notify p pkt s w = rx_audio_store notify (pkt_idx pkt s1) pkt s1 w"
    "filling P base s1" "audio_config s1 = audio_config s" "arrived s1 = {}"
proof -
  have pk: "header_ok s pkt" "unat (pk_tmstamp pkt - base) < unat (a_rtp_ticks_per_frame s)"
    using fp pkt by (simp_all add: frame_packets_def)
  have fl: "(if c_tmstamp s = -1 then uint (pk_tmstamp pkt - 1) else c_tmstamp s) = uint (base - 1)"
    using grid uint_not_neg [of "base - 1"] by auto
  obtain s1 where acc: "rx_audio_accept p pkt s = (Inr (), s1)" and tm: "c_tmstamp s1 = uint (base - 1)"
    by (rule accept_at [OF pk(1) fl, of p]) (use pk(2) ticks in simp_all)
  note a = accept_inv [OF inv acc]
  note v = view_accept(1) [OF acc]
  note c = config_eqs [OF a(2)]
  have g: "geometry s1" and cur1: "a_cur_frame s1 = None" and frames: "a_frames s1 = a_frames s"
    using a(1) v cur by (simp_all add: ra_inv_def frame_view_def)
  obtain r s2 where op: "rx_audio_session_open_frame p (pk_tmstamp pkt) (pk_rx_time pkt) s1 = (r, s2)" by fastforce
  show ?thesis
  proof (rule open_frame_effect [OF g op], goal_cases)
    case 1
    then show ?case using free frames by auto
  next
    case (2 i)
    have base: "a_first_pkt_rtp_ts s2 = base"
      using 2(10) pk(2) ticks by (simp add: tm c grid_floor_same)
    have "ra_inv P s2 \<and> a_cur_frame s2 \<noteq> None \<and> unat (pkt_idx pkt s2) < a_total_pkts s2"
      using open_frame_pool(4) [OF g cur1 op 2(1)] by blast
    then show ?thesis
      by (intro that [of s2]) (use 2 op base a(2) cur1 in
          \<open>simp_all add: handle_frame_pkt_cases [OF acc a(1)] open_and_store_def filling_def\<close>)
  qed
qed

text \<open>Packets that arrive one by one, each on its port.\<close>

abbreviation arrivals :: "(nat \<times> rtp_in) list \<Rightarrow> audio_event list" where
  "arrivals qs \<equiv> map (\<lambda>(p, pkt). Burst p [(pkt, False, 0)]) qs"

definition plain_session :: "rx_audio \<Rightarrow> bool" where
  "plain_session s \<longleftrightarrow> a_attached s \<and> a_type s = ST30_TYPE_FRAME_LEVEL \<and> \<not> has_flag (a_flags s) ST30_RX_FLAG_SIMULATE_PKT_LOSS \<and>
     unat (a_rtp_ticks_per_frame s) < 2 ^ 31"

lemma plain_config: "audio_config s' = audio_config s \<Longrightarrow> plain_session s' = plain_session s"
  by (simp add: plain_session_def audio_config_def)

lemma arrivals_step:
  assumes "plain_session s" and "rx_audio_session_handle_frame_pkt notify p pkt s w = Some (Inr (), s1, w1, out)"
  shows "audio_run notify (arrivals ((p, pkt) # qs)) s w =
    map_option (\<lambda>(s, w, out2). (s, w, out @ out2)) (audio_run notify (arrivals qs) s1 w1)"
  using assms by (simp add: plain_session_def rx_audio_session_handle_mbuf_def count_err_def map_conv_bind_option comp_def case_prod_unfold)

definition slots_of :: "u32 \<Rightarrow> rx_audio \<Rightarrow> (nat \<times> rtp_in) list \<Rightarrow> int set" where
  "slots_of base s qs = (\<lambda>(_, pkt). int (slot_of base s pkt)) ` set qs"

lemma slots_of_simps [simp]: "slots_of base s [] = {}"
  "slots_of base s ((p, pkt) # qs) = insert (int (slot_of base s pkt)) (slots_of base s qs)"
  "slots_of base s (qs @ rs) = slots_of base s qs \<union> slots_of base s rs"
  by (auto simp: slots_of_def)

lemma slots_of_config: "audio_config s' = audio_config s \<Longrightarrow> slots_of base s' qs = slots_of base s qs"
  by (simp add: slots_of_def config_eqs(5) [of s' s])

lemma slots_butlast: "slots_of base s (butlast qs) \<subseteq> slots_of base s qs"
  by (auto simp: slots_of_def dest: in_set_butlastD)

text \<open>The state a packet is stored in, before (\<open>s1\<close>) and after; the run that completes the frame.\<close>

lemma fill_run:
  fixes notify :: "'w \<Rightarrow> nat \<Rightarrow> st30_rx_frame_meta \<Rightarrow> bool \<times> 'w"
  assumes h: "rx_audio_session_handle_frame_pkt notify p pkt s w = rx_audio_store notify (pkt_idx pkt s1) pkt s1 w"
    and f: "filling P base s1" and c: "audio_config s1 = audio_config s" and plain: "plain_session s"
    and fp: "frame_packets base pay s P" and pkts: "snd ` set ((p, pkt) # qs) \<subseteq> P"
    and all: "arrived s1 \<union> slots_of base s ((p, pkt) # qs) = {0..<int (a_total_pkts s)}"
    and last: "arrived s1 \<union> slots_of base s (butlast ((p, pkt) # qs)) \<noteq> {0..<int (a_total_pkts s)}"
  shows "\<exists>s' w' d. audio_run notify (arrivals ((p, pkt) # qs)) s w = Some (s', w', [d]) \<and> whole_frame base pay s d"
  using assms
proof (induction qs arbitrary: p pkt s s1 w)
  case Nil
  note c = config_eqs [OF Nil.prems(3)]
  have fp1: "frame_packets base pay s1 P" using Nil.prems(5) frame_packets_config [OF Nil.prems(3)] by simp
  have pkt: "pkt \<in> P" using Nil.prems(6) by simp
  show ?case
  proof (rule fill_store [OF Nil.prems(2) fp1 pkt, of notify w], goal_cases)
    case (1 s')
    then show ?case using Nil.prems(7,8) by (simp add: c)
  next
    case (2 s' w' d)
    then show ?case using arrivals_step [OF Nil.prems(4), of notify p pkt w s' w' "[d]" "[]"] Nil.prems(1)
      by (auto simp: whole_frame_def c)
  qed
next
  case (Cons q qs)
  obtain p2 pkt2 where q: "q = (p2, pkt2)" by (cases q) auto
  note c = config_eqs [OF Cons.prems(3)]
  have fp1: "frame_packets base pay s1 P" using Cons.prems(5) frame_packets_config [OF Cons.prems(3)] by simp
  have pkt: "pkt \<in> P" using Cons.prems(6) by simp
  show ?case
  proof (rule fill_store [OF Cons.prems(2) fp1 pkt, of notify w], goal_cases)
    case (1 s')
    have cs: "audio_config s' = audio_config s" using 1(3) Cons.prems(3) by simp
    note cs' = config_eqs [OF cs]
    have fp': "frame_packets base pay s' P" "plain_session s'"
      using Cons.prems(4,5) frame_packets_config [OF cs] plain_config [OF cs] by simp_all
    have pkt2: "pkt2 \<in> P" using Cons.prems(6) q by simp
    have ticks: "unat (a_rtp_ticks_per_frame s') < 2 ^ 31" using fp'(2) by (simp add: plain_session_def)
    obtain s2 where s2: "rx_audio_session_handle_frame_pkt notify p2 pkt2 s' w = rx_audio_store notify (pkt_idx pkt2 s2) pkt2 s2 w"
        "filling P base s2" "audio_config s2 = audio_config s'" "arrived s2 = arrived s'"
      by (rule fill_next [OF 1(2) fp'(1) pkt2 ticks, of notify p2 w])
    have arr: "arrived s' = insert (int (slot_of base s pkt)) (arrived s1)" using 1(4) by (simp add: c)
    have "\<exists>s3 w' d. audio_run notify (arrivals ((p2, pkt2) # qs)) s' w = Some (s3, w', [d]) \<and> whole_frame base pay s' d"
    proof (rule Cons.IH [OF s2(1-3) fp'(2,1)])
      show "snd ` set ((p2, pkt2) # qs) \<subseteq> P" using Cons.prems(6) q by simp
      show "arrived s2 \<union> slots_of base s' ((p2, pkt2) # qs) = {0..<int (a_total_pkts s')}"
        unfolding s2(4) arr cs'(2) slots_of_config [OF cs] using Cons.prems(7) by (simp add: q insert_commute)
      show "arrived s2 \<union> slots_of base s' (butlast ((p2, pkt2) # qs)) \<noteq> {0..<int (a_total_pkts s')}"
        unfolding s2(4) arr cs'(2) slots_of_config [OF cs] using Cons.prems(8) by (simp add: q insert_commute split: if_splits)
    qed
    then show ?case using arrivals_step [OF Cons.prems(4), of notify p pkt w s' w "[]" "q # qs"] 1(1) Cons.prems(1)
      by (auto simp: q whole_frame_def cs')
  next
    case (2 s' w' d)
    then have f: "insert (int (slot_of base s pkt)) (arrived s1) = {0..<int (a_total_pkts s)}" by (simp only: c(2,5))
    have "slots_of base s (butlast (q # qs)) \<subseteq> {0..<int (a_total_pkts s)}"
      using slots_butlast [of base s "q # qs"] Cons.prems(7) by auto
    then have "arrived s1 \<union> slots_of base s (butlast ((p, pkt) # q # qs)) = {0..<int (a_total_pkts s)}"
      using f by (simp only: butlast.simps list.distinct if_False slots_of_simps) blast
    then show ?case using Cons.prems(8) by blast
  qed
qed

text \<open>
  C6. Completeness of audio reception. Between two frames, with a buffer free, let packets of the frame at
  \<open>base\<close> arrive on the ports in any order and with any duplicates, until every slot has been seen for the
  first time. The session then delivers exactly one frame for them, marked complete, with that
  time stamp, and its bytes are the payloads in the order of the slots.
\<close>

theorem audio_complete_frame:
  assumes "rx_audio_ops_check ops = Inr ()" and "o_type ops = ST30_TYPE_FRAME_LEVEL"
    and "rx_audio_session_attach pm hw addrs mc ops sx = Inr s0" and "\<forall>pkt \<in> packets_of evs. pkt_ok pkt"
    and "audio_run notify evs s0 w0 = Some (s, w, out)" and "a_cur_frame s = None"
    and "\<exists>f \<in> set (a_frames s). fr_refcnt f = 0" and "plain_session s"
    and "c_tmstamp s = uint (base - 1) \<or> c_tmstamp s = -1 \<and> pk_tmstamp (snd (hd qs)) = base"
    and "qs \<noteq> []" and "frame_packets base pay s (snd ` set qs)"
    and "slots_of base s qs = {0..<int (a_total_pkts s)}" and "slots_of base s (butlast qs) \<noteq> {0..<int (a_total_pkts s)}"
  shows "\<exists>s' w' d. audio_run notify (arrivals qs) s w = Some (s', w', [d]) \<and> whole_frame base pay s d"
proof -
  note a = attach_inv [OF assms(3,2) ops_check_size [OF assms(1,2)]]
  have "ra_inv (packets_of evs) s0" by (rule ra_inv_mono [OF _ a(1)]) simp
  from good_run [OF this a(3,4) subset_refl assms(4), of notify w0] assms(5)
  have "ra_inv (packets_of evs) s" by simp
  then have inv: "ra_inv {} s" using assms(6) by (simp add: ra_inv_def open_frame_ok_def)
  obtain p pkt rest where qs: "qs = (p, pkt) # rest" using assms(10) by (cases qs) auto
  have ticks: "unat (a_rtp_ticks_per_frame s) < 2 ^ 31" using assms(8) by (simp add: plain_session_def)
  have pkt: "pkt \<in> snd ` set qs" and grid: "c_tmstamp s = uint (base - 1) \<or> c_tmstamp s = -1 \<and> pk_tmstamp pkt = base"
    using assms(9) by (simp_all add: qs)
  obtain s1 where s1: "rx_audio_session_handle_frame_pkt notify p pkt s w = rx_audio_store notify (pkt_idx pkt s1) pkt s1 w"
    "filling (snd ` set qs) base s1" "audio_config s1 = audio_config s" "arrived s1 = {}"
    by (rule fill_first [OF inv assms(6,11) pkt ticks assms(7) grid, of notify p w])
  show ?thesis
    unfolding qs by (rule fill_run [OF s1(1-3) assms(8,11)]) (use assms(12,13) in \<open>simp_all add: qs s1(4)\<close>)
qed

lemma small_session_fields:
  "c_payload_type small_session = 97" "c_ssrc small_session = 0" "a_pkt_len small_session = 4" "a_total_pkts small_session = 2"
  "a_samples_per_pkt small_session = 4" "a_rtp_ticks_per_frame small_session = 8" "a_attached small_session"
  "a_type small_session = ST30_TYPE_FRAME_LEVEL" "a_flags small_session = 0" "a_cur_frame small_session = None"
  "c_tmstamp small_session = -1"
  "a_frames small_session = map (\<lambda>i. \<lparr>fr_addr = 100 + i, fr_refcnt = 0, fr_data = replicate 8 0\<rparr>) [0..<2]"
  by (simp_all add: small_session_def rx_audio_session_attach_def small_ops_def st30_get_packet_size_def st30_get_sample_size_def
      st30_get_sample_num_def Let_def has_flag_def rx_audio_session_alloc_frames_def rx_audio_session_reset_def)

definition small_arrivals :: "(nat \<times> rtp_in) list" where
  "small_arrivals = [(0, small_pkt 8 100 5), (0, small_pkt 8 100 5), (0, small_pkt 9 104 7)]"

definition small_pay :: "nat \<Rightarrow> u8 list" where
  "small_pay k = (if k = 0 then [5, 5, 5, 5] else [7, 7, 7, 7])"

lemma small_arrivals_ok: "frame_packets 100 small_pay small_session (snd ` set small_arrivals)" "plain_session small_session"
  "slots_of 100 small_session small_arrivals = {0..<2}" "slots_of 100 small_session (butlast small_arrivals) \<noteq> {0..<2}"
  "small_arrivals \<noteq> []" "pk_tmstamp (snd (hd small_arrivals)) = 100" "\<exists>f \<in> set (a_frames small_session). fr_refcnt f = 0"
proof -
  show "frame_packets 100 small_pay small_session (snd ` set small_arrivals)"
    by (simp add: frame_packets_def header_ok_def small_arrivals_def small_pkt_ok small_session_fields small_pay_def)
      (simp add: small_pkt_def)
  show "plain_session small_session" by (simp add: plain_session_def small_session_fields has_flag_def)
  show "slots_of 100 small_session small_arrivals = {0..<2}"
    by (auto simp: small_arrivals_def small_session_fields small_pkt_def)
  have "slots_of 100 small_session (butlast small_arrivals) = {0}"
    by (simp add: small_arrivals_def small_session_fields small_pkt_def)
  moreover have "(1 :: int) \<in> {0..<2}" "(1 :: int) \<notin> {0}" by simp_all
  ultimately show "slots_of 100 small_session (butlast small_arrivals) \<noteq> {0..<2}" by metis
  show "small_arrivals \<noteq> []" "pk_tmstamp (snd (hd small_arrivals)) = 100" by (simp_all add: small_arrivals_def small_pkt_def)
  show "\<exists>f \<in> set (a_frames small_session). fr_refcnt f = 0" by (auto simp: small_session_fields intro: exI [of _ 0])
qed

theorem audio_complete_frame_witness:
  "\<exists>s' w' d. audio_run (\<lambda>w addr meta. (True, w)) (arrivals small_arrivals) small_session () = Some (s', w', [d]) \<and>
     whole_frame 100 small_pay small_session d"
  by (rule audio_complete_frame [OF small_check _ small_attach, of "[]" _ "()" _ _ "[]"])
    (use small_arrivals_ok in \<open>simp_all add: small_session_fields(4,10,11) small_ops_def\<close>)

end
