(* ===== verification/Rx_Audio_Chain.thy ===== *)
theory Rx_Audio_Chain
  imports Rx_Audio_Run St30p_Rx_Laws
begin

text \<open>
  The audio receive chain: a transport session whose application is the receive pipeline, as
  \<open>rx_st30p_create_transport\<close> sets it up. The session calls \<open>rx_st30p_frame_ready\<close> for every frame it
  closes; the user takes frames from the pipeline and returns them, and the pipeline gives their buffers back
  to the session.
\<close>

section \<open>The chain\<close>

definition pipe_notify :: "st30p_rx_ctx \<Rightarrow> nat \<Rightarrow> st30_rx_frame_meta \<Rightarrow> bool \<times> st30p_rx_ctx" where
  "pipe_notify ctx addr meta = (case rx_st30p_frame_ready addr meta ctx of
     (Inr _, ctx, _) \<Rightarrow> (True, ctx) | (Inl _, ctx, _) \<Rightarrow> (False, ctx))"

inductive audio_chain :: "rtp_in set \<Rightarrow> rx_audio \<Rightarrow> st30p_rx_ctx \<Rightarrow> bool" where
  chain_start: "rx_audio_ops_check ops = Inr () \<Longrightarrow> o_type ops = ST30_TYPE_FRAME_LEVEL \<Longrightarrow>
    rx_audio_session_attach pm hw (Some addr) mc ops s0 = Inr s \<Longrightarrow> inj addr \<Longrightarrow>
    st30p_rx_create True True transport pops = Some (ctx, ev) \<Longrightarrow> o_flags ops = st30_rx_flags (ro_flags pops) \<Longrightarrow>
    o_framebuff_cnt ops = ro_framebuff_cnt pops \<Longrightarrow> o_framebuff_size ops = ro_framebuff_size pops \<Longrightarrow>
    audio_chain {} s ctx"
| chain_packets: "audio_chain seen s ctx \<Longrightarrow> \<forall>(pkt, _) \<in> set pkts. pkt_ok pkt \<Longrightarrow>
    rx_audio_session_handle_mbuf pipe_notify p pkts s ctx = Some (r, s', ctx', out, rtps) \<Longrightarrow>
    audio_chain (seen \<union> fst ` set pkts) s' ctx'"
| chain_get: "audio_chain seen s ctx \<Longrightarrow> st30p_rx_get_frame [] ctx = (r, ctx') \<Longrightarrow> audio_chain seen s ctx'"
| chain_put: "audio_chain seen s ctx \<Longrightarrow> i < length (r_framebuffs ctx) \<Longrightarrow>
    put = st30p_rx_put_frame \<or> put = st30p_rx_put_frame_abort \<Longrightarrow> put i ctx = (Inr addr, ctx') \<Longrightarrow>
    audio_chain seen (snd (st30_rx_put_framebuff addr s)) ctx'"
| chain_put_error: "audio_chain seen s ctx \<Longrightarrow> put = st30p_rx_put_frame \<or> put = st30p_rx_put_frame_abort \<Longrightarrow>
    put i ctx = (Inl e, ctx') \<Longrightarrow> audio_chain seen s ctx'"
| chain_wake: "audio_chain seen s ctx \<Longrightarrow> st30p_rx_wake_block ctx = (r, ctx') \<Longrightarrow> audio_chain seen s ctx'"
| chain_stat: "audio_chain seen s ctx \<Longrightarrow> rx_st30p_stat ctx = (r, ctx') \<Longrightarrow> audio_chain seen s ctx'"

section \<open>The ledger of buffers\<close>

definition pipe_ok :: "st30p_rx_ctx \<Rightarrow> bool" where
  "pipe_ok ctx \<longleftrightarrow> rx_live ctx \<and> r_producer_idx ctx < length (r_framebuffs ctx) \<and> r_consumer_idx ctx < length (r_framebuffs ctx)"

text \<open>A slot that is not free stands for one of the buffers, whose bytes are those of a correct frame.\<close>

definition slot_backed :: "(u32 \<Rightarrow> st_frame_status \<Rightarrow> u8 list \<Rightarrow> bool) \<Rightarrow> nat list \<Rightarrow> u8 list list \<Rightarrow> st30p_rx_frame \<Rightarrow> bool" where
  "slot_backed ok addrs ds f \<longleftrightarrow> (\<exists>i < length addrs. addrs ! i = af_addr (r_frame f) \<and>
     ok (af_rtp_timestamp (r_frame f)) (af_status (r_frame f)) (ds ! i))"

fun ledger :: "(u32 \<Rightarrow> st_frame_status \<Rightarrow> u8 list \<Rightarrow> bool) \<Rightarrow> nat list \<Rightarrow> st30p_rx_ctx pool \<Rightarrow> bool" where
  "ledger ok addrs (cur, rs, ds, ctx) \<longleftrightarrow>
     pipe_ok ctx \<and> r_stat_frames_dropped ctx = 0 \<and> distinct addrs \<and>
     length rs = length addrs \<and> length ds = length addrs \<and> length (r_framebuffs ctx) = length addrs \<and>
     (\<forall>i. cur = Some i \<longrightarrow> i < length addrs) \<and>
     (\<forall>i < length addrs. rs ! i = of_bool (cur = Some i) + int (count (addrs_out (r_framebuffs ctx)) (addrs ! i)) \<and> rs ! i \<le> 1) \<and>
     (\<forall>f \<in> set (r_framebuffs ctx). r_stat f \<noteq> ST30P_RX_FRAME_FREE \<longrightarrow> slot_backed ok addrs ds f)"

declare ledger.simps [simp del]

lemma ledgerI:
  assumes "pipe_ok ctx" "r_stat_frames_dropped ctx = 0" "distinct addrs" "length rs = length addrs" "length ds = length addrs"
    "length (r_framebuffs ctx) = length addrs" "\<And>i. cur = Some i \<Longrightarrow> i < length addrs"
    "\<And>i. i < length addrs \<Longrightarrow> rs ! i = of_bool (cur = Some i) + int (count (addrs_out (r_framebuffs ctx)) (addrs ! i))"
    "\<And>i. i < length addrs \<Longrightarrow> rs ! i \<le> 1"
    "\<And>f. f \<in> set (r_framebuffs ctx) \<Longrightarrow> r_stat f \<noteq> ST30P_RX_FRAME_FREE \<Longrightarrow> slot_backed ok addrs ds f"
  shows "ledger ok addrs (cur, rs, ds, ctx)"
  unfolding ledger.simps using assms by blast

lemma ledgerD:
  assumes "ledger ok addrs (cur, rs, ds, ctx)"
  shows "pipe_ok ctx" "r_stat_frames_dropped ctx = 0" "distinct addrs" "length rs = length addrs" "length ds = length addrs"
    "length (r_framebuffs ctx) = length addrs" "cur = Some i \<Longrightarrow> i < length addrs"
    "i < length addrs \<Longrightarrow> rs ! i = of_bool (cur = Some i) + int (count (addrs_out (r_framebuffs ctx)) (addrs ! i))"
    "i < length addrs \<Longrightarrow> rs ! i \<le> 1"
    "f \<in> set (r_framebuffs ctx) \<Longrightarrow> r_stat f \<noteq> ST30P_RX_FRAME_FREE \<Longrightarrow> slot_backed ok addrs ds f"
  using assms unfolding ledger.simps by blast+

lemma ledger_open_out:
  assumes "ledger ok addrs (Some i, rs, ds, ctx)"
  shows "i < length addrs" "count (addrs_out (r_framebuffs ctx)) (addrs ! i) = 0"
proof -
  show i: "i < length addrs" using ledgerD(7) [OF assms] by blast
  show "count (addrs_out (r_framebuffs ctx)) (addrs ! i) = 0" using ledgerD(8,9) [OF assms i] by simp
qed

lemma addrs_out_member: "f \<in> set fs \<Longrightarrow> r_stat f \<noteq> ST30P_RX_FRAME_FREE \<Longrightarrow> af_addr (r_frame f) \<in># addrs_out fs"
  by (simp add: addrs_out_def)

text \<open>While a frame is open, not every slot is taken: the open buffer is in none.\<close>

lemma room_in_pipe:
  assumes l: "ledger ok addrs (Some i, rs, ds, ctx)"
  shows "count_in r_stat ST30P_RX_FRAME_FREE (r_framebuffs ctx) \<noteq> 0"
proof
  define M where "M = addrs_out (r_framebuffs ctx)"
  note i = ledger_open_out [OF l, folded M_def] and d = ledgerD(3) [OF l] and n = ledgerD(6) [OF l]
  have c: "count M (addrs ! j) \<le> (if j = i then 0 else 1)" if "j < length addrs" for j
    using ledgerD(8,9) [OF l that] i by (auto simp: M_def split: if_splits)
  have mem: "a \<in> set addrs" if aM: "a \<in># M" for a
  proof -
    obtain f where f: "f \<in> set (r_framebuffs ctx)" "r_stat f \<noteq> ST30P_RX_FRAME_FREE" "a = af_addr (r_frame f)"
      using aM unfolding M_def addrs_out_def by auto
    then have "slot_backed ok addrs ds f" using ledgerD(10) [OF l] by blast
    then show ?thesis using f(3) by (metis slot_backed_def nth_mem)
  qed
  have "M \<subseteq># mset_set (set addrs - {addrs ! i})"
  proof (rule mset_subset_eqI)
    fix a
    show "count M a \<le> count (mset_set (set addrs - {addrs ! i})) a"
    proof (cases "a \<in># M")
      case True
      then obtain j where j: "j < length addrs" "a = addrs ! j" using mem by (auto simp: in_set_conv_nth)
      have "j \<noteq> i" using True i(2) j(2) by (metis count_eq_zero_iff)
      then have "a \<noteq> addrs ! i" using d i(1) j by (simp add: nth_eq_iff_index_eq)
      then show ?thesis using c [OF j(1)] j \<open>j \<noteq> i\<close> by (simp add: count_mset_set)
    qed (simp add: not_in_iff)
  qed
  then have "size M \<le> card (set addrs - {addrs ! i})" using size_mset_mono by fastforce
  moreover have "card (set addrs - {addrs ! i}) < length addrs"
    using i(1) d by (simp add: distinct_card card_Diff_singleton)
  moreover assume "count_in r_stat ST30P_RX_FRAME_FREE (r_framebuffs ctx) = 0"
  then have "size M = length addrs"
    using n by (simp add: M_def addrs_out_def count_in_def filter_empty_conv flip: mset_filter)
  ultimately show False by simp
qed

section \<open>Packets keep the ledger\<close>

lemma frame_ready_ledger:
  assumes l: "ledger ok addrs (Some i, rs, ds, ctx)" and q: "ok (rm_rtp_timestamp meta) (rm_status meta) (ds ! i)"
    and n: "pipe_notify ctx (addrs ! i) meta = (tk, ctx')"
  shows "tk" "ledger ok addrs (None, rs, ds, ctx')"
proof -
  have ready: "r_ready ctx" and p: "r_producer_idx ctx < length (r_framebuffs ctx)" using ledgerD(1) [OF l] by (simp_all add: pipe_ok_def rx_live_def)
  note i = ledger_open_out [OF l]
  from ready p have "tk \<and> ledger ok addrs (None, rs, ds, ctx')"
  proof (cases rule: frame_ready_cases [of ctx "addrs ! i" meta])
    case (full ctx2)
    then show ?thesis using room_in_pipe [OF l] by simp
  next
    case (stored k g ev)
    have c: "tk" "ctx' = (rx_upd_frame k (\<lambda>_. g) ctx)\<lparr>r_producer_idx := rx_st30p_next_idx ctx k\<rparr>"
      using n stored(1) by (simp_all add: pipe_notify_def)
    have fs: "r_framebuffs ctx' = (r_framebuffs ctx)[k := g]" by (simp add: c(2))
    have out: "addrs_out (r_framebuffs ctx') = addrs_out (r_framebuffs ctx) + {#addrs ! i#}"
      using addrs_out_update [OF stored(3), of g] stored by (simp add: fs)
    have pipe: "pipe_ok ctx'" using ledgerD(1) [OF l] next_idx_less [OF stored(3)] by (simp add: pipe_ok_def rx_live_def c(2))
    have "slot_backed ok addrs ds g"
      unfolding slot_backed_def using i(1) q stored(6,7) by (auto simp: content_def delivery_of_def Let_def)
    then have slots: "slot_backed ok addrs ds f" if "f \<in> set (r_framebuffs ctx')" "r_stat f \<noteq> ST30P_RX_FRAME_FREE" for f
      using ledgerD(10) [OF l, of f] set_update_subset_insert [of "r_framebuffs ctx" k g] that by (auto simp: fs)
    have "rs ! j = int (count (addrs_out (r_framebuffs ctx')) (addrs ! j))" if j: "j < length addrs" for j
      using ledgerD(8) [OF l j] i j ledgerD(3) [OF l] unfolding out by (auto simp: nth_eq_iff_index_eq)
    then have "ledger ok addrs (None, rs, ds, ctx')"
      by (intro ledgerI) (use ledgerD [OF l] pipe slots in \<open>simp_all add: c(2)\<close>)
    then show ?thesis using c(1) by simp
  qed
  then show "tk" "ledger ok addrs (None, rs, ds, ctx')" by simp_all
qed

lemma ledger_step:
  assumes "pool_step pipe_notify addrs (\<lambda>meta data. ok (rm_rtp_timestamp meta) (rm_status meta) data) st st'"
    and "ledger ok addrs st"
  shows "ledger ok addrs st'"
  using assms
proof (cases rule: pool_step.cases)
  case (pool_open i rs ds w)
  note l = assms(2) [unfolded pool_open(1)]
  show ?thesis unfolding pool_open(2)
  proof (rule ledgerI)
    fix j assume j: "j < length addrs"
    show "(rs[i := 1]) ! j = of_bool (Some i = Some j) + int (count (addrs_out (r_framebuffs w)) (addrs ! j))" "(rs[i := 1]) ! j \<le> 1"
      using ledgerD(8,9) [OF l j] pool_open(3,4) by (cases "i = j"; simp)+
  qed (use ledgerD(1-6,10) [OF l] pool_open(3) in simp_all)
next
  case (pool_write i rs ds w data)
  note l = assms(2) [unfolded pool_write(1)]
  note i = ledger_open_out [OF l]
  have "slot_backed ok addrs (ds[i := data]) f" if f: "f \<in> set (r_framebuffs w)" "r_stat f \<noteq> ST30P_RX_FRAME_FREE" for f
  proof -
    obtain j where j: "j < length addrs" "addrs ! j = af_addr (r_frame f)" "ok (af_rtp_timestamp (r_frame f)) (af_status (r_frame f)) (ds ! j)"
      using ledgerD(10) [OF l f] by (auto simp: slot_backed_def)
    have "addrs ! j \<in># addrs_out (r_framebuffs w)" using addrs_out_member [OF f] j(2) by simp
    then have "j \<noteq> i" using i(2) by (metis count_eq_zero_iff)
    then show ?thesis unfolding slot_backed_def using j by (auto intro!: exI [of _ j])
  qed
  then show ?thesis unfolding pool_write(2) by (intro ledgerI) (use ledgerD [OF l] in simp_all)
next
  case (pool_discard i rs ds w)
  note l = assms(2) [unfolded pool_discard(1)]
  note i = ledger_open_out [OF l]
  show ?thesis unfolding pool_discard(2)
  proof (rule ledgerI)
    fix j assume j: "j < length addrs"
    show "(rs[i := rs ! i - 1]) ! j = of_bool (None = Some j) + int (count (addrs_out (r_framebuffs w)) (addrs ! j))"
      "(rs[i := rs ! i - 1]) ! j \<le> 1"
      using ledgerD(8,9) [OF l j] pool_discard(3) by (cases "i = j"; simp)+
  qed (use ledgerD(1-6,10) [OF l] in simp_all)
next
  case (pool_offer i rs ds meta w tk w')
  then show ?thesis using frame_ready_ledger [of ok addrs i rs ds w meta tk w'] assms(2) by simp
qed

lemma ledger_run:
  assumes "(pool_step pipe_notify addrs (\<lambda>meta data. ok (rm_rtp_timestamp meta) (rm_status meta) data))\<^sup>*\<^sup>* st st'"
    and "ledger ok addrs st"
  shows "ledger ok addrs st'"
  using assms by (induction rule: rtranclp_induct) (auto intro: ledger_step)

section \<open>The calls of the user keep the ledger\<close>

lemma ledger_cong:
  assumes "ledger ok addrs (cur, rs, ds, ctx)" and "r_framebuffs ctx' = r_framebuffs ctx" and "pipe_ok ctx'"
    and "r_stat_frames_dropped ctx' = r_stat_frames_dropped ctx"
  shows "ledger ok addrs (cur, rs, ds, ctx')"
  using assms(1,3) unfolding ledger.simps assms(2,4) by blast

lemma slot_backed_stat [simp]: "slot_backed ok addrs ds (rx_set_stat st f) = slot_backed ok addrs ds f"
  by (simp add: slot_backed_def)

lemma ledger_get:
  assumes l: "ledger ok addrs (cur, rs, ds, ctx)" and get: "st30p_rx_get_frame [] ctx = (r, ctx')"
  shows "ledger ok addrs (cur, rs, ds, ctx')"
proof -
  have live: "rx_live ctx" and p: "r_consumer_idx ctx < length (r_framebuffs ctx)" using ledgerD(1) [OF l] by (simp_all add: pipe_ok_def)
  show ?thesis
  proof (cases "rx_st30p_next_available ctx (r_consumer_idx ctx) ST30P_RX_FRAME_READY")
    case None
    then have "ctx' = ctx\<lparr>r_stat_get_frame_try := r_stat_get_frame_try ctx + 1,
        r_block_wake_pending := (if r_block_get ctx then False else r_block_wake_pending ctx)\<rparr>"
      using rx_get_live_none [OF live None] get by simp
    then show ?thesis using ledger_cong [OF l, of ctx'] ledgerD(1) [OF l] by (simp add: pipe_ok_def rx_live_def)
  next
    case (Some i)
    note i = next_available_some [OF p Some]
    have c: "ctx' = taken i ctx" using rx_get_live_some [OF live p Some, of "[]"] get by simp
    define g where "g = rx_set_stat ST30P_RX_FRAME_IN_USER (r_framebuffs ctx ! i)"
    have fs: "r_framebuffs ctx' = (r_framebuffs ctx)[i := g]" by (simp add: c taken_simps g_def)
    have out: "addrs_out (r_framebuffs ctx') = addrs_out (r_framebuffs ctx)"
      using addrs_out_update [OF i(1), of g] i(2) by (simp add: fs g_def)
    have "slot_backed ok addrs ds g" using ledgerD(10) [OF l nth_mem [OF i(1)]] i(2) by (simp add: g_def)
    then have "slot_backed ok addrs ds f" if "f \<in> set (r_framebuffs ctx')" "r_stat f \<noteq> ST30P_RX_FRAME_FREE" for f
      using ledgerD(10) [OF l, of f] set_update_subset_insert [of "r_framebuffs ctx" i g] that by (auto simp: fs)
    moreover have "pipe_ok ctx'" using ledgerD(1) [OF l] next_idx_less [OF i(1)] by (simp add: pipe_ok_def rx_live_def c taken_simps)
    moreover have "r_stat_frames_dropped ctx' = 0" "length (r_framebuffs ctx') = length addrs"
      using ledgerD(2,6) [OF l] by (simp_all add: c taken_simps)
    ultimately show ?thesis using ledgerD(3-5,7-9) [OF l] by (intro ledgerI) (simp_all add: out)
  qed
qed

text \<open>The buffer of a slot that is put back.\<close>

lemma put_effect:
  assumes live: "rx_live ctx" and which: "put = st30p_rx_put_frame \<or> put = st30p_rx_put_frame_abort" and put: "put i ctx = (Inr addr, ctx')"
  shows "r_stat (r_framebuffs ctx ! i) = ST30P_RX_FRAME_IN_USER" "addr = af_addr (r_frame (r_framebuffs ctx ! i))"
    "r_framebuffs ctx' = (r_framebuffs ctx)[i := rx_set_stat ST30P_RX_FRAME_FREE (r_framebuffs ctx ! i)]"
    "pipe_ok ctx' = pipe_ok ctx" "r_stat_frames_dropped ctx' = r_stat_frames_dropped ctx"
  using which put rx_put_live [OF live, of i] rx_abort_live [OF live, of i]
  by (auto simp: rx_upd_frame_def pipe_ok_def rx_live_def split: if_splits)

lemma ledger_put:
  assumes l: "ledger ok addrs (cur, rs, ds, ctx)" and i: "i < length (r_framebuffs ctx)"
    and which: "put = st30p_rx_put_frame \<or> put = st30p_rx_put_frame_abort" and put: "put i ctx = (Inr addr, ctx')"
  obtains k where "first_idx (\<lambda>a. a = addr) addrs = Some k" "k < length addrs"
    "ledger ok addrs (cur, rs[k := rs ! k - 1], ds, ctx')"
proof -
  have live: "rx_live ctx" using ledgerD(1) [OF l] by (simp add: pipe_ok_def)
  note e = put_effect [OF live which put]
  define g where "g = rx_set_stat ST30P_RX_FRAME_FREE (r_framebuffs ctx ! i)"
  have fs: "r_framebuffs ctx' = (r_framebuffs ctx)[i := g]" by (simp add: e(3) g_def)
  have out: "addrs_out (r_framebuffs ctx) = addrs_out (r_framebuffs ctx') + {#addr#}"
    using addrs_out_update [OF i, of g] e(1,2) by (simp add: fs g_def)
  have "slot_backed ok addrs ds (r_framebuffs ctx ! i)" using ledgerD(10) [OF l nth_mem [OF i]] e(1) by simp
  then have "addr \<in> set addrs" unfolding slot_backed_def e(2) by (metis nth_mem)
  then obtain k where f: "first_idx (\<lambda>a. a = addr) addrs = Some k"
    by (cases "first_idx (\<lambda>a. a = addr) addrs") (auto simp: first_idx_None)
  note k = first_idx_Some(1,2) [OF f]
  have "ledger ok addrs (cur, rs[k := rs ! k - 1], ds, ctx')"
  proof (rule ledgerI)
    fix j assume j: "j < length addrs"
    have "addrs ! j = addr \<longleftrightarrow> j = k" using ledgerD(3) [OF l] j k by (auto simp: nth_eq_iff_index_eq)
    then show "(rs[k := rs ! k - 1]) ! j = of_bool (cur = Some j) + int (count (addrs_out (r_framebuffs ctx')) (addrs ! j))"
        "(rs[k := rs ! k - 1]) ! j \<le> 1"
      using ledgerD(8,9) [OF l j] ledgerD(4) [OF l] j unfolding out by (cases "j = k"; simp)+
  next
    fix f assume f: "f \<in> set (r_framebuffs ctx')" "r_stat f \<noteq> ST30P_RX_FRAME_FREE"
    then have "f \<in> set (r_framebuffs ctx)" using set_update_subset_insert [of "r_framebuffs ctx" i g] by (auto simp: fs g_def)
    then show "slot_backed ok addrs ds f" using ledgerD(10) [OF l] f(2) by blast
  qed (use ledgerD(1-7) [OF l] e(4,5) fs in simp_all)
  then show ?thesis using that f k by blast
qed

section \<open>The invariant of the chain\<close>

definition chain_inv :: "rtp_in set \<Rightarrow> rx_audio \<Rightarrow> st30p_rx_ctx \<Rightarrow> bool" where
  "chain_inv seen s ctx \<longleftrightarrow> ra_inv seen s \<and> a_attached s \<and> a_type s = ST30_TYPE_FRAME_LEVEL \<and>
     ledger (bytes_ok seen s) (map fr_addr (a_frames s)) (pool_of s ctx)"

lemma ops_check_cnt:
  assumes "rx_audio_ops_check ops = Inr ()" and "o_type ops = ST30_TYPE_FRAME_LEVEL"
  shows "0 < o_framebuff_cnt ops"
proof -
  have "\<not> o_framebuff_cnt ops < 1" using assms by (auto simp: rx_audio_ops_check_def Let_def split: if_splits)
  then show ?thesis by (simp add: word_less_nat_alt)
qed

lemma bytes_ok_mono: "seen \<subseteq> seen' \<Longrightarrow> bytes_ok seen s base st data \<Longrightarrow> bytes_ok seen' s base st data"
  using from_packet_mono [of seen seen'] unfolding bytes_ok_def Let_def by blast

lemma ledger_mono:
  assumes "ledger ok addrs st" and "\<And>base status data. ok base status data \<Longrightarrow> ok' base status data"
  shows "ledger ok' addrs st"
proof -
  obtain cur rs ds ctx where st: "st = (cur, rs, ds, ctx)" by (cases st) auto
  have "slot_backed ok addrs ds f \<Longrightarrow> slot_backed ok' addrs ds f" for f using assms(2) by (auto simp: slot_backed_def)
  then show ?thesis using assms(1) unfolding st ledger.simps by blast
qed

lemma first_idx_map: "first_idx P (map f xs) = first_idx (\<lambda>x. P (f x)) xs"
proof -
  have "filter (\<lambda>i. P (map f xs ! i)) [0..<length xs] = filter (\<lambda>i. P (f (xs ! i))) [0..<length xs]"
    by (rule filter_cong) simp_all
  then show ?thesis by (simp add: first_idx_def)
qed

lemma chain_put_inv:
  assumes inv: "chain_inv seen s ctx" and i: "i < length (r_framebuffs ctx)"
    and which: "put = st30p_rx_put_frame \<or> put = st30p_rx_put_frame_abort" and put: "put i ctx = (Inr addr, ctx')"
  shows "chain_inv seen (snd (st30_rx_put_framebuff addr s)) ctx'"
proof -
  have ra: "ra_inv seen s" and l: "ledger (bytes_ok seen s) (map fr_addr (a_frames s)) (pool_of s ctx)"
    using inv by (simp_all add: chain_inv_def)
  obtain k where k: "first_idx (\<lambda>a. a = addr) (map fr_addr (a_frames s)) = Some k" "k < length (map fr_addr (a_frames s))"
      "ledger (bytes_ok seen s) (map fr_addr (a_frames s)) (a_cur_frame s, (refs s)[k := refs s ! k - 1], datas s, ctx')"
    by (rule ledger_put [OF l i which put])
  define s' where "s' = snd (st30_rx_put_framebuff addr s)"
  note keep = put_framebuff_keeps [OF ra, of addr, folded s'_def]
  have s': "s' = upd_trans k (\<lambda>f. f\<lparr>fr_refcnt := fr_refcnt f - 1\<rparr>) s"
    using k(1) by (simp add: s'_def st30_rx_put_framebuff_def first_idx_map rx_audio_session_put_frame_def)
  have e: "a_cur_frame s' = a_cur_frame s" "refs s' = (refs s)[k := refs s ! k - 1]" "datas s' = datas s"
    using k(2) by (simp_all add: s' upd_trans_def map_update list_update_same_conv)
  show ?thesis
    unfolding chain_inv_def s'_def [symmetric] e config_bytes [OF keep(2)] config_eqs(9) [OF keep(2)]
    using keep k(3) inv config_eqs(10,11) [OF keep(2)] by (simp add: chain_inv_def)
qed

lemma chain_packets_inv:
  assumes inv: "chain_inv seen s ctx" and ok: "\<forall>(pkt, _) \<in> set pkts. pkt_ok pkt"
  obtains r s' ctx' out where "rx_audio_session_handle_mbuf pipe_notify p pkts s ctx = Some (r, s', ctx', out, [])"
    "chain_inv (seen \<union> fst ` set pkts) s' ctx'"
proof -
  define seen' where "seen' = seen \<union> fst ` set pkts"
  have ra: "ra_inv seen' s" using inv ra_inv_mono [of seen seen' s] by (simp add: chain_inv_def seen'_def)
  have t: "a_type s = ST30_TYPE_FRAME_LEVEL" "a_attached s" using inv by (simp_all add: chain_inv_def)
  have ok': "\<forall>(pkt, _) \<in> set pkts. pkt_ok pkt \<and> pkt \<in> seen'" using ok by (force simp: seen'_def)
  have l: "ledger (bytes_ok seen' s) (map fr_addr (a_frames s)) (pool_of s ctx)"
    by (rule ledger_mono [where ok = "bytes_ok seen s"]) (use inv bytes_ok_mono [of seen seen'] in \<open>auto simp: chain_inv_def seen'_def\<close>)
  obtain s' ctx' out where b: "rx_audio_burst pipe_notify p pkts s ctx = Some (s', ctx', out, [])" "ra_inv seen' s'"
      "audio_config s' = audio_config s" "pool_run pipe_notify seen' s (pool_of s ctx) (pool_of s' ctx')"
    using good_burst [OF ra t(1) ok', where notify = pipe_notify and p = p and w = ctx] by blast
  have "chain_inv seen' s' ctx'"
    unfolding chain_inv_def config_bytes [OF b(3)] config_eqs(9,10,11) [OF b(3)]
    using b(2) t ledger_run [OF b(4) l] by simp
  then show ?thesis using b(1) t(2) by (intro that [of "Inr ()" s' ctx' out]) (simp_all add: rx_audio_session_handle_mbuf_def seen'_def)
qed

lemma chain_start_inv:
  assumes "rx_audio_ops_check ops = Inr ()" and "o_type ops = ST30_TYPE_FRAME_LEVEL"
    and "rx_audio_session_attach pm hw (Some addr) mc ops s0 = Inr s" and "inj addr"
    and "st30p_rx_create True True transport pops = Some (ctx, ev)" and "o_framebuff_cnt ops = ro_framebuff_cnt pops"
  shows "chain_inv {} s ctx"
proof -
  note a = attach_inv [OF assms(3,2) ops_check_size [OF assms(1,2)]]
  define n where "n = unat (o_framebuff_cnt ops)"
  have cnt: "0 < ro_framebuff_cnt pops" using ops_check_cnt [OF assms(1,2)] assms(6) by simp
  note c = rx_inv_created(1) [OF assms(5) cnt]
  have pipe: "pipe_ok ctx" "r_stat_frames_dropped ctx = 0" and out: "addrs_out (r_framebuffs ctx) = {#}"
    using c by (simp_all add: rx_inv_def pipe_ok_def)
  have addrs: "map fr_addr (a_frames s) = map addr [0..<n]" using a(7) by (simp add: n_def)
  have len: "length (a_frames s) = n" using arg_cong [OF addrs, of length] by simp
  have fbs: "length (r_framebuffs ctx) = n"
    using assms(5) by (auto simp: st30p_rx_create_def rx_st30p_create_transport_def Let_def rx_st30p_init_fbs_def n_def assms(6)
        split: option.splits sum.splits)
  have dist: "distinct (map fr_addr (a_frames s))" unfolding addrs using inj_on_subset [OF assms(4) subset_UNIV] by (simp add: distinct_map)
  have "ledger (bytes_ok {} s) (map fr_addr (a_frames s)) (pool_of s ctx)"
  proof (rule ledgerI)
    fix i assume "i < length (map fr_addr (a_frames s))"
    then show "refs s ! i = of_bool (a_cur_frame s = Some i) + int (count (addrs_out (r_framebuffs ctx)) (map fr_addr (a_frames s) ! i))"
        "refs s ! i \<le> 1"
      using len by (simp_all add: a(2) out) (simp_all add: a(5) n_def [symmetric] flip: nth_map)
  next
    fix f assume f: "f \<in> set (r_framebuffs ctx)" "r_stat f \<noteq> ST30P_RX_FRAME_FREE"
    show "slot_backed (bytes_ok {} s) (map fr_addr (a_frames s)) (datas s) f" using addrs_out_member [OF f] out by simp
  qed (use pipe dist fbs len a(2) in simp_all)
  then show ?thesis using a(1,3,4) by (simp add: chain_inv_def)
qed

lemma audio_chain_inv: "audio_chain seen s ctx \<Longrightarrow> chain_inv seen s ctx"
proof (induction rule: audio_chain.induct)
  case (chain_start ops pm hw addr mc s0 s transport pops ctx ev)
  then show ?case by (intro chain_start_inv)
next
  case (chain_packets seen s ctx pkts p r s' ctx' out rtps)
  show ?case by (rule chain_packets_inv [OF chain_packets.IH chain_packets(2), of p]) (use chain_packets(3) in auto)
next
  case (chain_get seen s ctx r ctx')
  then show ?case using ledger_get [OF _ chain_get(2)] by (auto simp: chain_inv_def)
next
  case (chain_put seen s ctx i put addr ctx')
  then show ?case by (intro chain_put_inv)
next
  case (chain_put_error seen s ctx put i e ctx')
  then have "rx_live ctx" using ledgerD(1) by (auto simp: chain_inv_def pipe_ok_def)
  from rx_put_error [OF this chain_put_error(2,3)] show ?case using chain_put_error.IH by simp
next
  case (chain_wake seen s ctx r ctx')
  then have l: "ledger (bytes_ok seen s) (map fr_addr (a_frames s)) (pool_of s ctx)" by (simp add: chain_inv_def)
  then have live: "pipe_ok ctx" by (rule ledgerD)
  then have c: "ctx' = (if r_block_get ctx then rx_st30p_block_wake ctx else ctx)"
    using rx_wake_live [of ctx] chain_wake(2) by (simp add: pipe_ok_def)
  show ?case using chain_wake.IH ledger_cong [OF l, of ctx'] live
    by (simp add: chain_inv_def c pipe_ok_def rx_live_def rx_st30p_block_wake_def)
next
  case (chain_stat seen s ctx r ctx')
  then have l: "ledger (bytes_ok seen s) (map fr_addr (a_frames s)) (pool_of s ctx)" by (simp add: chain_inv_def)
  then have live: "pipe_ok ctx" by (rule ledgerD)
  then have c: "ctx' = ctx\<lparr>r_stat_get_frame_try := 0, r_stat_get_frame_succ := 0, r_stat_put_frame := 0, r_stat_busy := 0\<rparr>"
    using chain_stat(2) by (simp add: rx_st30p_stat_def pipe_ok_def rx_live_def)
  show ?case using chain_stat.IH ledger_cong [OF l, of ctx'] live by (simp add: chain_inv_def c pipe_ok_def rx_live_def)
qed

section \<open>Properties\<close>

lemma nonfree_distinct:
  assumes l: "ledger ok addrs (cur, rs, ds, ctx)"
  shows "distinct (map (\<lambda>f. af_addr (r_frame f)) (filter (\<lambda>f. r_stat f \<noteq> ST30P_RX_FRAME_FREE) (r_framebuffs ctx)))"
proof -
  define xs where "xs = map (\<lambda>f. af_addr (r_frame f)) (filter (\<lambda>f. r_stat f \<noteq> ST30P_RX_FRAME_FREE) (r_framebuffs ctx))"
  have m: "mset xs = addrs_out (r_framebuffs ctx)" by (simp add: xs_def addrs_out_def)
  have "count (mset xs) a = 1" if a: "a \<in> set xs" for a
  proof -
    obtain f where f: "f \<in> set (r_framebuffs ctx)" "r_stat f \<noteq> ST30P_RX_FRAME_FREE" "a = af_addr (r_frame f)" using a by (auto simp: xs_def)
    then obtain i where i: "i < length addrs" "addrs ! i = a" using ledgerD(10) [OF l] by (auto simp: slot_backed_def)
    have "int (count (mset xs) a) \<le> 1" using ledgerD(8,9) [OF l i(1)] unfolding i(2) m by (cases "cur = Some i") simp_all
    moreover have "0 < count (mset xs) a" using a by simp
    ultimately show ?thesis by linarith
  qed
  then show ?thesis unfolding xs_def [symmetric] by (simp add: distinct_count_atmost_1 count_eq_zero_iff not_in_iff [symmetric])
qed



definition small_pipe_ops :: st30p_rx_ops where
  "small_pipe_ops = \<lparr>ro_flags = 0, ro_fmt = ST30_FMT_PCM8, ro_channel = 1, ro_sampling = ST30_SAMPLING_48K, ro_ptime = ST31_PTIME_80US,
     ro_framebuff_cnt = 2, ro_framebuff_size = 8, ro_has_available = False\<rparr>"

lemma small_chain: "\<exists>s ctx. audio_chain {small_pkt 8 100 5, small_pkt 9 104 7} s ctx"
proof -
  obtain ctx ev where c: "st30p_rx_create True True (\<lambda>_. Some 48) small_pipe_ops = Some (ctx, ev)"
    by (auto simp: st30p_rx_create_def rx_st30p_create_transport_def Let_def)
  have start: "audio_chain {} small_session ctx"
    by (rule chain_start [OF small_check _ small_attach _ c])
      (simp_all add: small_ops_def small_pipe_ops_def st30_rx_flags_def has_flag_def inj_def)
  obtain r s' ctx' out where "rx_audio_session_handle_mbuf pipe_notify 0 [(small_pkt 8 100 5, False, 0), (small_pkt 9 104 7, False, 0)]
      small_session ctx = Some (r, s', ctx', out, [])"
    by (rule chain_packets_inv [OF audio_chain_inv [OF start], of "[(small_pkt 8 100 5, False, 0), (small_pkt 9 104 7, False, 0)]" 0])
      (simp_all add: small_pkt_ok)
  from chain_packets [OF start _ this] show ?thesis by (auto simp: small_pkt_ok)
qed



end
