(* ===== verification/Rx_Audio_Counters.thy ===== *)
theory Rx_Audio_Counters
  imports Rx_Audio_Run
begin

text \<open>
  The counters of the receive session. The balance of a port, packets and losses less duplicates and
  late packets, moves with its latest sequence number; the losses of the session are those of its
  ports.
\<close>

section \<open>What moves the counters\<close>

type_synonym book = "u64 \<times> u64 \<times> u64 \<times> u64"

definition book_of :: "st_rx_port_stats \<Rightarrow> book" where
  "book_of st = (ps_packets st, ps_lost_packets st, ps_duplicates_same_port st, ps_reordered_packets st)"

definition books :: "'a rx_core_scheme \<Rightarrow> int list \<times> u64 \<times> book list" where
  "books s = (c_latest_seq_id s, c_lost_packets s, map book_of (c_port s))"

lemma books_upd_port:
  assumes "book_of (f (c_port s ! p)) = book_of (c_port s ! p)"
  shows "books (upd_port p f s) = books s"
  using assms by (cases "p < length (c_port s)")
    (simp_all add: books_def upd_port_def map_update list_update_same_conv list_update_beyond)

lemma books_same [simp]:
  "books (snd (rx_check_header pkt s)) = books s"
  "books (snd (rx_filter p pkt s)) = books s"
  "books (rx_session_seq pkt s) = books s"
  "books (upd_trans i g a) = books a"
  by (simp_all add: books_def rx_check_header_def rx_filter_def rx_session_seq_def upd_trans_def Let_def)

lemma books_fields [simp]:
  "books (a\<lparr>a_pkts_len_mismatch_dropped := x\<rparr>) = books a" "books (a\<lparr>c_pkts_redundant := x\<rparr>) = books a"
  "books (a\<lparr>a_frames_incomplete := x\<rparr>) = books a" "books (a\<lparr>a_stat_frames_received := x'\<rparr>) = books a"
  "books (a\<lparr>c_tmstamp := t, a_cur_frame := c\<rparr>) = books a"
  by (simp_all add: books_def)

lemma books_accept:
  "books (snd (rx_audio_accept p pkt s)) = books s \<or>
   books (snd (rx_audio_accept p pkt s)) = books (rx_port_seq p pkt (rx_first_ids p pkt s))"
proof -
  obtain r1 s1 where h: "rx_check_header pkt s = (r1, s1)" by fastforce
  have s1: "r1 = Inr () \<Longrightarrow> s1 = s" using h by (auto simp: rx_check_header_def split: if_splits)
  have b1: "books s1 = books s" using books_same(1) [of pkt s] h by simp
  obtain d s2 where f: "rx_filter p pkt (rx_port_seq p pkt (rx_first_ids p pkt s1)) = (d, s2)" by fastforce
  have b2: "books s2 = books (rx_port_seq p pkt (rx_first_ids p pkt s1))"
    using books_same(2) [of p pkt "rx_port_seq p pkt (rx_first_ids p pkt s1)"] f by simp
  show ?thesis using h b1 b2 s1 f by (cases r1) (auto simp: rx_audio_accept_def split: bool.splits)
qed

lemma books_open: "books (snd (rx_audio_session_open_frame p tm ptp s)) = books s"
proof (cases "first_idx (\<lambda>f. fr_refcnt f = 0) (a_frames s)")
  case None
  then show ?thesis by (simp add: rx_audio_session_open_frame_def rx_audio_session_get_frame_def books_def)
next
  case (Some i)
  have "books (upd_port p (\<lambda>st. st\<lparr>ps_frames := ps_frames st + 1\<rparr>) s') = books s'" for s' :: rx_audio
    by (rule books_upd_port) (simp add: book_of_def)
  then show ?thesis using Some
    by (simp add: rx_audio_session_open_frame_def rx_audio_session_get_frame_def Let_def) (simp add: books_def upd_trans_def)
qed

lemma books_notify:
  assumes "rx_audio_session_frame_notify notify s w = Some (s', w', out)"
  shows "books s' = books s"
  using assms
  by (auto simp: rx_audio_session_frame_notify_def rx_audio_session_zero_frame_gaps_def rx_audio_session_put_frame_def Let_def
      bind_eq_Some_conv split: option.splits if_splits prod.splits)

lemma books_store:
  assumes "rx_audio_store notify idx pkt s w = Some (r, s', w', out)"
  shows "books s' = books s"
proof -
  have [simp]: "books ((upd_trans i g s)\<lparr>a_frame_bitmap := x, a_frame_recv_size := y, c_pkts_received := z\<rparr>) = books s" for i g x y z
    by (simp add: books_def upd_trans_def)
  show ?thesis using assms
    by (auto simp: rx_audio_store_def Let_def bind_eq_Some_conv dest!: books_notify
        split: option.splits if_splits prod.splits bool.splits)
qed

lemma books_open_eq: "rx_audio_session_open_frame p tm ptp s = (r, s') \<Longrightarrow> books s' = books s"
  using books_open [of p tm ptp s] by simp

lemma books_reopen:
  assumes "(case rx_audio_session_open_frame p tm ptp s of
      (Inl e, s) \<Rightarrow> Some (Inl e, s, w, out)
    | (Inr _, s) \<Rightarrow> do {
        (r, s, w, out2) \<leftarrow> rx_audio_store notify (pkt_idx pkt s) pkt s w;
        Some (r, s, w, out @ out2)
      }) = Some (r, s', w', out')"
  shows "books s' = books s"
proof -
  obtain r1 s1 where o: "rx_audio_session_open_frame p tm ptp s = (r1, s1)" by fastforce
  show ?thesis using assms books_open_eq [OF o]
    by (auto simp: o bind_eq_Some_conv dest!: books_store split: sum.splits)
qed

lemma books_handle:
  assumes h: "rx_audio_session_handle_frame_pkt notify p pkt s w = Some (r, s', w', out)"
  shows "books s' = books (snd (rx_audio_accept p pkt s))"
proof -
  obtain r1 s1 where a: "rx_audio_accept p pkt s = (r1, s1)" by fastforce
  obtain r2 s2 where o: "(if a_cur_frame s1 = None then rx_audio_session_open_frame p (pk_tmstamp pkt) (pk_rx_time pkt) s1
      else (Inr (), s1)) = (r2, s2)" by fastforce
  have b2: "books s2 = books s1" using o books_open_eq by (auto split: if_splits)
  show ?thesis
  proof (cases "\<exists>u v. r1 = Inr u \<and> r2 = Inr v \<and> unat (pkt_idx pkt s2) \<ge> a_total_pkts s2")
    case True
    then obtain s3 w3 out3 where n: "rx_audio_session_frame_notify notify s2 w = Some (s3, w3, out3)"
      using h a o by (auto simp: rx_audio_session_handle_frame_pkt_def bind_eq_Some_conv)
    then have "books s' = books s3"
      using h a o True by (intro books_reopen) (simp add: rx_audio_session_handle_frame_pkt_def)
    then show ?thesis using books_notify [OF n] b2 a by simp
  next
    case False
    then show ?thesis using h a o b2
      by (auto simp: rx_audio_session_handle_frame_pkt_def dest!: books_store split: sum.splits if_splits)
  qed
qed

section \<open>Conservation\<close>

definition balance :: "book \<Rightarrow> u64" where
  "balance b = (case b of (packets, lost, dups, late) \<Rightarrow> packets + lost - dups - late)"

text \<open>Two moments of a session: the balance of every port that was in use moved as far as its latest sequence
  number, and the losses of the session grew by those of the ports.\<close>

definition in_balance :: "int list \<times> u64 \<times> book list \<Rightarrow> int list \<times> u64 \<times> book list \<Rightarrow> bool" where
  "in_balance b b' = (case (b, b') of ((latest, lost, ports), (latest', lost', ports')) \<Rightarrow>
     length latest' = length latest \<and> length ports' = length ports \<and>
     (\<forall>q < length latest. latest ! q \<noteq> -1 \<longrightarrow> latest' ! q \<noteq> -1 \<and>
        (ucast (balance (ports' ! q) - balance (ports ! q)) :: u16) = seq16 (latest' ! q) - seq16 (latest ! q)) \<and>
     lost' - lost = sum_list (map (\<lambda>b. fst (snd b)) ports') - sum_list (map (\<lambda>b. fst (snd b)) ports))"

lemma ucast_down_add: "(ucast (a + b :: u64) :: u16) = ucast a + ucast b" "(ucast (a - b :: u64) :: u16) = ucast a - ucast b"
proof -
  have down: "(word_of_int (x mod 2 ^ 64) :: u16) = word_of_int x" for x
    by (simp add: word_of_int_eq_iff take_bit_eq_mod mod_mod_cancel)
  have cast: "(ucast w :: u16) = word_of_int (uint w)" for w :: u64 by simp
  show "(ucast (a + b :: u64) :: u16) = ucast a + ucast b"
    unfolding cast uint_word_ariths using down [of "uint a + uint b"] by simp
  show "(ucast (a - b :: u64) :: u16) = ucast a - ucast b"
    unfolding cast uint_word_ariths using down [of "uint a - uint b"] by simp
qed

lemma in_balance_refl [simp]: "in_balance b b"
  by (auto simp: in_balance_def split: prod.splits)

lemma in_balance_trans:
  assumes "in_balance a b" and "in_balance b c"
  shows "in_balance a c"
proof -
  obtain l1 n1 p1 l2 n2 p2 l3 n3 p3 where [simp]: "a = (l1, n1, p1)" "b = (l2, n2, p2)" "c = (l3, n3, p3)"
    by (cases a; cases b; cases c) auto
  have "(ucast (balance (p3 ! q) - balance (p1 ! q)) :: u16) = seq16 (l3 ! q) - seq16 (l1 ! q)"
    if "q < length l1" "l1 ! q \<noteq> -1" for q
  proof -
    have "(ucast (balance (p2 ! q) - balance (p1 ! q)) :: u16) = seq16 (l2 ! q) - seq16 (l1 ! q)"
      "(ucast (balance (p3 ! q) - balance (p2 ! q)) :: u16) = seq16 (l3 ! q) - seq16 (l2 ! q)"
      using assms that by (auto simp: in_balance_def)
    moreover have "(ucast (balance (p3 ! q) - balance (p1 ! q)) :: u16) =
        ucast (balance (p3 ! q) - balance (p2 ! q)) + ucast (balance (p2 ! q) - balance (p1 ! q))"
      by (simp add: ucast_down_add)
    ultimately show ?thesis by simp
  qed
  moreover have "n3 - n1 = sum_list (map (\<lambda>b. fst (snd b)) p3) - sum_list (map (\<lambda>b. fst (snd b)) p1)"
  proof -
    have "n3 - n1 = (n3 - n2) + (n2 - n1)" by simp
    also have "\<dots> = (sum_list (map (\<lambda>b. fst (snd b)) p3) - sum_list (map (\<lambda>b. fst (snd b)) p2)) +
        (sum_list (map (\<lambda>b. fst (snd b)) p2) - sum_list (map (\<lambda>b. fst (snd b)) p1))"
      using assms by (simp add: in_balance_def)
    finally show ?thesis by simp
  qed
  ultimately show ?thesis using assms by (simp add: in_balance_def)
qed

text \<open>The books after one packet on port \<open>p\<close>.\<close>

definition book_step :: "u16 \<Rightarrow> int \<Rightarrow> book \<Rightarrow> int \<times> u64 \<times> book" where
  "book_step seq latest b = (case b of (packets, lost, dups, late) \<Rightarrow>
     let l = seq16 latest in
     if mt_seq16_greater seq l then (uint seq, ucast (seq - l - 1), (packets + 1, lost + ucast (seq - l - 1), dups, late))
     else if seq = l then (latest, 0, (packets + 1, lost, dups + 1, late))
     else (latest, 0, (packets + 1, lost, dups, late + 1)))"

lemma seq_next_greater: "mt_seq16_greater (l + 1) l"
  by (simp add: mt_seq16_greater_def)

lemma books_port_seq:
  assumes "p < length (c_port s)" and "p < length (c_latest_seq_id s)"
  shows "books (rx_port_seq p pkt s) = (case book_step (pk_seq pkt) (c_latest_seq_id s ! p) (book_of (c_port s ! p)) of
    (latest, gap, b) \<Rightarrow> ((c_latest_seq_id s)[p := latest], c_lost_packets s + gap, (map book_of (c_port s))[p := b]))"
proof -
  define l where "l = seq16 (c_latest_seq_id s ! p)"
  have "pk_seq pkt = l + 1 \<Longrightarrow> mt_seq16_greater (pk_seq pkt) l" using seq_next_greater by simp
  moreover have "mt_seq16_greater (pk_seq pkt) l \<Longrightarrow> pk_seq pkt \<noteq> l" by (auto simp: mt_seq16_greater_def)
  ultimately consider (gap) "pk_seq pkt \<noteq> l + 1" "mt_seq16_greater (pk_seq pkt) l" "pk_seq pkt \<noteq> l"
    | (follows) "pk_seq pkt = l + 1" "mt_seq16_greater (pk_seq pkt) l" "pk_seq pkt \<noteq> l"
    | (dup) "pk_seq pkt = l" "\<not> mt_seq16_greater (pk_seq pkt) l" "pk_seq pkt \<noteq> l + 1"
    | (late) "\<not> mt_seq16_greater (pk_seq pkt) l" "pk_seq pkt \<noteq> l" "pk_seq pkt \<noteq> l + 1" by blast
  then show ?thesis
    by cases (use assms in \<open>simp_all add: rx_port_seq_def Let_def l_def [symmetric] book_step_def books_def book_of_def upd_port_def
        map_update list_update_overwrite list_update_same_conv\<close>)
qed

lemma sum_list_book_update:
  assumes "p < length (bs :: book list)"
  shows "sum_list (map (\<lambda>b. fst (snd b)) (bs[p := b'])) - sum_list (map (\<lambda>b. fst (snd b)) bs) = fst (snd b') - fst (snd (bs ! p))"
  using assms
proof (induction bs arbitrary: p)
  case (Cons b bs)
  then show ?case using Cons.IH [of "p - 1"] by (cases p) (simp_all add: diff_add_eq_diff_diff_swap)
qed simp

lemma port_seq_balance:
  assumes "p < length (c_port s)" and "p < length (c_latest_seq_id s)"
  shows "in_balance (books s) (books (rx_port_seq p pkt s))"
proof -
  define l where "l = c_latest_seq_id s ! p"
  obtain latest gap b where st: "book_step (pk_seq pkt) l (book_of (c_port s ! p)) = (latest, gap, b)" by (metis prod_cases3)
  have rt: "(ucast (ucast x :: u64) :: u16) = x" for x by transfer simp
  have "uint (pk_seq pkt) \<noteq> -1" using uint_ge_0 [of "pk_seq pkt"] by linarith
  then have "latest = -1 \<Longrightarrow> l = -1" "fst (snd b) = fst (snd (book_of (c_port s ! p))) + gap"
      "(ucast (balance b - balance (book_of (c_port s ! p))) :: u16) = seq16 latest - seq16 l"
    using st by (auto simp: book_step_def Let_def balance_def ucast_down_add rt split: prod.splits if_splits)
  then show ?thesis unfolding books_port_seq [OF assms] l_def [symmetric] st
    using assms sum_list_book_update [of p "map book_of (c_port s)" b]
    by (auto simp: in_balance_def books_def l_def nth_list_update)
qed

lemma first_ids_balance: "in_balance (books s) (books (rx_first_ids p pkt s))"
proof -
  have "(c_latest_seq_id s)[p := x] ! q = c_latest_seq_id s ! q" if "c_latest_seq_id s ! p = -1" "c_latest_seq_id s ! q \<noteq> -1" for q x
    using that by (cases "q = p") auto
  then show ?thesis by (auto simp: in_balance_def books_def rx_first_ids_def Let_def)
qed

abbreviation two_ports :: "'a rx_core_scheme \<Rightarrow> bool" where
  "two_ports s \<equiv> length (c_port s) = 2 \<and> length (c_latest_seq_id s) = 2"

lemma two_ports_balance: "in_balance (books s) (books s') \<Longrightarrow> two_ports s \<Longrightarrow> two_ports s'"
  by (simp add: in_balance_def books_def)

lemma counted_balance:
  assumes "two_ports s" and "p < 2"
  shows "in_balance (books s) (books (rx_port_seq p pkt (rx_first_ids p pkt s)))"
proof -
  have "two_ports (rx_first_ids p pkt s)" using two_ports_balance [OF first_ids_balance assms(1)] .
  then show ?thesis using assms(2) by (intro in_balance_trans [OF first_ids_balance port_seq_balance]) simp_all
qed

lemma handle_balance:
  assumes "two_ports s" and "p < 2" and "rx_audio_session_handle_frame_pkt notify p pkt s w = Some (r, s', w', out)"
  shows "in_balance (books s) (books s')"
  using books_accept [of p pkt s] counted_balance [OF assms(1,2), of pkt] unfolding books_handle [OF assms(3)] by auto

lemma handle_rtp_balance:
  assumes "two_ports s" and "p < 2"
  shows "in_balance (books s) (books (fst (snd (rx_audio_session_handle_rtp_pkt p pkt s))))"
proof -
  obtain r1 s1 where h: "rx_check_header pkt s = (r1, s1)" by fastforce
  have s1: "r1 = Inr () \<Longrightarrow> s1 = s" using h by (auto simp: rx_check_header_def split: if_splits)
  have b1: "books s1 = books s" using books_same(1) [of pkt s] h by simp
  obtain d s2 where f: "rx_filter p pkt (rx_port_seq p pkt (rx_first_ids p pkt s1)) = (d, s2)" by fastforce
  have b2: "books s2 = books (rx_port_seq p pkt (rx_first_ids p pkt s1))"
    using books_same(2) [of p pkt "rx_port_seq p pkt (rx_first_ids p pkt s1)"] f by simp
  have tm: "books (x\<lparr>c_tmstamp := t\<rparr>) = books x" "books (x\<lparr>a_slot_get_frame_fail := y\<rparr>) = books x"
      "books (x\<lparr>a_rtps_room := z, c_pkts_received := u\<rparr>) = books x" for x :: rx_audio and t y z u
    by (simp_all add: books_def)
  show ?thesis
  proof (cases r1)
    case (Inl e)
    then show ?thesis using h b1 by (simp add: rx_audio_session_handle_rtp_pkt_def)
  next
    case (Inr u)
    then have "books (fst (snd (rx_audio_session_handle_rtp_pkt p pkt s))) = books s2"
      using h f by (simp add: rx_audio_session_handle_rtp_pkt_def Let_def tm split: bool.splits)
    then show ?thesis using counted_balance [OF assms] b2 s1 Inr by simp
  qed
qed

lemma books_count_err [simp]: "books (count_err p r s) = books s"
  using books_upd_port [of "\<lambda>st. st\<lparr>ps_err_packets := ps_err_packets st + 1\<rparr>" s p] by (simp add: count_err_def book_of_def)

lemma books_loss: "books (snd (ra_simulate_pkt_loss hit rnd s)) = books s"
  by (simp add: ra_simulate_pkt_loss_def books_def Let_def)

lemma burst_balance:
  assumes "two_ports s" and "p < 2" and "rx_audio_burst notify p pkts s w = Some (s', w', out, rtps)"
  shows "in_balance (books s) (books s')"
  using assms
proof (induction pkts arbitrary: s w s' w' out rtps)
  case (Cons q pkts)
  obtain pkt hit rnd where q: "q = (pkt, hit, rnd)" by (cases q) auto
  obtain lost s1 where l: "(if has_flag (a_flags s) ST30_RX_FLAG_SIMULATE_PKT_LOSS then ra_simulate_pkt_loss hit rnd s
      else (False, s)) = (lost, s1)" by fastforce
  have b1: "books s1 = books s" using l books_loss [of hit rnd s] by (auto split: if_splits)
  have p1: "two_ports s1" using Cons.prems(1) b1 by (simp add: books_def) (metis length_map)
  have rest: "in_balance (books s1) (books s')"
    if "rx_audio_burst notify p pkts (count_err p r s2) w2 = Some (s', w', out2, rtps2)" and b: "in_balance (books s1) (books s2)"
    for r s2 w2 out2 rtps2
  proof -
    have "two_ports (count_err p r s2)" using two_ports_balance [of s1 "count_err p r s2"] b p1 by simp
    from Cons.IH [OF this Cons.prems(2) that(1)] show ?thesis using in_balance_trans [OF b] by simp
  qed
  show ?case
  proof (cases lost)
    case True
    then show ?thesis using Cons.IH [OF p1 Cons.prems(2)] Cons.prems(3) l by (simp add: q b1)
  next
    case False
    show ?thesis
    proof (cases "a_type s1")
      case ST30_TYPE_FRAME_LEVEL
      then obtain r s2 w2 out1 out2 where h: "rx_audio_session_handle_frame_pkt notify p pkt s1 w = Some (r, s2, w2, out1)"
          "rx_audio_burst notify p pkts (count_err p r s2) w2 = Some (s', w', out2, rtps)"
        using Cons.prems(3) l False by (auto simp: q bind_eq_Some_conv)
      show ?thesis using rest [OF h(2) handle_balance [OF p1 Cons.prems(2) h(1)]] by (simp add: b1)
    next
      case ST30_TYPE_RTP_LEVEL
      obtain r s2 rtp where h: "rx_audio_session_handle_rtp_pkt p pkt s1 = (r, s2, rtp)" by (metis prod_cases3)
      then have "in_balance (books s1) (books s2)" using handle_rtp_balance [OF p1 Cons.prems(2), of pkt] by simp
      then show ?thesis using Cons.prems(3) l False rest ST30_TYPE_RTP_LEVEL h
        by (auto simp: q b1 bind_eq_Some_conv)
    qed
  qed
qed simp

fun ports_below :: "nat \<Rightarrow> audio_event \<Rightarrow> bool" where
  "ports_below n (Burst p pkts) \<longleftrightarrow> p < n"
| "ports_below n (Put_framebuff addr) \<longleftrightarrow> True"

lemma books_put: "books (snd (st30_rx_put_framebuff addr s)) = books s"
  by (simp add: st30_rx_put_framebuff_def rx_audio_session_put_frame_def split: option.splits)

text \<open>
  C7. Loss accounting of the audio receive session, at frame and at RTP level. Between any two moments of
  a run, for every port that had received a packet, the packets counted plus the packets counted as lost, less
  duplicates and late packets, grew by exactly the distance the latest sequence number of that port moved (modulo
  its 16 bits), whatever was lost, repeated or reordered; and the losses of the session grew by the sum of the
  losses of the ports, as the API promises.
\<close>

theorem audio_loss_accounting:
  assumes "length (c_port s) = 2" and "length (c_latest_seq_id s) = 2" and "\<forall>ev \<in> set evs. ports_below 2 ev"
    and "audio_run notify evs s w = Some (s', w', out)"
  shows "(\<forall>q < 2. c_latest_seq_id s ! q \<noteq> -1 \<longrightarrow>
      (ucast (balance (book_of (c_port s' ! q)) - balance (book_of (c_port s ! q))) :: u16) =
        seq16 (c_latest_seq_id s' ! q) - seq16 (c_latest_seq_id s ! q)) \<and>
    c_lost_packets s' - c_lost_packets s =
      sum_list (map ps_lost_packets (c_port s')) - sum_list (map ps_lost_packets (c_port s))"
proof -
  have "in_balance (books s) (books s')"
    using assms
  proof (induction evs arbitrary: s w s' w' out)
    case (Cons ev evs)
    show ?case
    proof (cases ev)
      case (Burst p pkts)
      have p: "p < 2" using Cons.prems(3) Burst by simp
      obtain r s1 w1 out1 rtps where h: "rx_audio_session_handle_mbuf notify p pkts s w = Some (r, s1, w1, out1, rtps)"
          and rest: "\<exists>out2. audio_run notify evs s1 w1 = Some (s', w', out2)"
        using Cons.prems(4) Burst by (auto simp: bind_eq_Some_conv)
      have b: "in_balance (books s) (books s1)"
        using h burst_balance [of s p notify pkts w] Cons.prems(1,2) p
        by (auto simp: rx_audio_session_handle_mbuf_def bind_eq_Some_conv split: if_splits)
      have "two_ports s1" using two_ports_balance [OF b] Cons.prems(1,2) by simp
      then have "in_balance (books s1) (books s')" using Cons.IH [of s1 w1 s' w'] Cons.prems(3) rest by auto
      then show ?thesis by (rule in_balance_trans [OF b])
    next
      case (Put_framebuff addr)
      have "two_ports (snd (st30_rx_put_framebuff addr s))"
        using two_ports_balance [of s "snd (st30_rx_put_framebuff addr s)"] Cons.prems(1,2) by (simp add: books_put)
      then show ?thesis using Cons.IH [of "snd (st30_rx_put_framebuff addr s)"] Cons.prems Put_framebuff by (simp add: books_put)
    qed
  qed simp
  then have b: "in_balance (c_latest_seq_id s, c_lost_packets s, map book_of (c_port s)) (c_latest_seq_id s', c_lost_packets s', map book_of (c_port s'))"
    by (simp only: books_def)
  have m: "map (\<lambda>b. fst (snd b)) (map book_of xs) = map ps_lost_packets xs" for xs by (simp add: book_of_def)
  have len: "length (c_port s') = 2" using b assms(1) by (simp add: in_balance_def)
  show ?thesis using b assms(1,2) len unfolding in_balance_def m prod.case by simp
qed

theorem audio_loss_accounting_witness:
  "let evs = [Burst 0 [(small_pkt 8 100 5, False, 0), (small_pkt 10 108 7, False, 0)]] in
   \<exists>s' w' out. audio_run (\<lambda>w addr meta. (True, w)) evs small_session () = Some (s', w', out) \<and>
     c_lost_packets s' - c_lost_packets small_session =
      sum_list (map ps_lost_packets (c_port s')) - sum_list (map ps_lost_packets (c_port small_session))"
proof -
  define evs where "evs = [Burst 0 [(small_pkt 8 100 5, False, 0), (small_pkt 10 108 7, False, 0)]]"
  note a = attach_inv [OF small_attach]
  have ok: "\<forall>pkt \<in> packets_of evs. pkt_ok pkt" by (simp add: evs_def small_pkt_ok)
  have "ra_inv {} small_session" "a_attached small_session" "a_type small_session = ST30_TYPE_FRAME_LEVEL"
    using a by (simp_all add: small_ops_def)
  then obtain s' w' out where r: "audio_run (\<lambda>w addr meta. (True, w)) evs small_session () = Some (s', w', out)"
    using good_run [OF ra_inv_mono [of "{}" "packets_of evs" small_session] _ _ subset_refl ok, of "\<lambda>w addr meta. (True, w)" "()"] by blast
  have "length (c_port small_session) = 2" "length (c_latest_seq_id small_session) = 2"
    by (simp_all add: small_session_def rx_audio_session_attach_def small_ops_def st30_get_packet_size_def st30_get_sample_size_def
      st30_get_sample_num_def Let_def has_flag_def rx_audio_session_alloc_frames_def rx_audio_session_reset_def)
  from audio_loss_accounting [OF this _ r] show ?thesis using r unfolding evs_def Let_def by auto
qed

text \<open>The documented bound of the unrecovered packets by the lost ones fails: a session whose second port joins
  with a later packet counts the packets between as unrecovered, while no port has lost one.\<close>

lemma unrecovered_exceeds_lost:
  defines "s2 \<equiv> snd (rx_audio_accept 1 (small_pkt 15 104 7)
     (snd (rx_audio_accept 0 (small_pkt 10 100 5) (small_session\<lparr>c_num_port := 2\<rparr>))))"
  shows "c_pkts_unrecovered s2 = 4" and "c_lost_packets s2 = 0"
  unfolding s2_def
  by (simp_all add: small_session_def rx_audio_session_attach_def small_ops_def st30_get_packet_size_def st30_get_sample_size_def
      st30_get_sample_num_def Let_def has_flag_def rx_audio_session_alloc_frames_def rx_audio_session_reset_def small_pkt_def
      rx_audio_accept_def rx_check_header_def rx_first_ids_def rx_port_seq_def rx_filter_def rx_session_seq_def upd_port_def
      mt_seq16_greater_def mt_seq32_greater_def)

end
