(* ===== verification/Video_Packet.thy ===== *)
theory Video_Packet
  imports Rtcp_Common Rx_Audio
begin

text \<open>
  The packets of video (RFC 4175, \<^verbatim>\<open>include/st20_api.h\<close> and \<^verbatim>\<open>lib/src/st2110/st_pkt.h\<close>) that the transmit session
  builds and the receive session parses. The fields of the RTP header are kept in host order; behind
  it the packet is a list of bytes, the optional second row header included. Sizes and offsets are
  numbers, with the truncation to 16 or 32 bits written where the code stores them in such a variable.
\<close>

section \<open>C arithmetic on numbers\<close>

abbreviation to16 :: "nat \<Rightarrow> nat" where "to16 n \<equiv> n mod 65536"
abbreviation to32 :: "nat \<Rightarrow> nat" where "to32 n \<equiv> n mod 4294967296"

text \<open>A difference of two 32-bit values.\<close>

definition sub32 :: "nat \<Rightarrow> nat \<Rightarrow> nat" where
  "sub32 a b = (a mod 4294967296 + 4294967296 - b mod 4294967296) mod 4294967296"

lemma sub32_small: "b \<le> a \<Longrightarrow> a < 4294967296 \<Longrightarrow> sub32 a b = a - b"
  unfolding sub32_def using mod_add_self2 [of "a - b" 4294967296] by simp

text \<open>\<open>ceil\<close> of a quotient of integers; the quotients of the code are exact in a double.\<close>

definition ceil_div :: "nat \<Rightarrow> nat \<Rightarrow> nat" where
  "ceil_div a b = (a + b - 1) div b"

lemma ceil_div_le: "0 < b \<Longrightarrow> a \<le> ceil_div a b * b"
proof -
  assume b: "0 < b"
  have "a + b - 1 < (a + b - 1) div b * b + b"
    using b mod_less_divisor [of b "a + b - 1"] div_mult_mod_eq [of "a + b - 1" b] by linarith
  then show ?thesis unfolding ceil_div_def using b by linarith
qed

lemma ceil_div_less: "0 < b \<Longrightarrow> ceil_div a b * b < a + b"
  using div_mult_mod_eq [of "a + b - 1" b] unfolding ceil_div_def by linarith

lemma ceil_div_unique: "0 < b \<Longrightarrow> a \<le> n * b \<Longrightarrow> n * b < a + b \<Longrightarrow> ceil_div a b = n"
proof -
  assume b: "0 < b" and lo: "a \<le> n * b" and hi: "n * b < a + b"
  have "n * b < (ceil_div a b + 1) * b" "ceil_div a b * b < (n + 1) * b"
    using ceil_div_le [OF b, of a] ceil_div_less [OF b, of a] lo hi by (simp_all add: algebra_simps)
  then have "n < ceil_div a b + 1" "ceil_div a b < n + 1"
    using b mult_less_cancel2 by blast+
  then show ?thesis by simp
qed

text \<open>Reading bytes of a buffer.\<close>

definition buf_read :: "nat \<Rightarrow> nat \<Rightarrow> u8 list \<Rightarrow> u8 list option" where
  "buf_read off n data = (if off + n \<le> length data then Some (take n (drop off data)) else None)"

lemma buf_read_Some: "off + n \<le> length data \<Longrightarrow> buf_read off n data = Some (take n (drop off data))"
  by (simp add: buf_read_def)

section \<open>Packets\<close>

record rfc4175_pkt =
  vp_marker :: bool
  vp_payload_type :: u8
  vp_seq_number :: u16
  vp_seq_number_ext :: u16
  vp_tmstamp :: u32
  vp_ssrc :: u32
  vp_row_length :: u16
  vp_row_number :: u16
  vp_row_offset :: u16
  vp_body :: "u8 list"
  vp_pkt_len :: nat
  vp_multi_seg :: bool
  vp_rx_time :: u64

abbreviation ST20_SRD_OFFSET_CONTINUATION :: u16 where "ST20_SRD_OFFSET_CONTINUATION \<equiv> 0x8000"
abbreviation ST20_SECOND_FIELD :: u16 where "ST20_SECOND_FIELD \<equiv> 0x8000"
abbreviation ST20_RETRANSMIT :: u16 where "ST20_RETRANSMIT \<equiv> 0x4000"
abbreviation ST20_LEN_USER_META :: u16 where "ST20_LEN_USER_META \<equiv> 0x8000"

abbreviation st_rfc4175_video_hdr_size :: nat where "st_rfc4175_video_hdr_size \<equiv> 62"
abbreviation extra_rtp_hdr_size :: nat where "extra_rtp_hdr_size \<equiv> 6"
abbreviation ST_PKT_MAX_ETHER_BYTES :: nat where "ST_PKT_MAX_ETHER_BYTES \<equiv> 1494"
abbreviation ST_VIDEO_BPM_SIZE :: nat where "ST_VIDEO_BPM_SIZE \<equiv> 1260"

record st20_rfc4175_extra_rtp_hdr =
  er_row_length :: u16
  er_row_number :: u16
  er_row_offset :: u16

definition extra_bytes :: "st20_rfc4175_extra_rtp_hdr \<Rightarrow> u8 list" where
  "extra_bytes e = be16_bytes (er_row_length e) @ be16_bytes (er_row_number e) @ be16_bytes (er_row_offset e)"

definition read_extra :: "u8 list \<Rightarrow> st20_rfc4175_extra_rtp_hdr option" where
  "read_extra bs = do {
     l \<leftarrow> rd16 bs 0;
     n \<leftarrow> rd16 bs 2;
     off \<leftarrow> rd16 bs 4;
     Some \<lparr>er_row_length = l, er_row_number = n, er_row_offset = off\<rparr>
   }"

lemma length_extra_bytes [simp]: "length (extra_bytes e) = 6"
  by (simp add: extra_bytes_def)

lemma read_extra_bytes: "read_extra (extra_bytes e @ bs) = Some e"
  by (simp add: read_extra_def extra_bytes_def rd16_def rd8_def be16_bytes_def)

lemma read_extra_room: "6 \<le> length bs \<Longrightarrow> \<exists>e. read_extra bs = Some e"
  by (simp add: read_extra_def rd16_Some)

definition rfc4175_rtp_seq_id :: "rfc4175_pkt \<Rightarrow> u32" where
  "rfc4175_rtp_seq_id pkt = ucast (vp_seq_number pkt) OR push_bit 16 (ucast (vp_seq_number_ext pkt))"

lemma seq_id_split: "ucast (ucast (x :: u32) :: u16) OR push_bit 16 (ucast (ucast (drop_bit 16 x) :: u16)) = x"
  by (simp add: bit_blast)

section \<open>Flags in the top bits of a field\<close>

lemma of_nat_bit_out: "n < 2 ^ k \<Longrightarrow> k < 16 \<Longrightarrow> \<not> bit (of_nat n :: u16) k"
proof -
  assume "n < 2 ^ k"
  then have "take_bit k n = n" by (simp add: take_bit_nat_eq_self)
  then have "\<not> bit n k" by (metis bit_take_bit_iff less_irrefl)
  then show ?thesis by (simp add: bit_simps)
qed

end
