(* ===== verification/Tx_Video.thy ===== *)
theory Tx_Video
  imports Video_Packet
begin

text \<open>
  The transmit session for uncompressed video, up to the packets it hands to the pacer
  (\<^verbatim>\<open>lib/src/st2110/st_tx_video_session.c\<close>): the sizes computed when a session attaches, the table of packet
  kinds that the pacing is trained with, the row headers and the payload of each packet, with the copying
  and the chained builder, and the loop that builds a bulk on the primary port. Queues and pacing are not part of the
  model; whether the pool of the chained builder is empty is an argument. A read outside the frame buffer is \<open>None\<close>. Ints are numbers: the frames are below \<open>2^31\<close> bytes, and the
  divisors are not zero for a width above zero.
\<close>

section \<open>State\<close>

datatype st20_type = ST20_TYPE_FRAME_LEVEL | ST20_TYPE_RTP_LEVEL | ST20_TYPE_SLICE_LEVEL

datatype st20_packet_type =
  ST20_PKT_TYPE_NORMAL | ST20_PKT_TYPE_EXTRA | ST20_PKT_TYPE_FRAME_TAIL | ST20_PKT_TYPE_LINE_TAIL

record st20_packet_group_info =
  gi_size :: nat
  gi_number :: nat

record st20_tx_ops =
  to_width :: nat
  to_height :: nat
  to_interlaced :: bool
  to_fps :: st_fps
  to_fmt :: st20_fmt
  to_packing :: st20_packing
  to_type :: st20_type
  to_linesize :: nat
  to_payload_type :: u8
  to_ssrc :: u32
  to_rtp_pkt_size :: nat
  to_rtp_frame_total_pkts :: nat

text \<open>Of the current frame: its bytes, its field and its time stamp.\<close>

record tx_video =
  tv_ops :: st20_tx_ops
  tv_st22 :: bool
  tv_pg :: st20_pgroup
  tv_frame_size :: nat
  tv_fb_size :: nat
  tv_linesize :: nat
  tv_bytes_in_line :: nat
  tv_pkts_in_line :: nat
  tv_pkt_len :: nat
  tv_pkt_size :: nat
  tv_rtp_pkt_max_size :: nat
  tv_total_pkts :: nat
  tv_pkt_info :: "st20_packet_type \<Rightarrow> st20_packet_group_info"
  tv_pkt_idx :: nat
  tv_seq_id :: u32
  tv_waiting :: bool
  tv_frame_data :: "u8 list"
  tv_second_field :: bool
  tv_rtp_time_stamp :: u32
  tv_build :: u64
  tv_dummy :: u64
  tv_frames :: u64
  tv_chain_realloc_fail :: u64

section \<open>Sizes\<close>

text \<open>The loop over \<open>temp\<close>, the multiples of the line size: the first that is a multiple of the packet size too,
  or the first past the frame.\<close>

function line_period :: "nat \<Rightarrow> nat \<Rightarrow> nat \<Rightarrow> nat \<Rightarrow> nat" where
  "line_period bytes_in_line bytes_per_pkt frame_size k =
     (let temp = k * bytes_in_line in
      if temp mod bytes_per_pkt \<noteq> 0 \<and> temp \<le> frame_size
      then line_period bytes_in_line bytes_per_pkt frame_size (k + 1) else temp)"
  by pat_completeness auto
termination
proof (relation "measure (\<lambda>(b, p, f, k). f + 1 - k * b)", goal_cases)
  case (2 b p f k temp)
  then have "0 < b" by (cases b) auto
  moreover have "k * b \<le> f" using 2 by auto
  ultimately have "f + 1 - (k + 1) * b < f + 1 - k * b" by (intro diff_less_mono2) auto
  then show ?case by simp
qed simp

declare line_period.simps [simp del]

definition no_info :: "st20_packet_type \<Rightarrow> st20_packet_group_info" where
  "no_info = (\<lambda>_. \<lparr>gi_size = 0, gi_number = 0\<rparr>)"

text \<open>The part that the packings BPM and GPM share, after the packet size is known.\<close>

definition block_pkt_info :: "nat \<Rightarrow> tx_video \<Rightarrow> tx_video" where
  "block_pkt_info height s =
     (let last_pkt_len = tv_frame_size s mod tv_pkt_len s;
          temp = line_period (tv_bytes_in_line s) (tv_pkt_len s) (tv_frame_size s) 1;
          none_extra_lines = ceil_div (tv_frame_size s) temp;
          extra_pkts = height - none_extra_lines;
          info = no_info;
          info = (if extra_pkts \<noteq> 0
                  then info(ST20_PKT_TYPE_EXTRA := \<lparr>gi_size = tv_pkt_size s + extra_rtp_hdr_size, gi_number = extra_pkts\<rparr>)
                  else info);
          info = (if last_pkt_len \<noteq> 0
                  then info(ST20_PKT_TYPE_FRAME_TAIL := \<lparr>gi_size = last_pkt_len + st_rfc4175_video_hdr_size, gi_number = 1\<rparr>)
                  else info);
          normal = tv_total_pkts s - gi_number (info ST20_PKT_TYPE_FRAME_TAIL) - gi_number (info ST20_PKT_TYPE_EXTRA)
      in s\<lparr>tv_pkt_info := info(ST20_PKT_TYPE_NORMAL := \<lparr>gi_size = tv_pkt_size s, gi_number = normal\<rparr>)\<rparr>)"

definition frame_height :: "st20_tx_ops \<Rightarrow> nat" where
  "frame_height ops = (if to_interlaced ops then to_height ops div 2 else to_height ops)"

definition line_bytes :: "nat \<Rightarrow> st20_pgroup \<Rightarrow> nat" where
  "line_bytes width pg = (width * pg_size pg + pg_coverage pg - 1) div pg_coverage pg"

text \<open>The branches of \<open>tv_init_pkt\<close>. \<open>suggest\<close> is \<open>pkt_udp_suggest_max_size\<close> of the library instance.\<close>

definition tv_init_pkt_st22 :: "nat \<Rightarrow> tx_video \<Rightarrow> tx_video" where
  "tv_init_pkt_st22 suggest s =
     (let max_data_len = (suggest - 16) div 128 * 128;
          total = tv_frame_size s div max_data_len + (if tv_frame_size s mod max_data_len \<noteq> 0 then 1 else 0);
          pkt_size = to16 (max_data_len + 16)
      in s\<lparr>tv_total_pkts := total, tv_pkt_len := to16 max_data_len, tv_pkt_size := pkt_size,
           tv_pkt_info := no_info(ST20_PKT_TYPE_NORMAL := \<lparr>gi_size = pkt_size, gi_number = total\<rparr>)\<rparr>)"

definition tv_init_pkt_rtp :: "tx_video \<Rightarrow> tx_video" where
  "tv_init_pkt_rtp s =
     (let ops = tv_ops s; total = to_rtp_frame_total_pkts ops; pkt_size = to16 (to_rtp_pkt_size ops + 42)
      in s\<lparr>tv_total_pkts := total, tv_pkt_size := pkt_size, tv_pkt_len := to_rtp_pkt_size ops,
           tv_pkt_info := no_info(ST20_PKT_TYPE_NORMAL := \<lparr>gi_size = pkt_size, gi_number = total\<rparr>)\<rparr>)"

definition tv_init_pkt_gpm_sl :: "tx_video \<Rightarrow> tx_video" where
  "tv_init_pkt_gpm_sl s =
     (let ops = tv_ops s; pg = tv_pg s; height = frame_height ops;
          bytes_in_pkt = ST_PKT_MAX_ETHER_BYTES - st_rfc4175_video_hdr_size;
          pkts_in_line = tv_bytes_in_line s div bytes_in_pkt + 1;
          pixel_in_pkt = (to_width ops + pkts_in_line - 1) div pkts_in_line;
          pkt_len = to16 ((pixel_in_pkt + pg_coverage pg - 1) div pg_coverage pg * pg_size pg);
          pkt_size = to16 (pkt_len + st_rfc4175_video_hdr_size);
          total = height * pkts_in_line;
          line_last_len = tv_bytes_in_line s mod pkt_len;
          info = (if line_last_len \<noteq> 0
                  then no_info(ST20_PKT_TYPE_LINE_TAIL :=
                         \<lparr>gi_size = line_last_len + st_rfc4175_video_hdr_size, gi_number = height\<rparr>)
                  else no_info)
      in s\<lparr>tv_pkts_in_line := pkts_in_line, tv_pkt_len := pkt_len, tv_pkt_size := pkt_size, tv_total_pkts := total,
           tv_pkt_info := info(ST20_PKT_TYPE_NORMAL :=
             \<lparr>gi_size = pkt_size, gi_number = total - gi_number (info ST20_PKT_TYPE_LINE_TAIL)\<rparr>)\<rparr>)"

definition tv_init_pkt_bpm :: "tx_video \<Rightarrow> tx_video res" where
  "tv_init_pkt_bpm s =
     (if ST_VIDEO_BPM_SIZE mod pg_size (tv_pg s) \<noteq> 0 then Inl EIO
      else Inr (block_pkt_info (frame_height (tv_ops s)) (s\<lparr>tv_pkt_len := ST_VIDEO_BPM_SIZE,
             tv_pkt_size := ST_VIDEO_BPM_SIZE + st_rfc4175_video_hdr_size,
             tv_total_pkts := ceil_div (tv_frame_size s) ST_VIDEO_BPM_SIZE\<rparr>)))"

definition tv_init_pkt_gpm :: "nat \<Rightarrow> tx_video \<Rightarrow> tx_video" where
  "tv_init_pkt_gpm suggest s =
     (let ops = tv_ops s; pg = tv_pg s; height = frame_height ops;
          align = pg_size pg * 2;
          max_data_len = (suggest - 20 - extra_rtp_hdr_size) div align * align;
          pg_per_pkt = max_data_len div pg_size pg;
          pkt_len = to16 (pg_per_pkt * pg_size pg)
      in block_pkt_info height (s\<lparr>tv_total_pkts := ceil_div (to_width ops * height) (pg_coverage pg * pg_per_pkt),
           tv_pkt_len := pkt_len, tv_pkt_size := to16 (pkt_len + st_rfc4175_video_hdr_size)\<rparr>))"

definition tv_init_pkt :: "nat \<Rightarrow> tx_video \<Rightarrow> tx_video res" where
  "tv_init_pkt suggest s =
     (let ops = tv_ops s;
          s = s\<lparr>tv_pkt_info := no_info, tv_bytes_in_line := line_bytes (to_width ops) (tv_pg s),
                tv_rtp_pkt_max_size := to_rtp_pkt_size ops\<rparr>
      in
      case (if tv_st22 s then Inr (tv_init_pkt_st22 suggest s)
            else if to_type ops = ST20_TYPE_RTP_LEVEL then Inr (tv_init_pkt_rtp s)
            else
              case to_packing ops of
                ST20_PACKING_GPM_SL \<Rightarrow> Inr (tv_init_pkt_gpm_sl s)
              | ST20_PACKING_BPM \<Rightarrow> tv_init_pkt_bpm s
              | ST20_PACKING_GPM \<Rightarrow> Inr (tv_init_pkt_gpm suggest s)
              | ST20_PACKING_MAX \<Rightarrow> Inl EIO) of
        Inl e \<Rightarrow> Inl e
      | Inr s \<Rightarrow> if tv_pkt_size s > ST_PKT_MAX_ETHER_BYTES then Inl EIO else Inr s)"

text \<open>\<open>port_map\<close> and \<open>rest\<close> are the results of the steps that talk to the device. \<open>st22\<close> holds the size of the
  codestream with its boxes when the session carries compressed video.\<close>

definition tv_attach :: "unit res \<Rightarrow> unit res \<Rightarrow> nat \<Rightarrow> nat option \<Rightarrow> st20_tx_ops \<Rightarrow> tx_video \<Rightarrow> tx_video res" where
  "tv_attach port_map rest suggest st22 ops s =
     (case port_map of Inl e \<Rightarrow> Inl e | Inr _ \<Rightarrow>
      case st20_get_pgroup (to_fmt ops) of Inl e \<Rightarrow> Inl e | Inr pg \<Rightarrow>
      case st_get_fps_timing (to_fps ops) of Inl e \<Rightarrow> Inl e | Inr _ \<Rightarrow>
      let linesize = line_bytes (to_width ops) pg in
      if \<not> linesize < to_linesize ops \<and> to_linesize ops \<noteq> 0 then Inl EINVAL
      else
        let linesize = max linesize (to_linesize ops); height = frame_height ops;
            s = s\<lparr>tv_ops := ops, tv_pg := pg, tv_linesize := linesize, tv_st22 := st22 \<noteq> None,
              tv_frame_size := (case st22 of Some n \<Rightarrow> n
                | None \<Rightarrow> to32 (to_width ops * height * pg_size pg) div pg_coverage pg),
              tv_fb_size := (case st22 of Some n \<Rightarrow> n | None \<Rightarrow> linesize * height)\<rparr>
        in case tv_init_pkt suggest s of Inl e \<Rightarrow> Inl e | Inr s \<Rightarrow>
           case rest of Inl e \<Rightarrow> Inl e | Inr _ \<Rightarrow> Inr (s\<lparr>tv_pkt_idx := 0, tv_seq_id := 0, tv_waiting := True\<rparr>))"

section \<open>Packets\<close>

definition tv_pkt_has_extra_hdr :: "tx_video \<Rightarrow> nat \<Rightarrow> bool" where
  "tv_pkt_has_extra_hdr s offset =
     (let last_byte = to32 (offset + tv_pkt_len s) in
      last_byte > to32 ((offset div tv_bytes_in_line s + 1) * tv_bytes_in_line s) \<and> last_byte < tv_frame_size s)"

definition tv_train_pad_type :: "tx_video \<Rightarrow> nat \<Rightarrow> st20_packet_type" where
  "tv_train_pad_type s i =
     (if to_type (tv_ops s) = ST20_TYPE_RTP_LEVEL \<or> tv_st22 s then ST20_PKT_TYPE_NORMAL
      else if to_packing (tv_ops s) = ST20_PACKING_GPM_SL then
        (if gi_number (tv_pkt_info s ST20_PKT_TYPE_LINE_TAIL) \<noteq> 0 \<and> i mod tv_pkts_in_line s = tv_pkts_in_line s - 1
         then ST20_PKT_TYPE_LINE_TAIL else ST20_PKT_TYPE_NORMAL)
      else
        let offset = to32 (tv_pkt_len s * i) in
        if to32 (offset + tv_pkt_len s) > tv_frame_size s then ST20_PKT_TYPE_FRAME_TAIL
        else if tv_pkt_has_extra_hdr s offset then ST20_PKT_TYPE_EXTRA else ST20_PKT_TYPE_NORMAL)"

text \<open>The numbers both builders compute from the index of the packet.\<close>

record st20_layout =
  ly_offset :: nat
  ly_line1_number :: nat
  ly_line1_offset :: nat
  ly_extra :: bool
  ly_left_len :: nat
  ly_line1_length :: nat
  ly_line2_length :: nat

definition st20_pkt_layout :: "tx_video \<Rightarrow> st20_layout" where
  "st20_pkt_layout s =
     (let pg = tv_pg s; ops = tv_ops s; single_line = (to_packing ops = ST20_PACKING_GPM_SL);
          (offset, number, pixel, extra) =
            (if single_line then
               let number = to16 (tv_pkt_idx s div tv_pkts_in_line s);
                   pixel_in_pkt = tv_pkt_len s div pg_size pg * pg_coverage pg;
                   pixel = to16 (pixel_in_pkt * (tv_pkt_idx s mod tv_pkts_in_line s))
               in (to32 (number * to32 (tv_linesize s) + pixel div pg_coverage pg * pg_size pg), number, pixel, False)
             else
               let offset = to32 (tv_pkt_len s * tv_pkt_idx s)
               in (offset, to16 (offset div tv_bytes_in_line s),
                   to16 (to32 (offset mod tv_bytes_in_line s * pg_coverage pg) div pg_size pg),
                   tv_pkt_has_extra_hdr s offset));
          temp = (if single_line then to32 (sub32 (to_width ops) pixel div pg_coverage pg * pg_size pg)
                  else sub32 (tv_frame_size s) offset);
          line1_length = (if extra then to16 (sub32 ((number + 1) * tv_bytes_in_line s) offset) else 0)
      in \<lparr>ly_offset = offset, ly_line1_number = number, ly_line1_offset = pixel, ly_extra = extra,
          ly_left_len = to16 (min (tv_pkt_len s) temp), ly_line1_length = line1_length,
          ly_line2_length = (if extra then to16 (tv_pkt_len s + 65536 - line1_length) else 0)\<rparr>)"

definition field_bit :: "tx_video \<Rightarrow> u16" where
  "field_bit s = (if tv_second_field s then ST20_SECOND_FIELD else 0)"

definition st20_extra_hdr :: "tx_video \<Rightarrow> st20_layout \<Rightarrow> st20_rfc4175_extra_rtp_hdr" where
  "st20_extra_hdr s l = \<lparr>er_row_length = of_nat (ly_line2_length l),
     er_row_number = of_nat (ly_line1_number l + 1) OR field_bit s, er_row_offset = 0\<rparr>"

text \<open>The packet without its payload; the payload type and the SSRC come from the header template.\<close>

definition st20_pkt_hdr :: "tx_video \<Rightarrow> st20_layout \<Rightarrow> rfc4175_pkt" where
  "st20_pkt_hdr s l =
     \<lparr>vp_marker = (tv_pkt_idx s + 1 \<ge> tv_total_pkts s), vp_payload_type = to_payload_type (tv_ops s),
      vp_seq_number = ucast (tv_seq_id s), vp_seq_number_ext = ucast (drop_bit 16 (tv_seq_id s)),
      vp_tmstamp = tv_rtp_time_stamp s, vp_ssrc = to_ssrc (tv_ops s),
      vp_row_length = of_nat (if ly_extra l then ly_line1_length l else ly_left_len l),
      vp_row_number = of_nat (ly_line1_number l) OR field_bit s,
      vp_row_offset = (if ly_extra l then of_nat (ly_line1_offset l) OR ST20_SRD_OFFSET_CONTINUATION
                       else of_nat (ly_line1_offset l)),
      vp_body = (if ly_extra l then extra_bytes (st20_extra_hdr s l) else []),
      vp_pkt_len = st_rfc4175_video_hdr_size + (if ly_extra l then extra_rtp_hdr_size else 0),
      vp_multi_seg = False, vp_rx_time = 0\<rparr>"

text \<open>The offset in a buffer with padded lines, and the bytes of the frame the packet carries.\<close>

definition st20_copy_offset :: "tx_video \<Rightarrow> st20_layout \<Rightarrow> nat" where
  "st20_copy_offset s l =
     (if to_packing (tv_ops s) \<noteq> ST20_PACKING_GPM_SL \<and> tv_linesize s > tv_bytes_in_line s
      then to32 (ly_offset l mod tv_bytes_in_line s + ly_line1_number l * tv_linesize s) else ly_offset l)"

definition st20_crosses_padding :: "tx_video \<Rightarrow> st20_layout \<Rightarrow> bool" where
  "st20_crosses_padding s l \<longleftrightarrow> ly_extra l \<and> tv_linesize s > tv_bytes_in_line s"

definition st20_pkt_payload :: "tx_video \<Rightarrow> st20_layout \<Rightarrow> u8 list option" where
  "st20_pkt_payload s l =
     (if st20_crosses_padding s l then do {
        line1 \<leftarrow> buf_read (st20_copy_offset s l) (ly_line1_length l) (tv_frame_data s);
        line2 \<leftarrow> buf_read (tv_linesize s * (ly_line1_number l + 1)) (ly_line2_length l) (tv_frame_data s);
        Some (line1 @ line2)
      } else buf_read (st20_copy_offset s l) (ly_left_len l) (tv_frame_data s))"

definition add_payload :: "u8 list \<Rightarrow> nat \<Rightarrow> rfc4175_pkt \<Rightarrow> rfc4175_pkt" where
  "add_payload payload n pkt = pkt\<lparr>vp_body := vp_body pkt @ payload, vp_pkt_len := vp_pkt_len pkt + n\<rparr>"

definition tv_build_st20 :: "tx_video \<Rightarrow> (rfc4175_pkt \<times> tx_video) option" where
  "tv_build_st20 s = do {
     let l = st20_pkt_layout s;
     payload \<leftarrow> st20_pkt_payload s l;
     Some (add_payload payload (ly_left_len l) (st20_pkt_hdr s l), s\<lparr>tv_seq_id := tv_seq_id s + 1\<rparr>)
   }"

text \<open>The chained builder: the header in one segment, the payload in a second one that is attached to the frame,
  or copied into a buffer of a pool when it crosses padding or, as \<open>cross_page\<close> tells, a page. When the pool is
  empty the function gives up, after the header was written and the sequence number advanced.\<close>

definition tv_build_st20_chain ::
    "bool \<Rightarrow> (nat \<Rightarrow> nat \<Rightarrow> bool) \<Rightarrow> tx_video \<Rightarrow> (unit res \<times> rfc4175_pkt \<times> tx_video) option" where
  "tv_build_st20_chain pool_empty cross_page s =
     (let l = st20_pkt_layout s; pkt = st20_pkt_hdr s l; s' = s\<lparr>tv_seq_id := tv_seq_id s + 1\<rparr>;
          off = st20_copy_offset s l
      in if st20_crosses_padding s l then
           if pool_empty then Some (Inl ENOMEM, pkt, s'\<lparr>tv_chain_realloc_fail := tv_chain_realloc_fail s + 1\<rparr>)
           else do {
             line1 \<leftarrow> buf_read off (ly_line1_length l) (tv_frame_data s);
             line2 \<leftarrow> buf_read (tv_linesize s * (ly_line1_number l + 1)) (ly_line2_length l) (tv_frame_data s);
             Some (Inr (), add_payload (line1 @ line2) (ly_left_len l) pkt, s')
           }
         else if cross_page off (ly_left_len l) then do {
           payload \<leftarrow> buf_read off (ly_left_len l) (tv_frame_data s);
           Some (Inr (), add_payload payload (ly_left_len l) pkt, s')
         } else do {
           attached \<leftarrow> buf_read off (ly_left_len l) (tv_frame_data s);
           Some (Inr (), add_payload attached (ly_left_len l) pkt, s')
         })"

text \<open>The choice of the tasklet between the builders: \<open>no_chain\<close> is \<open>tx_no_chain\<close>, \<open>dry i\<close> tells whether the pool is
  empty at packet \<open>i\<close>. The result of the chained builder is not looked at.\<close>

definition tv_build_one :: "bool \<Rightarrow> (nat \<Rightarrow> bool) \<Rightarrow> (nat \<Rightarrow> nat \<Rightarrow> bool) \<Rightarrow> tx_video \<Rightarrow> (rfc4175_pkt \<times> tx_video) option" where
  "tv_build_one no_chain dry cross_page s =
     (if no_chain then tv_build_st20 s
      else do { (_, pkt, s) \<leftarrow> tv_build_st20_chain (dry (tv_pkt_idx s)) cross_page s; Some (pkt, s) })"

text \<open>The loop of the tasklet over one bulk, on the primary port, and the end of the frame.\<close>

fun tv_build_pkts ::
    "bool \<Rightarrow> (nat \<Rightarrow> bool) \<Rightarrow> (nat \<Rightarrow> nat \<Rightarrow> bool) \<Rightarrow> nat \<Rightarrow> tx_video \<Rightarrow> (rfc4175_pkt list \<times> tx_video) option" where
  "tv_build_pkts no_chain dry cross_page 0 s = Some ([], s)"
| "tv_build_pkts no_chain dry cross_page (Suc n) s =
     (if tv_pkt_idx s \<ge> tv_total_pkts s
      then tv_build_pkts no_chain dry cross_page n (s\<lparr>tv_dummy := tv_dummy s + 1, tv_pkt_idx := tv_pkt_idx s + 1\<rparr>)
      else do {
        (pkt, s) \<leftarrow> tv_build_one no_chain dry cross_page s;
        (pkts, s) \<leftarrow> tv_build_pkts no_chain dry cross_page n (s\<lparr>tv_build := tv_build s + 1, tv_pkt_idx := tv_pkt_idx s + 1\<rparr>);
        Some (pkt # pkts, s)
      })"

definition tv_build_bulk ::
    "bool \<Rightarrow> (nat \<Rightarrow> bool) \<Rightarrow> (nat \<Rightarrow> nat \<Rightarrow> bool) \<Rightarrow> nat \<Rightarrow> tx_video \<Rightarrow> (rfc4175_pkt list \<times> tx_video) option" where
  "tv_build_bulk no_chain dry cross_page bulk s = do {
     (pkts, s) \<leftarrow> tv_build_pkts no_chain dry cross_page bulk s;
     Some (pkts, if tv_pkt_idx s \<ge> tv_total_pkts s
                 then s\<lparr>tv_waiting := True, tv_pkt_idx := 0, tv_frames := tv_frames s + 1\<rparr> else s)
   }"

section \<open>The two builders\<close>

text \<open>With a buffer in the pool, both builders make the same packet.\<close>

lemma chain_same_packet:
  "tv_build_st20_chain False cross_page s = map_option (\<lambda>(pkt, s'). (Inr (), pkt, s')) (tv_build_st20 s)"
  unfolding tv_build_st20_chain_def tv_build_st20_def st20_pkt_payload_def Let_def
  by (simp split: Option.bind_split)

lemma build_one_same: "no_chain \<or> \<not> dry (tv_pkt_idx s) \<Longrightarrow> tv_build_one no_chain dry cross_page s = tv_build_st20 s"
  unfolding tv_build_one_def by (cases "tv_build_st20 s") (auto simp: chain_same_packet)

text \<open>Without one, a packet that crosses padding goes out with its headers alone.\<close>

lemma chain_pool_empty:
  assumes "st20_crosses_padding s (st20_pkt_layout s)" and "dry (tv_pkt_idx s)"
  shows "\<exists>pkt. tv_build_one False dry cross_page s =
      Some (pkt, s\<lparr>tv_seq_id := tv_seq_id s + 1, tv_chain_realloc_fail := tv_chain_realloc_fail s + 1\<rparr>) \<and>
    vp_body pkt = extra_bytes (st20_extra_hdr s (st20_pkt_layout s)) \<and> vp_row_length pkt = of_nat (ly_line1_length (st20_pkt_layout s))"
  using assms by (auto simp: tv_build_one_def tv_build_st20_chain_def Let_def st20_pkt_hdr_def st20_crosses_padding_def)

end
