(* ===== verification/Tx_Video_Laws.thy ===== *)
theory Tx_Video_Laws
  imports Tx_Video Format_Laws
begin

text \<open>
  Facts about the packets of the transmit session for video. The packets of a frame tile its bytes (without
  the padding of the lines): the locale \<open>packet_plan\<close> says what that means and is interpreted for the block
  packings (BPM, GPM), where packet \<open>i\<close> starts at \<open>i * pkt_len\<close>, and for the packing of single lines
  (GPM_SL). From there: what each packet carries.
\<close>

section \<open>A plan of packets\<close>

locale packet_plan =
  fixes ok :: "'s \<Rightarrow> bool" and total :: "'s \<Rightarrow> nat" and bytes :: "'s \<Rightarrow> nat" and start :: "'s \<Rightarrow> nat \<Rightarrow> nat"
  assumes start_0: "ok s \<Longrightarrow> start s 0 = 0"
    and start_total: "ok s \<Longrightarrow> start s (total s) = bytes s"
    and start_Suc: "ok s \<Longrightarrow> i < total s \<Longrightarrow> start s i < start s (Suc i)"
begin

definition len :: "'s \<Rightarrow> nat \<Rightarrow> nat" where
  "len s i = start s (Suc i) - start s i"

lemma start_mono: "ok s \<Longrightarrow> i \<le> j \<Longrightarrow> j \<le> total s \<Longrightarrow> start s i \<le> start s j"
proof (induction j)
  case (Suc j)
  then show ?case using start_Suc [of s j] by (cases "i = Suc j") auto
qed simp

lemma start_le: "ok s \<Longrightarrow> i \<le> total s \<Longrightarrow> start s i \<le> bytes s"
  using start_mono [of s i "total s"] start_total by simp

lemma start_strict: "ok s \<Longrightarrow> i < j \<Longrightarrow> j \<le> total s \<Longrightarrow> start s i < start s j"
  using start_Suc [of s i] start_mono [of s "Suc i" j] by simp

lemma sum_len: "ok s \<Longrightarrow> n \<le> total s \<Longrightarrow> (\<Sum>i<n. len s i) = start s n"
proof (induction n)
  case (Suc n)
  then show ?case using start_Suc [of s n] by (simp add: len_def)
qed (simp add: start_0)

lemma sum_all: "ok s \<Longrightarrow> (\<Sum>i<total s. len s i) = bytes s"
  by (simp add: sum_len start_total)

lemma sum_part:
  assumes "ok s" and "A \<subset> {..<total s}"
  shows "(\<Sum>i\<in>A. len s i) < bytes s"
proof -
  obtain k where k: "k < total s" "k \<notin> A" using assms(2) by auto
  have "(\<Sum>i\<in>A. len s i) < (\<Sum>i\<in>insert k A. len s i)"
    using k start_Suc [OF assms(1) k(1)] finite_subset [of A "{..<total s}"] assms(2)
    by (simp add: len_def psubset_imp_subset)
  also have "\<dots> \<le> (\<Sum>i<total s. len s i)"
    using k assms(2) by (intro sum_mono2) auto
  finally show ?thesis using sum_all [OF assms(1)] by simp
qed

text \<open>Every byte of the frame is in one packet.\<close>

lemma covered: "ok s \<Longrightarrow> p < bytes s \<Longrightarrow> \<exists>i < total s. start s i \<le> p \<and> p < start s (Suc i)"
proof -
  assume s: "ok s" and p: "p < bytes s"
  define n where "n = (LEAST n. p < start s n)"
  have ex: "p < start s (total s)" using p start_total [OF s] by simp
  have n: "p < start s n" unfolding n_def by (rule LeastI [of "\<lambda>n. p < start s n", OF ex])
  have "n \<le> total s" unfolding n_def by (rule Least_le [of "\<lambda>n. p < start s n", OF ex])
  moreover obtain i where i: "n = Suc i" using n start_0 [OF s] by (cases n) auto
  moreover have "\<not> p < start s i" using not_less_Least [of i "\<lambda>n. p < start s n"] i unfolding n_def by simp
  ultimately show ?thesis using n by (intro exI [of _ i]) auto
qed

end

section \<open>Geometry of a session\<close>

definition block_packing :: "tx_video \<Rightarrow> bool" where
  "block_packing s \<longleftrightarrow> to_packing (tv_ops s) \<noteq> ST20_PACKING_GPM_SL"

definition tv_rows :: "tx_video \<Rightarrow> nat" where
  "tv_rows s = frame_height (tv_ops s)"

text \<open>The sizes fit together; a packet is no longer than a line.\<close>

definition tv_geometry :: "tx_video \<Rightarrow> bool" where
  "tv_geometry s \<longleftrightarrow>
     0 < pg_size (tv_pg s) \<and> pg_size (tv_pg s) \<le> 15 \<and> 0 < pg_coverage (tv_pg s) \<and> pg_coverage (tv_pg s) dvd to_width (tv_ops s) \<and>
     0 < to_width (tv_ops s) \<and> to_width (tv_ops s) < 32768 \<and> 0 < tv_rows s \<and> tv_rows s < 32768 \<and>
     tv_bytes_in_line s = to_width (tv_ops s) div pg_coverage (tv_pg s) * pg_size (tv_pg s) \<and>
     tv_frame_size s = tv_rows s * tv_bytes_in_line s \<and> tv_bytes_in_line s \<le> tv_linesize s \<and>
     tv_fb_size s = tv_linesize s * tv_rows s \<and> tv_fb_size s < 2147483648 \<and>
     0 < tv_pkt_len s \<and> pg_size (tv_pg s) dvd tv_pkt_len s \<and> tv_pkt_len s \<le> 1432 \<and> tv_pkt_len s \<le> tv_bytes_in_line s \<and>
     (if block_packing s then tv_total_pkts s = ceil_div (tv_frame_size s) (tv_pkt_len s)
      else tv_total_pkts s = tv_rows s * tv_pkts_in_line s \<and> 0 < tv_pkts_in_line s \<and>
        (tv_pkts_in_line s - 1) * tv_pkt_len s < tv_bytes_in_line s \<and>
        tv_bytes_in_line s \<le> tv_pkts_in_line s * tv_pkt_len s)"

definition block_plan :: "tx_video \<Rightarrow> bool" where
  "block_plan s \<longleftrightarrow> 0 < tv_pkt_len s \<and> tv_total_pkts s = ceil_div (tv_frame_size s) (tv_pkt_len s)"

definition line_plan :: "tx_video \<Rightarrow> bool" where
  "line_plan s \<longleftrightarrow> 0 < tv_pkts_in_line s \<and> tv_total_pkts s = tv_rows s * tv_pkts_in_line s \<and>
     tv_frame_size s = tv_rows s * tv_bytes_in_line s \<and>
     (tv_pkts_in_line s - 1) * tv_pkt_len s < tv_bytes_in_line s \<and> tv_bytes_in_line s \<le> tv_pkts_in_line s * tv_pkt_len s"

definition block_start :: "tx_video \<Rightarrow> nat \<Rightarrow> nat" where
  "block_start s i = min (tv_frame_size s) (i * tv_pkt_len s)"

definition line_start :: "tx_video \<Rightarrow> nat \<Rightarrow> nat" where
  "line_start s i = i div tv_pkts_in_line s * tv_bytes_in_line s + i mod tv_pkts_in_line s * tv_pkt_len s"

interpretation blocks: packet_plan block_plan tv_total_pkts tv_frame_size block_start
proof unfold_locales
  fix s i
  assume s: "block_plan s"
  note le = ceil_div_le [of "tv_pkt_len s" "tv_frame_size s"] and less = ceil_div_less [of "tv_pkt_len s" "tv_frame_size s"]
  show "block_start s 0 = 0" by (simp add: block_start_def)
  show "block_start s (tv_total_pkts s) = tv_frame_size s" using s le by (simp add: block_start_def block_plan_def)
  assume i: "i < tv_total_pkts s"
  then have "(i + 1) * tv_pkt_len s \<le> ceil_div (tv_frame_size s) (tv_pkt_len s) * tv_pkt_len s"
    using s by (intro mult_le_mono1) (simp add: block_plan_def)
  then show "block_start s i < block_start s (Suc i)" using less s by (simp add: block_start_def block_plan_def)
qed

lemma line_row_last: "line_plan s \<Longrightarrow> j < tv_pkts_in_line s \<Longrightarrow> j * tv_pkt_len s < tv_bytes_in_line s"
proof -
  assume s: "line_plan s" and "j < tv_pkts_in_line s"
  then have "j * tv_pkt_len s \<le> (tv_pkts_in_line s - 1) * tv_pkt_len s" by (intro mult_le_mono1) simp
  then show ?thesis using s unfolding line_plan_def by linarith
qed

text \<open>The next packet of a line, or the first of the next line.\<close>

lemma line_start_Suc:
  assumes "0 < tv_pkts_in_line s"
  shows "line_start s (Suc i) = i div tv_pkts_in_line s * tv_bytes_in_line s +
    (if Suc (i mod tv_pkts_in_line s) < tv_pkts_in_line s then Suc (i mod tv_pkts_in_line s) * tv_pkt_len s
     else tv_bytes_in_line s)"
proof (cases "Suc (i mod tv_pkts_in_line s) < tv_pkts_in_line s")
  case True
  then have "Suc i div tv_pkts_in_line s = i div tv_pkts_in_line s" "Suc i mod tv_pkts_in_line s = Suc (i mod tv_pkts_in_line s)"
    by (simp_all add: div_Suc mod_Suc)
  then show ?thesis using True by (simp add: line_start_def)
next
  case False
  then have "Suc (i mod tv_pkts_in_line s) = tv_pkts_in_line s"
    using mod_less_divisor [OF assms, of i] by linarith
  then have "Suc i div tv_pkts_in_line s = Suc (i div tv_pkts_in_line s)" "Suc i mod tv_pkts_in_line s = 0"
    by (simp_all add: div_Suc mod_Suc)
  then show ?thesis using False by (simp add: line_start_def)
qed

interpretation lines: packet_plan line_plan tv_total_pkts tv_frame_size line_start
proof unfold_locales
  fix s i
  assume s: "line_plan s"
  then have n: "0 < tv_pkts_in_line s" by (simp add: line_plan_def)
  show "line_start s 0 = 0" by (simp add: line_start_def)
  show "line_start s (tv_total_pkts s) = tv_frame_size s" using s by (simp add: line_start_def line_plan_def)
  have "i mod tv_pkts_in_line s * tv_pkt_len s < tv_bytes_in_line s"
    using line_row_last [OF s] mod_less_divisor [OF n] by blast
  moreover from this have "0 < tv_pkt_len s" using s line_row_last [OF s] by (cases "tv_pkt_len s") (auto simp: line_plan_def)
  ultimately show "line_start s i < line_start s (Suc i)"
    unfolding line_start_Suc [OF n] by (simp add: line_start_def)
qed

section \<open>Attaching\<close>

lemma pgroup_rows: "r \<in> set st20_pgroups \<Longrightarrow>
    0 < pg_size r \<and> 0 < pg_coverage r \<and> pg_size r \<le> 15 \<and> pg_size r * pg_size r * 2 \<le> 113 * pg_coverage r"
  by (auto simp: st20_pgroups_def)

lemma get_pgroup_in: "st20_get_pgroup fmt = Inr pg \<Longrightarrow> pg \<in> set st20_pgroups"
  by (auto simp: st20_get_pgroup_def find_Some_iff split: option.splits)

lemma line_bytes_dvd: "0 < pg_coverage pg \<Longrightarrow> pg_coverage pg dvd w \<Longrightarrow> line_bytes w pg = w div pg_coverage pg * pg_size pg"
proof -
  assume c: "0 < pg_coverage pg" and "pg_coverage pg dvd w"
  then obtain g where g: "w = pg_coverage pg * g" by (elim dvdE)
  have "line_bytes w pg = ceil_div (w * pg_size pg) (pg_coverage pg)" by (simp add: line_bytes_def ceil_div_def)
  also have "\<dots> = g * pg_size pg" using c by (intro ceil_div_unique) (simp_all add: g algebra_simps)
  finally show ?thesis using c by (simp add: g)
qed

text \<open>\<open>n\<close> packets for \<open>g\<close> groups of \<open>c\<close> pixels: the groups per packet, and that none of the packets is empty.\<close>

lemma line_groups:
  assumes "0 < n" and "0 < (c :: nat)"
  shows "((c * g + n - 1) div n + c - 1) div c = ceil_div g n"
proof -
  have "((c * g + n - 1) div n + c - 1) div c = ceil_div (ceil_div (c * g) n) c"
    by (simp add: ceil_div_def)
  also have "\<dots> = ceil_div g n"
  proof (rule ceil_div_unique [OF assms(2)])
    have a: "g \<le> ceil_div g n * n" "ceil_div g n * n < g + n" using assms ceil_div_le ceil_div_less by auto
    have b: "c * g \<le> ceil_div (c * g) n * n" "ceil_div (c * g) n * n < c * g + n"
      using assms ceil_div_le ceil_div_less by auto
    note b(2)
    also have "c * g + n \<le> c * (ceil_div g n * n) + n" using a(1) by simp
    also have "\<dots> = (ceil_div g n * c + 1) * n" by (simp add: algebra_simps)
    finally have "ceil_div (c * g) n < ceil_div g n * c + 1" using mult_less_cancel2 by blast
    then show "ceil_div (c * g) n \<le> ceil_div g n * c" by simp
    have "c * (ceil_div g n * n) < c * (g + n)" using a(2) assms(2) by simp
    then have "ceil_div g n * c * n < (ceil_div (c * g) n + c) * n" using b(1) by (simp add: algebra_simps)
    then show "ceil_div g n * c < ceil_div (c * g) n + c" using mult_less_cancel2 by blast
  qed
  finally show ?thesis .
qed

lemma line_last_nonempty:
  assumes "0 < g" and "(n - 1) * (n - 1) < (g :: nat)" and "0 < n"
  shows "(n - 1) * ceil_div g n < g"
proof -
  obtain m where m: "n = Suc m" using assms(3) by (cases n) auto
  have "ceil_div g n * n \<le> g + m" using ceil_div_less [OF assms(3), of g] m by simp
  then have "m * (ceil_div g n * n) \<le> m * (g + m)" by (rule mult_le_mono2)
  also have "\<dots> < g * n" using assms(2) m by (simp add: algebra_simps)
  finally have "m * ceil_div g n * n < g * n" by (simp add: mult.assoc)
  then have "m * ceil_div g n < g" using mult_less_cancel2 by blast
  then show ?thesis by (simp add: m)
qed

lemma line_pkts_square:
  assumes "pg \<in> set st20_pgroups" and "pg_coverage pg * g < 32768" and "0 < g"
  shows "(g * pg_size pg div 1432) * (g * pg_size pg div 1432) < g"
proof -
  let ?z = "pg_size pg" and ?q = "g * pg_size pg div 1432"
  have "?q * 1432 \<le> g * ?z" by simp
  then have "?q * 1432 * (?q * 1432) \<le> g * ?z * (g * ?z)" by (rule mult_le_mono) simp
  then have a: "2050624 * (?q * ?q) \<le> g * (g * (?z * ?z))" by (simp add: algebra_simps)
  have "g * (?z * ?z * 2) \<le> g * (113 * pg_coverage pg)" using pgroup_rows [OF assms(1)] by (intro mult_le_mono2) simp
  also have "\<dots> = 113 * (pg_coverage pg * g)" by simp
  also have "\<dots> \<le> 113 * 32767" using assms(2) by (intro mult_le_mono2) simp
  finally have "g * (?z * ?z) \<le> 1851335" by simp
  then have "g * (g * (?z * ?z)) \<le> g * 1851335" by (rule mult_le_mono2)
  then have "2050624 * (?q * ?q) < 2050624 * g" using a assms(3) by linarith
  then show ?thesis by simp
qed

text \<open>The sizes of a session by its packing.\<close>

lemma block_pkt_info_keeps [simp]:
  "tv_ops (block_pkt_info h s) = tv_ops s" "tv_pg (block_pkt_info h s) = tv_pg s"
  "tv_frame_size (block_pkt_info h s) = tv_frame_size s" "tv_fb_size (block_pkt_info h s) = tv_fb_size s"
  "tv_linesize (block_pkt_info h s) = tv_linesize s" "tv_bytes_in_line (block_pkt_info h s) = tv_bytes_in_line s"
  "tv_pkt_len (block_pkt_info h s) = tv_pkt_len s" "tv_pkt_size (block_pkt_info h s) = tv_pkt_size s"
  "tv_total_pkts (block_pkt_info h s) = tv_total_pkts s" "tv_pkts_in_line (block_pkt_info h s) = tv_pkts_in_line s"
  "tv_st22 (block_pkt_info h s) = tv_st22 s"
  by (simp_all add: block_pkt_info_def Let_def)

text \<open>The length of a packet in a packing of blocks.\<close>

definition block_len :: "nat \<Rightarrow> st20_tx_ops \<Rightarrow> st20_pgroup \<Rightarrow> nat" where
  "block_len suggest ops pg =
     (if to_packing ops = ST20_PACKING_BPM then 1260 else (suggest - 26) div (pg_size pg * 2) * (pg_size pg * 2))"

definition line_pkts :: "nat \<Rightarrow> nat" where
  "line_pkts bil = bil div 1432 + 1"

definition tx_video_ok :: "nat \<Rightarrow> st20_tx_ops \<Rightarrow> bool" where
  "tx_video_ok suggest ops \<longleftrightarrow> to_type ops \<noteq> ST20_TYPE_RTP_LEVEL \<and> 1000 < suggest \<and> suggest < 1452 \<and>
     0 < to_width ops \<and> to_width ops < 32768 \<and> 0 < frame_height ops \<and> frame_height ops < 32768 \<and>
     (\<forall>pg. st20_get_pgroup (to_fmt ops) = Inr pg \<longrightarrow>
       pg_coverage pg dvd to_width ops \<and> to_width ops * frame_height ops * pg_size pg < 4294967296 \<and>
       max (line_bytes (to_width ops) pg) (to_linesize ops) * frame_height ops < 2147483648 \<and>
       (to_packing ops \<noteq> ST20_PACKING_GPM_SL \<longrightarrow> block_len suggest ops pg \<le> line_bytes (to_width ops) pg))"

lemma tv_attach_cases:
  assumes "tv_attach port_map rest suggest None ops s0 = Inr s"
  obtains pg s1 s2 where "st20_get_pgroup (to_fmt ops) = Inr pg" "tv_init_pkt suggest s1 = Inr s2"
    "s = s2\<lparr>tv_pkt_idx := 0, tv_seq_id := 0, tv_waiting := True\<rparr>"
    "tv_ops s1 = ops" "tv_pg s1 = pg" "\<not> tv_st22 s1" "tv_linesize s1 = max (line_bytes (to_width ops) pg) (to_linesize ops)"
    "tv_frame_size s1 = to32 (to_width ops * frame_height ops * pg_size pg) div pg_coverage pg"
    "tv_fb_size s1 = tv_linesize s1 * frame_height ops"
proof -
  obtain pg where pg: "st20_get_pgroup (to_fmt ops) = Inr pg"
    using assms by (auto simp: tv_attach_def split: sum.splits)
  define s1 where "s1 = s0\<lparr>tv_ops := ops, tv_pg := pg, tv_linesize := max (line_bytes (to_width ops) pg) (to_linesize ops),
    tv_st22 := False, tv_frame_size := to32 (to_width ops * frame_height ops * pg_size pg) div pg_coverage pg,
    tv_fb_size := max (line_bytes (to_width ops) pg) (to_linesize ops) * frame_height ops\<rparr>"
  obtain s2 where "tv_init_pkt suggest s1 = Inr s2" "s = s2\<lparr>tv_pkt_idx := 0, tv_seq_id := 0, tv_waiting := True\<rparr>"
    using assms pg by (auto simp: tv_attach_def s1_def Let_def split: sum.splits if_splits)
  then show thesis using pg that [of pg s1 s2] by (simp add: s1_def)
qed

text \<open>What \<open>tv_init_pkt\<close> leaves and sets for a frame of rows.\<close>

definition line_set :: "tx_video \<Rightarrow> tx_video" where
  "line_set s = s\<lparr>tv_pkt_info := no_info, tv_bytes_in_line := line_bytes (to_width (tv_ops s)) (tv_pg s),
     tv_rtp_pkt_max_size := to_rtp_pkt_size (tv_ops s)\<rparr>"

lemma line_set_keeps [simp]:
  "tv_ops (line_set s) = tv_ops s" "tv_pg (line_set s) = tv_pg s" "tv_frame_size (line_set s) = tv_frame_size s"
  "tv_fb_size (line_set s) = tv_fb_size s" "tv_linesize (line_set s) = tv_linesize s" "tv_st22 (line_set s) = tv_st22 s"
  "tv_bytes_in_line (line_set s) = line_bytes (to_width (tv_ops s)) (tv_pg s)"
  by (simp_all add: line_set_def)

text \<open>The results of the single line packing, with names.\<close>

definition sl_pkt_len :: "tx_video \<Rightarrow> nat" where
  "sl_pkt_len s = to16 (((to_width (tv_ops s) + line_pkts (tv_bytes_in_line s) - 1) div line_pkts (tv_bytes_in_line s) +
     pg_coverage (tv_pg s) - 1) div pg_coverage (tv_pg s) * pg_size (tv_pg s))"

definition sl_info :: "nat \<Rightarrow> nat \<Rightarrow> nat \<Rightarrow> nat \<Rightarrow> st20_packet_type \<Rightarrow> st20_packet_group_info" where
  "sl_info bil len n h =
     (let info = (if bil mod len \<noteq> 0 then no_info(ST20_PKT_TYPE_LINE_TAIL := \<lparr>gi_size = bil mod len + 62, gi_number = h\<rparr>) else no_info)
      in info(ST20_PKT_TYPE_NORMAL := \<lparr>gi_size = to16 (len + 62), gi_number = n - gi_number (info ST20_PKT_TYPE_LINE_TAIL)\<rparr>))"

lemma gpm_sl_eq:
  "tv_init_pkt_gpm_sl s = s\<lparr>tv_pkts_in_line := line_pkts (tv_bytes_in_line s), tv_pkt_len := sl_pkt_len s,
     tv_pkt_size := to16 (sl_pkt_len s + 62), tv_total_pkts := frame_height (tv_ops s) * line_pkts (tv_bytes_in_line s),
     tv_pkt_info := sl_info (tv_bytes_in_line s) (sl_pkt_len s) (frame_height (tv_ops s) * line_pkts (tv_bytes_in_line s))
       (frame_height (tv_ops s))\<rparr>"
proof -
  have n: "tv_bytes_in_line s div (ST_PKT_MAX_ETHER_BYTES - st_rfc4175_video_hdr_size) + 1 = line_pkts (tv_bytes_in_line s)"
    by (simp add: line_pkts_def)
  show ?thesis unfolding tv_init_pkt_gpm_sl_def Let_def n unfolding sl_pkt_len_def [symmetric] sl_info_def Let_def by (rule refl)
qed

lemma gpm_sl_keeps [simp]:
  "tv_ops (tv_init_pkt_gpm_sl s) = tv_ops s" "tv_pg (tv_init_pkt_gpm_sl s) = tv_pg s"
  "tv_frame_size (tv_init_pkt_gpm_sl s) = tv_frame_size s" "tv_fb_size (tv_init_pkt_gpm_sl s) = tv_fb_size s"
  "tv_linesize (tv_init_pkt_gpm_sl s) = tv_linesize s" "tv_st22 (tv_init_pkt_gpm_sl s) = tv_st22 s"
  "tv_bytes_in_line (tv_init_pkt_gpm_sl s) = tv_bytes_in_line s"
  by (simp_all add: gpm_sl_eq)

lemma gpm_keeps [simp]:
  "tv_ops (tv_init_pkt_gpm g s) = tv_ops s" "tv_pg (tv_init_pkt_gpm g s) = tv_pg s"
  "tv_frame_size (tv_init_pkt_gpm g s) = tv_frame_size s" "tv_fb_size (tv_init_pkt_gpm g s) = tv_fb_size s"
  "tv_linesize (tv_init_pkt_gpm g s) = tv_linesize s" "tv_st22 (tv_init_pkt_gpm g s) = tv_st22 s"
  "tv_bytes_in_line (tv_init_pkt_gpm g s) = tv_bytes_in_line s"
  unfolding tv_init_pkt_gpm_def Let_def by simp_all

lemma bpm_keeps:
  assumes "tv_init_pkt_bpm s = Inr s'"
  shows "tv_ops s' = tv_ops s" "tv_pg s' = tv_pg s" "tv_frame_size s' = tv_frame_size s" "tv_fb_size s' = tv_fb_size s"
    "tv_linesize s' = tv_linesize s" "tv_st22 s' = tv_st22 s" "tv_bytes_in_line s' = tv_bytes_in_line s"
    "tv_pkt_len s' = 1260" "tv_pkt_size s' = 1322" "tv_total_pkts s' = ceil_div (tv_frame_size s) 1260"
    "1260 mod pg_size (tv_pg s) = 0"
  using assms by (auto simp: tv_init_pkt_bpm_def split: if_splits)

lemma init_pkt_cases:
  assumes "tv_init_pkt suggest s1 = Inr s2" and "\<not> tv_st22 s1" and "to_type (tv_ops s1) \<noteq> ST20_TYPE_RTP_LEVEL"
  shows "tv_pkt_size s2 \<le> 1494"
    and "to_packing (tv_ops s1) = ST20_PACKING_GPM_SL \<and> s2 = tv_init_pkt_gpm_sl (line_set s1) \<or>
      to_packing (tv_ops s1) = ST20_PACKING_BPM \<and> tv_init_pkt_bpm (line_set s1) = Inr s2 \<or>
      to_packing (tv_ops s1) = ST20_PACKING_GPM \<and> s2 = tv_init_pkt_gpm suggest (line_set s1)"
  using assms unfolding tv_init_pkt_def Let_def line_set_def [symmetric]
  by (cases "to_packing (tv_ops s1)"; simp split: if_splits sum.splits)+

lemma init_pkt_keeps:
  assumes "tv_init_pkt suggest s1 = Inr s2" and "\<not> tv_st22 s1" and "to_type (tv_ops s1) \<noteq> ST20_TYPE_RTP_LEVEL"
  shows "tv_ops s2 = tv_ops s1 \<and> tv_pg s2 = tv_pg s1 \<and> tv_frame_size s2 = tv_frame_size s1 \<and> tv_fb_size s2 = tv_fb_size s1 \<and>
    tv_linesize s2 = tv_linesize s1 \<and> tv_st22 s2 = tv_st22 s1 \<and>
    tv_bytes_in_line s2 = line_bytes (to_width (tv_ops s1)) (tv_pg s1)"
  using init_pkt_cases(2) [OF assms] bpm_keeps [of "line_set s1" s2] by auto

lemma gpm_sl_sizes:
  assumes "n = line_pkts (tv_bytes_in_line s)" and "pg = tv_pg s" and "ops = tv_ops s"
  shows "tv_pkts_in_line (tv_init_pkt_gpm_sl s) = n" "tv_total_pkts (tv_init_pkt_gpm_sl s) = frame_height ops * n"
    "tv_pkt_len (tv_init_pkt_gpm_sl s) =
      to16 (((to_width ops + n - 1) div n + pg_coverage pg - 1) div pg_coverage pg * pg_size pg)"
    "tv_pkt_size (tv_init_pkt_gpm_sl s) = to16 (tv_pkt_len (tv_init_pkt_gpm_sl s) + 62)"
  unfolding assms by (simp_all add: gpm_sl_eq sl_pkt_len_def)

lemma gpm_sizes:
  assumes "suggest < 1452" and "0 < pg_size (tv_pg s)" and "to_packing (tv_ops s) = ST20_PACKING_GPM"
  shows "tv_pkt_len (tv_init_pkt_gpm suggest s) = block_len suggest (tv_ops s) (tv_pg s)"
    "tv_pkt_size (tv_init_pkt_gpm suggest s) = block_len suggest (tv_ops s) (tv_pg s) + 62"
    "tv_total_pkts (tv_init_pkt_gpm suggest s) = ceil_div (to_width (tv_ops s) * frame_height (tv_ops s))
       (pg_coverage (tv_pg s) * (block_len suggest (tv_ops s) (tv_pg s) div pg_size (tv_pg s)))"
    "block_len suggest (tv_ops s) (tv_pg s) \<le> 1425"
proof -
  let ?z = "pg_size (tv_pg s)" and ?b = "block_len suggest (tv_ops s) (tv_pg s)"
  have b: "?b = (suggest - 26) div (?z * 2) * (?z * 2)" by (simp add: block_len_def assms(3))
  have le: "?b \<le> suggest - 26" unfolding b by simp
  have eq: "?b div ?z * ?z = ?b" using assms(2) unfolding b by simp
  from le eq assms(1) have f: "to16 (?b div ?z * ?z) = ?b" "to16 (?b + 62) = ?b + 62" by simp_all
  show "tv_pkt_len (tv_init_pkt_gpm suggest s) = ?b"
    "tv_pkt_size (tv_init_pkt_gpm suggest s) = ?b + 62"
    "tv_total_pkts (tv_init_pkt_gpm suggest s) = ceil_div (to_width (tv_ops s) * frame_height (tv_ops s))
       (pg_coverage (tv_pg s) * (?b div ?z))"
    using f unfolding tv_init_pkt_gpm_def Let_def b by simp_all
  show "?b \<le> 1425" using le assms(1) by simp
qed

lemma ceil_div_scale: "0 < c \<Longrightarrow> 0 < b \<Longrightarrow> ceil_div (c * a) (c * b) = ceil_div a b"
proof (rule ceil_div_unique)
  assume "0 < c" "0 < b"
  then show "0 < c * b" "c * a \<le> ceil_div a b * (c * b)" "ceil_div a b * (c * b) < c * a + c * b"
    using mult_le_mono2 [OF ceil_div_le [of b a], of c] mult_strict_left_mono [OF ceil_div_less [of b a], of c]
    by (simp_all add: algebra_simps)
qed

lemma block_len_pos: "1000 < suggest \<Longrightarrow> 0 < pg_size pg \<Longrightarrow> pg_size pg \<le> 15 \<Longrightarrow> 0 < block_len suggest ops pg"
proof -
  assume a: "1000 < suggest" "0 < pg_size pg" "pg_size pg \<le> 15"
  then have "pg_size pg * 2 \<le> suggest - 26" by simp
  then have "1 \<le> (suggest - 26) div (pg_size pg * 2)" using a by (simp add: Suc_le_eq div_greater_zero_iff)
  then show ?thesis using a by (simp add: block_len_def)
qed

text \<open>The lines of GPM_SL.\<close>

lemma line_sizes:
  assumes "pg \<in> set st20_pgroups" and "w = pg_coverage pg * g" and "0 < g" and "w < 32768"
    and n: "n = line_pkts (g * pg_size pg)" and len: "len = ceil_div g n * pg_size pg"
  shows "((w + n - 1) div n + pg_coverage pg - 1) div pg_coverage pg * pg_size pg = len"
    "0 < n" "(n - 1) * len < g * pg_size pg" "g * pg_size pg \<le> n * len" "len < 1447" "0 < len"
    "pg_size pg dvd len" "len \<le> g * pg_size pg"
proof -
  have pg: "0 < pg_size pg" "0 < pg_coverage pg" using pgroup_rows [OF assms(1)] by auto
  show n0: "0 < n" by (simp add: n line_pkts_def)
  show "((w + n - 1) div n + pg_coverage pg - 1) div pg_coverage pg * pg_size pg = len"
    unfolding len assms(2) using line_groups [OF n0 pg(2), of g] by simp
  have "(n - 1) * (n - 1) < g" using line_pkts_square [OF assms(1) _ assms(3)] assms(2,4) n by (simp add: line_pkts_def)
  then have part: "(n - 1) * ceil_div g n < g" by (rule line_last_nonempty [OF assms(3) _ n0])
  then have "(n - 1) * ceil_div g n * pg_size pg < g * pg_size pg" using pg by simp
  then show lt: "(n - 1) * len < g * pg_size pg" by (simp add: len mult.assoc)
  have "g * pg_size pg \<le> ceil_div g n * n * pg_size pg" using ceil_div_le [OF n0, of g] by (rule mult_le_mono1)
  then show ge: "g * pg_size pg \<le> n * len" by (simp add: len ac_simps)
  show "pg_size pg dvd len" by (simp add: len)
  have c: "1 \<le> ceil_div g n" using ceil_div_le [OF n0, of g] assms(3) by (cases "ceil_div g n") auto
  then show "0 < len" using pg by (simp add: len)
  have "ceil_div g n \<le> g"
  proof (cases "n = 1")
    case True then show ?thesis by (simp add: ceil_div_def)
  next
    case False
    then have "1 * ceil_div g n \<le> (n - 1) * ceil_div g n" using n0 by (intro mult_le_mono1) simp
    then show ?thesis using part by linarith
  qed
  then show "len \<le> g * pg_size pg" by (simp add: len)
  have "ceil_div g n * n * pg_size pg \<le> (g + n) * pg_size pg" using ceil_div_less [OF n0, of g] by (intro mult_le_mono1) simp
  moreover have "g * pg_size pg < 1432 * n" unfolding n line_pkts_def by simp
  moreover have "n * pg_size pg \<le> n * 15" using pgroup_rows [OF assms(1)] by simp
  moreover have "len * n = ceil_div g n * n * pg_size pg" by (simp add: len)
  ultimately have "len * n < 1447 * n" by (simp only: distrib_right)
  then show "len < 1447" using mult_less_cancel2 by blast
qed

text \<open>An attached session has a sound geometry.\<close>

lemma tv_attach_geometry:
  assumes att: "tv_attach port_map rest suggest None ops s0 = Inr s" and ok: "tx_video_ok suggest ops"
  shows "tv_geometry s" "tv_ops s = ops" "\<not> tv_st22 s" "tv_pkt_size s = tv_pkt_len s + 62"
    "tv_linesize s = max (line_bytes (to_width ops) (tv_pg s)) (to_linesize ops)" "st20_get_pgroup (to_fmt ops) = Inr (tv_pg s)"
proof -
  obtain pg s1 s2 where pg: "st20_get_pgroup (to_fmt ops) = Inr pg" and init: "tv_init_pkt suggest s1 = Inr s2"
    and s: "s = s2\<lparr>tv_pkt_idx := 0, tv_seq_id := 0, tv_waiting := True\<rparr>"
    and s1: "tv_ops s1 = ops" "tv_pg s1 = pg" "\<not> tv_st22 s1"
      "tv_linesize s1 = max (line_bytes (to_width ops) pg) (to_linesize ops)"
      "tv_frame_size s1 = to32 (to_width ops * frame_height ops * pg_size pg) div pg_coverage pg"
      "tv_fb_size s1 = tv_linesize s1 * frame_height ops"
    using tv_attach_cases [OF att] by metis
  note row = pgroup_rows [OF get_pgroup_in [OF pg]]
  have o: "to_type (tv_ops s1) \<noteq> ST20_TYPE_RTP_LEVEL" using ok s1 by (simp add: tx_video_ok_def)
  note keeps = init_pkt_keeps [OF init s1(3) o] and cases = init_pkt_cases [OF init s1(3) o]
  obtain g where g: "to_width ops = pg_coverage pg * g" using ok pg by (auto simp: tx_video_ok_def elim: dvdE)
  have g0: "0 < g" using ok g by (cases g) (auto simp: tx_video_ok_def)
  have bil: "line_bytes (to_width ops) pg = g * pg_size pg" using line_bytes_dvd [of pg "to_width ops"] row by (simp add: g)
  have fs: "tv_frame_size s1 = frame_height ops * (g * pg_size pg)"
    using ok pg s1(5) row by (auto simp: tx_video_ok_def g)
  have plan: "0 < tv_pkt_len s2 \<and> pg_size pg dvd tv_pkt_len s2 \<and> tv_pkt_len s2 \<le> 1432 \<and> tv_pkt_len s2 \<le> g * pg_size pg \<and>
    tv_pkt_size s2 = tv_pkt_len s2 + 62 \<and>
    (if to_packing ops \<noteq> ST20_PACKING_GPM_SL then tv_total_pkts s2 = ceil_div (tv_frame_size s1) (tv_pkt_len s2)
     else tv_total_pkts s2 = frame_height ops * tv_pkts_in_line s2 \<and> 0 < tv_pkts_in_line s2 \<and>
       (tv_pkts_in_line s2 - 1) * tv_pkt_len s2 < g * pg_size pg \<and> g * pg_size pg \<le> tv_pkts_in_line s2 * tv_pkt_len s2)"
    using cases(2)
  proof (elim disjE conjE)
    assume p: "to_packing (tv_ops s1) = ST20_PACKING_GPM_SL" and s2: "s2 = tv_init_pkt_gpm_sl (line_set s1)"
    let ?n = "line_pkts (g * pg_size pg)"
    have w: "to_width ops < 32768" using ok by (simp add: tx_video_ok_def)
    note ls = line_sizes [OF get_pgroup_in [OF pg] g g0 w refl refl]
    have eqs: "?n = line_pkts (tv_bytes_in_line (line_set s1))" "pg = tv_pg (line_set s1)" "ops = tv_ops (line_set s1)"
      using s1 bil by simp_all
    have sz: "tv_pkts_in_line s2 = ?n" "tv_total_pkts s2 = frame_height ops * ?n" "tv_pkt_len s2 = ceil_div g ?n * pg_size pg"
      "tv_pkt_size s2 = tv_pkt_len s2 + 62"
      using gpm_sl_sizes(1,2) [OF eqs] gpm_sl_sizes(3) [OF eqs, unfolded ls(1)] gpm_sl_sizes(4) [OF eqs] ls(5)
      unfolding s2 by simp_all
    then show ?thesis using p s1(1) ls cases(1) by simp
  next
    assume p: "to_packing (tv_ops s1) = ST20_PACKING_BPM" and s2: "tv_init_pkt_bpm (line_set s1) = Inr s2"
    then have "1260 \<le> g * pg_size pg" using s1(1) ok pg bil by (auto simp: tx_video_ok_def block_len_def)
    moreover have "pg_size pg dvd 1260" using bpm_keeps(11) [OF s2] s1(2) by (simp add: dvd_eq_mod_eq_0)
    ultimately show ?thesis using bpm_keeps(8,9,10) [OF s2] p s1(1) by simp
  next
    assume p: "to_packing (tv_ops s1) = ST20_PACKING_GPM" and s2: "s2 = tv_init_pkt_gpm suggest (line_set s1)"
    let ?b = "block_len suggest ops pg"
    have sg: "suggest < 1452" "1000 < suggest" "?b \<le> g * pg_size pg"
      using ok pg p bil s1(1) by (auto simp: tx_video_ok_def)
    note gs = gpm_sizes [of suggest "line_set s1"]
    have sz: "tv_pkt_len s2 = ?b" "tv_pkt_size s2 = ?b + 62" "?b \<le> 1425"
      "tv_total_pkts s2 = ceil_div (to_width ops * frame_height ops) (pg_coverage pg * (?b div pg_size pg))"
      using gs sg(1) row p s1 unfolding s2 by simp_all
    have b: "0 < ?b" using block_len_pos sg(2) row by blast
    have d: "pg_size pg dvd ?b" using p s1(1) by (simp add: block_len_def)
    then obtain q where q: "?b = pg_size pg * q" by (elim dvdE)
    have "ceil_div (to_width ops * frame_height ops) (pg_coverage pg * (?b div pg_size pg)) = ceil_div (g * frame_height ops) q"
      using row b ceil_div_scale [of "pg_coverage pg" q "g * frame_height ops"] by (simp add: q g mult.assoc)
    also have "\<dots> = ceil_div (tv_frame_size s1) ?b"
      using row b ceil_div_scale [of "pg_size pg" q "g * frame_height ops"] by (simp add: q fs ac_simps)
    finally show ?thesis using sz b d sg p s1(1) by simp
  qed
  show "tv_geometry s" "tv_ops s = ops" "\<not> tv_st22 s" "tv_pkt_size s = tv_pkt_len s + 62"
    "tv_linesize s = max (line_bytes (to_width ops) (tv_pg s)) (to_linesize ops)" "st20_get_pgroup (to_fmt ops) = Inr (tv_pg s)"
    using plan keeps s1 row ok pg bil fs g g0
    by (auto simp: s tv_geometry_def block_packing_def tv_rows_def tx_video_ok_def)
qed

section \<open>What a packet carries\<close>

definition pkt_start :: "tx_video \<Rightarrow> nat \<Rightarrow> nat" where
  "pkt_start s i = (if block_packing s then block_start s i else line_start s i)"

lemma geometry_plans: "tv_geometry s \<Longrightarrow> (if block_packing s then block_plan s else line_plan s)"
  by (auto simp: tv_geometry_def block_plan_def line_plan_def)

interpretation plan: packet_plan tv_geometry tv_total_pkts tv_frame_size pkt_start
proof unfold_locales
  fix s i
  assume s: "tv_geometry s"
  note p = geometry_plans [OF s]
  show "pkt_start s 0 = 0" using p blocks.start_0 lines.start_0 by (simp add: pkt_start_def)
  show "pkt_start s (tv_total_pkts s) = tv_frame_size s"
    using p blocks.start_total lines.start_total by (simp add: pkt_start_def)
  assume "i < tv_total_pkts s"
  then show "pkt_start s i < pkt_start s (Suc i)"
    using p blocks.start_Suc lines.start_Suc by (simp add: pkt_start_def)
qed

lemma geometryD:
  assumes "tv_geometry s"
  shows "0 < pg_size (tv_pg s)" "0 < pg_coverage (tv_pg s)" "pg_coverage (tv_pg s) dvd to_width (tv_ops s)"
    "0 < tv_rows s" "tv_rows s < 32768" "to_width (tv_ops s) < 32768" "0 < tv_bytes_in_line s"
    "tv_bytes_in_line s = to_width (tv_ops s) div pg_coverage (tv_pg s) * pg_size (tv_pg s)"
    "tv_frame_size s = tv_rows s * tv_bytes_in_line s" "tv_bytes_in_line s \<le> tv_linesize s"
    "tv_fb_size s = tv_linesize s * tv_rows s" "tv_fb_size s < 2147483648" "tv_frame_size s \<le> tv_fb_size s"
    "0 < tv_pkt_len s" "pg_size (tv_pg s) dvd tv_pkt_len s" "tv_pkt_len s \<le> 1432" "tv_pkt_len s \<le> tv_bytes_in_line s"
    "pg_size (tv_pg s) dvd tv_bytes_in_line s" "pg_size (tv_pg s) \<le> 15"
  using assms by (auto simp: tv_geometry_def)

text \<open>The rows a packet touches.\<close>

definition pkt_row :: "tx_video \<Rightarrow> nat \<Rightarrow> nat" where
  "pkt_row s i = pkt_start s i div tv_bytes_in_line s"

definition pkt_col :: "tx_video \<Rightarrow> nat \<Rightarrow> nat" where
  "pkt_col s i = pkt_start s i mod tv_bytes_in_line s"

definition pkt_crosses :: "tx_video \<Rightarrow> nat \<Rightarrow> bool" where
  "pkt_crosses s i \<longleftrightarrow> pkt_col s i + plan.len s i > tv_bytes_in_line s"

lemma pkt_row_col: "pkt_row s i * tv_bytes_in_line s + pkt_col s i = pkt_start s i"
  by (simp add: pkt_row_def pkt_col_def)

lemma block_pkt:
  assumes s: "tv_geometry s" and b: "block_packing s" and i: "i < tv_total_pkts s"
  shows "pkt_start s i = i * tv_pkt_len s" "pkt_start s i < tv_frame_size s"
    "plan.len s i = min (tv_pkt_len s) (tv_frame_size s - i * tv_pkt_len s)"
proof -
  have "pkt_start s i < pkt_start s (tv_total_pkts s)" using plan.start_strict [OF s i] by simp
  then show lt: "pkt_start s i < tv_frame_size s" using plan.start_total [OF s] by simp
  then show "pkt_start s i = i * tv_pkt_len s" using b by (auto simp: pkt_start_def block_start_def)
  with lt show "plan.len s i = min (tv_pkt_len s) (tv_frame_size s - i * tv_pkt_len s)"
    using b by (auto simp: plan.len_def pkt_start_def block_start_def)
qed

lemma line_pkt:
  assumes s: "tv_geometry s" and b: "\<not> block_packing s" and i: "i < tv_total_pkts s"
  defines "n \<equiv> tv_pkts_in_line s"
  shows "pkt_row s i = i div n" "pkt_col s i = i mod n * tv_pkt_len s" "pkt_col s i < tv_bytes_in_line s"
    "plan.len s i = min (tv_pkt_len s) (tv_bytes_in_line s - i mod n * tv_pkt_len s)" "i div n < tv_rows s"
proof -
  have lp: "line_plan s" using geometry_plans [OF s] b by simp
  then have n: "0 < n" "tv_total_pkts s = tv_rows s * n" by (simp_all add: line_plan_def n_def)
  have c: "i mod n * tv_pkt_len s < tv_bytes_in_line s"
    using line_row_last [OF lp, of "i mod n"] n mod_less_divisor [OF n(1)] by (simp add: n_def)
  have st: "pkt_start s i = i div n * tv_bytes_in_line s + i mod n * tv_pkt_len s"
    using b by (simp add: pkt_start_def line_start_def n_def)
  from c show "pkt_row s i = i div n" "pkt_col s i = i mod n * tv_pkt_len s" by (simp_all add: pkt_row_def pkt_col_def st)
  with c show "pkt_col s i < tv_bytes_in_line s" by simp
  show "i div n < tv_rows s" using i n by (simp add: less_mult_imp_div_less)
  have last: "tv_bytes_in_line s \<le> n * tv_pkt_len s" using lp by (simp add: line_plan_def n_def)
  show "plan.len s i = min (tv_pkt_len s) (tv_bytes_in_line s - i mod n * tv_pkt_len s)"
  proof (cases "Suc (i mod n) < n")
    case True
    then have "Suc (i mod n) * tv_pkt_len s < tv_bytes_in_line s" using line_row_last [OF lp True [unfolded n_def]] by (simp only: n_def)
    then show ?thesis using True b line_start_Suc [of s i] n(1) st
      by (simp add: plan.len_def pkt_start_def n_def)
  next
    case False
    then have "Suc (i mod n) = n" using mod_less_divisor [OF n(1), of i] by linarith
    then have "tv_bytes_in_line s \<le> tv_pkt_len s + i mod n * tv_pkt_len s" using last by (metis mult_Suc)
    then show ?thesis using False b line_start_Suc [of s i] n(1) st
      by (simp add: plan.len_def pkt_start_def n_def)
  qed
qed

lemma pkt_bounds:
  assumes s: "tv_geometry s" and i: "i < tv_total_pkts s"
  shows "plan.len s i \<le> tv_pkt_len s" "0 < plan.len s i" "pkt_col s i < tv_bytes_in_line s" "pkt_row s i < tv_rows s"
    "pkt_start s i + plan.len s i \<le> tv_frame_size s" "pg_size (tv_pg s) dvd pkt_col s i"
    "pkt_crosses s i \<Longrightarrow> pkt_row s i + 1 < tv_rows s \<and> plan.len s i = tv_pkt_len s \<and> block_packing s"
proof -
  note g = geometryD [OF s]
  show "plan.len s i \<le> tv_pkt_len s" using block_pkt [OF s _ i] line_pkt [OF s _ i] by (cases "block_packing s") auto
  show "0 < plan.len s i" using plan.start_Suc [OF s i] by (simp add: plan.len_def)
  show "pkt_col s i < tv_bytes_in_line s" using g by (simp add: pkt_col_def)
  have "pkt_start s (Suc i) \<le> tv_frame_size s" using plan.start_le [OF s, of "Suc i"] i by simp
  then show le: "pkt_start s i + plan.len s i \<le> tv_frame_size s" using plan.start_Suc [OF s i] by (simp add: plan.len_def)
  show "pkt_row s i < tv_rows s"
    using le \<open>0 < plan.len s i\<close> g unfolding pkt_row_def by (simp add: less_mult_imp_div_less)
  show "pg_size (tv_pg s) dvd pkt_col s i"
  proof (cases "block_packing s")
    case True
    then show ?thesis using block_pkt(1) [OF s True i] g by (simp add: pkt_col_def dvd_mod)
  next
    case False
    then show ?thesis using line_pkt(2) [OF s False i] g by simp
  qed
  assume c: "pkt_crosses s i"
  have b: "block_packing s"
  proof (rule ccontr)
    assume "\<not> block_packing s"
    from line_pkt(2-4) [OF s this i] c show False by (auto simp: pkt_crosses_def)
  qed
  have lt: "pkt_row s i + 1 < tv_rows s"
  proof -
    have "pkt_row s i * tv_bytes_in_line s + tv_bytes_in_line s < pkt_start s i + plan.len s i"
      using c pkt_row_col [of s i] unfolding pkt_crosses_def by linarith
    then have "(pkt_row s i + 1) * tv_bytes_in_line s < tv_rows s * tv_bytes_in_line s" using le g(9) by simp
    then show ?thesis using mult_less_cancel2 by blast
  qed
  moreover have "plan.len s i = tv_pkt_len s"
  proof (rule ccontr)
    assume "plan.len s i \<noteq> tv_pkt_len s"
    then have "pkt_start s i + tv_pkt_len s > tv_frame_size s" using block_pkt [OF s b i] by auto
    then have "tv_rows s * tv_bytes_in_line s < pkt_row s i * tv_bytes_in_line s + pkt_col s i + tv_bytes_in_line s"
      using g(9,17) pkt_row_col [of s i] by linarith
    also have "\<dots> < (pkt_row s i + 2) * tv_bytes_in_line s" using \<open>pkt_col s i < _\<close> by (simp add: algebra_simps)
    finally have "tv_rows s < pkt_row s i + 2" using mult_less_cancel2 by blast
    with lt show False by simp
  qed
  ultimately show "pkt_row s i + 1 < tv_rows s \<and> plan.len s i = tv_pkt_len s \<and> block_packing s" using b by simp
qed

lemma extra_hdr_iff:
  assumes s: "tv_geometry s" and b: "block_packing s" and i: "i < tv_total_pkts s"
  shows "tv_pkt_has_extra_hdr s (pkt_start s i) \<longleftrightarrow> pkt_crosses s i"
proof -
  note g = geometryD [OF s] and bd = pkt_bounds [OF s i] and bp = block_pkt [OF s b i]
  have "(pkt_row s i + 1) * tv_bytes_in_line s \<le> tv_rows s * tv_bytes_in_line s" using bd(4) by (intro mult_le_mono1) simp
  then have small: "(pkt_row s i + 1) * tv_bytes_in_line s < 2147483648" "pkt_start s i + tv_pkt_len s < 4294967296"
    using g(9,12,13,16) bp(2) by linarith+
  then have eq: "tv_pkt_has_extra_hdr s (pkt_start s i) \<longleftrightarrow>
      pkt_start s i + tv_pkt_len s > (pkt_row s i + 1) * tv_bytes_in_line s \<and> pkt_start s i + tv_pkt_len s < tv_frame_size s"
    by (simp add: tv_pkt_has_extra_hdr_def pkt_row_def [symmetric] Let_def)
  show ?thesis
  proof
    assume "tv_pkt_has_extra_hdr s (pkt_start s i)"
    then have a: "pkt_start s i + tv_pkt_len s > (pkt_row s i + 1) * tv_bytes_in_line s"
      "pkt_start s i + tv_pkt_len s < tv_frame_size s" using eq by simp_all
    then have "plan.len s i = tv_pkt_len s" using bp(1,3) by simp
    then show "pkt_crosses s i" using a(1) pkt_row_col [of s i] unfolding pkt_crosses_def by (simp add: algebra_simps)
  next
    assume c: "pkt_crosses s i"
    note cr = bd(7) [OF c]
    then have "(pkt_row s i + 2) * tv_bytes_in_line s \<le> tv_frame_size s" unfolding g(9) by (intro mult_le_mono1) simp
    then show "tv_pkt_has_extra_hdr s (pkt_start s i)"
      using eq cr c bd(3) g(17) pkt_row_col [of s i] unfolding pkt_crosses_def by (simp add: algebra_simps)
  qed
qed

lemma col_pixel:
  assumes s: "tv_geometry s" and i: "i < tv_total_pkts s"
  shows "pkt_col s i * pg_coverage (tv_pg s) div pg_size (tv_pg s) = pkt_col s i div pg_size (tv_pg s) * pg_coverage (tv_pg s)"
    "pkt_col s i div pg_size (tv_pg s) * pg_coverage (tv_pg s) < to_width (tv_ops s)"
    "pkt_col s i div pg_size (tv_pg s) * pg_size (tv_pg s) = pkt_col s i"
proof -
  note g = geometryD [OF s]
  obtain k where k: "pkt_col s i = pg_size (tv_pg s) * k" using pkt_bounds(6) [OF s i] by (elim dvdE)
  obtain w where w: "to_width (tv_ops s) = pg_coverage (tv_pg s) * w" using g(3) by (elim dvdE)
  show "pkt_col s i * pg_coverage (tv_pg s) div pg_size (tv_pg s) = pkt_col s i div pg_size (tv_pg s) * pg_coverage (tv_pg s)"
    "pkt_col s i div pg_size (tv_pg s) * pg_size (tv_pg s) = pkt_col s i"
    using g(1) by (simp_all add: k mult.assoc)
  have "pg_size (tv_pg s) * k < w * pg_size (tv_pg s)" using pkt_bounds(3) [OF s i] g(2,8) by (simp add: k w)
  then have "k < w" by (simp add: mult.commute)
  then show "pkt_col s i div pg_size (tv_pg s) * pg_coverage (tv_pg s) < to_width (tv_ops s)" using g(1,2) by (simp add: k w)
qed

text \<open>The layout the code computes, by the plan.\<close>

lemma layout_block:
  assumes s: "tv_geometry s" and b: "block_packing s" and i: "i < tv_total_pkts s" and idx: "tv_pkt_idx s = i"
  shows "st20_pkt_layout s = \<lparr>ly_offset = pkt_start s i, ly_line1_number = pkt_row s i,
    ly_line1_offset = pkt_col s i div pg_size (tv_pg s) * pg_coverage (tv_pg s), ly_extra = pkt_crosses s i,
    ly_left_len = plan.len s i, ly_line1_length = (if pkt_crosses s i then tv_bytes_in_line s - pkt_col s i else 0),
    ly_line2_length = (if pkt_crosses s i then plan.len s i - (tv_bytes_in_line s - pkt_col s i) else 0)\<rparr>"
proof -
  note g = geometryD [OF s] and bd = pkt_bounds [OF s i] and bp = block_pkt [OF s b i] and cp = col_pixel [OF s i]
  have off: "to32 (tv_pkt_len s * i) = pkt_start s i" using bp(1,2) g(12,13) by (simp add: mult.commute)
  have row: "to16 (pkt_row s i) = pkt_row s i" using bd(4) g(5) by simp
  have px: "pkt_col s i * pg_coverage (tv_pg s) < 4294967296"
  proof -
    have "pkt_col s i * pg_coverage (tv_pg s) \<le> tv_bytes_in_line s * pg_coverage (tv_pg s)" using bd(3) by simp
    also have "\<dots> = to_width (tv_ops s) * pg_size (tv_pg s)" using g(2,3,8) by (simp add: dvd_div_mult_self ac_simps)
    also have "\<dots> \<le> 32767 * 15" using g(6,19) by (intro mult_le_mono) simp_all
    finally show ?thesis by simp
  qed
  have pix: "to16 (to32 (pkt_col s i * pg_coverage (tv_pg s)) div pg_size (tv_pg s)) =
      pkt_col s i div pg_size (tv_pg s) * pg_coverage (tv_pg s)"
    using px cp(1,2) g(6) by simp
  have left: "to16 (min (tv_pkt_len s) (sub32 (tv_frame_size s) (pkt_start s i))) = plan.len s i"
    using bp g(12,13,16) by (simp add: sub32_small min_def)
  have l1: "to16 (sub32 ((pkt_row s i + 1) * tv_bytes_in_line s) (pkt_start s i)) = tv_bytes_in_line s - pkt_col s i"
    if c: "pkt_crosses s i"
  proof -
    have "(pkt_row s i + 1) * tv_bytes_in_line s \<le> tv_frame_size s" unfolding g(9) using bd(4) by (intro mult_le_mono1) simp
    moreover have "(pkt_row s i + 1) * tv_bytes_in_line s = pkt_start s i + (tv_bytes_in_line s - pkt_col s i)"
      using pkt_row_col [of s i] bd(3) by (simp add: algebra_simps)
    ultimately show ?thesis using sub32_small [of "pkt_start s i" "(pkt_row s i + 1) * tv_bytes_in_line s"] g(12,13,16) bd(1) c
      unfolding pkt_crosses_def by simp
  qed
  have l2: "to16 (tv_pkt_len s + 65536 - (tv_bytes_in_line s - pkt_col s i)) = plan.len s i - (tv_bytes_in_line s - pkt_col s i)"
    if c: "pkt_crosses s i"
  proof -
    have "tv_bytes_in_line s - pkt_col s i \<le> plan.len s i" using c by (simp add: pkt_crosses_def)
    then have "tv_pkt_len s + 65536 - (tv_bytes_in_line s - pkt_col s i) =
        plan.len s i - (tv_bytes_in_line s - pkt_col s i) + 65536" using bd(7) [OF c] by simp
    then show ?thesis using bd(1) g(16) by simp
  qed
  show ?thesis
    using b row pix left l1 l2 extra_hdr_iff [OF s b i]
    unfolding st20_pkt_layout_def Let_def idx off pkt_row_def [symmetric] pkt_col_def [symmetric]
    by (simp add: block_packing_def)
qed

lemma layout_line:
  assumes s: "tv_geometry s" and b: "\<not> block_packing s" and i: "i < tv_total_pkts s" and idx: "tv_pkt_idx s = i"
  shows "st20_pkt_layout s = \<lparr>ly_offset = pkt_row s i * tv_linesize s + pkt_col s i, ly_line1_number = pkt_row s i,
    ly_line1_offset = pkt_col s i div pg_size (tv_pg s) * pg_coverage (tv_pg s), ly_extra = False,
    ly_left_len = plan.len s i, ly_line1_length = 0, ly_line2_length = 0\<rparr>"
proof -
  note g = geometryD [OF s] and bd = pkt_bounds [OF s i] and bp = line_pkt [OF s b i] and cp = col_pixel [OF s i]
  let ?z = "pg_size (tv_pg s)" and ?c = "pg_coverage (tv_pg s)"
  obtain q where q: "tv_pkt_len s = ?z * q" using g(15) by (elim dvdE)
  have row: "to16 (i div tv_pkts_in_line s) = pkt_row s i" using bp(1,5) g(5) by simp
  have pix: "to16 (tv_pkt_len s div ?z * ?c * (i mod tv_pkts_in_line s)) = pkt_col s i div ?z * ?c"
    using cp(2) bp(2) g(1,6) by (simp add: q ac_simps)
  have off: "to32 (pkt_row s i * to32 (tv_linesize s) + pkt_col s i div ?z * ?c div ?c * ?z) = pkt_row s i * tv_linesize s + pkt_col s i"
  proof -
    have "pkt_row s i * tv_linesize s + tv_linesize s \<le> tv_fb_size s"
      unfolding g(11) using bd(4) mult_le_mono2 [of "pkt_row s i + 1" "tv_rows s" "tv_linesize s"] by (simp add: algebra_simps)
    then show ?thesis using g(2,10,12) bd(3) cp(3) by simp
  qed
  obtain w where w: "to_width (tv_ops s) = ?c * w" using g(3) by (elim dvdE)
  have bil: "tv_bytes_in_line s = w * ?z" using g(2,8) by (simp add: w)
  obtain k where k: "pkt_col s i = ?z * k" using bd(6) by (elim dvdE)
  have "k < w" using bd(3) g(1) by (simp add: bil k mult.commute)
  then have "to32 (sub32 (to_width (tv_ops s)) (pkt_col s i div ?z * ?c) div ?c * ?z) = tv_bytes_in_line s - pkt_col s i"
  proof -
    assume "k < w"
    then have "k * ?c \<le> w * ?c" by simp
    then have "sub32 (to_width (tv_ops s)) (pkt_col s i div ?z * ?c) = (w - k) * ?c"
      using g(1,6) by (simp add: sub32_small w k diff_mult_distrib2 mult.commute [of _ ?c])
    moreover have "(w - k) * ?z \<le> 32768 * 15"
    proof (intro mult_le_mono)
      have "w \<le> to_width (tv_ops s)" using g(2) by (simp add: w)
      then show "w - k \<le> 32768" using g(6) by simp
    qed (rule g(19))
    moreover have "tv_bytes_in_line s - pkt_col s i = (w - k) * ?z" by (simp add: bil k diff_mult_distrib2 mult.commute [of _ ?z])
    ultimately show ?thesis using g(2) by simp
  qed
  then have left: "to16 (min (tv_pkt_len s) (to32 (sub32 (to_width (tv_ops s)) (pkt_col s i div ?z * ?c) div ?c * ?z))) = plan.len s i"
    using bp(2,4) g(16) by simp
  show ?thesis
    using b pix left off unfolding st20_pkt_layout_def Let_def idx row by (simp add: block_packing_def)
qed

text \<open>The byte of the frame at position \<open>p\<close>, counted without the padding of the lines, and the payload of a packet.\<close>

definition frame_byte :: "tx_video \<Rightarrow> nat \<Rightarrow> u8" where
  "frame_byte s p = tv_frame_data s ! (p div tv_bytes_in_line s * tv_linesize s + p mod tv_bytes_in_line s)"

definition pkt_payload :: "tx_video \<Rightarrow> nat \<Rightarrow> u8 list" where
  "pkt_payload s i = map (\<lambda>k. frame_byte s (pkt_start s i + k)) [0..<plan.len s i]"

lemma length_pkt_payload [simp]: "length (pkt_payload s i) = plan.len s i"
  by (simp add: pkt_payload_def)

text \<open>A piece of one line, read from the buffer.\<close>

lemma read_line:
  assumes s: "tv_geometry s" and d: "length (tv_frame_data s) = tv_fb_size s"
    and r: "r < tv_rows s" and c: "c + n \<le> tv_bytes_in_line s"
  shows "buf_read (r * tv_linesize s + c) n (tv_frame_data s) =
    Some (map (\<lambda>k. frame_byte s (r * tv_bytes_in_line s + c + k)) [0..<n])"
proof -
  note g = geometryD [OF s]
  have "(r + 1) * tv_linesize s \<le> tv_fb_size s" unfolding g(11) mult.commute [of "tv_linesize s"]
    using r by (intro mult_le_mono1) simp
  then have room: "r * tv_linesize s + c + n \<le> length (tv_frame_data s)" using c g(10) d by simp
  have "take n (drop (r * tv_linesize s + c) (tv_frame_data s)) = map (\<lambda>k. frame_byte s (r * tv_bytes_in_line s + c + k)) [0..<n]"
  proof (rule nth_equalityI)
    fix k assume "k < length (take n (drop (r * tv_linesize s + c) (tv_frame_data s)))"
    then have k: "k < n" by simp
    then have "(r * tv_bytes_in_line s + c + k) div tv_bytes_in_line s = r" "(r * tv_bytes_in_line s + c + k) mod tv_bytes_in_line s = c + k"
      using c by (simp_all add: add.assoc)
    then show "take n (drop (r * tv_linesize s + c) (tv_frame_data s)) ! k = map (\<lambda>k. frame_byte s (r * tv_bytes_in_line s + c + k)) [0..<n] ! k"
      using k room by (simp add: frame_byte_def add.assoc)
  qed (use room in simp)
  then show ?thesis using room by (simp add: buf_read_def)
qed

text \<open>Without padding the frame is its buffer.\<close>

lemma read_dense:
  assumes s: "tv_geometry s" and d: "length (tv_frame_data s) = tv_fb_size s" and e: "tv_linesize s = tv_bytes_in_line s"
    and p: "p + n \<le> tv_frame_size s"
  shows "buf_read p n (tv_frame_data s) = Some (map (\<lambda>k. frame_byte s (p + k)) [0..<n])"
proof -
  have len: "p + n \<le> length (tv_frame_data s)" using p d geometryD(13) [OF s] by simp
  have "take n (drop p (tv_frame_data s)) = map (\<lambda>k. frame_byte s (p + k)) [0..<n]"
    using len e by (intro nth_equalityI) (simp_all add: frame_byte_def)
  then show ?thesis using len by (simp add: buf_read_def)
qed

lemma copy_offset_padded:
  assumes s: "tv_geometry s" and b: "block_packing s" and i: "i < tv_total_pkts s" and idx: "tv_pkt_idx s = i"
    and pad: "tv_bytes_in_line s < tv_linesize s"
  shows "st20_copy_offset s (st20_pkt_layout s) = pkt_row s i * tv_linesize s + pkt_col s i"
proof -
  note g = geometryD [OF s] and bd = pkt_bounds [OF s i]
  have "pkt_row s i * tv_linesize s + tv_linesize s \<le> tv_fb_size s"
    unfolding g(11) using bd(4) mult_le_mono2 [of "pkt_row s i + 1" "tv_rows s" "tv_linesize s"] by (simp add: algebra_simps)
  then show ?thesis using g(10,12) bd(3) pad b
    by (simp add: st20_copy_offset_def layout_block [OF s b i idx] block_packing_def pkt_col_def [symmetric] add.commute)
qed

lemma payload_of_pkt:
  assumes s: "tv_geometry s" and d: "length (tv_frame_data s) = tv_fb_size s" and i: "i < tv_total_pkts s" and idx: "tv_pkt_idx s = i"
  shows "st20_pkt_payload s (st20_pkt_layout s) = Some (pkt_payload s i)"
proof -
  note g = geometryD [OF s] and bd = pkt_bounds [OF s i]
  have start: "pkt_row s i * tv_bytes_in_line s + pkt_col s i + k = pkt_start s i + k" for k by (simp add: pkt_row_col)
  consider (line) "\<not> block_packing s" | (dense) "block_packing s" "tv_linesize s = tv_bytes_in_line s"
    | (inside) "block_packing s" "tv_bytes_in_line s < tv_linesize s" "\<not> pkt_crosses s i"
    | (cross) "block_packing s" "tv_bytes_in_line s < tv_linesize s" "pkt_crosses s i" using g(10) by linarith
  then show ?thesis
  proof cases
    case line
    have "\<not> pkt_crosses s i" using bd(7) line by blast
    then have "pkt_col s i + plan.len s i \<le> tv_bytes_in_line s" by (simp add: pkt_crosses_def)
    from read_line [OF s d bd(4) this] show ?thesis using line
      by (simp add: st20_pkt_payload_def layout_line [OF s line i idx] st20_crosses_padding_def st20_copy_offset_def
          block_packing_def start pkt_payload_def)
  next
    case dense
    from read_dense [OF s d dense(2) bd(5)] show ?thesis using dense
      by (simp add: st20_pkt_payload_def layout_block [OF s dense(1) i idx] st20_crosses_padding_def st20_copy_offset_def pkt_payload_def)
  next
    case inside
    then have "pkt_col s i + plan.len s i \<le> tv_bytes_in_line s" by (simp add: pkt_crosses_def)
    from read_line [OF s d bd(4) this] show ?thesis using inside copy_offset_padded [OF s inside(1) i idx inside(2)]
      by (simp add: st20_pkt_payload_def layout_block [OF s inside(1) i idx] st20_crosses_padding_def start pkt_payload_def)
  next
    case cross
    let ?n1 = "tv_bytes_in_line s - pkt_col s i"
    note cr = bd(7) [OF cross(3)]
    have n: "?n1 \<le> plan.len s i" "plan.len s i - ?n1 \<le> tv_bytes_in_line s"
      using cross(3) bd(1,3) g(17) by (auto simp: pkt_crosses_def)
    have one: "buf_read (pkt_row s i * tv_linesize s + pkt_col s i) ?n1 (tv_frame_data s) =
        Some (map (\<lambda>k. frame_byte s (pkt_start s i + k)) [0..<?n1])"
      using read_line [OF s d bd(4), of "pkt_col s i" ?n1] bd(3) by (simp add: start)
    have nxt: "(pkt_row s i + 1) * tv_bytes_in_line s = pkt_start s i + ?n1" using pkt_row_col [of s i] bd(3) by (simp add: algebra_simps)
    have two: "buf_read (tv_linesize s * (pkt_row s i + 1)) (plan.len s i - ?n1) (tv_frame_data s) =
        Some (map (\<lambda>k. frame_byte s (pkt_start s i + ?n1 + k)) [0..<plan.len s i - ?n1])"
      using read_line [OF s d, of "pkt_row s i + 1" 0 "plan.len s i - ?n1"] cr n(2) unfolding nxt by (simp add: mult.commute)
    have "[0..<plan.len s i] = [0..<?n1] @ map (\<lambda>k. k + ?n1) [0..<plan.len s i - ?n1]"
      using n(1) upt_add_eq_append [of 0 ?n1 "plan.len s i - ?n1"] by (simp add: map_add_upt)
    then have "pkt_payload s i = map (\<lambda>k. frame_byte s (pkt_start s i + k)) [0..<?n1] @
        map (\<lambda>k. frame_byte s (pkt_start s i + ?n1 + k)) [0..<plan.len s i - ?n1]"
      by (simp add: pkt_payload_def ac_simps)
    then show ?thesis using cross one two copy_offset_padded [OF s cross(1) i idx cross(2)]
      by (simp add: st20_pkt_payload_def layout_block [OF s cross(1) i idx] st20_crosses_padding_def)
  qed
qed

end
