(* ===== verification/Tx_Video_Kinds.thy ===== *)
theory Tx_Video_Kinds
  imports Tx_Video_Laws
begin

text \<open>
  The table of packet kinds of the transmit session for video (\<open>tv_init_pkt\<close>), against the packets that the
  builder makes: numbers and sizes agree for each packing.
\<close>

section \<open>The table of packet kinds\<close>

text \<open>The loop of \<open>tv_init_pkt\<close> ends at the first common multiple of line and packet, or past the frame.\<close>

lemma line_period_least:
  assumes "0 < b"
  shows "\<exists>m \<ge> k. line_period b p f k = m * b \<and> (p dvd m * b \<or> f < m * b) \<and> (\<forall>j. k \<le> j \<longrightarrow> j < m \<longrightarrow> \<not> p dvd j * b \<and> j * b \<le> f)"
proof (induction b p f k rule: line_period.induct)
  case (1 b p f k)
  show ?case
  proof (cases "k * b mod p \<noteq> 0 \<and> k * b \<le> f")
    case True
    from 1 [OF refl True] obtain m where m: "m \<ge> k + 1" "line_period b p f (k + 1) = m * b" "p dvd m * b \<or> f < m * b"
      "\<forall>j. k + 1 \<le> j \<longrightarrow> j < m \<longrightarrow> \<not> p dvd j * b \<and> j * b \<le> f" by blast
    have "\<not> p dvd j * b \<and> j * b \<le> f" if "k \<le> j" "j < m" for j
      using m(4) that True by (cases "j = k") (auto simp: dvd_eq_mod_eq_0)
    then show ?thesis using m(1-3) True
      by (intro exI [of _ m]) (simp add: line_period.simps [of b p f k])
  next
    case False
    then show ?thesis
      by (intro exI [of _ k]) (auto simp: line_period.simps [of b p f k] dvd_eq_mod_eq_0)
  qed
qed

lemma line_period_dvd:
  assumes b: "0 < b" and r: "0 < r"
  shows "\<exists>m > 0. line_period b p (r * b) 1 = m * b \<and> (\<forall>k < r. p dvd k * b \<longleftrightarrow> m dvd k)"
proof -
  obtain m where m: "m \<ge> 1" "line_period b p (r * b) 1 = m * b" "p dvd m * b \<or> r * b < m * b"
    "\<forall>j. 1 \<le> j \<longrightarrow> j < m \<longrightarrow> \<not> p dvd j * b" using line_period_least [OF b, of 1 p "r * b"] by blast
  have "p dvd k * b \<longleftrightarrow> m dvd k" if k: "k < r" for k
  proof (cases "k < m")
    case True
    then show ?thesis using m(4) by (cases "k = 0") (auto simp: Suc_le_eq dest: dvd_imp_le)
  next
    case False
    then have "m * b \<le> r * b" using k by (intro mult_le_mono1) simp
    then have d: "p dvd m * b" using m(3) by linarith
    have "k * b = k div m * (m * b) + k mod m * b" by (simp add: mult.assoc [symmetric] add_mult_distrib [symmetric])
    then have "p dvd k * b \<longleftrightarrow> p dvd k mod m * b" using d by (simp add: dvd_add_right_iff)
    also have "\<dots> \<longleftrightarrow> k mod m = 0" using m(1,4) mod_less_divisor [of m k] by (cases "k mod m = 0") (auto simp: Suc_le_eq)
    finally show ?thesis by (simp add: dvd_eq_mod_eq_0)
  qed
  then show ?thesis using m(1,2) by (intro exI [of _ m]) simp
qed

lemma card_multiples: "0 < m \<Longrightarrow> card {k. k < r \<and> m dvd k} = ceil_div r m"
proof -
  assume m: "0 < m"
  have "{k. k < r \<and> m dvd k} = (\<lambda>j. j * m) ` {..<ceil_div r m}"
  proof (intro equalityI subsetI)
    fix k assume "k \<in> {k. k < r \<and> m dvd k}"
    then obtain j where j: "k = j * m" "j * m < r" by (metis (mono_tags, lifting) dvd_div_mult_self mem_Collect_eq)
    then have "j * m < ceil_div r m * m" using ceil_div_le [OF m, of r] by linarith
    then have "j < ceil_div r m" using mult_less_cancel2 by blast
    then show "k \<in> (\<lambda>j. j * m) ` {..<ceil_div r m}" using j(1) by blast
  next
    fix k assume "k \<in> (\<lambda>j. j * m) ` {..<ceil_div r m}"
    then obtain j where j: "k = j * m" "j < ceil_div r m" by auto
    then have "(j + 1) * m \<le> ceil_div r m * m" by (intro mult_le_mono1) simp
    then have "k < r" using ceil_div_less [OF m, of r] j by simp
    then show "k \<in> {k. k < r \<and> m dvd k}" using j by simp
  qed
  then show ?thesis using m by (simp add: card_image inj_on_def)
qed

text \<open>A packet crosses the end of line \<open>k - 1\<close> unless a packet ends there.\<close>

lemma crossing_rows:
  assumes s: "tv_geometry s" and b: "block_packing s"
  shows "bij_betw (\<lambda>i. pkt_row s i + 1) {i. i < tv_total_pkts s \<and> pkt_crosses s i}
    {k. k < tv_rows s \<and> \<not> tv_pkt_len s dvd k * tv_bytes_in_line s}"
    (is "bij_betw ?f ?A ?B")
proof (rule bij_betw_byWitness [where f' = "\<lambda>k. k * tv_bytes_in_line s div tv_pkt_len s"])
  note g = geometryD [OF s]
  have in_cross: "pkt_start s i < (pkt_row s i + 1) * tv_bytes_in_line s \<and>
      (pkt_row s i + 1) * tv_bytes_in_line s < pkt_start s i + tv_pkt_len s" if i: "i \<in> ?A" for i
  proof -
    have c: "pkt_crosses s i" and it: "i < tv_total_pkts s" using i by auto
    note bd = pkt_bounds [OF s it]
    show ?thesis using bd(3) bd(7) [OF c] c pkt_row_col [of s i] unfolding pkt_crosses_def by simp
  qed
  have idx: "(pkt_row s i + 1) * tv_bytes_in_line s div tv_pkt_len s = i" if "i \<in> ?A" for i
    using in_cross [OF that] block_pkt(1) [OF s b, of i] that by (intro div_nat_eqI) (simp_all add: algebra_simps)
  then show "\<forall>i\<in>?A. ?f i * tv_bytes_in_line s div tv_pkt_len s = i" by blast
  show "?f ` ?A \<subseteq> ?B"
  proof (rule image_subsetI)
    fix i assume i: "i \<in> ?A"
    have "\<not> tv_pkt_len s dvd (pkt_row s i + 1) * tv_bytes_in_line s"
    proof
      assume "tv_pkt_len s dvd (pkt_row s i + 1) * tv_bytes_in_line s"
      then have "(pkt_row s i + 1) * tv_bytes_in_line s = i * tv_pkt_len s" using idx [OF i] by (metis dvd_div_mult_self)
      then show False using in_cross [OF i] block_pkt(1) [OF s b, of i] i by simp
    qed
    then show "?f i \<in> ?B" using pkt_bounds(7) [OF s, of i] i by simp
  qed
  have conv: "k * tv_bytes_in_line s div tv_pkt_len s \<in> ?A \<and> ?f (k * tv_bytes_in_line s div tv_pkt_len s) = k"
    if k: "k \<in> ?B" for k
  proof -
    define i where "i = k * tv_bytes_in_line s div tv_pkt_len s"
    have nd: "\<not> tv_pkt_len s dvd k * tv_bytes_in_line s" using k by simp
    then obtain k' where k': "k = Suc k'" by (cases k) auto
    have "k * tv_bytes_in_line s mod tv_pkt_len s \<noteq> 0" using nd by (simp add: dvd_eq_mod_eq_0)
    then have bnd: "i * tv_pkt_len s < k * tv_bytes_in_line s" "k * tv_bytes_in_line s < i * tv_pkt_len s + tv_pkt_len s"
      using div_mult_mod_eq [of "k * tv_bytes_in_line s" "tv_pkt_len s"] mod_less_divisor [OF g(14), of "k * tv_bytes_in_line s"]
      unfolding i_def by linarith+
    have kf: "k * tv_bytes_in_line s < tv_frame_size s" using k g(7,9) by simp
    have tot: "tv_total_pkts s = ceil_div (tv_frame_size s) (tv_pkt_len s)" using geometry_plans [OF s] b by (simp add: block_plan_def)
    have "i * tv_pkt_len s < tv_total_pkts s * tv_pkt_len s" unfolding tot
      using bnd(1) kf ceil_div_le [OF g(14), of "tv_frame_size s"] by linarith
    then have it: "i < tv_total_pkts s" using mult_less_cancel2 by blast
    note bp = block_pkt [OF s b it]
    have row: "pkt_row s i = k'" unfolding pkt_row_def bp(1)
      using bnd g(17) by (intro div_nat_eqI) (simp_all add: k' algebra_simps)
    have "k * tv_bytes_in_line s < pkt_start s i + plan.len s i" using bnd(2) kf bp by (simp add: min_def)
    then have "pkt_crosses s i" using pkt_row_col [of s i] row k' unfolding pkt_crosses_def by (simp add: algebra_simps)
    then show ?thesis using it row k' unfolding i_def [symmetric] by simp
  qed
  then show "\<forall>k\<in>?B. ?f (k * tv_bytes_in_line s div tv_pkt_len s) = k"
    "(\<lambda>k. k * tv_bytes_in_line s div tv_pkt_len s) ` ?B \<subseteq> ?A" by blast+
qed

lemma card_crossing:
  assumes s: "tv_geometry s" and b: "block_packing s"
  shows "card {i. i < tv_total_pkts s \<and> pkt_crosses s i} =
    tv_rows s - ceil_div (tv_frame_size s) (line_period (tv_bytes_in_line s) (tv_pkt_len s) (tv_frame_size s) 1)"
proof -
  note g = geometryD [OF s]
  obtain m where m: "0 < m" "line_period (tv_bytes_in_line s) (tv_pkt_len s) (tv_frame_size s) 1 = m * tv_bytes_in_line s"
    "\<forall>k < tv_rows s. tv_pkt_len s dvd k * tv_bytes_in_line s \<longleftrightarrow> m dvd k"
    using line_period_dvd [OF g(7,4), of "tv_pkt_len s"] unfolding g(9) by blast
  have "card {i. i < tv_total_pkts s \<and> pkt_crosses s i} = card {k. k < tv_rows s \<and> \<not> m dvd k}"
    using bij_betw_same_card [OF crossing_rows [OF s b]] m(3) by (metis (mono_tags, lifting) Collect_cong)
  also have "\<dots> = card ({k. k < tv_rows s} - {k. k < tv_rows s \<and> m dvd k})" by (rule arg_cong [of _ _ card]) auto
  also have "\<dots> = tv_rows s - ceil_div (tv_rows s) m" by (simp add: card_Diff_subset card_multiples [OF m(1)] Collect_mono)
  also have "ceil_div (tv_rows s) m = ceil_div (tv_frame_size s) (m * tv_bytes_in_line s)"
    using ceil_div_scale [OF g(7) m(1), of "tv_rows s"] unfolding g(9) by (simp add: mult.commute)
  finally show ?thesis unfolding m(2) .
qed

text \<open>The kind of a packet by its place in the plan.\<close>

lemma pad_type_block:
  assumes s: "tv_geometry s" and b: "block_packing s" and i: "i < tv_total_pkts s"
    and o: "\<not> tv_st22 s" "to_type (tv_ops s) \<noteq> ST20_TYPE_RTP_LEVEL"
  shows "tv_train_pad_type s i = (if plan.len s i < tv_pkt_len s then ST20_PKT_TYPE_FRAME_TAIL
    else if pkt_crosses s i then ST20_PKT_TYPE_EXTRA else ST20_PKT_TYPE_NORMAL)"
proof -
  note g = geometryD [OF s] and bp = block_pkt [OF s b i]
  have off: "to32 (tv_pkt_len s * i) = pkt_start s i" using bp(1,2) g(12,13) by (simp add: mult.commute)
  have "to32 (pkt_start s i + tv_pkt_len s) = pkt_start s i + tv_pkt_len s" using bp(2) g(12,13,16) by simp
  then show ?thesis using o b extra_hdr_iff [OF s b i] bp
    unfolding tv_train_pad_type_def Let_def off by (auto simp: block_packing_def min_def)
qed

lemma line_tail:
  assumes s: "tv_geometry s" and b: "\<not> block_packing s" and i: "i < tv_total_pkts s"
  defines "n \<equiv> tv_pkts_in_line s"
  shows "plan.len s i = (if i mod n = n - 1 \<and> tv_bytes_in_line s mod tv_pkt_len s \<noteq> 0
    then tv_bytes_in_line s mod tv_pkt_len s else tv_pkt_len s)"
proof -
  have lp: "line_plan s" using geometry_plans [OF s] b by simp
  then have n: "0 < n" "(n - 1) * tv_pkt_len s < tv_bytes_in_line s" "tv_bytes_in_line s \<le> n * tv_pkt_len s"
    by (simp_all add: line_plan_def n_def)
  note len = line_pkt(4) [OF s b i, folded n_def]
  show ?thesis
  proof (cases "i mod n = n - 1")
    case True
    define r where "r = tv_bytes_in_line s - (n - 1) * tv_pkt_len s"
    have r: "tv_bytes_in_line s = (n - 1) * tv_pkt_len s + r" "0 < r" using n(2) unfolding r_def by linarith+
    have "n * tv_pkt_len s = (n - 1) * tv_pkt_len s + tv_pkt_len s" using n(1) mult_Suc [of "n - 1" "tv_pkt_len s"] by simp
    then have le: "r \<le> tv_pkt_len s" using n(3) r(1) by linarith
    have md: "tv_bytes_in_line s mod tv_pkt_len s = r mod tv_pkt_len s" unfolding r(1) by simp
    have "plan.len s i = r" unfolding len True r(1) using le by simp
    then show ?thesis unfolding md True using le r(2) by (cases "r = tv_pkt_len s") simp_all
  next
    case False
    then have "Suc (i mod n) < n" using mod_less_divisor [OF n(1), of i] by linarith
    then have "Suc (i mod n) * tv_pkt_len s < tv_bytes_in_line s" using line_row_last [OF lp] unfolding n_def by blast
    then show ?thesis using False len by simp
  qed
qed

lemma attach_kinds:
  assumes att: "tv_attach port_map rest suggest None ops s0 = Inr s" and ok: "tx_video_ok suggest ops"
  shows "tv_pkt_info s = tv_pkt_info (if block_packing s then block_pkt_info (tv_rows s) s else tv_init_pkt_gpm_sl s)"
proof -
  obtain pg s1 s2 where init: "tv_init_pkt suggest s1 = Inr s2"
    and s: "s = s2\<lparr>tv_pkt_idx := 0, tv_seq_id := 0, tv_waiting := True\<rparr>" and s1: "tv_ops s1 = ops" "\<not> tv_st22 s1"
    using tv_attach_cases [OF att] by metis
  have o: "to_type (tv_ops s1) \<noteq> ST20_TYPE_RTP_LEVEL" using ok s1 by (simp add: tx_video_ok_def)
  have idem: "tv_pkt_info (block_pkt_info h (block_pkt_info h t)) = tv_pkt_info (block_pkt_info h t)" for h t
    by (simp add: block_pkt_info_def Let_def)
  have idem2: "tv_pkt_info (tv_init_pkt_gpm_sl (tv_init_pkt_gpm_sl t)) = tv_pkt_info (tv_init_pkt_gpm_sl t)" for t
    unfolding gpm_sl_eq by (simp add: sl_pkt_len_def)
  have same: "tv_pkt_info (block_pkt_info h s) = tv_pkt_info (block_pkt_info h s2)"
    "tv_pkt_info (tv_init_pkt_gpm_sl s) = tv_pkt_info (tv_init_pkt_gpm_sl s2)" for h
    unfolding gpm_sl_eq by (simp_all add: s block_pkt_info_def sl_pkt_len_def Let_def)
  have ops: "tv_ops s = tv_ops s1" using init_pkt_keeps [OF init s1(2) o] by (simp add: s)
  from init_pkt_cases(2) [OF init s1(2) o] show ?thesis
  proof (elim disjE conjE)
    assume "to_packing (tv_ops s1) = ST20_PACKING_GPM_SL" "s2 = tv_init_pkt_gpm_sl (line_set s1)"
    then show ?thesis using ops same(2) idem2 by (simp add: block_packing_def s)
  next
    assume "to_packing (tv_ops s1) = ST20_PACKING_BPM" "tv_init_pkt_bpm (line_set s1) = Inr s2"
    then show ?thesis using ops same(1) idem by (auto simp: block_packing_def s tv_init_pkt_bpm_def tv_rows_def split: if_splits)
  next
    assume "to_packing (tv_ops s1) = ST20_PACKING_GPM" "s2 = tv_init_pkt_gpm suggest (line_set s1)"
    then show ?thesis using ops same(1) idem by (simp add: block_packing_def s tv_init_pkt_gpm_def tv_rows_def Let_def)
  qed
qed


definition pkts_of_kind :: "tx_video \<Rightarrow> st20_packet_type \<Rightarrow> nat set" where
  "pkts_of_kind s t = {i. i < tv_total_pkts s \<and> tv_train_pad_type s i = t}"

lemma card_normal:
  assumes "tv_train_pad_type s ` {..<tv_total_pkts s} \<subseteq> {ST20_PKT_TYPE_NORMAL, t, u}"
    and "t \<noteq> ST20_PKT_TYPE_NORMAL" "u \<noteq> ST20_PKT_TYPE_NORMAL" "t \<noteq> u"
  shows "card (pkts_of_kind s ST20_PKT_TYPE_NORMAL) = tv_total_pkts s - card (pkts_of_kind s t) - card (pkts_of_kind s u)"
proof -
  have "pkts_of_kind s ST20_PKT_TYPE_NORMAL = {..<tv_total_pkts s} - (pkts_of_kind s t \<union> pkts_of_kind s u)"
    using assms by (auto simp: pkts_of_kind_def)
  moreover have "card (pkts_of_kind s t \<union> pkts_of_kind s u) = card (pkts_of_kind s t) + card (pkts_of_kind s u)"
    using assms(4) by (intro card_Un_disjoint) (auto simp: pkts_of_kind_def)
  moreover have "pkts_of_kind s t \<union> pkts_of_kind s u \<subseteq> {..<tv_total_pkts s}" by (auto simp: pkts_of_kind_def)
  ultimately show ?thesis using card_Diff_subset [OF finite_subset [OF _ finite_lessThan]] by (simp add: card_Diff_subset)
qed

lemma block_tail:
  assumes s: "tv_geometry s" and b: "block_packing s" and i: "i < tv_total_pkts s"
  shows "plan.len s i = (if i = tv_total_pkts s - 1 \<and> tv_frame_size s mod tv_pkt_len s \<noteq> 0
    then tv_frame_size s mod tv_pkt_len s else tv_pkt_len s)"
proof -
  note g = geometryD [OF s] and bp = block_pkt [OF s b i]
  have tot: "tv_total_pkts s = ceil_div (tv_frame_size s) (tv_pkt_len s)" using geometry_plans [OF s] b by (simp add: block_plan_def)
  have lo: "tv_frame_size s \<le> tv_total_pkts s * tv_pkt_len s" and hi: "tv_total_pkts s * tv_pkt_len s < tv_frame_size s + tv_pkt_len s"
    unfolding tot using ceil_div_le [OF g(14)] ceil_div_less [OF g(14)] by blast+
  show ?thesis
  proof (cases "i = tv_total_pkts s - 1")
    case True
    define r where "r = tv_frame_size s - i * tv_pkt_len s"
    have "tv_total_pkts s * tv_pkt_len s = i * tv_pkt_len s + tv_pkt_len s" using True i mult_Suc [of i "tv_pkt_len s"] by simp
    then have r: "tv_frame_size s = i * tv_pkt_len s + r" "0 < r" "r \<le> tv_pkt_len s"
      using lo hi unfolding r_def by linarith+
    have md: "tv_frame_size s mod tv_pkt_len s = r mod tv_pkt_len s" unfolding r(1) by simp
    have "plan.len s i = r" unfolding bp(3) r_def [symmetric] using r(3) by simp
    then show ?thesis using True md r(2,3) by (cases "r = tv_pkt_len s") simp_all
  next
    case False
    then have "(i + 2) * tv_pkt_len s \<le> tv_total_pkts s * tv_pkt_len s" using i by (intro mult_le_mono1) simp
    then have "i * tv_pkt_len s + tv_pkt_len s \<le> tv_frame_size s" using hi by simp
    then show ?thesis using False bp(3) by simp
  qed
qed

lemma kinds_block:
  assumes s: "tv_geometry s" and b: "block_packing s" and o: "\<not> tv_st22 s" "to_type (tv_ops s) \<noteq> ST20_TYPE_RTP_LEVEL"
  shows "card (pkts_of_kind s t) = gi_number (tv_pkt_info (block_pkt_info (tv_rows s) s) t)"
proof -
  note pt = pad_type_block [OF s b _ o] and bt = block_tail [OF s b]
  have len: "0 < tv_pkt_len s" using geometryD [OF s] by simp
  have small: "tv_frame_size s mod tv_pkt_len s < tv_pkt_len s" using len by simp
  have pos: "0 < tv_total_pkts s" using plan.start_total [OF s] plan.start_0 [OF s] geometryD(4,7,9) [OF s] by (cases "tv_total_pkts s") auto
  have extra: "pkts_of_kind s ST20_PKT_TYPE_EXTRA = {i. i < tv_total_pkts s \<and> pkt_crosses s i}"
  proof -
    have "tv_train_pad_type s i = ST20_PKT_TYPE_EXTRA \<longleftrightarrow> pkt_crosses s i" if i: "i < tv_total_pkts s" for i
      using pt [OF i] pkt_bounds(7) [OF s i] by auto
    then show ?thesis unfolding pkts_of_kind_def by blast
  qed
  have tail: "pkts_of_kind s ST20_PKT_TYPE_FRAME_TAIL =
      (if tv_frame_size s mod tv_pkt_len s \<noteq> 0 then {tv_total_pkts s - 1} else {})"
    using pt bt pos small by (auto simp: pkts_of_kind_def split: if_splits)
  have none: "pkts_of_kind s ST20_PKT_TYPE_LINE_TAIL = {}" using pt by (auto simp: pkts_of_kind_def)
  have normal: "card (pkts_of_kind s ST20_PKT_TYPE_NORMAL) = tv_total_pkts s -
      card (pkts_of_kind s ST20_PKT_TYPE_FRAME_TAIL) - card (pkts_of_kind s ST20_PKT_TYPE_EXTRA)"
    using pt by (intro card_normal) (auto split: if_splits)
  have "card (pkts_of_kind s ST20_PKT_TYPE_EXTRA) =
      tv_rows s - ceil_div (tv_frame_size s) (line_period (tv_bytes_in_line s) (tv_pkt_len s) (tv_frame_size s) 1)"
    unfolding extra by (rule card_crossing [OF s b])
  then show ?thesis using normal tail none
    by (cases t) (simp_all add: block_pkt_info_def no_info_def Let_def)
qed

lemma gpm_sl_numbers:
  fixes s
  defines "t \<equiv> tv_init_pkt_gpm_sl s"
  shows "gi_number (tv_pkt_info t ST20_PKT_TYPE_LINE_TAIL) =
      (if tv_bytes_in_line s mod tv_pkt_len t \<noteq> 0 then frame_height (tv_ops s) else 0)"
    "gi_number (tv_pkt_info t ST20_PKT_TYPE_NORMAL) = tv_total_pkts t -
      (if tv_bytes_in_line s mod tv_pkt_len t \<noteq> 0 then frame_height (tv_ops s) else 0)"
    "gi_number (tv_pkt_info t ST20_PKT_TYPE_EXTRA) = 0" "gi_number (tv_pkt_info t ST20_PKT_TYPE_FRAME_TAIL) = 0"
    "gi_size (tv_pkt_info t ST20_PKT_TYPE_NORMAL) = tv_pkt_size t"
    "tv_bytes_in_line s mod tv_pkt_len t \<noteq> 0 \<Longrightarrow>
       gi_size (tv_pkt_info t ST20_PKT_TYPE_LINE_TAIL) = tv_bytes_in_line s mod tv_pkt_len t + 62"
  unfolding t_def gpm_sl_eq by (simp_all add: sl_info_def no_info_def Let_def)

lemma kinds_line:
  assumes s: "tv_geometry s" and b: "\<not> block_packing s" and o: "\<not> tv_st22 s" "to_type (tv_ops s) \<noteq> ST20_TYPE_RTP_LEVEL"
    and info: "tv_pkt_info s = tv_pkt_info (tv_init_pkt_gpm_sl s)"
    and len: "tv_pkt_len (tv_init_pkt_gpm_sl s) = tv_pkt_len s" "tv_total_pkts (tv_init_pkt_gpm_sl s) = tv_total_pkts s"
  shows "card (pkts_of_kind s t) = gi_number (tv_pkt_info s t)"
proof -
  let ?n = "tv_pkts_in_line s" and ?tail = "tv_bytes_in_line s mod tv_pkt_len s \<noteq> 0"
  have lp: "line_plan s" using geometry_plans [OF s] b by simp
  then have n: "0 < ?n" "tv_total_pkts s = tv_rows s * ?n" by (simp_all add: line_plan_def)
  have num: "gi_number (tv_pkt_info s ST20_PKT_TYPE_LINE_TAIL) = (if ?tail then tv_rows s else 0)"
    "gi_number (tv_pkt_info s ST20_PKT_TYPE_NORMAL) = tv_total_pkts s - (if ?tail then tv_rows s else 0)"
    "gi_number (tv_pkt_info s ST20_PKT_TYPE_EXTRA) = 0" "gi_number (tv_pkt_info s ST20_PKT_TYPE_FRAME_TAIL) = 0"
    using gpm_sl_numbers [of s] len unfolding info [symmetric] tv_rows_def by simp_all
  have rows: "0 < tv_rows s" using geometryD [OF s] by simp
  have pt: "tv_train_pad_type s i = (if ?tail \<and> i mod ?n = ?n - 1 then ST20_PKT_TYPE_LINE_TAIL else ST20_PKT_TYPE_NORMAL)" for i
    using o b rows num(1) by (simp add: tv_train_pad_type_def block_packing_def)
  have "{i. i < tv_total_pkts s \<and> i mod ?n = ?n - 1} = (\<lambda>r. r * ?n + (?n - 1)) ` {..<tv_rows s}"
  proof (intro equalityI subsetI)
    fix i assume "i \<in> {i. i < tv_total_pkts s \<and> i mod ?n = ?n - 1}"
    then have "i = i div ?n * ?n + (?n - 1)" "i div ?n < tv_rows s"
      using div_mult_mod_eq [of i ?n] n by (auto simp: less_mult_imp_div_less)
    then show "i \<in> (\<lambda>r. r * ?n + (?n - 1)) ` {..<tv_rows s}" by blast
  next
    fix i assume "i \<in> (\<lambda>r. r * ?n + (?n - 1)) ` {..<tv_rows s}"
    then obtain r where r: "i = r * ?n + (?n - 1)" "r < tv_rows s" by auto
    then have "(r + 1) * ?n \<le> tv_rows s * ?n" by (intro mult_le_mono1) simp
    then have "i < tv_total_pkts s" unfolding r(1) n(2) using n(1) by (simp only: distrib_right)
    moreover have "i mod ?n = ?n - 1" unfolding r(1) mod_mult_self3 using n(1) by simp
    ultimately show "i \<in> {i. i < tv_total_pkts s \<and> i mod ?n = ?n - 1}" by simp
  qed
  moreover have "inj_on (\<lambda>r. r * ?n + (?n - 1)) {..<tv_rows s}"
  proof (rule inj_onI)
    fix x y assume "x * ?n + (?n - 1) = y * ?n + (?n - 1)"
    then have "x * ?n = y * ?n" by linarith
    then show "x = y" using n(1) by simp
  qed
  ultimately have lines: "card {i. i < tv_total_pkts s \<and> i mod ?n = ?n - 1} = tv_rows s"
    using card_image by (metis (no_types, lifting) card_lessThan)
  have tail: "card (pkts_of_kind s ST20_PKT_TYPE_LINE_TAIL) = (if ?tail then tv_rows s else 0)"
  proof -
    have "pkts_of_kind s ST20_PKT_TYPE_LINE_TAIL = (if ?tail then {i. i < tv_total_pkts s \<and> i mod ?n = ?n - 1} else {})"
      by (auto simp: pkts_of_kind_def pt)
    then show ?thesis using lines by simp
  qed
  have none: "pkts_of_kind s ST20_PKT_TYPE_EXTRA = {}" "pkts_of_kind s ST20_PKT_TYPE_FRAME_TAIL = {}"
    by (simp_all add: pkts_of_kind_def pt)
  have "card (pkts_of_kind s ST20_PKT_TYPE_NORMAL) = tv_total_pkts s - card (pkts_of_kind s ST20_PKT_TYPE_LINE_TAIL) -
      card (pkts_of_kind s ST20_PKT_TYPE_EXTRA)"
    by (rule card_normal) (auto simp: pt split: if_splits)
  then show ?thesis using num tail none by (cases t) simp_all
qed

text \<open>The packet by the plan.\<close>

definition plan_pkt :: "tx_video \<Rightarrow> nat \<Rightarrow> rfc4175_pkt" where
  "plan_pkt s i =
     (let line1 = tv_bytes_in_line s - pkt_col s i; x = pkt_crosses s i;
          pixel = of_nat (pkt_col s i div pg_size (tv_pg s) * pg_coverage (tv_pg s))
      in \<lparr>vp_marker = (i + 1 \<ge> tv_total_pkts s), vp_payload_type = to_payload_type (tv_ops s),
          vp_seq_number = ucast (tv_seq_id s), vp_seq_number_ext = ucast (drop_bit 16 (tv_seq_id s)),
          vp_tmstamp = tv_rtp_time_stamp s, vp_ssrc = to_ssrc (tv_ops s),
          vp_row_length = of_nat (if x then line1 else plan.len s i),
          vp_row_number = of_nat (pkt_row s i) OR field_bit s,
          vp_row_offset = (if x then pixel OR ST20_SRD_OFFSET_CONTINUATION else pixel),
          vp_body = (if x then extra_bytes \<lparr>er_row_length = of_nat (plan.len s i - line1),
                       er_row_number = of_nat (pkt_row s i + 1) OR field_bit s, er_row_offset = 0\<rparr> else []) @ pkt_payload s i,
          vp_pkt_len = 62 + (if x then 6 else 0) + plan.len s i, vp_multi_seg = False, vp_rx_time = 0\<rparr>)"

lemma build_plan_pkt:
  assumes s: "tv_geometry s" and d: "length (tv_frame_data s) = tv_fb_size s" and i: "i < tv_total_pkts s" and idx: "tv_pkt_idx s = i"
  shows "tv_build_st20 s = Some (plan_pkt s i, s\<lparr>tv_seq_id := tv_seq_id s + 1\<rparr>)"
proof (cases "block_packing s")
  case True
  show ?thesis
    unfolding tv_build_st20_def Let_def unfolding payload_of_pkt [OF s d i idx] unfolding layout_block [OF s True i idx]
    by (simp add: add_payload_def st20_pkt_hdr_def st20_extra_hdr_def plan_pkt_def Let_def idx)
next
  case False
  then have "\<not> pkt_crosses s i" using pkt_bounds(7) [OF s i] by blast
  then show ?thesis
    unfolding tv_build_st20_def Let_def unfolding payload_of_pkt [OF s d i idx] unfolding layout_line [OF s False i idx]
    by (simp add: add_payload_def st20_pkt_hdr_def plan_pkt_def Let_def idx)
qed

lemma kind_sizes:
  assumes s: "tv_geometry s" and i: "i < tv_total_pkts s" and o: "\<not> tv_st22 s" "to_type (tv_ops s) \<noteq> ST20_TYPE_RTP_LEVEL"
    and info: "tv_pkt_info s = tv_pkt_info (if block_packing s then block_pkt_info (tv_rows s) s else tv_init_pkt_gpm_sl s)"
    and sz: "tv_pkt_size s = tv_pkt_len s + 62"
    and len: "\<not> block_packing s \<Longrightarrow> tv_pkt_len (tv_init_pkt_gpm_sl s) = tv_pkt_len s \<and> tv_pkt_size (tv_init_pkt_gpm_sl s) = tv_pkt_size s"
  shows "gi_size (tv_pkt_info s (tv_train_pad_type s i)) = 62 + (if pkt_crosses s i then 6 else 0) + plan.len s i"
proof (cases "block_packing s")
  case True
  note pt = pad_type_block [OF s True i o] and bt = block_tail [OF s True i] and bd = pkt_bounds [OF s i]
  have small: "tv_frame_size s mod tv_pkt_len s < tv_pkt_len s" using geometryD(14) [OF s] by simp
  have cross: "card {i. i < tv_total_pkts s \<and> pkt_crosses s i} \<noteq> 0" if "pkt_crosses s i" using that i by auto
  note cc = card_crossing [OF s True]
  show ?thesis using True pt bt bd less_imp_neq [OF small] cross unfolding info
    by (auto simp: block_pkt_info_def no_info_def Let_def sz cc split: if_splits)
next
  case False
  then have nc: "\<not> pkt_crosses s i" using pkt_bounds(7) [OF s i] by blast
  note lt = line_tail [OF s False i] and gn = gpm_sl_numbers [of s] and l = len [OF False]
  have info': "tv_pkt_info s = tv_pkt_info (tv_init_pkt_gpm_sl s)" using info False by simp
  have rows: "0 < tv_rows s" using geometryD [OF s] by simp
  show ?thesis
    using o False nc lt gn rows l sz by (simp add: tv_train_pad_type_def block_packing_def info' tv_rows_def)
qed

lemma gpm_sl_same:
  assumes att: "tv_attach port_map rest suggest None ops s0 = Inr s" and ok: "tx_video_ok suggest ops" and "\<not> block_packing s"
  shows "tv_pkt_len (tv_init_pkt_gpm_sl s) = tv_pkt_len s \<and> tv_pkt_size (tv_init_pkt_gpm_sl s) = tv_pkt_size s \<and>
    tv_total_pkts (tv_init_pkt_gpm_sl s) = tv_total_pkts s"
proof -
  obtain pg s1 s2 where init: "tv_init_pkt suggest s1 = Inr s2"
    and s: "s = s2\<lparr>tv_pkt_idx := 0, tv_seq_id := 0, tv_waiting := True\<rparr>" and s1: "tv_ops s1 = ops" "\<not> tv_st22 s1"
    using tv_attach_cases [OF att] by metis
  have o: "to_type (tv_ops s1) \<noteq> ST20_TYPE_RTP_LEVEL" using ok s1 by (simp add: tx_video_ok_def)
  have "tv_ops s = tv_ops s1" using init_pkt_keeps [OF init s1(2) o] by (simp add: s)
  then have "s2 = tv_init_pkt_gpm_sl (line_set s1)" using init_pkt_cases(2) [OF init s1(2) o] assms(3) by (auto simp: block_packing_def)
  moreover have "sl_pkt_len s = sl_pkt_len (line_set s1)" using calculation by (simp add: s sl_pkt_len_def)
  ultimately show ?thesis by (simp add: gpm_sl_eq s sl_pkt_len_def del: line_set_keeps)
qed

lemma geometry_frame [simp]:
  "tv_geometry (s\<lparr>tv_pkt_idx := i\<rparr>) = tv_geometry s" "tv_geometry (s\<lparr>tv_frame_data := d\<rparr>) = tv_geometry s"
  "tv_geometry (s\<lparr>tv_seq_id := q\<rparr>) = tv_geometry s" "tv_geometry (s\<lparr>tv_build := u\<rparr>) = tv_geometry s"
  unfolding tv_geometry_def block_packing_def tv_rows_def by simp_all

text \<open>
  C2. The table of packet kinds that the pacing of video is trained with describes the frame. For every session
  that attached with sensible options, in each packing: the number entered for a kind of packet is the number of
  packets of a frame of that kind, and the size entered for the kind of a packet is the length on the wire of the
  packet that \<open>tv_build_st20\<close> builds at that index. The count of packets that cross a line end rests on the
  loop over multiples of the line size, which ends at the first common multiple of line and packet.
\<close>

theorem video_pkt_kinds:
  assumes "tv_attach port_map rest suggest None ops s0 = Inr s" and "tx_video_ok suggest ops"
  shows "gi_number (tv_pkt_info s t) = card {i. i < tv_total_pkts s \<and> tv_train_pad_type s i = t} \<and>
    (i < tv_total_pkts s \<longrightarrow> length frame = tv_fb_size s \<longrightarrow>
      (\<exists>pkt s'. tv_build_st20 (s\<lparr>tv_pkt_idx := i, tv_frame_data := frame\<rparr>) = Some (pkt, s') \<and>
        vp_pkt_len pkt = gi_size (tv_pkt_info s (tv_train_pad_type s i))))"
proof (intro conjI impI)
  note g = tv_attach_geometry [OF assms]
  have o: "to_type (tv_ops s) \<noteq> ST20_TYPE_RTP_LEVEL" using g(2) assms(2) by (simp add: tx_video_ok_def)
  note info = attach_kinds [OF assms] and same = gpm_sl_same [OF assms]
  show "gi_number (tv_pkt_info s t) = card {i. i < tv_total_pkts s \<and> tv_train_pad_type s i = t}"
    using kinds_block [OF g(1) _ g(3) o, of t] kinds_line [OF g(1) _ g(3) o, of t] info same
    by (cases "block_packing s") (simp_all add: pkts_of_kind_def)
  assume i: "i < tv_total_pkts s" and d: "length frame = tv_fb_size s"
  let ?t = "s\<lparr>tv_pkt_idx := i, tv_frame_data := frame\<rparr>"
  have t: "tv_geometry ?t" using g(1) by simp
  have "vp_pkt_len (plan_pkt ?t i) = 62 + (if pkt_crosses s i then 6 else 0) + plan.len s i"
    by (simp add: plan_pkt_def Let_def pkt_crosses_def pkt_col_def plan.len_def pkt_start_def block_start_def line_start_def block_packing_def)
  moreover have "gi_size (tv_pkt_info s (tv_train_pad_type s i)) = 62 + (if pkt_crosses s i then 6 else 0) + plan.len s i"
    by (rule kind_sizes [OF g(1) i g(3) o info g(4)]) (simp add: same)
  ultimately show "\<exists>pkt s'. tv_build_st20 ?t = Some (pkt, s') \<and> vp_pkt_len pkt = gi_size (tv_pkt_info s (tv_train_pad_type s i))"
    using build_plan_pkt [OF t, of i] d i by simp
qed

section \<open>An example\<close>

text \<open>Three lines of 720 pixels, 4:2:2 with 10 bits, in blocks of 1260 bytes.\<close>

definition wide_tx_ops :: st20_tx_ops where
  "wide_tx_ops = \<lparr>to_width = 720, to_height = 3, to_interlaced = False, to_fps = ST_FPS_P50, to_fmt = ST20_FMT_YUV_422_10BIT,
     to_packing = ST20_PACKING_BPM, to_type = ST20_TYPE_FRAME_LEVEL, to_linesize = 0, to_payload_type = 112, to_ssrc = 0,
     to_rtp_pkt_size = 0, to_rtp_frame_total_pkts = 0\<rparr>"

definition blank_tx :: tx_video where
  "blank_tx = \<lparr>tv_ops = wide_tx_ops, tv_st22 = False,
     tv_pg = \<lparr>pg_fmt = ST20_FMT_YUV_422_10BIT, pg_size = 0, pg_coverage = 0, pg_name = []\<rparr>,
     tv_frame_size = 0, tv_fb_size = 0, tv_linesize = 0, tv_bytes_in_line = 0, tv_pkts_in_line = 0, tv_pkt_len = 0,
     tv_pkt_size = 0, tv_rtp_pkt_max_size = 0, tv_total_pkts = 0, tv_pkt_info = no_info, tv_pkt_idx = 0, tv_seq_id = 0,
     tv_waiting = True, tv_frame_data = [], tv_second_field = False, tv_rtp_time_stamp = 0, tv_build = 0, tv_dummy = 0,
     tv_frames = 0, tv_chain_realloc_fail = 0\<rparr>"

lemma wide_pgroup: "st20_get_pgroup ST20_FMT_YUV_422_10BIT =
    Inr \<lparr>pg_fmt = ST20_FMT_YUV_422_10BIT, pg_size = 5, pg_coverage = 2, pg_name = ''ST20_FMT_YUV_422_10BIT''\<rparr>"
  by (simp add: st20_get_pgroup_def st20_pgroups_def)

lemma wide_ok: "tx_video_ok 1352 wide_tx_ops"
  by (simp add: tx_video_ok_def wide_tx_ops_def wide_pgroup frame_height_def line_bytes_def block_len_def)

lemma wide_period: "line_period 1800 1260 5400 (Suc 0) = 7200"
  by (simp add: line_period.simps)

lemma wide_init:
  assumes "tv_ops s = wide_tx_ops" and "pg_size (tv_pg s) = 5" and "\<not> tv_st22 s"
  shows "tv_init_pkt 1352 s = Inr (block_pkt_info 3 (line_set s\<lparr>tv_pkt_len := 1260, tv_pkt_size := 1322,
    tv_total_pkts := ceil_div (tv_frame_size s) 1260\<rparr>))"
  using assms unfolding tv_init_pkt_def Let_def line_set_def [symmetric]
  by (simp add: tv_init_pkt_bpm_def wide_tx_ops_def frame_height_def)

lemma wide_info:
  assumes "tv_pkt_len s = 1260" "tv_frame_size s = 5400" "tv_bytes_in_line s = 1800"
  shows "gi_number (tv_pkt_info (block_pkt_info 3 s) ST20_PKT_TYPE_EXTRA) = 2"
    "gi_size (tv_pkt_info (block_pkt_info 3 s) ST20_PKT_TYPE_FRAME_TAIL) = 422"
  unfolding block_pkt_info_def Let_def assms by (simp_all add: wide_period ceil_div_def no_info_def)

lemma wide_attach:
  "\<exists>s. tv_attach (Inr ()) (Inr ()) 1352 None wide_tx_ops blank_tx = Inr s \<and> tv_total_pkts s = 5 \<and> tv_pkt_len s = 1260 \<and>
     tv_fb_size s = 5400 \<and> tv_bytes_in_line s = 1800 \<and> tv_frame_size s = 5400 \<and>
     gi_number (tv_pkt_info s ST20_PKT_TYPE_EXTRA) = 2 \<and> gi_size (tv_pkt_info s ST20_PKT_TYPE_FRAME_TAIL) = 422"
proof -
  define s1 where "s1 = blank_tx\<lparr>tv_ops := wide_tx_ops, tv_pg := \<lparr>pg_fmt = ST20_FMT_YUV_422_10BIT, pg_size = 5, pg_coverage = 2,
    pg_name = ''ST20_FMT_YUV_422_10BIT''\<rparr>, tv_linesize := 1800, tv_st22 := False, tv_frame_size := 5400, tv_fb_size := 5400\<rparr>"
  define s3 where "s3 = line_set s1\<lparr>tv_pkt_len := 1260, tv_pkt_size := 1322, tv_total_pkts := ceil_div (tv_frame_size s1) 1260\<rparr>"
  have f: "tv_pkt_len s3 = 1260" "tv_frame_size s3 = 5400" "tv_bytes_in_line s3 = 1800" "tv_total_pkts s3 = 5" "tv_fb_size s3 = 5400"
    by (simp_all add: s3_def s1_def line_set_def line_bytes_def wide_tx_ops_def ceil_div_def)
  have "st20_get_pgroup (to_fmt wide_tx_ops) = Inr (tv_pg s1)" by (simp add: wide_tx_ops_def wide_pgroup s1_def)
  moreover have "\<exists>t. st_get_fps_timing (to_fps wide_tx_ops) = Inr t"
    by (simp add: wide_tx_ops_def st_get_fps_timing_def st_fps_timings_def)
  moreover have "tv_init_pkt 1352 s1 = Inr (block_pkt_info 3 s3)" unfolding s3_def by (rule wide_init) (simp_all add: s1_def)
  ultimately have "tv_attach (Inr ()) (Inr ()) 1352 None wide_tx_ops blank_tx =
      Inr ((block_pkt_info 3 s3)\<lparr>tv_pkt_idx := 0, tv_seq_id := 0, tv_waiting := True\<rparr>)"
    unfolding tv_attach_def by (auto simp: s1_def wide_tx_ops_def line_bytes_def frame_height_def Let_def)
  then show ?thesis using f wide_info [OF f(1-3)] by simp
qed

theorem video_pkt_kinds_witness:
  "\<exists>s. tv_attach (Inr ()) (Inr ()) 1352 None wide_tx_ops blank_tx = Inr s \<and>
     card {i. i < tv_total_pkts s \<and> tv_train_pad_type s i = ST20_PKT_TYPE_EXTRA} = 2 \<and>
     (\<exists>pkt s'. tv_build_st20 (s\<lparr>tv_pkt_idx := 4, tv_frame_data := replicate 5400 0\<rparr>) = Some (pkt, s') \<and> vp_pkt_len pkt = 422)"
proof -
  obtain s where s: "tv_attach (Inr ()) (Inr ()) 1352 None wide_tx_ops blank_tx = Inr s"
    "tv_total_pkts s = 5" "tv_pkt_len s = 1260" "tv_fb_size s = 5400" "tv_frame_size s = 5400"
    "gi_number (tv_pkt_info s ST20_PKT_TYPE_EXTRA) = 2" "gi_size (tv_pkt_info s ST20_PKT_TYPE_FRAME_TAIL) = 422"
    using wide_attach by blast
  have o: "tv_ops s = wide_tx_ops" "\<not> tv_st22 s" using tv_attach_geometry [OF s(1) wide_ok] by simp_all
  have "tv_train_pad_type s 4 = ST20_PKT_TYPE_FRAME_TAIL"
    using s o by (simp add: tv_train_pad_type_def wide_tx_ops_def)
  then show ?thesis
    using video_pkt_kinds [OF s(1) wide_ok, of ST20_PKT_TYPE_EXTRA 4 "replicate 5400 0"] s by auto
qed

end
