(* ===== verification/Tx_Video_Frame.thy ===== *)
theory Tx_Video_Frame
  imports Tx_Video_Kinds
begin

text \<open>
  A whole frame: the tasklet builds it bulk by bulk (\<open>tv_build_bulk\<close>). The packets carry consecutive sequence
  numbers and, one after the other, the bytes of the frame without the padding of its lines.
\<close>

section \<open>Packets of a frame\<close>

text \<open>Packet \<open>j\<close> of a frame whose first packet has the sequence number \<open>q\<close>.\<close>

definition frame_pkt :: "tx_video \<Rightarrow> u32 \<Rightarrow> nat \<Rightarrow> rfc4175_pkt" where
  "frame_pkt s q j = plan_pkt (s\<lparr>tv_seq_id := q + of_nat j\<rparr>) j"

text \<open>The builder changes nothing a packet depends on but its index and the sequence number.\<close>

definition tx_progress :: "tx_video \<Rightarrow> nat \<Rightarrow> u32 \<Rightarrow> u64 \<Rightarrow> u64 \<Rightarrow> tx_video" where
  "tx_progress s i q b d = s\<lparr>tv_pkt_idx := i, tv_seq_id := q, tv_build := b, tv_dummy := d\<rparr>"

lemma tx_progress_simps [simp]:
  "tv_geometry (tx_progress s i q b d) = tv_geometry s" "tv_total_pkts (tx_progress s i q b d) = tv_total_pkts s"
  "tv_frame_data (tx_progress s i q b d) = tv_frame_data s" "tv_fb_size (tx_progress s i q b d) = tv_fb_size s"
  "tv_pkt_idx (tx_progress s i q b d) = i" "tv_seq_id (tx_progress s i q b d) = q"
  "tx_progress (tx_progress s i q b d) i' q' b' d' = tx_progress s i' q' b' d'"
  unfolding tx_progress_def tv_geometry_def block_packing_def tv_rows_def by simp_all

lemma pkt_parts_cong:
  "pkt_start (tx_progress s i q b d) j = pkt_start s j" "plan.len (tx_progress s i q b d) j = plan.len s j"
  "pkt_row (tx_progress s i q b d) j = pkt_row s j" "pkt_col (tx_progress s i q b d) j = pkt_col s j"
  "pkt_crosses (tx_progress s i q b d) j = pkt_crosses s j" "pkt_payload (tx_progress s i q b d) j = pkt_payload s j"
  unfolding plan.len_def pkt_row_def pkt_col_def pkt_crosses_def pkt_payload_def pkt_start_def block_start_def line_start_def
    block_packing_def frame_byte_def tx_progress_def by simp_all

lemma plan_pkt_progress: "plan_pkt (tx_progress s i q b d) j = plan_pkt (s\<lparr>tv_seq_id := q\<rparr>) j"
proof -
  have eq: "s\<lparr>tv_seq_id := q\<rparr> = tx_progress s (tv_pkt_idx s) q (tv_build s) (tv_dummy s)" by (simp add: tx_progress_def)
  show ?thesis unfolding eq plan_pkt_def Let_def pkt_parts_cong by (simp add: tx_progress_def field_bit_def)
qed

lemma build_pkts_run:
  assumes "tv_geometry s" and "length (tv_frame_data s) = tv_fb_size s"
    and "no_chain \<or> (\<forall>j < tv_total_pkts s. \<not> dry j)"
  shows "\<exists>b' d'. tv_build_pkts no_chain dry cross_page n (tx_progress s i (q + of_nat (min i (tv_total_pkts s))) b d) =
    Some (map (frame_pkt s q) [i..<min (i + n) (tv_total_pkts s)],
          tx_progress s (i + n) (q + of_nat (min (i + n) (tv_total_pkts s))) b' d')"
proof (induction n arbitrary: i b d)
  case 0
  then show ?case by (cases "i \<le> tv_total_pkts s") (auto simp: min_def)
next
  case (Suc n)
  let ?s = "tx_progress s i (q + of_nat (min i (tv_total_pkts s))) b d"
  show ?case
  proof (cases "i < tv_total_pkts s")
    case True
    have g: "tv_geometry ?s" using assms(1) by simp
    have one: "no_chain \<or> \<not> dry (tv_pkt_idx ?s)" using assms(3) True by auto
    have "tv_build_one no_chain dry cross_page ?s = Some (plan_pkt ?s i, ?s\<lparr>tv_seq_id := tv_seq_id ?s + 1\<rparr>)"
      unfolding build_one_same [of no_chain dry ?s, OF one] by (rule build_plan_pkt [OF g]) (use assms True in simp_all)
    moreover have "plan_pkt ?s i = frame_pkt s q i" using True by (simp add: plan_pkt_progress frame_pkt_def)
    moreover have "(?s\<lparr>tv_seq_id := tv_seq_id ?s + 1\<rparr>)\<lparr>tv_build := tv_build (?s\<lparr>tv_seq_id := tv_seq_id ?s + 1\<rparr>) + 1,
        tv_pkt_idx := tv_pkt_idx (?s\<lparr>tv_seq_id := tv_seq_id ?s + 1\<rparr>) + 1\<rparr> =
        tx_progress s (i + 1) (q + of_nat (min (i + 1) (tv_total_pkts s))) (b + 1) d"
      using True by (simp add: tx_progress_def min_def ac_simps)
    moreover obtain b' d' where "tv_build_pkts no_chain dry cross_page n (tx_progress s (i + 1) (q + of_nat (min (i + 1) (tv_total_pkts s))) (b + 1) d) =
      Some (map (frame_pkt s q) [i + 1..<min (i + 1 + n) (tv_total_pkts s)],
        tx_progress s (i + 1 + n) (q + of_nat (min (i + 1 + n) (tv_total_pkts s))) b' d')"
      using Suc [of "i + 1" "b + 1" d] by blast
    moreover have "[i..<min (i + Suc n) (tv_total_pkts s)] = i # [i + 1..<min (i + 1 + n) (tv_total_pkts s)]"
      using True by (simp add: upt_conv_Cons)
    ultimately show ?thesis using True by (simp, blast)
  next
    case False
    have "?s\<lparr>tv_dummy := tv_dummy ?s + 1, tv_pkt_idx := tv_pkt_idx ?s + 1\<rparr> =
        tx_progress s (i + 1) (q + of_nat (min (i + 1) (tv_total_pkts s))) b (d + 1)"
      using False by (simp add: tx_progress_def min_def)
    moreover obtain b' d' where "tv_build_pkts no_chain dry cross_page n (tx_progress s (i + 1) (q + of_nat (min (i + 1) (tv_total_pkts s))) b (d + 1)) =
      Some (map (frame_pkt s q) [i + 1..<min (i + 1 + n) (tv_total_pkts s)],
        tx_progress s (i + 1 + n) (q + of_nat (min (i + 1 + n) (tv_total_pkts s))) b' d')"
      using Suc [of "i + 1" b "d + 1"] by blast
    ultimately show ?thesis using False by (simp, blast)
  qed
qed

text \<open>The bulks of a frame.\<close>

fun tv_build_bulks ::
    "bool \<Rightarrow> (nat \<Rightarrow> bool) \<Rightarrow> (nat \<Rightarrow> nat \<Rightarrow> bool) \<Rightarrow> nat \<Rightarrow> nat \<Rightarrow> tx_video \<Rightarrow> (rfc4175_pkt list \<times> tx_video) option" where
  "tv_build_bulks no_chain dry cross_page 0 bulk s = Some ([], s)"
| "tv_build_bulks no_chain dry cross_page (Suc m) bulk s = do {
     (pkts, s) \<leftarrow> tv_build_bulk no_chain dry cross_page bulk s;
     (more, s) \<leftarrow> tv_build_bulks no_chain dry cross_page m bulk s;
     Some (pkts @ more, s)
   }"

lemma build_bulks_run:
  assumes g: "tv_geometry s" and d: "length (tv_frame_data s) = tv_fb_size s"
    and pool: "no_chain \<or> (\<forall>j < tv_total_pkts s. \<not> dry j)"
    and "i + m * bulk < tv_total_pkts s" and "tv_total_pkts s \<le> i + Suc m * bulk"
  shows "\<exists>s'. tv_build_bulks no_chain dry cross_page (Suc m) bulk (tx_progress s i (q + of_nat i) b dm) =
    Some (map (frame_pkt s q) [i..<tv_total_pkts s], s') \<and> tv_pkt_idx s' = 0 \<and> tv_waiting s' \<and>
    tv_seq_id s' = q + of_nat (tv_total_pkts s) \<and> tv_frames s' = tv_frames s + 1"
  using assms(4,5)
proof (induction m arbitrary: i b dm)
  case 0
  then have i: "min i (tv_total_pkts s) = i" "min (i + bulk) (tv_total_pkts s) = tv_total_pkts s" by simp_all
  obtain b' d' where "tv_build_pkts no_chain dry cross_page bulk (tx_progress s i (q + of_nat i) b dm) = Some (map (frame_pkt s q) [i..<tv_total_pkts s],
      tx_progress s (i + bulk) (q + of_nat (tv_total_pkts s)) b' d')"
    using build_pkts_run [OF g d pool, of cross_page bulk i q b dm] unfolding i by blast
  then show ?case using 0 by (simp add: tv_build_bulk_def) (simp add: tx_progress_def)
next
  case (Suc m)
  have lt: "i + bulk < tv_total_pkts s" using Suc.prems by (cases m) auto
  then have i: "min i (tv_total_pkts s) = i" "min (i + bulk) (tv_total_pkts s) = i + bulk" by simp_all
  obtain b' d' where one: "tv_build_pkts no_chain dry cross_page bulk (tx_progress s i (q + of_nat i) b dm) = Some (map (frame_pkt s q) [i..<i + bulk],
      tx_progress s (i + bulk) (q + of_nat (i + bulk)) b' d')"
    using build_pkts_run [OF g d pool, of cross_page bulk i q b dm] unfolding i by blast
  obtain s' where "tv_build_bulks no_chain dry cross_page (Suc m) bulk (tx_progress s (i + bulk) (q + of_nat (i + bulk)) b' d') =
    Some (map (frame_pkt s q) [i + bulk..<tv_total_pkts s], s') \<and> tv_pkt_idx s' = 0 \<and> tv_waiting s' \<and>
    tv_seq_id s' = q + of_nat (tv_total_pkts s) \<and> tv_frames s' = tv_frames s + 1"
    using Suc.IH [of "i + bulk" b' d'] Suc.prems by (auto simp: algebra_simps)
  moreover have "[i..<tv_total_pkts s] = [i..<i + bulk] @ [i + bulk..<tv_total_pkts s]" using lt upt_add_eq_append [of i "i + bulk" "tv_total_pkts s - (i + bulk)"] by simp
  moreover have "tv_build_bulk no_chain dry cross_page bulk (tx_progress s i (q + of_nat i) b dm) = Some (map (frame_pkt s q) [i..<i + bulk],
      tx_progress s (i + bulk) (q + of_nat (i + bulk)) b' d')"
    using one lt by (simp add: tv_build_bulk_def)
  ultimately show ?case unfolding tv_build_bulks.simps(2) [of no_chain dry cross_page "Suc m"] by (simp del: tv_build_bulks.simps of_nat_add)
qed

section \<open>The bytes of a frame\<close>

lemma concat_payloads:
  assumes "tv_geometry s" and "n \<le> tv_total_pkts s"
  shows "concat (map (pkt_payload s) [0..<n]) = map (frame_byte s) [0..<pkt_start s n]"
  using assms(2)
proof (induction n)
  case 0
  then show ?case using plan.start_0 [OF assms(1)] by simp
next
  case (Suc n)
  have lt: "pkt_start s n < pkt_start s (Suc n)" using plan.start_Suc [OF assms(1)] Suc by simp
  then have "[0..<pkt_start s (Suc n)] = [0..<pkt_start s n] @ map (\<lambda>k. k + pkt_start s n) [0..<plan.len s n]"
    using upt_add_eq_append [of 0 "pkt_start s n" "plan.len s n"] by (simp add: plan.len_def map_add_upt add.commute)
  then show ?case using Suc by (simp add: pkt_payload_def add.commute)
qed

text \<open>The lines of a buffer without their padding: position \<open>p\<close> is in line \<open>p div bil\<close>.\<close>

definition active_bytes :: "nat \<Rightarrow> nat \<Rightarrow> nat \<Rightarrow> u8 list \<Rightarrow> u8 list" where
  "active_bytes rows bil linesize frame = map (\<lambda>p. frame ! (p div bil * linesize + p mod bil)) [0..<rows * bil]"

text \<open>The payload of a packet, behind its row headers.\<close>

definition pkt_data :: "rfc4175_pkt \<Rightarrow> u8 list" where
  "pkt_data pkt = (if vp_row_offset pkt AND ST20_SRD_OFFSET_CONTINUATION \<noteq> 0 then drop 6 (vp_body pkt) else vp_body pkt)"

lemma and_bit15: "(w :: u16) AND 0x8000 \<noteq> 0 \<longleftrightarrow> bit w 15"
  using and_exp_eq_0_iff_not_bit [of w 15] by simp

lemma bit15_8000 [simp]: "bit (0x8000 :: u16) 15"
  by simp

lemma frame_pkt_fields:
  assumes g: "tv_geometry s" and j: "j < tv_total_pkts s"
  shows "rfc4175_rtp_seq_id (frame_pkt s q j) = q + of_nat j" "vp_tmstamp (frame_pkt s q j) = tv_rtp_time_stamp s"
    "vp_marker (frame_pkt s q j) \<longleftrightarrow> j + 1 = tv_total_pkts s" "pkt_data (frame_pkt s q j) = pkt_payload s j"
    "vp_pkt_len (frame_pkt s q j) \<le> 1494 + 6"
proof -
  let ?s = "tx_progress s (tv_pkt_idx s) (q + of_nat j) (tv_build s) (tv_dummy s)"
  have fp: "frame_pkt s q j = plan_pkt ?s j" by (simp add: frame_pkt_def plan_pkt_progress)
  note fields = fp plan_pkt_def Let_def pkt_parts_cong
  show "rfc4175_rtp_seq_id (frame_pkt s q j) = q + of_nat j"
    unfolding fields rfc4175_rtp_seq_id_def by (simp add: seq_id_split)
  show "vp_tmstamp (frame_pkt s q j) = tv_rtp_time_stamp s" unfolding fields by (simp add: tx_progress_def)
  show "vp_marker (frame_pkt s q j) \<longleftrightarrow> j + 1 = tv_total_pkts s" unfolding fields using j by auto
  have pix: "pkt_col s j div pg_size (tv_pg s) * pg_coverage (tv_pg s) < 2 ^ 15"
    using col_pixel(2) [OF g j] geometryD(6) [OF g] by simp
  have pgs: "tv_pg ?s = tv_pg s" by (simp add: tx_progress_def)
  show "pkt_data (frame_pkt s q j) = pkt_payload s j"
    unfolding pkt_data_def and_bit15 fields pgs using of_nat_bit_out [OF pix] by (simp add: bit_or_iff del: of_nat_mult)
  show "vp_pkt_len (frame_pkt s q j) \<le> 1494 + 6"
    unfolding fields using pkt_bounds(1) [OF g j] geometryD(16) [OF g] by simp
qed

text \<open>
  C1. A video frame goes out whole, once and in order. A session that attached with sensible options and holds
  a frame needs \<open>total / bulk\<close> rounds of its tasklet, rounded up. No round reads outside the frame buffer, the last one
  fills up with dummies. With the copying builder, or the chained one with a pool that is not empty, they emit as many packets as the session announced: consecutive sequence
  numbers, the time stamp of the frame, the marker on the last packet alone, and payloads whose concatenation
  is the frame, line after line, without padding. Afterwards the session waits for the next frame.
\<close>

theorem video_frame_sent:
  assumes att: "tv_attach port_map rest suggest None ops s0 = Inr s1" and ok: "tx_video_ok suggest ops"
    and s: "s = s1\<lparr>tv_seq_id := q, tv_rtp_time_stamp := ts, tv_second_field := field, tv_frame_data := frame\<rparr>"
    and frame: "length frame = tv_fb_size s" and bulk: "0 < bulk"
    and pool: "no_chain \<or> (\<forall>j < tv_total_pkts s. \<not> dry j)"
  shows "\<exists>pkts s'. tv_build_bulks no_chain dry cross_page (ceil_div (tv_total_pkts s) bulk) bulk s = Some (pkts, s') \<and>
    length pkts = tv_total_pkts s \<and>
    (\<forall>j < tv_total_pkts s. rfc4175_rtp_seq_id (pkts ! j) = q + of_nat j \<and> vp_tmstamp (pkts ! j) = ts \<and>
       (vp_marker (pkts ! j) \<longleftrightarrow> j + 1 = tv_total_pkts s)) \<and>
    concat (map pkt_data pkts) = active_bytes (tv_rows s) (tv_bytes_in_line s) (tv_linesize s) frame \<and>
    tv_pkt_idx s' = 0 \<and> tv_waiting s' \<and> tv_seq_id s' = q + of_nat (tv_total_pkts s) \<and> tv_frames s' = tv_frames s + 1"
proof -
  have "tv_geometry s = tv_geometry s1" unfolding s tv_geometry_def block_packing_def tv_rows_def by simp
  then have g: "tv_geometry s" using tv_attach_geometry(1) [OF att ok] by simp
  have "tv_pkt_idx s1 = 0" by (rule tv_attach_cases [OF att]) simp
  then have start: "s = tx_progress s 0 (q + of_nat 0) (tv_build s) (tv_dummy s)" by (simp add: tx_progress_def s)
  have pos: "0 < tv_total_pkts s" using plan.start_total [OF g] plan.start_0 [OF g] geometryD(4,7,9) [OF g] by (cases "tv_total_pkts s") auto
  obtain m where m: "ceil_div (tv_total_pkts s) bulk = Suc m" using ceil_div_le [OF bulk, of "tv_total_pkts s"] pos
    by (cases "ceil_div (tv_total_pkts s) bulk") auto
  have "0 + m * bulk < tv_total_pkts s" "tv_total_pkts s \<le> 0 + Suc m * bulk"
    using ceil_div_le [OF bulk, of "tv_total_pkts s"] ceil_div_less [OF bulk, of "tv_total_pkts s"] unfolding m by simp_all
  from build_bulks_run [OF g _ pool this, of cross_page q "tv_build s" "tv_dummy s"] frame obtain s' where
    run: "tv_build_bulks no_chain dry cross_page (Suc m) bulk s = Some (map (frame_pkt s q) [0..<tv_total_pkts s], s')"
    and s': "tv_pkt_idx s' = 0" "tv_waiting s'" "tv_seq_id s' = q + of_nat (tv_total_pkts s)" "tv_frames s' = tv_frames s + 1"
    unfolding start [symmetric] by (auto simp: s)
  have "map pkt_data (map (frame_pkt s q) [0..<tv_total_pkts s]) = map (pkt_payload s) [0..<tv_total_pkts s]"
    using frame_pkt_fields(4) [OF g] by simp
  then have "concat (map pkt_data (map (frame_pkt s q) [0..<tv_total_pkts s])) = map (frame_byte s) [0..<pkt_start s (tv_total_pkts s)]"
    using concat_payloads [OF g order_refl] by (simp only:)
  moreover have "pkt_start s (tv_total_pkts s) = tv_rows s * tv_bytes_in_line s"
    using plan.start_total [OF g] geometryD(9) [OF g] by simp
  moreover have "frame_byte s = (\<lambda>p. frame ! (p div tv_bytes_in_line s * tv_linesize s + p mod tv_bytes_in_line s))"
    by (rule ext) (simp add: frame_byte_def s)
  ultimately have "concat (map pkt_data (map (frame_pkt s q) [0..<tv_total_pkts s])) =
      active_bytes (tv_rows s) (tv_bytes_in_line s) (tv_linesize s) frame"
    unfolding active_bytes_def by (simp only:)
  moreover have "tv_rtp_time_stamp s = ts" by (simp add: s)
  ultimately show ?thesis unfolding m using run s' frame_pkt_fields(1-3) [OF g] by (intro exI conjI) auto
qed

text \<open>Two bulks of four, with the sequence number wrapping around in between.\<close>

theorem video_frame_sent_witness:
  "\<exists>s1 s. tv_attach (Inr ()) (Inr ()) 1352 None wide_tx_ops blank_tx = Inr s1 \<and>
     s = s1\<lparr>tv_seq_id := 0xFFFFFFFE, tv_rtp_time_stamp := 90, tv_second_field := False, tv_frame_data := replicate 5400 7\<rparr> \<and>
     (\<exists>pkts s'. tv_build_bulks False (\<lambda>_. False) (\<lambda>off n. off = 0) 2 4 s = Some (pkts, s') \<and> length pkts = 5 \<and> rfc4175_rtp_seq_id (pkts ! 4) = 2 \<and>
       vp_marker (pkts ! 4) \<and> \<not> vp_marker (pkts ! 3) \<and> tv_waiting s')"
proof -
  obtain s1 where s1: "tv_attach (Inr ()) (Inr ()) 1352 None wide_tx_ops blank_tx = Inr s1" "tv_total_pkts s1 = 5" "tv_fb_size s1 = 5400"
    using wide_attach by blast
  define s where "s = s1\<lparr>tv_seq_id := 0xFFFFFFFE, tv_rtp_time_stamp := 90, tv_second_field := False, tv_frame_data := replicate 5400 7\<rparr>"
  have five: "tv_total_pkts s = 5" and two: "ceil_div 5 4 = 2" and len: "length (replicate 5400 (7 :: u8)) = tv_fb_size s"
    using s1 by (simp_all add: s_def ceil_div_def)
  obtain pkts s' where run: "tv_build_bulks False (\<lambda>_. False) (\<lambda>off n. off = 0) 2 4 s = Some (pkts, s')" "length pkts = 5" "tv_waiting s'"
    and pkt: "\<And>j. j < 5 \<Longrightarrow> rfc4175_rtp_seq_id (pkts ! j) = 0xFFFFFFFE + of_nat j \<and> (vp_marker (pkts ! j) \<longleftrightarrow> j + 1 = 5)"
    using video_frame_sent [OF s1(1) wide_ok s_def len, of 4 False "\<lambda>_. False" "\<lambda>off n. off = 0"] unfolding five two by auto
  have "rfc4175_rtp_seq_id (pkts ! 4) = 2" "vp_marker (pkts ! 4)" "\<not> vp_marker (pkts ! 3)"
    using pkt [of 4] pkt [of 3] by simp_all
  then show ?thesis using s1(1) s_def run by blast
qed

end
