(* ===== verification/Spec2Isabelle.thy ===== *)
theory Spec2Isabelle
  imports MTL_Prelude Bitmap U64_Fifo Ancillary Anc_Codec Media_Clock Pixel_Groups Convert_422 Convert_444
    Convert_Packed Convert_Audio Formats Format_Laws Field_Merge Rtcp_Common Rtcp_Tx Rtcp_Rx Rtcp_Loop
    Handle_Guard Frame_Pool St30p_Tx St30p_Tx_Laws St30p_Rx St30p_Rx_Laws
    Rx_Redundancy Rx_Audio Rx_Audio_Laws Rx_Audio_Run Rx_Audio_Chain Rx_Audio_Counters
    Video_Packet Tx_Video Tx_Video_Laws Tx_Video_Kinds Tx_Video_Frame
begin

text \<open>
  Media Transport Library: a verification development.

  The library (under \<^verbatim>\<open>src/lib\<close>, its interface under \<^verbatim>\<open>src/include\<close>) sends and receives video, audio and
  ancillary data in the formats of SMPTE ST 2110 over RTP. An application opens a session; a transmit
  session packetises frames and paces them by the PTP clock, a receive session puts the packets of a
  frame together again. The pipeline sessions on top exchange whole frames with the application and
  convert pixels between the wire formats and planar ones; RTCP asks for packets that were lost.

  \<^bold>\<open>Parts and theories.\<close>

  \<^item> \<open>MTL_Prelude\<close>: word types, the result type of fallible calls (\<open>error + 'a\<close>, with the C error codes as
    constructors), lemmas on words and lists.
  \<^item> \<open>Bitmap\<close>, \<open>U64_Fifo\<close> (\<^verbatim>\<open>mt_util.c\<close>): the packet bitmap; the ring of 64-bit items with the locale of its
    abstract queue, and the conversion context of DMA copies that uses two such rings. Lemmas: a run of
    ring operations refines a bounded queue; the bitmap records exactly the arrivals; copies complete in
    order and none is lost.
  \<^item> \<open>Ancillary\<close>, \<open>Anc_Codec\<close> (\<^verbatim>\<open>st_ancillary.c\<close>): 10-bit words packed into bytes, parity, checksum, the RFC 8331
    encoder and decoder on byte lists. Lemmas: parity and checksum against their definitions, the
    decoder inverts the encoder, the decoder never reads past the room it is given.
  \<^item> \<open>Media_Clock\<close> (\<^verbatim>\<open>st_fmt.c\<close>): conversions between TAI time, frame epochs and the RTP media clock in the
    64-bit arithmetic of the code. Lemmas: nearest values, bounds, round trips where no overflow occurs.
  \<^item> \<open>Pixel_Groups\<close>, \<open>Convert_422\<close>, \<open>Convert_444\<close>, \<open>Convert_Packed\<close>, \<open>Convert_Audio\<close> (\<^verbatim>\<open>st_convert.c\<close>, the bit
    fields of \<^verbatim>\<open>st20_api.h\<close> and \<^verbatim>\<open>st30_api.h\<close>): the scalar converters. A pixel group is a record of words as wide as
    its bit fields. \<open>Pixel_Groups\<close> holds the locale of a group codec (pack and unpack of one group) and
    proves once that loops over groups invert each other; each format interprets it.
  \<^item> \<open>Formats\<close>, \<open>Format_Laws\<close> (\<^verbatim>\<open>st_fmt.c\<close>): the tables of formats, frame rates, converters and pad
    intervals, with their lookups, names, sizes and plane layouts, and what holds of them.
  \<^item> \<open>Field_Merge\<close> (\<^verbatim>\<open>st_convert.c\<close>): merging and splitting interlaced fields on a memory of bytes.
  \<^item> \<open>Rtcp_Common\<close>, \<open>Rtcp_Tx\<close>, \<open>Rtcp_Rx\<close>, \<open>Rtcp_Loop\<close> (\<^verbatim>\<open>mt_rtcp.c\<close>, \<^verbatim>\<open>mt_rtcp.h\<close>): the transmitter's ring of sent packets
    and its parser of NACK packets from bytes, the receiver's window of arrivals and its NACK packets,
    and the composition: what the receiver misses and the transmitter still has is sent again.
    The packet buffers, the copy of a buffer and the burst to the queue are arguments.
  \<^item> \<open>Handle_Guard\<close> (\<^verbatim>\<open>mt_handle_guard.h\<close>): the gate of the public calls, as functions of one thread and as a
    step relation over any number of threads; \<open>guarded\<close> wraps the body of a call, and the locale
    \<open>session_guard\<close> says what that means for a session.
  \<^item> \<open>Frame_Pool\<close>: the scan of an array of frames by state, the counts of frames in a state, and the locale
    \<open>frame_pool\<close>, interpreted for both audio pipelines.
  \<^item> \<open>St30p_Tx\<close>, \<open>St30p_Tx_Laws\<close> (\<^verbatim>\<open>pipeline/st30_pipeline_tx.c\<close>): the audio transmit pipeline; order of
    transmission, accounting of frames and notifications over all histories of calls, blocking get.
  \<^item> \<open>St30p_Rx\<close>, \<open>St30p_Rx_Laws\<close> (\<^verbatim>\<open>pipeline/st30_pipeline_rx.c\<close>): the audio receive pipeline; order of delivery,
    accounting of buffers over all histories of calls.
  \<^item> \<open>Rx_Redundancy\<close>, \<open>Rx_Audio\<close> (\<^verbatim>\<open>st_rx_audio_session.c\<close>): the receive session below that pipeline. \<open>Rx_Redundancy\<close> is
    the head of a packet handler: checks of the header, counters per port, the filter of packets that came
    over the other port. \<open>Rx_Audio\<close> opens frames on the grid of their time stamps, stores payloads, closes
    and delivers frames, with the buffers as byte lists. \<open>Rx_Audio_Laws\<close> has the invariant of a session and a
    simulation of an abstract pool of buffers (\<open>pool_step\<close>); \<open>Rx_Audio_Run\<close> runs sessions over arbitrary
    bursts: no access outside a buffer, every byte of a delivered frame is the byte a packet carried for
    that instant or zero, and all packets of a frame in any order, doubled or over two ports, yield the
    frame. \<open>Rx_Audio_Chain\<close> composes session and pipeline: one owner per buffer, and the bytes the user
    reads stay those of its frame. \<open>Rx_Audio_Counters\<close> balances the loss counters against the sequence
    numbers.
  \<^item> \<open>Video_Packet\<close>, \<open>Tx_Video\<close> (\<^verbatim>\<open>st_tx_video_session.c\<close>, the headers of \<^verbatim>\<open>st20_api.h\<close>): packetising of video. \<open>tv_attach\<close> and
    \<open>tv_init_pkt\<close> compute the sizes and the table of packet kinds, \<open>tv_build_st20\<close> and \<open>tv_build_st20_chain\<close> make a packet
    from the frame buffer, \<open>tv_build_bulk\<close> is one round of the tasklet. In \<open>Tx_Video_Laws\<close> the locale \<open>packet_plan\<close>
    states how packets cut a frame into pieces; it is interpreted for packets that run over line ends, for
    packets that stop at them, and for the choice of a session. \<open>Tx_Video_Kinds\<close> compares the table of kinds with the
    packets that are built, \<open>Tx_Video_Frame\<close> shows that a frame goes out whole, once and in order.

  \<^bold>\<open>Conventions.\<close> A C struct is a record with the fields the modelled code uses, an enum a datatype. Integers
  keep their width where the code relies on it (\<open>u8\<close> to \<open>u64\<close> are words); indices into arrays that the
  code keeps in range are numbers. A pointer into a session's array is an index. A call that changes
  a session returns it. A negative return value is \<open>Inl\<close> of the error. Reads and writes beyond a
  buffer are \<open>None\<close> in the byte-level models. Clock readings, allocators, the transport below a pipeline
  session, DPDK and the steps of other threads during a wait are arguments of the definitions.

  \<^bold>\<open>Bounds and fuel.\<close> The loop of \<open>tx_st30p_next_frame\<close> ends after at most 80 drops, as in the code. The scan of
  the receive ring has one step per slot, after which the code is back at its start
  (\<open>rx_scan_spec\<close>). The scan for lost packets ends because the sequence number comes closer to its end. The search for
  the period of the packet kinds (\<open>line_period\<close>) ends because the multiple grows past the frame.
  Every other loop is structural.

  \<^bold>\<open>Not modelled.\<close> The device layer, PTP, DHCP, ARP, multicast and the scheduler (DPDK, kernel and
  floating point), the SIMD and DMA variants of the converters, logging and tracing. Of the transmit session
  for video, the pools, rings and pacing around the packets and the second port; the other transmit sessions, the
  receive sessions for video and ancillary data and the video, codec and ancillary pipelines. They would
  follow in this order: reassembly of video over \<open>Bitmap\<close> and \<open>Video_Packet\<close>, the ancillary session over
  \<open>Rx_Redundancy\<close>, the remaining pipelines over \<open>Frame_Pool\<close> and \<open>Handle_Guard\<close>, pacing over \<open>Media_Clock\<close>. The weak memory order of the atomics other than those of the handle gate is not
  modelled: the histories of the pipelines run one call at a time.
\<close>

section \<open>Properties that span components\<close>

text \<open>A session that is being destroyed, or a handle of another type.\<close>

definition closed_to :: "nat \<Rightarrow> nat handle \<Rightarrow> bool" where
  "closed_to want h \<longleftrightarrow> h_type h \<noteq> want \<or> lc_destroying h"



end
